(* ===== verification/Prelude.thy ===== *)
theory Prelude
  imports Complex_Main "HOL-Library.State_Monad" "HOL-Library.AList"
begin

text \<open>
  Shared vocabulary of the development: the named collections, the error values every
  layer returns, and generic facts about lists, rounding and the state monad.

  JavaScript and Lua errors are values. A rejected promise or a thrown exception is the
  left summand of \<open>js_error + 'a\<close>; the constructors are the error classes of
  \<^verbatim>\<open>src/utils/errors.ts\<close> and the plain \<open>Error\<close> of the standard library, each with its
  message.
\<close>

named_theorems script_defs
  \<open>definitions of the Lua scripts, unfolded when a script is run on the reference keyspace\<close>

named_theorems float_bounds
  \<open>monotonicity and sign facts of the rounded arithmetic\<close>

type_synonym key = string

lemma floor_le_of_le_of_int: "x \<le> of_int n \<Longrightarrow> \<lfloor>x\<rfloor> \<le> n"
  for x :: rat
  by (simp add: floor_le_iff)

lemma ceiling_nonneg_of_nonneg: "0 \<le> x \<Longrightarrow> 0 \<le> \<lceil>x\<rceil>"
  for x :: rat
  by (simp add: le_ceiling_iff)

lemma length_filter_Cons_le: "length (filter P (x # xs)) \<le> Suc (length (filter P xs))"
  by simp

lemma filter_filter_conj: "filter P (filter Q xs) = filter (\<lambda>x. P x \<and> Q x) xs"
  by (induction xs) auto

lemma find_map: "find P (map f xs) = map_option f (find (P \<circ> f) xs)"
  by (induction xs) auto

lemma find_hd_filter: "find P xs = (case filter P xs of [] \<Rightarrow> None | x # _ \<Rightarrow> Some x)"
  by (induction xs) auto

lemma find_splits: "find P xs = Some x \<Longrightarrow> \<exists>as bs. xs = as @ x # bs \<and> P x \<and> (\<forall>a \<in> set as. \<not> P a)"
proof (induction xs)
  case (Cons y ys)
  show ?case
  proof (cases "P y")
    case True
    then show ?thesis using Cons.prems by (intro exI[of _ "[]"] exI[of _ ys]) auto
  next
    case False
    then obtain as bs where "ys = as @ x # bs" "P x" "\<forall>a \<in> set as. \<not> P a" using Cons by auto
    then show ?thesis using False by (intro exI[of _ "y # as"] exI[of _ bs]) auto
  qed
qed simp

lemma set_update_subset: "set (AList.update k v al) \<subseteq> insert (k, v) (set al)"
  by (induction al) (auto split: if_splits)

lemma run_state_if [simp]:
  "run_state (if b then m else m') s = (if b then run_state m s else run_state m' s)"
  by simp

section \<open>Text\<close>

text \<open>Decimal text of whole numbers, as a template literal prints them.\<close>

fun string_of_nat :: "nat \<Rightarrow> string" where
  "string_of_nat n =
     (if n < 10 then [char_of (48 + n)] else string_of_nat (n div 10) @ [char_of (48 + n mod 10)])"

declare string_of_nat.simps [simp del]

definition string_of_int :: "int \<Rightarrow> string" where
  "string_of_int i = (if i < 0 then CHR ''-'' # string_of_nat (nat (- i)) else string_of_nat (nat i))"

definition digit_char :: "char \<Rightarrow> bool" where
  "digit_char c \<longleftrightarrow> 48 \<le> (of_char c :: nat) \<and> (of_char c :: nat) \<le> 57"

text \<open>\<^verbatim>\<open>String.prototype.startsWith\<close> and \<^verbatim>\<open>String.prototype.includes\<close>.\<close>

fun starts_with :: "string \<Rightarrow> string \<Rightarrow> bool" where
  "starts_with s [] = True"
| "starts_with [] (p # ps) = False"
| "starts_with (c # s) (p # ps) = (c = p \<and> starts_with s ps)"

fun str_includes :: "string \<Rightarrow> string \<Rightarrow> bool" where
  "str_includes [] p = (p = [])"
| "str_includes (c # s) p = (starts_with (c # s) p \<or> str_includes s p)"

lemma starts_with_iff: "starts_with s p \<longleftrightarrow> (\<exists>t. s = p @ t)"
  by (induction s p rule: starts_with.induct) auto

lemma starts_with_append [simp]: "starts_with (p @ t) p"
  by (simp add: starts_with_iff)

lemma includes_iff: "str_includes s p \<longleftrightarrow> (\<exists>a b. s = a @ p @ b)"
proof (induction s)
  case (Cons c s)
  have "(\<exists>a b. c # s = a @ p @ b) \<longleftrightarrow> (\<exists>b. c # s = p @ b) \<or> (\<exists>a b. s = a @ p @ b)"
    by (metis Cons_eq_append_conv append_Cons append_Nil)
  then show ?case by (simp add: Cons starts_with_iff)
qed simp

lemma includes_prefix: "starts_with s p \<Longrightarrow> str_includes s p"
  by (cases s) (auto simp: starts_with_iff)

lemma string_of_nat_digits: "\<forall>c \<in> set (string_of_nat n). digit_char c"
proof (induction n rule: string_of_nat.induct)
  case (1 n)
  have "digit_char (char_of (48 + d))" if "d < 10" for d :: nat
    using that by (simp add: digit_char_def)
  then show ?case using 1 by (auto simp: string_of_nat.simps[of n])
qed

lemma string_of_nat_not_Nil [simp]: "string_of_nat n \<noteq> []"
  by (subst string_of_nat.simps) simp

lemma char_of_digit_inj: "(m::nat) < 10 \<Longrightarrow> n < 10 \<Longrightarrow> char_of (48 + m) = (char_of (48 + n) :: char) \<Longrightarrow> m = n"
proof -
  assume m: "m < 10" and n: "n < 10" and eq: "char_of (48 + m) = (char_of (48 + n) :: char)"
  then have "of_char (char_of (48 + m) :: char) = (of_char (char_of (48 + n) :: char) :: nat)" by simp
  with m n show ?thesis by simp
qed

lemma string_of_nat_inj: "string_of_nat m = string_of_nat n \<Longrightarrow> m = n"
proof (induction m arbitrary: n rule: string_of_nat.induct)
  case (1 m)
  have short: "length (string_of_nat k) = 1 \<longleftrightarrow> k < 10" for k
    by (subst string_of_nat.simps) simp
  show ?case
  proof (cases "m < 10")
    case True
    then have "n < 10" using 1(2) short by metis
    then show ?thesis using True 1(2)
      by (simp add: string_of_nat.simps[of m] string_of_nat.simps[of n] char_of_digit_inj)
  next
    case False
    then have n: "\<not> n < 10" using 1(2) short by metis
    then have "string_of_nat (m div 10) = string_of_nat (n div 10)"
      and "char_of (48 + m mod 10) = (char_of (48 + n mod 10) :: char)"
      using False 1(2) by (simp_all add: string_of_nat.simps[of m] string_of_nat.simps[of n])
    then have "m div 10 = n div 10" "m mod 10 = n mod 10"
      using 1(1)[OF False] char_of_digit_inj[of "m mod 10" "n mod 10"] by auto
    then show ?thesis by (metis mult_div_mod_eq)
  qed
qed

end
