(* ===== verification/Floats.thy ===== *)
theory Floats
  imports Prelude
begin

text \<open>
  Numbers of the program. JavaScript and the Lua 5.1 of Redis have one number type, the
  IEEE binary64 double. A finite double is modelled by the rational it denotes, and every
  arithmetic operation is the exact operation followed by rounding to 53 significant bits,
  ties to even (\<open>dbl\<close>). Lua's \<open>tostring\<close> prints with the format \<open>%.14g\<close>: the text it
  leaves in Redis denotes the double rounded to 14 significant decimal digits
  (\<open>tostring\<close>). Both are instances of one function, \<open>rnd base digits\<close>.

  Not modelled: overflow to infinity, subnormals, signed zero and NaN. The quantities here
  lie between 1e-13 and 1e16.
\<close>

section \<open>Rounding to significant digits\<close>

definition round_even :: "rat \<Rightarrow> int" where
  "round_even x =
     (let f = \<lfloor>x\<rfloor>; d = x - of_int f in
      if d < 1/2 then f else if d > 1/2 then f + 1 else if even f then f else f + 1)"

text \<open>The greatest \<open>e\<close> with \<open>b ^ e \<le> n\<close>, for a positive integer and then for a positive rational.\<close>

function ilog :: "int \<Rightarrow> int \<Rightarrow> nat" where
  "ilog b n = (if 1 < b \<and> b \<le> n then Suc (ilog b (n div b)) else 0)"
  by pat_completeness auto
termination
  by (relation "measure (\<lambda>(b, n). nat n)") (auto simp: int_div_less_self)

declare ilog.simps [simp del]

definition exponent :: "nat \<Rightarrow> rat \<Rightarrow> int" where
  "exponent b x =
     (let (n, d) = quotient_of x;
          e = int (ilog (int b) n) - int (ilog (int b) d)
      in if of_nat b powi e \<le> x then e else e - 1)"

definition rnd :: "nat \<Rightarrow> nat \<Rightarrow> rat \<Rightarrow> rat" where
  "rnd b p x =
     (if x = 0 then 0
      else let q = of_nat b powi (exponent b \<bar>x\<bar> - int p + 1)
           in of_int (round_even (x / q)) * q)"

definition dbl :: "rat \<Rightarrow> rat" where "dbl x = rnd 2 53 x"

definition tostring :: "rat \<Rightarrow> rat" where "tostring x = rnd 10 14 x"

definition fadd :: "rat \<Rightarrow> rat \<Rightarrow> rat" where "fadd x y = dbl (x + y)"
definition fsub :: "rat \<Rightarrow> rat \<Rightarrow> rat" where "fsub x y = dbl (x - y)"
definition fmul :: "rat \<Rightarrow> rat \<Rightarrow> rat" where "fmul x y = dbl (x * y)"
definition fdiv :: "rat \<Rightarrow> rat \<Rightarrow> rat" where "fdiv x y = dbl (x / y)"

section \<open>Rounding to an integer\<close>

lemma round_even_of_int [simp]: "round_even (of_int n) = n"
  by (simp add: round_even_def)

lemma round_even_bounds: "of_int (round_even x) - 1/2 \<le> x \<and> x \<le> of_int (round_even x) + 1/2"
proof -
  have f: "of_int \<lfloor>x\<rfloor> \<le> x" "x < of_int \<lfloor>x\<rfloor> + 1" by linarith+
  show ?thesis
    unfolding round_even_def Let_def using f by auto linarith+
qed

lemma round_even_ge: "of_int n \<le> x \<Longrightarrow> n \<le> round_even x"
  unfolding round_even_def Let_def by (auto simp: le_floor_iff split: if_splits) linarith+

lemma round_even_le:
  assumes "x \<le> of_int n" shows "round_even x \<le> n"
proof (cases "x = of_int n")
  case False
  with assms have "\<lfloor>x\<rfloor> < n" by (simp add: floor_less_iff)
  then show ?thesis unfolding round_even_def Let_def by auto
qed simp

lemma round_even_mono:
  assumes "x \<le> y" shows "round_even x \<le> round_even y"
proof (cases "\<lfloor>x\<rfloor> = \<lfloor>y\<rfloor>")
  case True
  with assms show ?thesis unfolding round_even_def Let_def by auto
next
  case False
  with assms have less: "\<lfloor>x\<rfloor> + 1 \<le> \<lfloor>y\<rfloor>" using floor_mono[OF assms] by linarith
  have "round_even x \<le> \<lfloor>x\<rfloor> + 1" unfolding round_even_def Let_def by auto
  also have "\<dots> \<le> \<lfloor>y\<rfloor>" by (rule less)
  also have "\<dots> \<le> round_even y" unfolding round_even_def Let_def by auto
  finally show ?thesis .
qed

lemma round_even_minus: "round_even (- x) = - round_even x"
proof (cases "x = of_int \<lfloor>x\<rfloor>")
  case True
  then have "x = of_int \<lfloor>x\<rfloor>" .
  then obtain n where "x = of_int n" by blast
  then show ?thesis using round_even_of_int[of "- n"] by simp
next
  case False
  have c: "\<lfloor>- x\<rfloor> = - \<lfloor>x\<rfloor> - 1"
    using False by (simp add: floor_eq_iff) linarith
  have d: "- x - of_int (- \<lfloor>x\<rfloor> - 1) = 1 - (x - of_int \<lfloor>x\<rfloor>)" by simp
  show ?thesis unfolding round_even_def Let_def c d by auto
qed

section \<open>The exponent\<close>

lemma powi_less_cancel:
  fixes B :: rat
  assumes "1 < B" "B powi m < B powi n" shows "m < n"
proof (rule ccontr)
  assume "\<not> m < n"
  then have "B powi n \<le> B powi m" using assms(1) by (intro power_int_increasing) auto
  with assms(2) show False by simp
qed

lemma quotient_of_pos:
  assumes q: "quotient_of x = (n, d)" and x: "0 < x"
  shows "0 < n" "0 < d" "x = of_int n / of_int d"
proof -
  show d: "0 < d" by (rule quotient_of_denom_pos[OF q])
  show xq: "x = of_int n / of_int d" by (rule quotient_of_div[OF q])
  show "0 < n" using x d by (simp add: xq zero_less_divide_iff)
qed

lemma ilog_bounds:
  assumes "1 < b" "0 < n"
  shows "b ^ ilog b n \<le> n \<and> n < b ^ Suc (ilog b n)"
  using assms
proof (induction b n rule: ilog.induct)
  case (1 b n)
  show ?case
  proof (cases "b \<le> n")
    case True
    let ?l = "ilog b (n div b)"
    have "0 < n div b" using True 1 by (simp add: pos_imp_zdiv_pos_iff)
    then have IH: "b ^ ?l \<le> n div b" "n div b < b ^ Suc ?l" using 1 True by auto
    have split: "n = b * (n div b) + n mod b" by simp
    have mod: "0 \<le> n mod b" "n mod b < b" using 1 by auto
    have "b * b ^ ?l \<le> b * (n div b)" using IH(1) 1 by (intro mult_left_mono) auto
    moreover have "b * (n div b + 1) \<le> b * b ^ Suc ?l" using IH(2) 1 by (intro mult_left_mono) auto
    moreover have "b * (n div b + 1) = b * (n div b) + b" by (simp add: distrib_left)
    ultimately have "b * b ^ ?l \<le> n \<and> n < b * b ^ Suc ?l" using split mod by linarith
    moreover have "ilog b n = Suc ?l" using True 1 by (simp add: ilog.simps[of b n])
    ultimately show ?thesis by (simp only: power_Suc)
  next
    case False
    then show ?thesis using 1 by (simp add: ilog.simps[of b n])
  qed
qed

lemma ilog_rat_bounds:
  assumes "1 < b" "0 < n"
  shows "(of_nat b :: rat) powi int (ilog (int b) n) \<le> of_int n"
    and "of_int n < (of_nat b :: rat) powi (int (ilog (int b) n) + 1)"
proof -
  let ?l = "ilog (int b) n"
  have "int b ^ ?l \<le> n" "n < int b ^ Suc ?l" using ilog_bounds[of "int b" n] assms by auto
  then have "of_int (int b ^ ?l) \<le> (of_int n :: rat)" "(of_int n :: rat) < of_int (int b ^ Suc ?l)"
    by (simp_all only: of_int_le_iff of_int_less_iff)
  moreover have "int ?l + 1 = int (Suc ?l)" by simp
  ultimately show "(of_nat b :: rat) powi int ?l \<le> of_int n"
    "of_int n < (of_nat b :: rat) powi (int ?l + 1)"
    by (simp_all only: power_int_of_nat of_int_power of_int_of_nat_eq)
qed

lemma exponent_bounds:
  assumes x: "0 < x" and b: "1 < b"
  shows "(of_nat b :: rat) powi exponent b x \<le> x"
    and "x < (of_nat b :: rat) powi (exponent b x + 1)"
proof -
  let ?B = "of_nat b :: rat"
  obtain n d where q: "quotient_of x = (n, d)" by fastforce
  note nd = quotient_of_pos[OF q x]
  let ?ln = "int (ilog (int b) n)" and ?ld = "int (ilog (int b) d)"
  note ln = ilog_rat_bounds[OF b nd(1)] and ld = ilog_rat_bounds[OF b nd(2)]
  have B: "0 < ?B" "?B \<noteq> 0" using b by auto
  have xd: "x * of_int d = of_int n" using nd by simp
  have up: "x < ?B powi (?ln - ?ld + 1)"
  proof -
    have "x * ?B powi ?ld \<le> x * of_int d" using ld(1) x by (intro mult_left_mono) auto
    also have "\<dots> < ?B powi (?ln + 1)" unfolding xd by (rule ln(2))
    finally have "x < ?B powi (?ln + 1) / ?B powi ?ld" using B by (simp add: pos_less_divide_eq)
    then have "x < ?B powi ((?ln + 1) - ?ld)" using B power_int_diff[of ?B "?ln + 1" ?ld] by simp
    then show ?thesis by (simp add: algebra_simps)
  qed
  have low: "?B powi (?ln - ?ld - 1) \<le> x"
  proof -
    have "?B powi ?ln \<le> x * of_int d" unfolding xd by (rule ln(1))
    also have "\<dots> \<le> x * ?B powi (?ld + 1)" using ld(2) x by (intro mult_left_mono) auto
    finally have "?B powi ?ln / ?B powi (?ld + 1) \<le> x" using B by (simp add: pos_divide_le_eq)
    then have "?B powi (?ln - (?ld + 1)) \<le> x" using B power_int_diff[of ?B ?ln "?ld + 1"] by simp
    then show ?thesis by (simp add: algebra_simps)
  qed
  have e: "exponent b x = (if ?B powi (?ln - ?ld) \<le> x then ?ln - ?ld else ?ln - ?ld - 1)"
    unfolding exponent_def q Let_def by simp
  show "?B powi exponent b x \<le> x" unfolding e using low by simp
  show "x < ?B powi (exponent b x + 1)" unfolding e using up by simp
qed

lemma exponent_eqI:
  assumes b: "1 < b" and x: "(of_nat b :: rat) powi e \<le> x" "x < of_nat b powi (e + 1)"
  shows "exponent b x = e"
proof -
  let ?B = "of_nat b :: rat"
  have B: "1 < ?B" using b by simp
  have pos: "0 < x" using x(1) B by (rule_tac less_le_trans[OF _ x(1)]) simp
  note eb = exponent_bounds[OF pos b]
  have "exponent b x < e + 1" by (rule powi_less_cancel[OF B le_less_trans[OF eb(1) x(2)]])
  moreover have "e < exponent b x + 1" by (rule powi_less_cancel[OF B le_less_trans[OF x(1) eb(2)]])
  ultimately show ?thesis by simp
qed

lemma exponent_mono:
  assumes "0 < x" "x \<le> y" "1 < b" shows "exponent b x \<le> exponent b y"
proof -
  have y: "0 < y" using assms by simp
  have "(of_nat b :: rat) powi exponent b x < of_nat b powi (exponent b y + 1)"
    using exponent_bounds(1)[OF assms(1,3)] assms(2) exponent_bounds(2)[OF y assms(3)] by linarith
  then have "exponent b x < exponent b y + 1"
    by (rule powi_less_cancel[rotated]) (use assms(3) in simp)
  then show ?thesis by simp
qed

section \<open>Facts of the rounding function\<close>

lemma rnd_0 [simp]: "rnd b p 0 = 0"
  by (simp add: rnd_def)

lemma rnd_minus [simp]: "rnd b p (- x) = - rnd b p x"
  by (simp add: rnd_def Let_def round_even_minus)

lemma rnd_pos_eq:
  "0 < x \<Longrightarrow> rnd b p x = of_int (round_even (x / of_nat b powi (exponent b x - int p + 1)))
     * of_nat b powi (exponent b x - int p + 1)"
  by (simp add: rnd_def Let_def)

text \<open>The result stays between the two powers of the base around the argument.\<close>

lemma rnd_pos_between:
  assumes x: "0 < x" and b: "1 < b" and p: "0 < p"
  shows "(of_nat b :: rat) powi exponent b x \<le> rnd b p x"
    and "rnd b p x \<le> of_nat b powi (exponent b x + 1)"
proof -
  let ?B = "of_nat b :: rat" and ?e = "exponent b x"
  let ?q = "?B powi (?e - int p + 1)"
  have B: "?B \<noteq> 0" and q: "0 < ?q" using b by auto
  have split1: "?B powi ?e = of_int (int b ^ (p - 1)) * ?q"
    using B p by (simp flip: power_int_of_nat power_int_add add: of_nat_diff)
  have split2: "?B powi (?e + 1) = of_int (int b ^ p) * ?q"
    using B by (simp flip: power_int_of_nat power_int_add)
  have "of_int (int b ^ (p - 1)) \<le> x / ?q"
    using exponent_bounds(1)[OF x b] q unfolding split1 by (simp add: pos_le_divide_eq)
  then have "int b ^ (p - 1) \<le> round_even (x / ?q)" by (rule round_even_ge)
  then have "of_int (int b ^ (p - 1)) * ?q \<le> of_int (round_even (x / ?q)) * ?q"
    using q by (intro mult_right_mono) (auto simp only: of_int_le_iff)
  then show "?B powi ?e \<le> rnd b p x" unfolding rnd_pos_eq[OF x] split1 .
  have "x / ?q \<le> of_int (int b ^ p)"
    using exponent_bounds(2)[OF x b] q unfolding split2 by (simp add: pos_divide_le_eq)
  then have "round_even (x / ?q) \<le> int b ^ p" by (rule round_even_le)
  then have "of_int (round_even (x / ?q)) * ?q \<le> of_int (int b ^ p) * ?q"
    using q by (intro mult_right_mono) (auto simp only: of_int_le_iff)
  then show "rnd b p x \<le> ?B powi (?e + 1)" unfolding rnd_pos_eq[OF x] split2 .
qed

lemma rnd_pos: "0 < x \<Longrightarrow> 1 < b \<Longrightarrow> 0 < p \<Longrightarrow> 0 < rnd b p x"
  by (rule less_le_trans[OF _ rnd_pos_between(1)]) auto

lemma rnd_mono_pos:
  assumes x: "0 < x" "x \<le> y" and b: "1 < b" and p: "0 < p"
  shows "rnd b p x \<le> rnd b p y"
proof (cases "exponent b x = exponent b y")
  case True
  have y: "0 < y" using x by simp
  let ?q = "(of_nat b :: rat) powi (exponent b y - int p + 1)"
  have "0 < ?q" using b by simp
  then show ?thesis
    unfolding rnd_pos_eq[OF x(1)] rnd_pos_eq[OF y] True using x
    by (intro mult_right_mono) (auto intro!: round_even_mono divide_right_mono)
next
  case False
  have y: "0 < y" using x by simp
  have "exponent b x + 1 \<le> exponent b y" using False exponent_mono[OF x b] by simp
  then have "(of_nat b :: rat) powi (exponent b x + 1) \<le> of_nat b powi exponent b y"
    using b by (intro power_int_increasing) auto
  then show ?thesis
    using rnd_pos_between(2)[OF x(1) b p] rnd_pos_between(1)[OF y b p] by linarith
qed

lemma rnd_mono:
  assumes le: "x \<le> y" and b: "1 < b" and p: "0 < p"
  shows "rnd b p x \<le> rnd b p y"
proof -
  have pos: "0 \<le> rnd b p z" if "0 \<le> z" for z
    using that rnd_pos[OF _ b p, of z] by (cases "z = 0") (auto intro: less_imp_le)
  consider "0 < x" | "y < 0" | "x \<le> 0" "0 \<le> y" by linarith
  then show ?thesis
  proof cases
    case 1 then show ?thesis using rnd_mono_pos[OF _ le b p] by blast
  next
    case 2
    then have "rnd b p (- y) \<le> rnd b p (- x)" using le by (intro rnd_mono_pos b p) auto
    then show ?thesis by simp
  next
    case 3
    then show ?thesis using pos[of "- x"] pos[of y] by simp
  qed
qed

text \<open>Half a unit in the last place, relative to the argument.\<close>

lemma abs_diff_scale: "0 < q \<Longrightarrow> \<bar>a - x / q\<bar> * q = \<bar>a * q - x\<bar>"
  for q :: rat
proof -
  assume q: "0 < q"
  then have "\<bar>a - x / q\<bar> * q = \<bar>(a - x / q) * q\<bar>" by (simp add: abs_mult)
  also have "(a - x / q) * q = a * q - x" using q by (simp add: left_diff_distrib)
  finally show ?thesis .
qed

lemma rnd_relerr_pos:
  assumes x: "0 < x" and b: "1 < b"
  shows "\<bar>rnd b p x - x\<bar> \<le> x * (of_nat b powi (1 - int p) / 2)"
proof -
  let ?B = "of_nat b :: rat" and ?e = "exponent b x"
  let ?q = "?B powi (?e - int p + 1)"
  have B: "?B \<noteq> 0" and q: "0 < ?q" using b by auto
  have "\<bar>of_int (round_even (x / ?q)) - x / ?q\<bar> \<le> 1/2"
    using round_even_bounds[of "x / ?q"] by linarith
  then have "\<bar>of_int (round_even (x / ?q)) - x / ?q\<bar> * ?q \<le> 1/2 * ?q"
    using q by (intro mult_right_mono) auto
  moreover have "\<bar>of_int (round_even (x / ?q)) - x / ?q\<bar> * ?q = \<bar>rnd b p x - x\<bar>"
    unfolding rnd_pos_eq[OF x] by (rule abs_diff_scale[OF q])
  moreover have "?q = ?B powi ?e * ?B powi (1 - int p)"
    using B by (simp flip: power_int_add add: algebra_simps)
  moreover have "?B powi ?e * ?B powi (1 - int p) \<le> x * ?B powi (1 - int p)"
    using exponent_bounds(1)[OF x b] b by (intro mult_right_mono) auto
  ultimately show ?thesis by simp
qed

lemma rnd_relerr:
  assumes b: "1 < b"
  shows "\<bar>rnd b p x - x\<bar> \<le> \<bar>x\<bar> * (of_nat b powi (1 - int p) / 2)"
proof -
  consider "0 < x" | "x = 0" | "0 < - x" by linarith
  then show ?thesis
  proof cases
    case 1 then show ?thesis using rnd_relerr_pos[OF 1 b, of p] by simp
  next
    case 3 then show ?thesis using rnd_relerr_pos[OF 3 b, of p] by simp
  qed simp
qed

text \<open>Whole numbers with at most \<open>p\<close> digits are not changed.\<close>

lemma rnd_of_int_pos:
  assumes n: "0 < n" "n \<le> int b ^ p" and b: "1 < b" and p: "0 < p"
  shows "rnd b p (of_int n) = of_int n"
proof -
  let ?B = "of_nat b :: rat" and ?x = "of_int n :: rat"
  let ?e = "exponent b ?x"
  let ?q = "?B powi (?e - int p + 1)"
  have B: "1 < ?B" "?B \<noteq> 0" and q: "0 < ?q" and x: "0 < ?x" using b n by auto
  have "?x \<le> of_int (int b ^ p)" using n(2) by (simp only: of_int_le_iff)
  then have np: "?x \<le> ?B powi int p" by simp
  have "\<exists>m. ?x / ?q = of_int m"
  proof (cases "?e < int p")
    case True
    define k where "k = nat (int p - 1 - ?e)"
    have "?e - int p + 1 = - int k" using True by (simp add: k_def)
    then have "?q = inverse (?B ^ k)" by (simp only: power_int_minus power_int_of_nat)
    then have "?x / ?q = of_int (n * int b ^ k)" by (simp add: divide_inverse)
    then show ?thesis by blast
  next
    case False
    have "?B powi ?e \<le> ?B powi int p" using exponent_bounds(1)[OF x b] np by linarith
    also have "\<dots> < ?B powi (int p + 1)" using B by (intro power_int_strict_increasing) auto
    finally have "?e < int p + 1" by (rule powi_less_cancel[OF B(1)])
    then have e: "?e = int p" using False by simp
    then have "?x = ?B ^ p" using exponent_bounds(1)[OF x b] np by simp
    also have "\<dots> = ?B ^ (p - 1) * ?B" by (rule power_minus_mult[symmetric, OF p])
    finally have xb: "?x = ?B ^ (p - 1) * ?B" .
    have "?q = ?B" unfolding e by simp
    then have "?x / ?q = ?B ^ (p - 1)"
      unfolding xb using B(2) by (metis nonzero_mult_div_cancel_right xb)
    then have "?x / ?q = of_int (int b ^ (p - 1))" by simp
    then show ?thesis by blast
  qed
  then obtain m where m: "?x / ?q = of_int m" by blast
  then have "?x = of_int m * ?q" using q by (metis nonzero_eq_divide_eq order_less_irrefl)
  then show ?thesis unfolding rnd_pos_eq[OF x] m by simp
qed

lemma rnd_of_int:
  assumes n: "\<bar>n\<bar> \<le> int b ^ p" and b: "1 < b" and p: "0 < p"
  shows "rnd b p (of_int n) = of_int n"
proof -
  consider "0 < n" | "n = 0" | "0 < - n" by linarith
  then show ?thesis
  proof cases
    case 1 then show ?thesis using rnd_of_int_pos[OF 1 _ b p] n by simp
  next
    case 3 then show ?thesis using rnd_of_int_pos[OF 3 _ b p] n by simp
  qed simp
qed

text \<open>Scaling by a power of the base commutes with rounding, so rounding is idempotent.\<close>

lemma exponent_scale:
  assumes "0 < x" "1 < b"
  shows "exponent b (x * of_nat b powi k) = exponent b x + k"
proof -
  have B: "(of_nat b :: rat) \<noteq> 0" "0 < (of_nat b :: rat) powi k" using assms by auto
  have low: "(of_nat b :: rat) powi (exponent b x + k) \<le> x * of_nat b powi k"
    using exponent_bounds(1)[OF assms] B by (simp add: power_int_add)
  have "x * of_nat b powi k < (of_nat b :: rat) powi (exponent b x + 1) * of_nat b powi k"
    using exponent_bounds(2)[OF assms] B by (intro mult_strict_right_mono) auto
  also have "\<dots> = (of_nat b :: rat) powi ((exponent b x + k) + 1)"
    using B by (simp flip: power_int_add add: algebra_simps)
  finally show ?thesis by (rule exponent_eqI[OF assms(2) low])
qed

lemma rnd_scale_pos:
  assumes x: "0 < x" and b: "1 < b"
  shows "rnd b p (x * of_nat b powi k) = rnd b p x * of_nat b powi k"
proof -
  let ?B = "of_nat b :: rat" and ?f = "exponent b x - int p + 1"
  have B: "?B \<noteq> 0" and y: "0 < x * ?B powi k" using x b by auto
  have q: "?B powi (exponent b (x * ?B powi k) - int p + 1) = ?B powi ?f * ?B powi k"
    using B by (simp add: exponent_scale[OF x b] algebra_simps flip: power_int_add)
  have "x * ?B powi k / (?B powi ?f * ?B powi k) = x / ?B powi ?f" using B by simp
  then show ?thesis unfolding rnd_pos_eq[OF x] rnd_pos_eq[OF y] q by simp
qed

lemma rnd_idem_pos:
  assumes x: "0 < x" and b: "1 < b" and p: "0 < p"
  shows "rnd b p (rnd b p x) = rnd b p x"
proof -
  let ?B = "of_nat b :: rat" and ?e = "exponent b x"
  let ?f = "?e - int p + 1"
  define m where "m = round_even (x / ?B powi ?f)"
  have B: "?B \<noteq> 0" and q: "0 < ?B powi ?f" using b by auto
  have r: "rnd b p x = of_int m * ?B powi ?f" by (simp add: rnd_pos_eq[OF x] m_def)
  have m0: "0 < m" using rnd_pos[OF x b p] q by (simp add: r zero_less_mult_iff)
  have "?B powi (?e + 1) = ?B powi int p * ?B powi ?f"
    using B power_int_add[of ?B "int p" ?f] by simp
  then have "of_int m * ?B powi ?f \<le> ?B powi int p * ?B powi ?f"
    using rnd_pos_between(2)[OF x b p] unfolding r by simp
  then have "of_int m \<le> ?B powi int p" using q by (rule mult_right_le_imp_le)
  then have "(of_int m :: rat) \<le> of_int (int b ^ p)" by simp
  then have "m \<le> int b ^ p" by (simp only: of_int_le_iff)
  then have "rnd b p (of_int m) = of_int m" by (rule rnd_of_int_pos[OF m0 _ b p])
  then show ?thesis unfolding r using rnd_scale_pos[of "of_int m" b p ?f] m0 b by simp
qed

lemma rnd_idem:
  assumes b: "1 < b" and p: "0 < p"
  shows "rnd b p (rnd b p x) = rnd b p x"
proof -
  consider "0 < x" | "x = 0" | "0 < - x" by linarith
  then show ?thesis
  proof cases
    case 1 then show ?thesis by (rule rnd_idem_pos[OF _ b p])
  next
    case 3 then show ?thesis using rnd_idem_pos[OF 3 b p] by simp
  qed simp
qed

section \<open>Doubles and printed numbers\<close>

lemma dbl_0 [simp]: "dbl 0 = 0" and tostring_0 [simp]: "tostring 0 = 0"
  by (simp_all add: dbl_def tostring_def)

lemma dbl_mono [float_bounds]: "x \<le> y \<Longrightarrow> dbl x \<le> dbl y"
  unfolding dbl_def by (rule rnd_mono) auto

lemma tostring_mono [float_bounds]: "x \<le> y \<Longrightarrow> tostring x \<le> tostring y"
  unfolding tostring_def by (rule rnd_mono) auto

lemma dbl_of_int [simp]: "\<bar>n\<bar> \<le> 2 ^ 53 \<Longrightarrow> dbl (of_int n) = of_int n"
  unfolding dbl_def by (rule rnd_of_int) auto

lemma tostring_of_int [simp]: "\<bar>n\<bar> \<le> 10 ^ 14 \<Longrightarrow> tostring (of_int n) = of_int n"
  unfolding tostring_def by (rule rnd_of_int) auto

lemma dbl_numeral [simp]: "dbl 1 = 1" "(numeral n :: int) \<le> 2 ^ 53 \<Longrightarrow> dbl (numeral n) = numeral n"
  using dbl_of_int[of 1] dbl_of_int[of "numeral n"] by simp_all

lemma tostring_numeral [simp]:
  "tostring 1 = 1" "(numeral n :: int) \<le> 10 ^ 14 \<Longrightarrow> tostring (numeral n) = numeral n"
  using tostring_of_int[of 1] tostring_of_int[of "numeral n"] by simp_all

lemma dbl_idem [simp]: "dbl (dbl x) = dbl x"
  unfolding dbl_def by (rule rnd_idem) auto

lemma dbl_fadd [simp]: "dbl (fadd x y) = fadd x y" and dbl_fsub [simp]: "dbl (fsub x y) = fsub x y"
  by (simp_all add: fadd_def fsub_def)

lemma dbl_nonneg [float_bounds]: "0 \<le> x \<Longrightarrow> 0 \<le> dbl x"
  using dbl_mono[of 0 x] by simp

lemma tostring_nonneg [float_bounds]: "0 \<le> x \<Longrightarrow> 0 \<le> tostring x"
  using tostring_mono[of 0 x] by simp

lemma dbl_le_int: "x \<le> of_int n \<Longrightarrow> \<bar>n\<bar> \<le> 2 ^ 53 \<Longrightarrow> dbl x \<le> of_int n"
  using dbl_mono[of x "of_int n"] by simp

lemma int_le_dbl: "of_int n \<le> x \<Longrightarrow> \<bar>n\<bar> \<le> 2 ^ 53 \<Longrightarrow> of_int n \<le> dbl x"
  using dbl_mono[of "of_int n" x] by simp

lemma tostring_le_int: "x \<le> of_int n \<Longrightarrow> \<bar>n\<bar> \<le> 10 ^ 14 \<Longrightarrow> tostring x \<le> of_int n"
  using tostring_mono[of x "of_int n"] by simp

text \<open>The relative error of one operation and of one print.\<close>

abbreviation ulp53 :: rat where "ulp53 \<equiv> 1 / 2 ^ 53"
abbreviation ulp14 :: rat where "ulp14 \<equiv> 1 / (2 * 10 ^ 13)"

lemma dbl_relerr: "\<bar>dbl x - x\<bar> \<le> \<bar>x\<bar> * ulp53"
proof -
  have "((2::rat) powi - 52) / 2 = ulp53"
    by (simp add: power_int_minus power_int_numeral)
  then show ?thesis using rnd_relerr[of 2 53 x] by (simp add: dbl_def)
qed

lemma tostring_relerr: "\<bar>tostring x - x\<bar> \<le> \<bar>x\<bar> * ulp14"
proof -
  have "((10::rat) powi - 13) / 2 = ulp14"
    by (simp add: power_int_minus power_int_numeral)
  then show ?thesis using rnd_relerr[of 10 14 x] by (simp add: tostring_def)
qed

lemma dbl_le: "0 \<le> x \<Longrightarrow> dbl x \<le> x * (1 + ulp53)"
  using order_trans[OF abs_ge_self dbl_relerr[of x]] by (simp add: distrib_left)

lemma dbl_ge: "0 \<le> x \<Longrightarrow> x * (1 - ulp53) \<le> dbl x"
  using order_trans[OF abs_ge_minus_self dbl_relerr[of x]] by (simp add: right_diff_distrib)

lemma fdiv_ge: "0 \<le> x / y \<Longrightarrow> x / y * (1 - ulp53) \<le> fdiv x y"
  and fdiv_le: "0 \<le> x / y \<Longrightarrow> fdiv x y \<le> x / y * (1 + ulp53)"
  unfolding fdiv_def by (fact dbl_ge, fact dbl_le)

lemma tostring_ge: "0 \<le> x \<Longrightarrow> x * (1 - ulp14) \<le> tostring x"
  using order_trans[OF abs_ge_minus_self tostring_relerr[of x]] by (simp add: right_diff_distrib)

lemma tostring_le: "0 \<le> x \<Longrightarrow> tostring x \<le> x * (1 + ulp14)"
  using order_trans[OF abs_ge_self tostring_relerr[of x]] by (simp add: distrib_left)

lemma ulp53_cubed: "(1 + ulp53) ^ 3 \<le> 1 + 1 / 10 ^ 15"
  by (simp add: power3_eq_cube)

text \<open>Rounding by an absolute bound, for balances that may be negative, and under a cap.\<close>

lemma dbl_upto:
  assumes "\<bar>x\<bar> \<le> B" shows "dbl x \<le> x + B * ulp53"
proof -
  have "dbl x - x \<le> \<bar>x\<bar> * ulp53" by (rule order_trans[OF abs_ge_self dbl_relerr])
  moreover have "\<bar>x\<bar> * ulp53 \<le> B * ulp53" using assms by (intro mult_right_mono) auto
  ultimately show ?thesis by linarith
qed

lemma tostring_upto:
  assumes "\<bar>x\<bar> \<le> B" shows "tostring x \<le> x + B * ulp14"
proof -
  have "tostring x - x \<le> \<bar>x\<bar> * ulp14" by (rule order_trans[OF abs_ge_self tostring_relerr])
  moreover have "\<bar>x\<bar> * ulp14 \<le> B * ulp14" using assms by (intro mult_right_mono) auto
  ultimately show ?thesis by linarith
qed

lemma capped_le:
  assumes "0 \<le> c" "- c \<le> y" shows "min (dbl y) c \<le> y + 2 * c * ulp53"
proof (cases "y \<le> 2 * c")
  case True
  then have "dbl y \<le> y + 2 * c * ulp53" using assms by (intro dbl_upto) auto
  then show ?thesis by simp
next
  case False
  then have "c \<le> y" "0 \<le> 2 * c * ulp53" using assms by auto
  then show ?thesis by (simp add: min_def)
qed

lemma capped_ge:
  assumes "\<bar>m\<bar> \<le> 2 ^ 53" "0 \<le> m" "- of_int m \<le> y" shows "- of_int m \<le> min (dbl y) (of_int m)"
proof -
  have "of_int (- m) \<le> dbl y" using assms by (intro int_le_dbl) auto
  then show ?thesis using assms(2) by simp
qed

lemma fadd_of_int [simp]: "\<bar>m + n\<bar> \<le> 2 ^ 53 \<Longrightarrow> fadd (of_int m) (of_int n) = of_int (m + n)"
  unfolding fadd_def of_int_add[symmetric] by (rule dbl_of_int)

lemma fsub_of_int [simp]: "\<bar>m - n\<bar> \<le> 2 ^ 53 \<Longrightarrow> fsub (of_int m) (of_int n) = of_int (m - n)"
  unfolding fsub_def of_int_diff[symmetric] by (rule dbl_of_int)

lemma fmul_of_int [simp]: "\<bar>m * n\<bar> \<le> 2 ^ 53 \<Longrightarrow> fmul (of_int m) (of_int n) = of_int (m * n)"
  unfolding fmul_def of_int_mult[symmetric] by (rule dbl_of_int)

lemma fdiv_nonneg [float_bounds]: "0 \<le> x \<Longrightarrow> 0 \<le> y \<Longrightarrow> 0 \<le> fdiv x y"
  and fmul_nonneg [float_bounds]: "0 \<le> x \<Longrightarrow> 0 \<le> y \<Longrightarrow> 0 \<le> fmul x y"
  and fadd_nonneg [float_bounds]: "0 \<le> x \<Longrightarrow> 0 \<le> y \<Longrightarrow> 0 \<le> fadd x y"
  and fsub_nonneg [float_bounds]: "y \<le> x \<Longrightarrow> 0 \<le> fsub x y"
  by (auto simp: fdiv_def fmul_def fadd_def fsub_def intro!: dbl_nonneg)

text \<open>
  A quotient of whole numbers below \<open>2 ^ 52\<close>, rounded to a double, still has the floor of
  the exact quotient: \<^verbatim>\<open>Math.floor(a / b)\<close> is integer division.
\<close>

lemma floor_fdiv_of_int:
  assumes a: "0 \<le> a" "a \<le> 2 ^ 52" and b: "0 < b"
  shows "\<lfloor>fdiv (of_int a) (of_int b)\<rfloor> = a div b"
proof (rule floor_unique)
  let ?x = "of_int a / of_int b :: rat" and ?q = "a div b"
  have x0: "0 \<le> ?x" and bq: "0 < (of_int b :: rat)" using a b by auto
  have split: "a = ?q * b + a mod b" by simp
  have "?q * b \<le> a" using split pos_mod_sign[OF b, of a] by linarith
  then have "of_int ?q * of_int b \<le> (of_int a :: rat)" by (simp flip: of_int_mult)
  then have low: "of_int ?q \<le> ?x" using bq by (simp add: pos_le_divide_eq)
  have q0: "0 \<le> ?q" using a b by (simp add: pos_imp_zdiv_nonneg_iff)
  have "?q \<le> a" using \<open>?q * b \<le> a\<close> q0 b mult_left_mono[of 1 b ?q] by simp
  then have "\<bar>?q\<bar> \<le> 2 ^ 53" using a q0 by simp
  then show "of_int ?q \<le> fdiv (of_int a) (of_int b)" unfolding fdiv_def by (rule int_le_dbl[OF low])
  have "(?q + 1) * b = ?q * b + b" by (simp add: distrib_right)
  then have "a < (?q + 1) * b" using split pos_mod_bound[OF b, of a] by linarith
  then have "of_int (a + 1) \<le> (of_int ((?q + 1) * b) :: rat)" by (simp only: of_int_le_iff)
  moreover have "of_int a * ulp53 \<le> 1/2"
  proof -
    have "(of_int a :: rat) \<le> of_int (2 ^ 52)" using a(2) by (simp only: of_int_le_iff)
    then show ?thesis by simp
  qed
  ultimately have "of_int a * (1 + ulp53) < (of_int ?q + 1) * of_int b" by (simp add: distrib_left)
  then have "?x * (1 + ulp53) < of_int ?q + 1" using bq by (simp add: pos_divide_less_eq)
  then show "fdiv (of_int a) (of_int b) < of_int ?q + 1"
    unfolding fdiv_def using dbl_le[OF x0] by linarith
qed

section \<open>Accrual of a budget\<close>

text \<open>
  The refill every budget of the program uses: the balance grows by
  \<open>rate\<close> per second since the last write, a clock that stepped back counting as no time,
  and never passes the capacity (\<^verbatim>\<open>src/scripts/lua-scripts.ts\<close>, lines 52 and 53, and the
  local functions \<^verbatim>\<open>refill\<close> and \<^verbatim>\<open>current_balance\<close> of the admission scripts).
\<close>

definition elapsed_s :: "int \<Rightarrow> rat \<Rightarrow> rat" where
  "elapsed_s now since = fdiv (max 0 (fsub (of_int now) since)) 1000"

definition accrue :: "rat \<Rightarrow> rat \<Rightarrow> int \<Rightarrow> rat \<Rightarrow> rat \<Rightarrow> rat" where
  "accrue bal since now rate capacity =
     min (fadd bal (fmul (elapsed_s now since) rate)) capacity"

lemma elapsed_s_nonneg [float_bounds]: "0 \<le> elapsed_s now since"
  by (simp add: elapsed_s_def fdiv_nonneg)

lemma elapsed_s_same [simp]: "elapsed_s now (of_int now) = 0"
  by (simp add: elapsed_s_def fsub_def fdiv_def)

lemma elapsed_s_mono: "now \<le> now' \<Longrightarrow> elapsed_s now since \<le> elapsed_s now' since"
  unfolding elapsed_s_def fdiv_def fsub_def
  by (intro dbl_mono divide_right_mono max.mono) (auto intro!: dbl_mono)

lemma accrue_le_capacity [float_bounds]: "accrue bal since now rate capacity \<le> capacity"
  by (simp add: accrue_def)

lemma accrue_mono:
  assumes "bal \<le> bal'" "now \<le> now'" "0 \<le> rate" "capacity \<le> capacity'"
  shows "accrue bal since now rate capacity \<le> accrue bal' since now' rate capacity'"
proof -
  have "fmul (elapsed_s now since) rate \<le> fmul (elapsed_s now' since) rate"
    unfolding fmul_def
    by (intro dbl_mono mult_right_mono elapsed_s_mono assms)
  then show ?thesis
    unfolding accrue_def fadd_def by (intro min.mono dbl_mono add_mono assms)
qed

lemma accrue_ge_balance:
  assumes "dbl bal = bal" "bal \<le> capacity" "0 \<le> rate"
  shows "bal \<le> accrue bal since now rate capacity"
proof -
  have "dbl bal \<le> fadd bal (fmul (elapsed_s now since) rate)"
    unfolding fadd_def using assms(3) by (intro dbl_mono) (simp add: fmul_nonneg elapsed_s_nonneg)
  then show ?thesis using assms by (simp add: accrue_def)
qed

lemma accrue_same [simp]:
  "dbl bal = bal \<Longrightarrow> bal \<le> capacity \<Longrightarrow> accrue bal (of_int now) now rate capacity = bal"
  by (simp add: accrue_def fadd_def fmul_def min_def)

lemma accrue_nonneg [float_bounds]:
  "0 \<le> bal \<Longrightarrow> 0 \<le> rate \<Longrightarrow> 0 \<le> capacity \<Longrightarrow> 0 \<le> accrue bal since now rate capacity"
  by (simp add: accrue_def fadd_nonneg fmul_nonneg elapsed_s_nonneg)

lemmas float_eval = fadd_def fsub_def fmul_def fdiv_def elapsed_s_def accrue_def

text \<open>
  How far accrual can drift from the exact product of rate and time, and when it fills the
  bucket whatever it held.
\<close>

definition clock_ok :: "int \<Rightarrow> bool" where
  "clock_ok now \<longleftrightarrow> 0 \<le> now \<and> now \<le> 10 ^ 14"

lemma elapsed_s_between:
  assumes "clock_ok prev" "clock_ok now" "prev \<le> now"
  shows "elapsed_s now (of_int prev) = dbl (of_int (now - prev) / 1000)"
  using assms by (simp add: elapsed_s_def fdiv_def clock_ok_def fsub_of_int[of now prev, simplified])

lemma accrue_upper:
  assumes clk: "clock_ok prev" "clock_ok now" "prev \<le> now" and nn: "0 \<le> bal" "0 \<le> rate"
  shows "accrue bal (of_int prev) now rate capacity
           \<le> bal * (1 + ulp53) + rate * of_int (now - prev) / 1000 * (1 + ulp53) ^ 3"
proof -
  let ?t = "of_int (now - prev) / 1000 :: rat" and ?u = "1 + ulp53 :: rat"
  have t: "0 \<le> ?t" using clk by simp
  have e: "elapsed_s now (of_int prev) \<le> ?t * ?u" "0 \<le> elapsed_s now (of_int prev)"
    unfolding elapsed_s_between[OF clk] using dbl_le[OF t] dbl_nonneg[OF t] by auto
  have "fmul (elapsed_s now (of_int prev)) rate \<le> elapsed_s now (of_int prev) * rate * ?u"
    unfolding fmul_def using e(2) nn by (intro dbl_le) simp
  also have "\<dots> \<le> ?t * ?u * rate * ?u"
    using e(1) nn by (intro mult_right_mono) auto
  finally have m: "fmul (elapsed_s now (of_int prev)) rate \<le> ?t * ?u * rate * ?u" .
  have "accrue bal (of_int prev) now rate capacity
      \<le> fadd bal (fmul (elapsed_s now (of_int prev)) rate)"
    by (simp add: accrue_def)
  also have "\<dots> \<le> (bal + fmul (elapsed_s now (of_int prev)) rate) * ?u"
    unfolding fadd_def using e(2) nn by (intro dbl_le) (simp add: fmul_nonneg)
  also have "\<dots> \<le> (bal + ?t * ?u * rate * ?u) * ?u"
    using m by (intro mult_right_mono) auto
  also have "\<dots> = bal * ?u + rate * of_int (now - prev) / 1000 * ?u ^ 3"
    by (simp add: power3_eq_cube distrib_right)
  finally show ?thesis .
qed

lemma accrue_full:
  assumes clk: "clock_ok prev" "clock_ok now" "prev \<le> now" and bal: "0 \<le> bal"
    and cap: "\<bar>capacity\<bar> \<le> 2 ^ 53"
    and enough: "of_int capacity \<le> of_int (now - prev) / 1000 * (1 - ulp53) * rate * (1 - ulp53)"
    and rate: "0 \<le> rate"
  shows "accrue bal (of_int prev) now rate (of_int capacity) = of_int capacity"
proof -
  let ?t = "of_int (now - prev) / 1000 :: rat"
  have t: "0 \<le> ?t" using clk by simp
  have e: "?t * (1 - ulp53) \<le> elapsed_s now (of_int prev)" "0 \<le> elapsed_s now (of_int prev)"
    unfolding elapsed_s_between[OF clk] using dbl_ge[OF t] dbl_nonneg[OF t] by auto
  have "of_int capacity \<le> ?t * (1 - ulp53) * rate * (1 - ulp53)" by (rule enough)
  also have "\<dots> \<le> elapsed_s now (of_int prev) * rate * (1 - ulp53)"
    using e(1) rate by (intro mult_right_mono) auto
  also have "\<dots> \<le> fmul (elapsed_s now (of_int prev)) rate"
    unfolding fmul_def using e(2) rate by (intro dbl_ge) simp
  finally have "of_int capacity \<le> bal + fmul (elapsed_s now (of_int prev)) rate" using bal by simp
  then have "of_int capacity \<le> fadd bal (fmul (elapsed_s now (of_int prev)) rate)"
    unfolding fadd_def by (rule int_le_dbl[OF _ cap])
  then show ?thesis by (simp add: accrue_def)
qed

end
