(* ===== verification/Text_Numbers.thy ===== *)
theory Text_Numbers
  imports Floats
begin

text \<open>
  Numbers that the program reads from text, as JavaScript reads them: \<^verbatim>\<open>parseInt(s, 10)\<close>, which
  takes the digits a text begins with, and \<^verbatim>\<open>Number(s)\<close>, which takes all of it or nothing.
  \<open>None\<close> is \<^verbatim>\<open>NaN\<close>, or an infinity.
\<close>

section \<open>White space and splitting\<close>

definition js_space :: "char \<Rightarrow> bool" where
  "js_space c \<longleftrightarrow> (let n = of_char c :: nat in (9 \<le> n \<and> n \<le> 13) \<or> n = 32 \<or> n = 160)"

definition trim :: "string \<Rightarrow> string" where
  "trim s = rev (dropWhile js_space (rev (dropWhile js_space s)))"

fun split_at :: "char \<Rightarrow> string \<Rightarrow> string list" where
  "split_at sep [] = [[]]"
| "split_at sep (c # s) =
     (if c = sep then [] # split_at sep s
      else (case split_at sep s of [] \<Rightarrow> [[c]] | t # ts \<Rightarrow> (c # t) # ts))"

lemma split_at_not_Nil [simp]: "split_at sep s \<noteq> []"
  by (induction s) (auto split: list.split)

lemma split_at_plain: "sep \<notin> set s \<Longrightarrow> split_at sep s = [s]"
  by (induction s) auto

lemma split_at_append: "sep \<notin> set s \<Longrightarrow> split_at sep (s @ sep # t) = s # split_at sep t"
  by (induction s) auto

lemma trim_id: "s \<noteq> [] \<Longrightarrow> \<not> js_space (hd s) \<Longrightarrow> \<not> js_space (last s) \<Longrightarrow> trim s = s"
proof -
  assume s: "s \<noteq> []" "\<not> js_space (hd s)" "\<not> js_space (last s)"
  have "dropWhile js_space s = s" using s(1,2) by (cases s) auto
  moreover have "dropWhile js_space (rev s) = rev s" using s(1,3) by (cases s rule: rev_cases) auto
  ultimately show ?thesis by (simp add: trim_def)
qed

section \<open>Whole numbers\<close>

definition digits_number :: "string \<Rightarrow> int" where
  "digits_number ds = foldl (\<lambda>n c. 10 * n + (of_char c - 48)) 0 ds"

text \<open>\<open>parse_count\<close> is \<^verbatim>\<open>parseInt(s, 10)\<close> of a text that begins with its digits, \<open>parse_int\<close> of any text.\<close>

definition parse_count :: "string \<Rightarrow> int option" where
  "parse_count s = (let ds = takeWhile digit_char s in if ds = [] then None else Some (digits_number ds))"

definition parse_int :: "string \<Rightarrow> int option" where
  "parse_int s =
     (case dropWhile js_space s of
        [] \<Rightarrow> None
      | c # cs \<Rightarrow> if c = CHR ''-'' then map_option uminus (parse_count cs)
                 else if c = CHR ''+'' then parse_count cs else parse_count (c # cs))"

lemma digits_number_append: "digits_number (xs @ ys) = digits_number xs * 10 ^ length ys + digits_number ys"
proof (induction ys rule: rev_induct)
  case (snoc y ys)
  then show ?case by (simp add: digits_number_def algebra_simps)
qed (simp add: digits_number_def)

lemma digits_number_digit: "d < 10 \<Longrightarrow> digits_number [char_of (48 + d :: nat)] = int d"
proof -
  assume d: "d < 10"
  have "(of_char (char_of (48 + d) :: char) :: nat) = 48 + d" using d by simp
  then have "(of_char (char_of (48 + d) :: char) :: int) = 48 + int d"
    using of_nat_of_char[of "char_of (48 + d)", where 'a = int] by linarith
  then show ?thesis by (simp add: digits_number_def)
qed

lemma digits_number_of_nat: "digits_number (string_of_nat n) = int n"
proof (induction n rule: string_of_nat.induct)
  case (1 n)
  show ?case
  proof (cases "n < 10")
    case True
    then show ?thesis by (simp add: string_of_nat.simps[of n] digits_number_digit)
  next
    case False
    then show ?thesis using 1[OF False] mult_div_mod_eq[of 10 "int n"]
      by (simp add: string_of_nat.simps[of n] digits_number_append digits_number_digit zdiv_int zmod_int)
  qed
qed

lemma digit_not_space: "digit_char c \<Longrightarrow> \<not> js_space c"
  by (auto simp: digit_char_def js_space_def Let_def)

lemma string_of_nat_ends: "digit_char (hd (string_of_nat n))" "digit_char (last (string_of_nat n))"
  using string_of_nat_digits[of n] by simp_all

section \<open>Any number\<close>

definition hex_value :: "char \<Rightarrow> int option" where
  "hex_value c = (let n = of_char c :: int in
     if 48 \<le> n \<and> n \<le> 57 then Some (n - 48)
     else if 97 \<le> n \<and> n \<le> 102 then Some (n - 87)
     else if 65 \<le> n \<and> n \<le> 70 then Some (n - 55) else None)"

fun radix_value :: "int \<Rightarrow> int \<Rightarrow> string \<Rightarrow> int option" where
  "radix_value base acc [] = Some acc"
| "radix_value base acc (c # cs) =
     (case hex_value c of Some d \<Rightarrow> if d < base then radix_value base (base * acc + d) cs else None | None \<Rightarrow> None)"

text \<open>An exponent: nothing, or \<^verbatim>\<open>e\<close>, a sign and digits.\<close>

definition read_exponent :: "string \<Rightarrow> int option" where
  "read_exponent s =
     (case s of
        [] \<Rightarrow> Some 0
      | c # cs \<Rightarrow>
          if c \<noteq> CHR ''e'' \<and> c \<noteq> CHR ''E'' then None
          else (let (sign, ds) = (case cs of d # ds \<Rightarrow> if d = CHR ''-'' then (-1, ds) else if d = CHR ''+'' then (1, ds) else (1, cs)
                                  | [] \<Rightarrow> (1, []))
                in if ds \<noteq> [] \<and> list_all digit_char ds then Some (sign * digits_number ds) else None))"

definition read_decimal :: "string \<Rightarrow> rat option" where
  "read_decimal s =
     (let whole = takeWhile digit_char s; rest = dropWhile digit_char s;
          (fraction, tail) = (case rest of c # cs \<Rightarrow> if c = CHR ''.'' then (takeWhile digit_char cs, dropWhile digit_char cs) else ([], rest)
                              | [] \<Rightarrow> ([], []))
      in if whole = [] \<and> fraction = [] then None
         else map_option (\<lambda>e. dbl ((of_int (digits_number whole) + of_int (digits_number fraction) / 10 ^ length fraction) * 10 powi e))
                (read_exponent tail))"

definition to_number :: "string \<Rightarrow> rat option" where
  "to_number text =
     (let s = trim text in
      if s = [] then Some 0
      else (case s of
              z # x # ds \<Rightarrow>
                if z = CHR ''0'' \<and> x \<in> set ''xX'' \<and> ds \<noteq> [] then map_option (\<lambda>n. dbl (of_int n)) (radix_value 16 0 ds)
                else if z = CHR ''0'' \<and> x \<in> set ''oO'' \<and> ds \<noteq> [] then map_option (\<lambda>n. dbl (of_int n)) (radix_value 8 0 ds)
                else if z = CHR ''0'' \<and> x \<in> set ''bB'' \<and> ds \<noteq> [] then map_option (\<lambda>n. dbl (of_int n)) (radix_value 2 0 ds)
                else if z = CHR ''-'' then map_option uminus (read_decimal (x # ds))
                else if z = CHR ''+'' then read_decimal (x # ds)
                else read_decimal s
            | _ \<Rightarrow> read_decimal s))"

lemma digits_number_Nil [simp]: "digits_number [] = 0"
  by (simp add: digits_number_def)

lemma read_decimal_of_nat: "read_decimal (string_of_nat n) = Some (dbl (of_nat n))"
proof -
  have split: "takeWhile digit_char (string_of_nat n) = string_of_nat n" "dropWhile digit_char (string_of_nat n) = []"
    using string_of_nat_digits[of n] by (simp_all add: takeWhile_eq_all_conv)
  show ?thesis
    by (simp add: read_decimal_def Let_def split read_exponent_def digits_number_of_nat)
qed

lemma to_number_of_nat: "to_number (string_of_nat n) = Some (dbl (of_nat n))"
proof -
  have trim: "trim (string_of_nat n) = string_of_nat n"
    using string_of_nat_ends[of n] by (intro trim_id) (auto dest: digit_not_space)
  have digits: "\<forall>c \<in> set (string_of_nat n). digit_char c" by (rule string_of_nat_digits)
  have marks: "\<not> digit_char c" if "c \<in> set ''xXoObB-+''" for c
    using that by (auto simp: digit_char_def)
  show ?thesis
  proof (cases "string_of_nat n")
    case (Cons z zs)
    show ?thesis
    proof (cases zs)
      case Nil
      then show ?thesis using trim read_decimal_of_nat[of n] Cons by (simp add: to_number_def)
    next
      case (Cons x ds)
      then have "x \<notin> set ''xXoObB-+''" "z \<notin> set ''xXoObB-+''"
        using digits \<open>string_of_nat n = z # zs\<close> marks by auto
      then show ?thesis using trim read_decimal_of_nat[of n] Cons \<open>string_of_nat n = z # zs\<close>
        by (simp add: to_number_def)
    qed
  qed simp
qed

end
