(* ===== verification/Errors.thy ===== *)
theory Errors
  imports Prelude
begin

text \<open>
  The errors of the program (\<^verbatim>\<open>src/utils/errors.ts\<close>). A thrown exception or a rejected
  promise is a value of \<open>js_error\<close>; the constructors are the classes of the module, the
  plain \<open>Error\<close>, the body parser's \<open>SyntaxError\<close> (with whether it carries a \<open>body\<close>
  property) and an error of a driver, which may carry a \<open>code\<close> property.
\<close>

datatype js_error =
    PlainError string
  | SyntaxError string bool
  | DriverError string "string option"
  | RateLimiterError string int "string option"
  | RedisConnectionError string
  | RateLimitExceededError string int
  | ValidationError string
  | ConflictError string
  | NotFoundError string

fun err_message :: "js_error \<Rightarrow> string" where
  "err_message (PlainError m) = m"
| "err_message (SyntaxError m _) = m"
| "err_message (DriverError m _) = m"
| "err_message (RateLimiterError m _ _) = m"
| "err_message (RedisConnectionError m) = m"
| "err_message (RateLimitExceededError m _) = m"
| "err_message (ValidationError m) = m"
| "err_message (ConflictError m) = m"
| "err_message (NotFoundError m) = m"

text \<open>
  \<open>rate_limiter_error e\<close> is \<^verbatim>\<open>e instanceof RateLimiterError\<close>: its status code and its
  code when it is one.
\<close>

fun rate_limiter_error :: "js_error \<Rightarrow> (int \<times> string option) option" where
  "rate_limiter_error (RateLimiterError _ status c) = Some (status, c)"
| "rate_limiter_error (RedisConnectionError _) = Some (503, Some ''REDIS_CONNECTION_ERROR'')"
| "rate_limiter_error (RateLimitExceededError _ _) = Some (429, Some ''RATE_LIMIT_EXCEEDED'')"
| "rate_limiter_error (ValidationError _) = Some (400, Some ''VALIDATION_ERROR'')"
| "rate_limiter_error (ConflictError _) = Some (409, Some ''CONFLICT'')"
| "rate_limiter_error (NotFoundError _) = Some (404, Some ''NOT_FOUND'')"
| "rate_limiter_error _ = None"

fun err_code :: "js_error \<Rightarrow> string option" where
  "err_code (DriverError _ c) = c"
| "err_code e = (case rate_limiter_error e of Some (_, c) \<Rightarrow> c | None \<Rightarrow> None)"

definition PG_UNIQUE_VIOLATION :: string where
  "PG_UNIQUE_VIOLATION = ''23505''"

definition isUniqueViolation :: "js_error \<Rightarrow> bool" where
  "isUniqueViolation e \<longleftrightarrow> err_code e = Some PG_UNIQUE_VIOLATION"

text \<open>No error class of the program can be taken for a constraint violation of the database.\<close>

lemma isUniqueViolation_driver:
  "isUniqueViolation e \<Longrightarrow> (\<exists>m. e = DriverError m (Some ''23505'')) \<or>
     (\<exists>m status. e = RateLimiterError m status (Some ''23505''))"
  by (cases e) (auto simp: isUniqueViolation_def PG_UNIQUE_VIOLATION_def)

text \<open>Sequencing of computations that may throw.\<close>

definition throwing :: "('s, js_error + 'a) state \<Rightarrow> ('a \<Rightarrow> ('s, js_error + 'b) state) \<Rightarrow>
    ('s, js_error + 'b) state" where
  "throwing m f = State_Monad.bind m (\<lambda>r.
     case r of Inl e \<Rightarrow> State_Monad.return (Inl e) | Inr a \<Rightarrow> f a)"

definition js_return :: "'a \<Rightarrow> ('s, js_error + 'a) state" where
  "js_return a = State_Monad.return (Inr a)"

definition js_throw :: "js_error \<Rightarrow> ('s, js_error + 'a) state" where
  "js_throw e = State_Monad.return (Inl e)"

lemma run_state_throwing [simp]:
  "run_state (throwing m f) s =
     (case run_state m s of (Inl e, s') \<Rightarrow> (Inl e, s') | (Inr a, s') \<Rightarrow> run_state (f a) s')"
  by (simp add: throwing_def split: sum.splits prod.splits)

lemma run_state_js_return [simp]: "run_state (js_return a) s = (Inr a, s)"
  by (simp add: js_return_def)

lemma run_state_js_throw [simp]: "run_state (js_throw e) s = (Inl e, s)"
  by (simp add: js_throw_def)

text \<open>
  \<^verbatim>\<open>Promise.all\<close> over computations that return nothing: all of them are started, whatever the
  others do, and the first rejection is the rejection of the whole.
\<close>

fun promise_all :: "('s, js_error + unit) state list \<Rightarrow> ('s, js_error + unit) state" where
  "promise_all [] = js_return ()"
| "promise_all (m # ms) = do {
     r \<leftarrow> m;
     rest \<leftarrow> promise_all ms;
     State_Monad.return (case r of Inl e \<Rightarrow> Inl e | Inr _ \<Rightarrow> rest)
   }"

text \<open>\<open>zoom\<close> runs a computation on a part of the state.\<close>

definition zoom :: "('s \<Rightarrow> 't) \<Rightarrow> ('t \<Rightarrow> 's \<Rightarrow> 's) \<Rightarrow> ('t, 'a) state \<Rightarrow> ('s, 'a) state" where
  "zoom get put m = State (\<lambda>s. case run_state m (get s) of (a, t) \<Rightarrow> (a, put t s))"

lemma run_state_zoom [simp]:
  "run_state (zoom get put m) s = (case run_state m (get s) of (a, t) \<Rightarrow> (a, put t s))"
  by (simp add: zoom_def)

end
