(* ===== verification/Rate_Types.thy ===== *)
theory Rate_Types
  imports Floats
begin

text \<open>
  The data of the generic limiter (\<^verbatim>\<open>src/types/index.ts\<close>). Limits, windows and counts are
  whole numbers (the request schemas and the table's columns make them so). Values that
  arrive as JSON are \<open>jsval\<close>.
\<close>

datatype RateLimitAlgorithm = TOKEN_BUCKET | SLIDING_WINDOW | FIXED_WINDOW | LEAKY_BUCKET

datatype DimensionType = USER | IP | ENDPOINT | GLOBAL | CUSTOM

datatype jsval =
    JUndefined | JNull | JBool bool | JNum rat | JStr string
  | JArr "jsval list" | JObj "(string \<times> jsval) list"

text \<open>\<^verbatim>\<open>Boolean(v)\<close>.\<close>

fun truthy :: "jsval \<Rightarrow> bool" where
  "truthy JUndefined = False"
| "truthy JNull = False"
| "truthy (JBool b) = b"
| "truthy (JNum x) = (x \<noteq> 0)"
| "truthy (JStr s) = (s \<noteq> [])"
| "truthy (JArr _) = True"
| "truthy (JObj _) = True"

record rule_dimension =
  dim_type :: DimensionType
  dim_pattern :: "string option"

record RateLimitRule =
  rule_id :: string
  rule_name :: string
  rule_algorithm :: RateLimitAlgorithm
  rule_limit :: int
  rule_windowSeconds :: int
  rule_dimension :: rule_dimension
  rule_priority :: int
  rule_enabled :: bool
  rule_metadata :: "(string \<times> jsval) list"
  rule_createdAt :: int
  rule_updatedAt :: int

record RateLimitCheckRequest =
  req_key :: string
  req_identifier :: string
  req_endpoint :: "string option"
  req_ip :: "string option"
  req_metadata :: "(string \<times> jsval) list option"

record RateLimitCheckResult =
  allowed :: bool
  limit :: int
  remaining :: int
  resetAt :: int
  retryAfter :: "int option"
  retryAfterMs :: "int option"

text \<open>A limiter's counters as \<^verbatim>\<open>getStats\<close> reports them.\<close>

record LimiterStats =
  stat_count :: int
  stat_resetAt :: int

text \<open>
  The last lines of every algorithm's \<^verbatim>\<open>check\<close>: the reply of the script as a result, with the
  two retry fields only on a refusal, the one for the header in whole seconds and at least 1.
\<close>

definition check_result :: "int \<Rightarrow> int \<times> int \<times> int \<times> int \<Rightarrow> (int \<Rightarrow> int) \<Rightarrow> RateLimitCheckResult" where
  "check_result lmt reply rem =
     (case reply of (ok, count, reset_at, retry_ms) \<Rightarrow>
        \<lparr>allowed = (ok = 1), limit = lmt, remaining = rem count, resetAt = reset_at,
         retryAfter =
           (if ok = 0 then Some (max 1 \<lceil>fdiv (of_int retry_ms) 1000\<rceil>) else None),
         retryAfterMs = (if ok = 0 then Some retry_ms else None)\<rparr>)"

end
