(* ===== verification/Database.thy ===== *)
theory Database
  imports Rate_Types Errors
begin

text \<open>
  The database as the repositories see it: \<^verbatim>\<open>postgresService.query\<close> with a statement and its
  parameters, a parameter of the model, at the row types the program uses it at. Statements
  are text; where the source breaks a statement over lines, the model has one blank.
  The columns that a constraint of \<^verbatim>\<open>src/database/schema.ts\<close> limits to the values of an
  enumeration have the enumeration as their type, and a time is its epoch in milliseconds.
\<close>

record RuleRow =
  row_id :: string
  row_name :: string
  row_description :: "string option"
  row_algorithm :: RateLimitAlgorithm
  row_limit_value :: int
  row_window_seconds :: int
  row_dimension_type :: DimensionType
  row_dimension_pattern :: "string option"
  row_priority :: int
  row_enabled :: bool
  row_tags :: "string list option"
  row_metadata :: "(string \<times> jsval) list option"
  row_created_at :: int
  row_updated_at :: int

text \<open>A policy row: the driver hands \<^verbatim>\<open>BIGINT\<close> and \<^verbatim>\<open>NUMERIC\<close> over as text.\<close>

datatype row_mode = mode_worst_case | mode_adaptive

record PolicyRow =
  pr_id :: string
  pr_tenant_pattern :: string
  pr_model_pattern :: string
  pr_tokens_per_minute :: string
  pr_requests_per_minute :: int
  pr_max_concurrency :: int
  pr_max_queue_depth :: int
  pr_lease_seconds :: int
  pr_reservation_mode :: row_mode
  pr_reservation_safety_factor :: string
  pr_priority :: int
  pr_enabled :: bool

record 'row query_result =
  rows :: "'row list"
  rowCount :: "int option"

record 'd database =
  query_rules :: "string \<Rightarrow> jsval list \<Rightarrow> ('d, js_error + RuleRow query_result) state"
  query_policies :: "string \<Rightarrow> jsval list \<Rightarrow> ('d, js_error + PolicyRow query_result) state"
  query_counts :: "string \<Rightarrow> jsval list \<Rightarrow> ('d, js_error + string query_result) state"
  query_nothing :: "string \<Rightarrow> jsval list \<Rightarrow> ('d, js_error + unit query_result) state"

text \<open>\<^verbatim>\<open>Array.prototype.join\<close>, and the placeholder of the \<open>n\<close>-th parameter.\<close>

fun join :: "string \<Rightarrow> string list \<Rightarrow> string" where
  "join sep [] = []"
| "join sep [s] = s"
| "join sep (s # t # ss) = s @ sep @ join sep (t # ss)"

definition placeholder :: "nat \<Rightarrow> string" where
  "placeholder n = CHR ''$'' # string_of_nat n"

lemma placeholder_inj [simp]: "placeholder m = placeholder n \<longleftrightarrow> m = n"
  by (auto simp: placeholder_def dest: string_of_nat_inj)

text \<open>
  The loops that build a list of assignments and the list of their values. The reference
  numbers the assignments of a list of columns and values from one.
\<close>

definition push_assignment :: "string \<Rightarrow> jsval \<Rightarrow> string list \<times> jsval list \<Rightarrow> string list \<times> jsval list" where
  "push_assignment col v acc =
     (case acc of (assignments, vs) \<Rightarrow>
        (assignments @ [col @ '' = '' @ placeholder (length vs + 1)], vs @ [v]))"

definition numbered :: "nat \<Rightarrow> (string \<times> jsval) list \<Rightarrow> string list" where
  "numbered i fs = map (\<lambda>(n, (col, _)). col @ '' = '' @ placeholder n) (enumerate i fs)"

lemma numbered_Nil [simp]: "numbered i [] = []"
  by (simp add: numbered_def)

lemma numbered_Cons [simp]: "numbered i ((col, v) # fs) = (col @ '' = '' @ placeholder i) # numbered (Suc i) fs"
  by (simp add: numbered_def)

lemma length_numbered [simp]: "length (numbered i fs) = length fs"
  by (simp add: numbered_def)

lemma numbered_eq_Nil [simp]: "numbered i fs = [] \<longleftrightarrow> fs = []"
  using length_numbered[of i fs] by (metis length_0_conv)

lemma numbered_append: "numbered i (fs @ gs) = numbered i fs @ numbered (i + length fs) gs"
  by (simp add: numbered_def enumerate_append_eq)

lemma push_assignment_numbered:
  "push_assignment col v (numbered 1 fs, map snd fs) = (numbered 1 (fs @ [(col, v)]), map snd (fs @ [(col, v)]))"
  by (simp add: push_assignment_def numbered_append)

text \<open>The text of numbered assignments depends on the columns alone.\<close>

lemma numbered_columns: "map fst fs = map fst gs \<Longrightarrow> numbered i fs = numbered i gs"
proof (induction fs arbitrary: gs i)
  case (Cons f fs)
  then obtain g gs' where gs: "gs = g # gs'" "fst f = fst g" "map fst fs = map fst gs'" by auto
  show ?case using Cons.IH[OF gs(3), of "Suc i"] gs(2) by (cases f; cases g) (simp add: gs(1))
qed simp

end
