(* ===== verification/Metrics.thy ===== *)
theory Metrics
  imports Errors
begin

text \<open>
  \<^verbatim>\<open>src/services/metrics.service.ts\<close>. The registry belongs to the \<^verbatim>\<open>prom-client\<close> package; what the
  program decides is which series each \<^verbatim>\<open>record...\<close> method touches, and by how much. A method
  is the list of the updates it makes, and a handler returns the updates it made next to
  its result, in order. Only the counters take part in the properties.
\<close>

type_synonym labels = "(string \<times> string) list"

datatype metric_event =
    Inc string labels rat
  | Observe string labels
  | SetGauge string labels rat

section \<open>The registry\<close>

text \<open>
  The series the constructor registers: kind, name, help, labels, and the buckets of a
  histogram. \<^verbatim>\<open>prom-client\<close> throws on a name that is taken or malformed, on buckets that do not
  ascend, and on an update with a label its series did not declare. The buckets are the
  decimals of the source, which JavaScript reads as the nearest doubles, in the same order.
\<close>

datatype metric_kind = Counter | Histogram | Gauge

record metric_series =
  ms_kind :: metric_kind
  ms_name :: string
  ms_help :: string
  ms_labelNames :: "string list"
  ms_buckets :: "rat list"

definition series :: "metric_kind \<Rightarrow> string \<Rightarrow> string \<Rightarrow> string list \<Rightarrow> rat list \<Rightarrow> metric_series" where
  "series k name help ls bs = \<lparr>ms_kind = k, ms_name = name, ms_help = help, ms_labelNames = ls, ms_buckets = bs\<rparr>"

definition CHECK_BUCKETS :: "rat list" where
  "CHECK_BUCKETS = [1 / 1000, 5 / 1000, 1 / 100, 25 / 1000, 5 / 100, 1 / 10, 25 / 100, 5 / 10, 1]"

definition API_BUCKETS :: "rat list" where
  "API_BUCKETS = [5 / 10000, 1 / 1000, 2 / 1000, 5 / 1000, 1 / 100, 25 / 1000, 5 / 100,
     1 / 10, 25 / 100, 1, 5]"

definition MetricsService :: "metric_series list" where
  "MetricsService = [
     series Counter ''rate_limiter_requests_total''
       ''Total number of rate limit check requests''
       [''algorithm'', ''result''] [],
     series Counter ''rate_limiter_blocked_requests_total''
       ''Total number of blocked requests due to rate limiting''
       [''algorithm'', ''key''] [],
     series Counter ''rate_limiter_redis_errors_total''
       ''Total number of Redis errors''
       [''operation''] [],
     series Counter ''rate_limiter_api_requests_total''
       ''Total number of API requests''
       [''method'', ''path'', ''status''] [],
     series Histogram ''rate_limiter_check_latency_seconds''
       ''Rate limit check latency in seconds''
       [''algorithm''] CHECK_BUCKETS,
     series Histogram ''rate_limiter_redis_latency_seconds''
       ''Redis operation latency in seconds''
       [''operation''] CHECK_BUCKETS,
     series Gauge ''rate_limiter_active_keys''
       ''Number of active rate limit keys''
       [''algorithm''] [],
     series Counter ''llm_admission_decisions_total''
       ''Admission decisions, labelled by outcome. `shed` outcomes carry the binding constraint.''
       [''scope'', ''outcome''] [],
     series Counter ''llm_tokens_reserved_total''
       ''Tokens actually held at admission time''
       [''scope''] [],
     series Counter ''llm_tokens_worst_case_total''
       ''Tokens that worst-case reservation would have held, for comparison against llm_tokens_reserved_total''
       [''scope''] [],
     series Counter ''llm_lease_reclaims_total''
       ''Expired reservations swept back into the budget. Sustained non-zero means clients are dying between reserve and commit.''
       [''scope''] [],
     series Counter ''llm_late_commits_total''
       ''Commits that arrived after their lease had already been reclaimed''
       [''scope''] [],
     series Counter ''llm_overrun_tokens_total''
       ''Tokens generated beyond what was reserved. Non-zero under adaptive reservation is expected; under worst_case it means max_tokens is not enforced upstream.''
       [''scope''] [],
     series Counter ''llm_reservations_settled_total''
       ''Reservations reconciled by a commit or a release. Admissions minus settlements minus reclaims is work in flight.''
       [''scope''] [],
     series Counter ''rate_limiter_rule_matches_total''
       ''Rate limit decisions by the rule that governed them. `none` means no rule matched and defaults applied.''
       [''rule_id'', ''rule_name''] [],
     series Counter ''rate_limiter_degraded_responses_total''
       ''Responses served from the configured failure mode because limiter state was unreachable. Any non-zero rate means decisions are not being enforced.''
       [''surface'', ''mode''] [],
     series Histogram ''rate_limiter_api_latency_seconds''
       ''End-to-end HTTP handler latency. Replaces the per-request access log on the data path.''
       [''method'', ''route'', ''status_class''] API_BUCKETS]"

text \<open>What an update needs of the registry.\<close>

definition declared :: "metric_kind \<Rightarrow> string \<Rightarrow> labels \<Rightarrow> bool" where
  "declared k name ls \<longleftrightarrow> list_ex (\<lambda>m. ms_kind m = k \<and> ms_name m = name \<and> ms_labelNames m = map fst ls) MetricsService"

fun registered :: "metric_event \<Rightarrow> bool" where
  "registered (Inc name ls v) = declared Counter name ls"
| "registered (Observe name ls) = declared Histogram name ls"
| "registered (SetGauge name ls v) = declared Gauge name ls"

text \<open>The characters Prometheus allows in a name, and buckets that ascend.\<close>

definition name_char :: "char \<Rightarrow> bool" where
  "name_char c \<longleftrightarrow> c \<in> set ''abcdefghijklmnopqrstuvwxyzABCDEFGHIJKLMNOPQRSTUVWXYZ_:''"

lemma registry_is_accepted:
  "distinct (map ms_name MetricsService) \<and> list_all (\<lambda>m. ms_name m \<noteq> [] \<and> list_all name_char (ms_name m)
     \<and> (ms_buckets m = [] \<longleftrightarrow> ms_kind m \<noteq> Histogram) \<and> sorted_wrt (<) (ms_buckets m)) MetricsService"
  by code_simp

section \<open>What each method records\<close>

definition recordRequest :: "string \<Rightarrow> bool \<Rightarrow> metric_event list" where
  "recordRequest algorithm allowed =
     Inc ''rate_limiter_requests_total''
       [(''algorithm'', algorithm), (''result'', if allowed then ''allowed'' else ''blocked'')] 1 #
     (if allowed then []
      else [Inc ''rate_limiter_blocked_requests_total'' [(''algorithm'', algorithm), (''key'', ''unknown'')] 1])"

definition recordCheckLatency :: "string \<Rightarrow> metric_event list" where
  "recordCheckLatency algorithm = [Observe ''rate_limiter_check_latency_seconds'' [(''algorithm'', algorithm)]]"

definition recordRedisLatency :: "string \<Rightarrow> metric_event list" where
  "recordRedisLatency operation = [Observe ''rate_limiter_redis_latency_seconds'' [(''operation'', operation)]]"

definition recordRedisError :: "string \<Rightarrow> metric_event list" where
  "recordRedisError operation = [Inc ''rate_limiter_redis_errors_total'' [(''operation'', operation)] 1]"

definition recordApiRequest :: "string \<Rightarrow> string \<Rightarrow> int \<Rightarrow> metric_event list" where
  "recordApiRequest meth path status =
     [Inc ''rate_limiter_api_requests_total''
        [(''method'', meth), (''path'', path), (''status'', string_of_int status)] 1]"

definition recordApiLatency :: "string \<Rightarrow> string \<Rightarrow> metric_event list" where
  "recordApiLatency meth route =
     [Observe ''rate_limiter_api_latency_seconds''
        [(''method'', meth), (''route'', route), (''status_class'', ''all'')]]"

definition updateActiveKeys :: "string \<Rightarrow> rat \<Rightarrow> metric_event list" where
  "updateActiveKeys algorithm n = [SetGauge ''rate_limiter_active_keys'' [(''algorithm'', algorithm)] n]"

definition recordAdmission :: "string \<Rightarrow> string \<Rightarrow> metric_event list" where
  "recordAdmission scope outcome =
     [Inc ''llm_admission_decisions_total'' [(''scope'', scope), (''outcome'', outcome)] 1]"

definition recordReservation :: "string \<Rightarrow> int \<Rightarrow> int \<Rightarrow> metric_event list" where
  "recordReservation scope reserved worstCase =
     [Inc ''llm_tokens_reserved_total'' [(''scope'', scope)] (of_int reserved),
      Inc ''llm_tokens_worst_case_total'' [(''scope'', scope)] (of_int worstCase)]"

definition recordLeaseReclaim :: "string \<Rightarrow> int \<Rightarrow> metric_event list" where
  "recordLeaseReclaim scope n = [Inc ''llm_lease_reclaims_total'' [(''scope'', scope)] (of_int n)]"

definition recordLateCommit :: "string \<Rightarrow> metric_event list" where
  "recordLateCommit scope = [Inc ''llm_late_commits_total'' [(''scope'', scope)] 1]"

definition recordOverrun :: "string \<Rightarrow> int \<Rightarrow> metric_event list" where
  "recordOverrun scope tokens = [Inc ''llm_overrun_tokens_total'' [(''scope'', scope)] (of_int tokens)]"

definition recordDegraded :: "string \<Rightarrow> string \<Rightarrow> metric_event list" where
  "recordDegraded surface mode =
     [Inc ''rate_limiter_degraded_responses_total'' [(''surface'', surface), (''mode'', mode)] 1]"

definition recordRuleMatch :: "string \<Rightarrow> string \<Rightarrow> metric_event list" where
  "recordRuleMatch ruleId ruleName =
     [Inc ''rate_limiter_rule_matches_total'' [(''rule_id'', ruleId), (''rule_name'', ruleName)] 1]"

definition recordSettled :: "string \<Rightarrow> metric_event list" where
  "recordSettled scope = [Inc ''llm_reservations_settled_total'' [(''scope'', scope)] 1]"

section \<open>What a list of updates adds to a series\<close>

fun counted :: "string \<Rightarrow> labels \<Rightarrow> metric_event list \<Rightarrow> rat" where
  "counted name ls [] = 0"
| "counted name ls (Inc n l v # es) = (if n = name \<and> l = ls then v else 0) + counted name ls es"
| "counted name ls (_ # es) = counted name ls es"

lemma counted_append [simp]: "counted name ls (es @ fs) = counted name ls es + counted name ls fs"
  by (induction name ls es rule: counted.induct) simp_all

lemmas record_defs = recordRequest_def recordCheckLatency_def recordRedisLatency_def recordRedisError_def recordApiRequest_def
  recordApiLatency_def recordAdmission_def recordReservation_def recordLeaseReclaim_def recordLateCommit_def
  recordOverrun_def recordDegraded_def recordRuleMatch_def recordSettled_def

text \<open>
  The work in flight of a scope as the comment on \<^verbatim>\<open>reservationsSettledTotal\<close> derives it from
  the counters.
\<close>

definition derived_inflight :: "string \<Rightarrow> metric_event list \<Rightarrow> rat" where
  "derived_inflight scope es =
     counted ''llm_admission_decisions_total'' [(''scope'', scope), (''outcome'', ''admit'')] es
     - counted ''llm_reservations_settled_total'' [(''scope'', scope)] es
     - counted ''llm_lease_reclaims_total'' [(''scope'', scope)] es"

section \<open>Every update fits its series\<close>

lemma recorded_fit:
  "list_all registered (recordRequest algorithm ok)" "list_all registered (recordCheckLatency algorithm)"
  "list_all registered (recordRedisLatency operation)" "list_all registered (recordRedisError operation)"
  "list_all registered (recordApiRequest meth path status)" "list_all registered (recordApiLatency meth path)"
  "list_all registered (updateActiveKeys algorithm n)" "list_all registered (recordAdmission scope outcome)"
  "list_all registered (recordReservation scope i j)" "list_all registered (recordLeaseReclaim scope i)"
  "list_all registered (recordLateCommit scope)" "list_all registered (recordOverrun scope i)"
  "list_all registered (recordDegraded surface mode)" "list_all registered (recordRuleMatch rid rname)"
  "list_all registered (recordSettled scope)"
  by (simp_all add: record_defs updateActiveKeys_def declared_def MetricsService_def series_def)

section \<open>Handlers with metrics\<close>

text \<open>A computation that may throw and that records metrics, whether it throws or not.\<close>

type_synonym ('s, 'a) recorded = "('s, (js_error + 'a) \<times> metric_event list) state"

definition unrecorded :: "('s, js_error + 'a) state \<Rightarrow> ('s, 'a) recorded" where
  "unrecorded m = State_Monad.bind m (\<lambda>r. State_Monad.return (r, []))"

definition recording :: "metric_event list \<Rightarrow> 'a \<Rightarrow> ('s, 'a) recorded" where
  "recording es a = State_Monad.return (Inr a, es)"

definition and_then :: "('s, 'a) recorded \<Rightarrow> ('a \<Rightarrow> ('s, 'b) recorded) \<Rightarrow> ('s, 'b) recorded" where
  "and_then m f = State_Monad.bind m (\<lambda>(r, es). case r of
       Inl e \<Rightarrow> State_Monad.return (Inl e, es)
     | Inr a \<Rightarrow> State_Monad.bind (f a) (\<lambda>(r', es'). State_Monad.return (r', es @ es')))"

text \<open>\<^verbatim>\<open>try { m } catch (error) { record; throw error; }\<close>\<close>

definition on_error :: "('s, 'a) recorded \<Rightarrow> metric_event list \<Rightarrow> ('s, 'a) recorded" where
  "on_error m es' = State_Monad.bind m (\<lambda>(r, es). case r of
       Inl e \<Rightarrow> State_Monad.return (Inl e, es @ es')
     | Inr a \<Rightarrow> State_Monad.return (Inr a, es))"

lemma run_recorded [simp]:
  "run_state (unrecorded m) s = (case run_state m s of (r, s') \<Rightarrow> ((r, []), s'))"
  "run_state (recording es a) s = ((Inr a, es), s)"
  by (simp_all add: unrecorded_def recording_def split: prod.splits)

lemma run_and_then:
  "run_state m s = ((Inl e, es), s') \<Longrightarrow> run_state (and_then m f) s = ((Inl e, es), s')"
  "run_state m s = ((Inr a, es), s') \<Longrightarrow> run_state (f a) s' = ((r, es'), s'') \<Longrightarrow>
     run_state (and_then m f) s = ((r, es @ es'), s'')"
  by (simp_all add: and_then_def)

end
