(* ===== verification/Middleware.thy ===== *)
theory Middleware
  imports Metrics Rate_Types "HOL-Library.Word"
begin

text \<open>
  \<^verbatim>\<open>src/middleware/\<close>: what stands between a request and its handler, and what becomes of an error.
  A middleware answers, passes on, or passes an error on; the application answers what no
  one did (\<^verbatim>\<open>src/app.ts\<close>, its last two middlewares). Header names are lower case.
\<close>

record 'b http_request =
  rq_method :: string
  rq_headers :: "(string \<times> string) list"
  rq_params :: "(string \<times> string) list"
  rq_query :: "(string \<times> string) list"
  rq_body :: 'b
  rq_ip :: "string option"

record http_response =
  http_status :: int
  http_headers :: "(string \<times> string) list"
  http_body :: "jsval option"

datatype http_outcome = Reply http_response | Next "js_error option"

definition json :: "int \<Rightarrow> jsval \<Rightarrow> http_response" where
  "json status v = \<lparr>http_status = status, http_headers = [], http_body = Some v\<rparr>"

definition error_body :: "string \<Rightarrow> string \<Rightarrow> jsval" where
  "error_body code message = JObj [(''error'', JObj [(''code'', JStr code), (''message'', JStr message)])]"

section \<open>Credentials of the control plane\<close>

text \<open>\<^verbatim>\<open>Buffer.from(s)\<close>: the bytes of the text in UTF-8.\<close>

definition utf8 :: "char \<Rightarrow> 8 word list" where
  "utf8 c = (let n = of_char c :: nat in
     if n < 128 then [word_of_nat n] else [word_of_nat (192 + n div 64), word_of_nat (128 + n mod 64)])"

definition buffer_from :: "string \<Rightarrow> 8 word list" where
  "buffer_from s = concat (map utf8 s)"

definition timingSafeEqual :: "8 word list \<Rightarrow> 8 word list \<Rightarrow> js_error + bool" where
  "timingSafeEqual a b = (if length a = length b then Inr (a = b)
     else Inl (PlainError ''Input buffers must have the same byte length''))"

definition secretsMatch :: "string \<Rightarrow> string \<Rightarrow> js_error + bool" where
  "secretsMatch provided expected =
     (let a = buffer_from provided; b = buffer_from expected
      in if length a \<noteq> length b
         then (case timingSafeEqual b b of Inl e \<Rightarrow> Inl e | Inr _ \<Rightarrow> Inr False)
         else timingSafeEqual a b)"

record control_config =
  controlPlaneKey :: "string option"
  server_env :: string

definition requireControlPlaneKey :: "control_config \<Rightarrow> 'b http_request \<Rightarrow> http_outcome" where
  "requireControlPlaneKey config req =
     (case controlPlaneKey config of
        Some (k # ks) \<Rightarrow>
          (let header = (case map_of (rq_headers req) ''authorization'' of Some h \<Rightarrow> h | None \<Rightarrow> []);
               provided = (if starts_with header ''Bearer '' then Some (drop 7 header) else map_of (rq_headers req) ''x-api-key'');
               refused = Reply (json 401 (error_body ''UNAUTHORIZED'' ''Valid control plane credentials required''))
           in case provided of
                None \<Rightarrow> refused
              | Some p \<Rightarrow> if p = [] then refused
                  else (case secretsMatch p (k # ks) of
                          Inl e \<Rightarrow> Next (Some e)
                        | Inr ok \<Rightarrow> if ok then Next None else refused))
      | _ \<Rightarrow>
          if server_env config = ''production''
          then Reply (json 503 (error_body ''CONTROL_PLANE_UNCONFIGURED''
                 ''Control plane authentication is not configured on this deployment''))
          else Next None)"

section \<open>When the state of the limiter is away\<close>

definition ascii_lower :: "char \<Rightarrow> char" where
  "ascii_lower c = (let n = of_char c :: nat in if 65 \<le> n \<and> n \<le> 90 then char_of (n + 32) else c)"

definition CONNECTION_FAILURE :: "string list" where
  "CONNECTION_FAILURE = [''Connection is closed'', ''ECONNREFUSED'', ''ETIMEDOUT'', ''EPIPE'', ''ENOTFOUND'',
     ''Stream isn'' @ [CHR 0x27] @ ''t writeable'', ''max retries'']"

definition isStateUnavailable :: "js_error \<Rightarrow> bool" where
  "isStateUnavailable e =
     (case e of
        RedisConnectionError _ \<Rightarrow> True
      | _ \<Rightarrow> list_ex (\<lambda>p. str_includes (map ascii_lower (err_message e)) (map ascii_lower p)) CONNECTION_FAILURE)"

text \<open>The answer of a handler, or the error it threw.\<close>

type_synonym ('s) handler = "('s, http_response) recorded"
type_synonym ('s) served = "('s, http_outcome \<times> metric_event list) state"

definition degraded_response :: "string \<Rightarrow> (string \<times> jsval) list \<Rightarrow> http_response" where
  "degraded_response mode openResponse =
     (if mode = ''fail_open''
      then \<lparr>http_status = 200, http_headers = [(''X-RateLimit-Degraded'', mode)],
            http_body = Some (JObj (openResponse @ [(''degraded'', JStr ''fail_open'')]))\<rparr>
      else \<lparr>http_status = 503, http_headers = [(''X-RateLimit-Degraded'', mode)],
            http_body = Some (JObj
              [(''error'', JObj [(''code'', JStr ''LIMITER_UNAVAILABLE''),
                 (''message'', JStr ''Limiter state is unavailable and this surface is configured to fail closed'')]),
               (''degraded'', JStr ''fail_closed'')])\<rparr>)"

definition guardState :: "string \<Rightarrow> string \<Rightarrow> (string \<times> jsval) list \<Rightarrow> 's handler \<Rightarrow> 's served" where
  "guardState surface mode openResponse handler = do {
     (r, es) \<leftarrow> handler;
     State_Monad.return (case r of
       Inr response \<Rightarrow> (Reply response, es)
     | Inl error \<Rightarrow>
         if \<not> isStateUnavailable error then (Next (Some error), es)
         else (Reply (degraded_response mode openResponse), es @ recordDegraded surface mode))
   }"

text \<open>\<^verbatim>\<open>try { ... } catch (error) { next(error); }\<close>, perhaps with another error for some.\<close>

definition forwarding :: "(js_error \<Rightarrow> js_error) \<Rightarrow> 's handler \<Rightarrow> 's served" where
  "forwarding translate handler = do {
     (r, es) \<leftarrow> handler;
     State_Monad.return (case r of Inr response \<Rightarrow> (Reply response, es) | Inl error \<Rightarrow> (Next (Some (translate error)), es))
   }"

definition same_error :: "js_error \<Rightarrow> js_error" where
  "same_error e = e"

text \<open>\<^verbatim>\<open>isUniqueViolation(error) ? new ConflictError(...) : error\<close>.\<close>

definition conflict_or_same :: "string \<Rightarrow> js_error \<Rightarrow> js_error" where
  "conflict_or_same message e = (if isUniqueViolation e then ConflictError message else e)"

section \<open>Validation\<close>

text \<open>A schema is a parameter: the messages of what is wrong with a body.\<close>

fun join_messages :: "string list \<Rightarrow> string" where
  "join_messages [] = []"
| "join_messages [m] = m"
| "join_messages (m # n # ms) = m @ '', '' @ join_messages (n # ms)"

definition validateRequest :: "('b \<Rightarrow> string list option) \<Rightarrow> 'b http_request \<Rightarrow> http_outcome" where
  "validateRequest schema req =
     (case schema (rq_body req) of
        Some details \<Rightarrow> Next (Some (ValidationError (join_messages details)))
      | None \<Rightarrow> Next None)"

text \<open>A middleware before a handler.\<close>

definition before :: "http_outcome \<Rightarrow> 's served \<Rightarrow> 's served" where
  "before outcome handler = (if outcome = Next None then handler else State_Monad.return (outcome, []))"

section \<open>Errors and the log of requests\<close>

definition errorHandler :: "js_error \<Rightarrow> http_response" where
  "errorHandler e =
     (case rate_limiter_error e of
        Some (status, code) \<Rightarrow>
          json status (JObj [(''error'', JObj
            ([(''code'', (case code of Some c \<Rightarrow> JStr c | None \<Rightarrow> JUndefined)), (''message'', JStr (err_message e))] @
             (case e of RateLimitExceededError _ after \<Rightarrow> [(''retryAfter'', JNum (of_int after))] | _ \<Rightarrow> [])))])
      | None \<Rightarrow>
          (case e of
             SyntaxError _ True \<Rightarrow> json 400 (error_body ''VALIDATION_ERROR'' ''Request body is not valid JSON'')
           | _ \<Rightarrow> json 500 (error_body ''INTERNAL_SERVER_ERROR'' ''An unexpected error occurred'')))"

definition not_found_response :: http_response where
  "not_found_response = json 404 (error_body ''NOT_FOUND'' ''The requested resource was not found'')"

definition answered :: "http_outcome \<Rightarrow> http_response" where
  "answered outcome =
     (case outcome of Reply r \<Rightarrow> r | Next (Some e) \<Rightarrow> errorHandler e | Next None \<Rightarrow> not_found_response)"

text \<open>What \<^verbatim>\<open>res.on('finish')\<close> records: the template of the route, or the mount point, or neither.\<close>

definition requestLogger :: "string \<Rightarrow> string option \<Rightarrow> string \<Rightarrow> http_response \<Rightarrow> metric_event list" where
  "requestLogger meth route_path baseUrl response =
     (let route = (case route_path of
          Some (c # cs) \<Rightarrow> c # cs
        | _ \<Rightarrow> if baseUrl = [] then ''unmatched'' else baseUrl)
      in recordApiRequest meth route (http_status response) @ recordApiLatency meth route)"

section \<open>The gate of the control plane\<close>

fun utf8_read :: "8 word list \<Rightarrow> string" where
  "utf8_read [] = []"
| "utf8_read (b # bs) =
     (if unat b < 128 then char_of (unat b) # utf8_read bs
      else (case bs of [] \<Rightarrow> [] | b' # bs' \<Rightarrow> char_of ((unat b - 192) * 64 + (unat b' - 128)) # utf8_read bs'))"

lemma utf8_read_char: "utf8_read (utf8 c @ bs) = c # utf8_read bs"
proof -
  define n where "n = (of_char c :: nat)"
  have n: "n < 256" "char_of n = c" by (simp_all add: n_def)
  show ?thesis
  proof (cases "n < 128")
    case True
    then have "unat (word_of_nat n :: 8 word) = n" by (simp add: unat_of_nat)
    then show ?thesis using True n(2) by (simp add: utf8_def Let_def n_def[symmetric])
  next
    case False
    have q: "n div 64 < 4" using n(1) by simp
    have byte: "unat (word_of_nat m :: 8 word) = m" if "m < 256" for m
      using that by (simp add: unat_of_nat)
    have "unat (word_of_nat (192 + n div 64) :: 8 word) = 192 + n div 64" "unat (word_of_nat (128 + n mod 64) :: 8 word) = 128 + n mod 64"
      by (rule byte, use q in simp)+
    then show ?thesis using False n(2) by (simp add: utf8_def Let_def n_def[symmetric] div_mult_mod_eq del: of_nat_add)
  qed
qed

lemma utf8_read_buffer: "utf8_read (buffer_from s) = s"
  by (induction s) (simp_all add: buffer_from_def utf8_read_char)

lemma buffer_from_inj: "buffer_from s = buffer_from t \<longleftrightarrow> s = t"
  by (metis utf8_read_buffer)

lemma secretsMatch_iff: "secretsMatch provided expected = Inr (provided = expected)"
  using buffer_from_inj[of provided expected]
  by (auto simp: secretsMatch_def timingSafeEqual_def Let_def)

lemma gate_cases:
  "(requireControlPlaneKey config req = Next None \<longleftrightarrow>
     (case controlPlaneKey config of
        Some (k # ks) \<Rightarrow> map_of (rq_headers req) ''authorization'' = Some (''Bearer '' @ k # ks)
          \<or> (\<nexists>token. map_of (rq_headers req) ''authorization'' = Some (''Bearer '' @ token)) \<and> map_of (rq_headers req) ''x-api-key'' = Some (k # ks)
      | _ \<Rightarrow> server_env config \<noteq> ''production''))
   \<and> (requireControlPlaneKey config req = Next None \<or>
      http_status (answered (requireControlPlaneKey config req)) =
        (if controlPlaneKey config = None \<or> controlPlaneKey config = Some [] then 503 else 401))"
proof (cases "controlPlaneKey config = None \<or> controlPlaneKey config = Some []")
  case True
  then show ?thesis by (auto simp: requireControlPlaneKey_def answered_def json_def)
next
  case False
  then obtain k ks where key: "controlPlaneKey config = Some (k # ks)" by (metis list.exhaust option.exhaust)
  show ?thesis
  proof (cases "map_of (rq_headers req) ''authorization''")
    case None
    then show ?thesis
      by (cases "map_of (rq_headers req) ''x-api-key''")
        (simp_all add: requireControlPlaneKey_def key secretsMatch_iff answered_def json_def Let_def split: if_splits)
  next
    case (Some h)
    show ?thesis
    proof (cases "starts_with h ''Bearer ''")
      case True
      then obtain token where h: "h = ''Bearer '' @ token" by (auto simp: starts_with_iff)
      show ?thesis using Some True unfolding h
        by (simp add: requireControlPlaneKey_def key secretsMatch_iff answered_def json_def Let_def split: if_splits)
    next
      case no: False
      then have "h \<noteq> ''Bearer '' @ token" for token by (auto simp: starts_with_iff)
      then show ?thesis using Some no
        by (cases "map_of (rq_headers req) ''x-api-key''")
          (simp_all add: requireControlPlaneKey_def key secretsMatch_iff answered_def json_def Let_def split: if_splits)
    qed
  qed
qed


text \<open>
  C20: The control plane opens to exactly the configured key, in an \<^verbatim>\<open>Authorization\<close> header as a bearer
  token, or in \<^verbatim>\<open>x-api-key\<close> when that header holds no bearer token. Without a configured key it is
  open outside production and closed in it; every refusal is an answer of its own, 401 or 503.
\<close>

theorem control_plane_gate:
  "(requireControlPlaneKey config req = Next None \<longleftrightarrow>
     (case controlPlaneKey config of
        Some (k # ks) \<Rightarrow> map_of (rq_headers req) ''authorization'' = Some (''Bearer '' @ k # ks)
          \<or> (\<nexists>token. map_of (rq_headers req) ''authorization'' = Some (''Bearer '' @ token)) \<and> map_of (rq_headers req) ''x-api-key'' = Some (k # ks)
      | _ \<Rightarrow> server_env config \<noteq> ''production''))
   \<and> (requireControlPlaneKey config req = Next None \<or>
      http_status (answered (requireControlPlaneKey config req)) =
        (if controlPlaneKey config = None \<or> controlPlaneKey config = Some [] then 503 else 401))"
  by (rule gate_cases)

definition example_call :: "(string \<times> string) list \<Rightarrow> unit http_request" where
  "example_call hs = \<lparr>rq_method = ''PUT'', rq_headers = hs, rq_params = [(''id'', ''1'')], rq_query = [], rq_body = (), rq_ip = None\<rparr>"

lemma control_plane_gate_witness:
  "requireControlPlaneKey \<lparr>controlPlaneKey = Some ''s3cret'', server_env = ''production''\<rparr> (example_call [(''authorization'', ''Bearer s3cret'')]) = Next None
   \<and> requireControlPlaneKey \<lparr>controlPlaneKey = Some ''s3cret'', server_env = ''production''\<rparr> (example_call [(''authorization'', ''Bearer guess'')]) \<noteq> Next None
   \<and> http_status (answered (requireControlPlaneKey \<lparr>controlPlaneKey = None, server_env = ''production''\<rparr> (example_call []))) = 503"
proof -
  let ?config = "\<lparr>controlPlaneKey = Some ''s3cret'', server_env = ''production''\<rparr>"
  have "requireControlPlaneKey ?config (example_call [(''authorization'', ''Bearer s3cret'')]) = Next None"
    using control_plane_gate[of ?config "example_call [(''authorization'', ''Bearer s3cret'')]"] by (simp add: example_call_def)
  moreover have "requireControlPlaneKey ?config (example_call [(''authorization'', ''Bearer guess'')]) \<noteq> Next None"
    using control_plane_gate[of ?config "example_call [(''authorization'', ''Bearer guess'')]"] by (simp add: example_call_def)
  moreover have "http_status (answered (requireControlPlaneKey \<lparr>controlPlaneKey = None, server_env = ''production''\<rparr> (example_call []))) = 503"
    using control_plane_gate[of "\<lparr>controlPlaneKey = None, server_env = ''production''\<rparr>" "example_call []"] by auto
  ultimately show ?thesis by blast
qed

section \<open>What an error becomes\<close>

lemma run_guardState:
  "run_state handler s = ((r, es), s') \<Longrightarrow> run_state (guardState surface mode openResponse handler) s =
     ((case r of Inr response \<Rightarrow> (Reply response, es)
       | Inl e \<Rightarrow> if isStateUnavailable e then (Reply (degraded_response mode openResponse), es @ recordDegraded surface mode)
                 else (Next (Some e), es)), s')"
  by (simp add: guardState_def split: sum.splits)

lemma run_forwarding:
  "run_state handler s = ((r, es), s') \<Longrightarrow> run_state (forwarding translate handler) s =
     ((case r of Inr response \<Rightarrow> Reply response | Inl e \<Rightarrow> Next (Some (translate e)), es), s')"
  by (simp add: forwarding_def split: sum.splits)



text \<open>
  What a client sees of an error depends on its class alone where the program raised it, and on
  nothing where it did not: any two errors the program does not know are answered with the same
  500, whatever they carry, a malformed body with 400, and an error of the program with the
  status and the code of its class.
\<close>

theorem errors_disclose_nothing:
  "(rate_limiter_error e = None \<and> rate_limiter_error e' = None \<and> (\<nexists>m. e = SyntaxError m True) \<and> (\<nexists>m. e' = SyntaxError m True)
      \<longrightarrow> answered (Next (Some e)) = answered (Next (Some e')) \<and> http_status (answered (Next (Some e))) = 500)
   \<and> answered (Next (Some (SyntaxError m True))) = answered (Next (Some (SyntaxError m' True)))
   \<and> http_status (answered (Next (Some (SyntaxError m True)))) = 400
   \<and> (\<forall>status code. rate_limiter_error e = Some (status, Some code) \<longrightarrow>
        http_status (answered (Next (Some e))) = status
        \<and> (\<exists>extra. http_body (answered (Next (Some e))) = Some (JObj [(''error'', JObj ([(''code'', JStr code), (''message'', JStr (err_message e))] @ extra))])))"
  by (cases e; cases e') (auto simp: answered_def errorHandler_def json_def)

lemma errors_disclose_nothing_witness:
  "answered (Next (Some (DriverError ''password authentication failed for user postgres'' None)))
     = answered (Next (Some (PlainError ''Cannot read properties of undefined'')))
   \<and> http_status (answered (Next (Some (DriverError ''password authentication failed for user postgres'' None)))) = 500
   \<and> http_status (answered (Next (Some (ConflictError ''taken'')))) = 409"
proof -
  let ?e = "DriverError ''password authentication failed for user postgres'' None"
  let ?e' = "PlainError ''Cannot read properties of undefined''"
  have "rate_limiter_error (ConflictError ''taken'') = Some (409, Some ''CONFLICT'')" by simp
  then have "http_status (answered (Next (Some (ConflictError ''taken'')))) = 409"
    using errors_disclose_nothing[of "ConflictError ''taken''" "PlainError []"] by blast
  moreover have "answered (Next (Some ?e)) = answered (Next (Some ?e')) \<and> http_status (answered (Next (Some ?e))) = 500"
    by (rule errors_disclose_nothing[THEN conjunct1, THEN mp]) simp
  ultimately show ?thesis by blast
qed

end
