(* ===== verification/Connections.thy ===== *)
theory Connections
  imports Errors Rate_Types
begin

text \<open>
  \<^verbatim>\<open>src/services/redis.service.ts\<close> and \<^verbatim>\<open>src/services/postgres.service.ts\<close>: what the process
  knows of its two connections, and which events change it. The drivers are parameters: whether
  a call succeeds, and the events they emit. \<^verbatim>\<open>ioredis\<close> asks the strategy how long to wait
  before each attempt to reconnect, counted from one after every loss, and gives up for
  good when it answers with no number.
\<close>

section \<open>Redis\<close>

record redis_config =
  maxRetries :: int
  retryDelay :: int
  cluster_seeds :: "(string \<times> int) list"

datatype redis_kind = Standalone | Cluster

record redis_service =
  redis_client :: "redis_kind option"
  redis_isConnected :: bool

definition retryStrategy :: "redis_config \<Rightarrow> int \<Rightarrow> int option" where
  "retryStrategy config attempt =
     (if maxRetries config < attempt then None else Some (min (attempt * retryDelay config) 3000))"

datatype redis_event = Redis_connect | Redis_ready | Redis_error | Redis_close | Redis_reconnecting

definition redis_on :: "redis_event \<Rightarrow> redis_service \<Rightarrow> redis_service" where
  "redis_on e st = (case e of
       Redis_connect \<Rightarrow> st\<lparr>redis_isConnected := True\<rparr>
     | Redis_error \<Rightarrow> st\<lparr>redis_isConnected := False\<rparr>
     | Redis_close \<Rightarrow> st\<lparr>redis_isConnected := False\<rparr>
     | _ \<Rightarrow> st)"

text \<open>
  \<^verbatim>\<open>connect()\<close>: the events the new client emits until the ping is answered, and whether it is.
\<close>

definition redis_connect :: "redis_config \<Rightarrow> redis_event list \<Rightarrow> bool \<Rightarrow> (redis_service, js_error + unit) state" where
  "redis_connect config events ping_ok = State (\<lambda>st.
     if redis_client st \<noteq> None \<and> redis_isConnected st then (Inr (), st)
     else (let st1 = st\<lparr>redis_client := Some (if cluster_seeds config \<noteq> [] then Cluster else Standalone)\<rparr>;
               st2 = fold redis_on events st1
           in if ping_ok then (Inr (), st2)
              else (Inl (RedisConnectionError ''Failed to establish Redis connection''), st2)))"

definition redis_getClient :: "(redis_service, js_error + redis_kind) state" where
  "redis_getClient = State (\<lambda>st.
     case redis_client st of
       Some c \<Rightarrow> if redis_isConnected st then (Inr c, st) else (Inl (RedisConnectionError ''Redis client not connected''), st)
     | None \<Rightarrow> (Inl (RedisConnectionError ''Redis client not connected''), st))"

text \<open>\<^verbatim>\<open>masters()\<close>: the masters the cluster client knows, by number, or the client itself.\<close>

definition redis_masters :: "nat list \<Rightarrow> (redis_service, js_error + nat list) state" where
  "redis_masters nodes = throwing redis_getClient (\<lambda>c. js_return (if c = Cluster then nodes else [0]))"

definition isCluster :: "redis_service \<Rightarrow> bool" where
  "isCluster st \<longleftrightarrow> redis_client st = Some Cluster"

definition redis_disconnect :: "js_error option \<Rightarrow> (redis_service, js_error + unit) state" where
  "redis_disconnect quit_error = State (\<lambda>st.
     if redis_client st = None then (Inr (), st)
     else (case quit_error of
             Some e \<Rightarrow> (Inl e, st)
           | None \<Rightarrow> (Inr (), st\<lparr>redis_client := None, redis_isConnected := False\<rparr>)))"

definition redis_healthCheck :: "bool \<Rightarrow> redis_service \<Rightarrow> bool" where
  "redis_healthCheck ping_ok st \<longleftrightarrow> redis_client st \<noteq> None \<and> ping_ok"

section \<open>PostgreSQL\<close>

record pg_service =
  pg_pool :: bool
  pg_isConnected :: bool

definition pg_connect :: "bool \<Rightarrow> (pg_service, js_error + unit) state" where
  "pg_connect test_ok = State (\<lambda>st.
     if pg_pool st \<and> pg_isConnected st then (Inr (), st)
     else if test_ok then (Inr (), st\<lparr>pg_pool := True, pg_isConnected := True\<rparr>)
     else (Inl (PlainError ''Failed to establish PostgreSQL connection''), st\<lparr>pg_pool := True\<rparr>))"

datatype pg_event = Pool_error | Pool_connect

definition pg_on :: "pg_event \<Rightarrow> pg_service \<Rightarrow> pg_service" where
  "pg_on e st = (case e of Pool_error \<Rightarrow> st\<lparr>pg_isConnected := False\<rparr> | Pool_connect \<Rightarrow> st)"

definition getPool :: "(pg_service, js_error + unit) state" where
  "getPool = State (\<lambda>st.
     if pg_pool st \<and> pg_isConnected st then (Inr (), st) else (Inl (PlainError ''PostgreSQL pool not initialized''), st))"

text \<open>\<open>answer\<close> is what the pool does with the statement.\<close>

definition pg_query :: "(js_error + 'r) \<Rightarrow> (pg_service, js_error + 'r) state" where
  "pg_query answer = throwing getPool (\<lambda>_. State_Monad.return answer)"

definition pg_getClient :: "(js_error + 'c) \<Rightarrow> (pg_service, js_error + 'c) state" where
  "pg_getClient answer = throwing getPool (\<lambda>_. State_Monad.return answer)"

definition pg_disconnect :: "js_error option \<Rightarrow> (pg_service, js_error + unit) state" where
  "pg_disconnect end_error = State (\<lambda>st.
     if \<not> pg_pool st then (Inr (), st)
     else (case end_error of Some e \<Rightarrow> (Inl e, st) | None \<Rightarrow> (Inr (), st\<lparr>pg_pool := False, pg_isConnected := False\<rparr>)))"

definition pg_healthCheck :: "(js_error + unit) \<Rightarrow> (pg_service, bool) state" where
  "pg_healthCheck answer = State (\<lambda>st.
     if \<not> pg_pool st then (False, st)
     else (case run_state (pg_query answer) st of (Inr _, st') \<Rightarrow> (True, st') | (Inl e, st') \<Rightarrow> (False, st')))"

section \<open>Reconnecting to Redis\<close>

text \<open>
  The connection over time. \<open>Retrying n\<close> waits for the \<open>n\<close>-th attempt since the loss; in \<open>Ended\<close> the
  driver has given up.
\<close>

datatype redis_link = Up | Retrying nat | Ended

definition next_attempt :: "redis_config \<Rightarrow> nat \<Rightarrow> redis_link" where
  "next_attempt config n = (case retryStrategy config (int n) of None \<Rightarrow> Ended | Some _ \<Rightarrow> Retrying n)"

inductive link_step :: "redis_config \<Rightarrow> redis_link \<Rightarrow> redis_link \<Rightarrow> bool" for config where
  lost: "link_step config Up (next_attempt config 1)"
| failed: "link_step config (Retrying n) (next_attempt config (Suc n))"
| reached: "link_step config (Retrying n) Up"

inductive_cases link_step_UpE: "link_step config Up l"
inductive_cases link_step_RetryingE: "link_step config (Retrying n) l"
inductive_simps link_step_Ended [simp]: "link_step config Ended l"

lemma next_attempt_Retrying: "next_attempt config n = Retrying m \<Longrightarrow> m = n \<and> int n \<le> maxRetries config"
  by (auto simp: next_attempt_def retryStrategy_def split: if_splits)

text \<open>A driver that waits for an attempt is within the configured number of them.\<close>

lemma link_reachable:
  assumes "(link_step config)\<^sup>*\<^sup>* Up l"
  shows "case l of Retrying n \<Rightarrow> 1 \<le> n \<and> int n \<le> maxRetries config | _ \<Rightarrow> True"
  using assms
proof (induction rule: rtranclp_induct)
  case (step l l')
  show ?case
  proof (cases l')
    case (Retrying m)
    have "\<exists>n. next_attempt config n = l' \<and> 1 \<le> n"
      using step.hyps(2)
    proof cases
      case lost
      then show ?thesis by (intro exI[of _ 1]) simp
    next
      case (failed n)
      then show ?thesis by (intro exI[of _ "Suc n"]) simp
    next
      case (reached n)
      then show ?thesis using Retrying by simp
    qed
    then obtain n where "next_attempt config n = Retrying m" "1 \<le> n" using Retrying by blast
    then show ?thesis using next_attempt_Retrying[of config n m] Retrying by simp
  qed simp_all
qed simp

primrec failures :: "redis_config \<Rightarrow> nat \<Rightarrow> redis_link \<Rightarrow> redis_link" where
  "failures config 0 l = l"
| "failures config (Suc k) l =
     failures config k (case l of Up \<Rightarrow> next_attempt config 1 | Retrying n \<Rightarrow> next_attempt config (Suc n) | Ended \<Rightarrow> Ended)"

lemma failures_Ended: "failures config k Ended = Ended"
  by (induction k) simp_all

lemma failures_Retrying:
  "maxRetries config < int (n + k) \<Longrightarrow> failures config k (Retrying n) = Ended" if "0 < k"
  using that
proof (induction k arbitrary: n)
  case (Suc k)
  show ?case
  proof (cases "maxRetries config < int (Suc n)")
    case True
    then show ?thesis by (simp add: next_attempt_def retryStrategy_def failures_Ended)
  next
    case False
    then have "next_attempt config (Suc n) = Retrying (Suc n)" by (simp add: next_attempt_def retryStrategy_def)
    moreover have "0 < k" using False Suc.prems by (cases k) auto
    ultimately show ?thesis using Suc.IH[of "Suc n"] Suc.prems by simp
  qed
qed simp

text \<open>The wait before the driver gives up, in milliseconds.\<close>

definition patience :: "redis_config \<Rightarrow> int" where
  "patience config = sum_list (map (\<lambda>n. min (n * retryDelay config) 3000) [1..maxRetries config])"

lemma failures_steps: "(link_step config)\<^sup>*\<^sup>* l (failures config k l)"
proof (induction k arbitrary: l)
  case (Suc k)
  show ?case
  proof (cases l)
    case Ended
    then show ?thesis by (simp add: failures_Ended)
  next
    case Up
    then show ?thesis using Suc.IH[of "next_attempt config 1"] link_step.lost[of config] by (simp add: converse_rtranclp_into_rtranclp)
  next
    case (Retrying n)
    then show ?thesis using Suc.IH[of "next_attempt config (Suc n)"] link_step.failed[of config n] by (simp add: converse_rtranclp_into_rtranclp)
  qed
qed simp


text \<open>The defaults of the configuration give up after 600 milliseconds of waiting.\<close>

definition default_redis :: redis_config where
  "default_redis = \<lparr>maxRetries = 3, retryDelay = 100, cluster_seeds = []\<rparr>"



section \<open>After an error of an idle PostgreSQL client\<close>

text \<open>What may happen to the service other than a call of \<^verbatim>\<open>connect\<close>, which only the start of the process makes.\<close>

datatype pg_op = Pg_event pg_event | Pg_query "js_error + unit" | Pg_client "js_error + unit" | Pg_health "js_error + unit" | Pg_disconnect "js_error option"

definition pg_step :: "pg_op \<Rightarrow> pg_service \<Rightarrow> pg_service" where
  "pg_step op st = (case op of
       Pg_event e \<Rightarrow> pg_on e st
     | Pg_query answer \<Rightarrow> snd (run_state (pg_query answer) st)
     | Pg_client answer \<Rightarrow> snd (run_state (pg_getClient answer) st)
     | Pg_health answer \<Rightarrow> snd (run_state (pg_healthCheck answer) st)
     | Pg_disconnect e \<Rightarrow> snd (run_state (pg_disconnect e) st))"

lemma run_getPool: "run_state getPool st = (if pg_pool st \<and> pg_isConnected st then Inr () else Inl (PlainError ''PostgreSQL pool not initialized''), st)"
  by (simp add: getPool_def)

lemma run_pg_query:
  "run_state (pg_query answer) st = (if pg_pool st \<and> pg_isConnected st then answer else Inl (PlainError ''PostgreSQL pool not initialized''), st)"
  by (simp add: pg_query_def run_getPool)

lemma run_pg_getClient:
  "run_state (pg_getClient answer) st = (if pg_pool st \<and> pg_isConnected st then answer else Inl (PlainError ''PostgreSQL pool not initialized''), st)"
  by (simp add: pg_getClient_def run_getPool)

lemma run_pg_health: "run_state (pg_healthCheck answer) st = (pg_pool st \<and> pg_isConnected st \<and> (\<exists>a. answer = Inr a), st)"
  by (auto simp: pg_healthCheck_def run_pg_query split: sum.splits)

lemma pg_step_disconnected: "\<not> pg_isConnected st \<Longrightarrow> \<not> pg_isConnected (pg_step op st)"
  by (cases op) (auto simp: pg_step_def pg_on_def run_pg_query run_pg_getClient run_pg_health pg_disconnect_def split: pg_event.splits option.splits)

lemma pg_steps_disconnected: "\<not> pg_isConnected st \<Longrightarrow> \<not> pg_isConnected (fold pg_step ops st)"
  by (induction ops arbitrary: st) (simp_all add: pg_step_disconnected)

text \<open>
  One error of an idle client cuts the process off from PostgreSQL for good: after the pool reports it, over
  any later events, queries and health checks, every query fails and every health check says
  down, although the pool itself would answer; only \<^verbatim>\<open>connect\<close> would help, which nothing calls again.
\<close>

theorem pool_error_cuts_postgres_off:
  assumes "st' = fold pg_step ops (pg_on Pool_error st)"
  shows "run_state (pg_query (Inr rows)) st' = (Inl (PlainError ''PostgreSQL pool not initialized''), st')
    \<and> run_state (pg_healthCheck (Inr ())) st' = (False, st')
    \<and> (\<exists>st''. run_state (pg_connect True) st' = (Inr (), st'') \<and> run_state (pg_query (Inr rows)) st'' = (Inr rows, st''))"
proof -
  have "\<not> pg_isConnected st'" unfolding assms by (rule pg_steps_disconnected) (simp add: pg_on_def)
  then show ?thesis by (simp add: run_pg_query run_pg_health pg_connect_def)
qed

lemma pool_error_cuts_postgres_off_witness:
  "run_state (pg_query (Inr (5 :: nat))) (fold pg_step [Pg_event Pool_connect, Pg_health (Inr ())] (pg_on Pool_error \<lparr>pg_pool = True, pg_isConnected = True\<rparr>))
     = (Inl (PlainError ''PostgreSQL pool not initialized''), \<lparr>pg_pool = True, pg_isConnected = False\<rparr>)"
  using pool_error_cuts_postgres_off[OF refl, of "5 :: nat" "[Pg_event Pool_connect, Pg_health (Inr ())]" "\<lparr>pg_pool = True, pg_isConnected = True\<rparr>"]
  by (simp add: pg_step_def pg_on_def run_pg_health)

end
