(* ===== verification/Config.thy ===== *)
theory Config
  imports Text_Numbers Errors Database Middleware Connections
begin

text \<open>
  \<^verbatim>\<open>src/config/index.ts\<close>: the configuration read from the environment, a map from the names of
  the variables to their text. A number that \<^verbatim>\<open>parseInt\<close> cannot read is \<^verbatim>\<open>NaN\<close>, here \<open>None\<close>; no
  value is checked but the seeds of a cluster. Numbers are exact below \<open>2 ^ 53\<close>.
\<close>

section \<open>The seeds of a cluster\<close>

definition lastIndexOf :: "char \<Rightarrow> string \<Rightarrow> nat option" where
  "lastIndexOf c s = (case dropWhile (\<lambda>x. x \<noteq> c) (rev s) of [] \<Rightarrow> None | _ # host \<Rightarrow> Some (length host))"

definition parse_node :: "string \<Rightarrow> js_error + (string \<times> int)" where
  "parse_node entry =
     (let text = trim entry; sep = lastIndexOf CHR '':'' text;
          host = (case sep of None \<Rightarrow> [] | Some i \<Rightarrow> take i text);
          port = (case sep of None \<Rightarrow> None | Some i \<Rightarrow> to_number (drop (i + 1) text));
          bad = Inl (PlainError (''REDIS_CLUSTER_NODES: '' @ CHR 0x22 # text @ CHR 0x22 # '' is not host:port with a valid port''))
      in case port of
           None \<Rightarrow> bad
         | Some p \<Rightarrow> if host = [] \<or> of_int \<lfloor>p\<rfloor> \<noteq> p \<or> p < 1 \<or> p > 65535 then bad else Inr (host, \<lfloor>p\<rfloor>))"

fun parse_nodes :: "string list \<Rightarrow> js_error + (string \<times> int) list" where
  "parse_nodes [] = Inr []"
| "parse_nodes (entry # entries) =
     (case parse_node entry of
        Inl e \<Rightarrow> Inl e
      | Inr n \<Rightarrow> (case parse_nodes entries of Inl e \<Rightarrow> Inl e | Inr ns \<Rightarrow> Inr (n # ns)))"

definition parseClusterNodes :: "string option \<Rightarrow> js_error + (string \<times> int) list" where
  "parseClusterNodes raw =
     (case raw of
        None \<Rightarrow> Inr []
      | Some r \<Rightarrow> if r = [] \<or> trim r = [] then Inr [] else parse_nodes (split_at CHR '','' r))"

section \<open>The configuration\<close>

record redis_settings =
  rs_host :: string
  rs_port :: "int option"
  rs_password :: "string option"
  rs_db :: "int option"
  rs_maxRetries :: "int option"
  rs_retryDelay :: "int option"
  rs_clusterNodes :: "(string \<times> int) list"

record postgres_settings =
  ps_host :: string
  ps_port :: "int option"
  ps_database :: string
  ps_user :: string
  ps_password :: string
  ps_maxConnections :: "int option"
  ps_idleTimeout :: "int option"

record RateLimiterConfig =
  cfg_redis :: redis_settings
  cfg_postgres :: postgres_settings
  cfg_server_port :: "int option"
  cfg_server_host :: string
  cfg_server_env :: string
  cfg_default_algorithm :: string
  cfg_default_limit :: "int option"
  cfg_default_windowSeconds :: "int option"
  cfg_controlPlaneKey :: "string option"
  cfg_monitoring :: bool
  cfg_failure_rateLimit :: string
  cfg_failure_admission :: string
  cfg_log_level :: string
  cfg_log_format :: string

type_synonym environment = "string \<Rightarrow> string option"

text \<open>\<^verbatim>\<open>process.env.NAME || d\<close>, and its number.\<close>

definition env_or :: "environment \<Rightarrow> string \<Rightarrow> string \<Rightarrow> string" where
  "env_or env name d = (case env name of Some (c # cs) \<Rightarrow> c # cs | _ \<Rightarrow> d)"

definition env_int :: "environment \<Rightarrow> string \<Rightarrow> string \<Rightarrow> int option" where
  "env_int env name d = parse_int (env_or env name d)"

definition redis_settings_of :: "environment \<Rightarrow> (string \<times> int) list \<Rightarrow> redis_settings" where
  "redis_settings_of env nodes =
     \<lparr>rs_host = env_or env ''REDIS_HOST'' ''localhost'', rs_port = env_int env ''REDIS_PORT'' ''6379'',
      rs_password = env ''REDIS_PASSWORD'', rs_db = env_int env ''REDIS_DB'' ''0'',
      rs_maxRetries = env_int env ''REDIS_MAX_RETRIES'' ''3'', rs_retryDelay = env_int env ''REDIS_RETRY_DELAY'' ''100'',
      rs_clusterNodes = nodes\<rparr>"

definition postgres_settings_of :: "environment \<Rightarrow> postgres_settings" where
  "postgres_settings_of env =
     \<lparr>ps_host = env_or env ''POSTGRES_HOST'' ''localhost'', ps_port = env_int env ''POSTGRES_PORT'' ''5432'',
      ps_database = env_or env ''POSTGRES_DB'' ''rate_limiter'', ps_user = env_or env ''POSTGRES_USER'' ''postgres'',
      ps_password = env_or env ''POSTGRES_PASSWORD'' ''postgres'',
      ps_maxConnections = env_int env ''POSTGRES_MAX_CONNECTIONS'' ''20'',
      ps_idleTimeout = env_int env ''POSTGRES_IDLE_TIMEOUT'' ''30000''\<rparr>"

definition load_config :: "environment \<Rightarrow> js_error + RateLimiterConfig" where
  "load_config env =
     (case parseClusterNodes (env ''REDIS_CLUSTER_NODES'') of
        Inl e \<Rightarrow> Inl e
      | Inr nodes \<Rightarrow> Inr
          \<lparr>cfg_redis = redis_settings_of env nodes, cfg_postgres = postgres_settings_of env,
           cfg_server_port = env_int env ''PORT'' ''3000'', cfg_server_host = env_or env ''HOST'' ''0.0.0.0'',
           cfg_server_env = env_or env ''NODE_ENV'' ''development'',
           cfg_default_algorithm = env_or env ''DEFAULT_ALGORITHM'' ''token_bucket'',
           cfg_default_limit = env_int env ''DEFAULT_RATE_LIMIT'' ''1000'',
           cfg_default_windowSeconds = env_int env ''DEFAULT_WINDOW_SECONDS'' ''60'',
           cfg_controlPlaneKey = (case env ''CONTROL_PLANE_API_KEY'' of Some (c # cs) \<Rightarrow> Some (c # cs) | _ \<Rightarrow> None),
           cfg_monitoring = (env ''ENABLE_METRICS'' \<noteq> Some ''false''),
           cfg_failure_rateLimit = env_or env ''RATE_LIMIT_FAILURE_MODE'' ''fail_open'',
           cfg_failure_admission = env_or env ''ADMISSION_FAILURE_MODE'' ''fail_closed'',
           cfg_log_level = env_or env ''LOG_LEVEL'' ''info'', cfg_log_format = env_or env ''LOG_FORMAT'' ''json''\<rparr>)"

text \<open>The parts of it that the other components read.\<close>

definition control_of :: "RateLimiterConfig \<Rightarrow> control_config" where
  "control_of config = \<lparr>controlPlaneKey = cfg_controlPlaneKey config, server_env = cfg_server_env config\<rparr>"

section \<open>Seeds read back, and none is skipped\<close>

fun node_text :: "string \<times> int \<Rightarrow> string" where
  "node_text (host, port) = host @ CHR '':'' # string_of_int port"

definition node_ok :: "string \<times> int \<Rightarrow> bool" where
  "node_ok n = (case n of (host, port) \<Rightarrow> host \<noteq> [] \<and> \<not> js_space (hd host) \<and> CHR '','' \<notin> set host \<and> 1 \<le> port \<and> port \<le> 65535)"

lemma lastIndexOf_append: "CHR '':'' \<notin> set t \<Longrightarrow> lastIndexOf CHR '':'' (s @ CHR '':'' # t) = Some (length s)"
proof -
  assume "CHR '':'' \<notin> set t"
  then have "dropWhile (\<lambda>x. x \<noteq> CHR '':'') (rev t @ CHR '':'' # rev s) = CHR '':'' # rev s"
    by (subst dropWhile_append2) auto
  then show ?thesis by (simp add: lastIndexOf_def)
qed

lemma port_text:
  assumes "1 \<le> port" "port \<le> 65535"
  shows "string_of_int port = string_of_nat (nat port)" "to_number (string_of_int port) = Some (of_int port)"
proof -
  show digits: "string_of_int port = string_of_nat (nat port)" using assms by (simp add: string_of_int_def)
  have "dbl (of_int port) = of_int port" using assms by (intro dbl_of_int) auto
  then show "to_number (string_of_int port) = Some (of_int port)" using assms to_number_of_nat[of "nat port"] digits by simp
qed

lemma not_in_port: "\<not> digit_char c \<Longrightarrow> 1 \<le> port \<Longrightarrow> c \<notin> set (string_of_int port)"
  using string_of_nat_digits[of "nat port"] by (auto simp: string_of_int_def)

lemma colon_comma: "\<not> digit_char CHR '':''" "\<not> digit_char CHR '',''"
  by (simp_all add: digit_char_def)

lemma parse_node_text: "node_ok n \<Longrightarrow> parse_node (node_text n) = Inr n"
proof -
  assume ok: "node_ok n"
  obtain host port where n: "n = (host, port)" by (cases n)
  have p: "1 \<le> port" "port \<le> 65535" and h: "host \<noteq> []" "\<not> js_space (hd host)" using ok by (simp_all add: n node_ok_def)
  let ?digits = "string_of_int port"
  have "last ?digits \<in> set ?digits" "?digits \<noteq> []" using port_text(1)[OF p] by simp_all
  then have ending: "\<not> js_space (last ?digits)" using string_of_nat_ends(2)[of "nat port"] port_text(1)[OF p] by (simp add: digit_not_space)
  have trim: "trim (host @ CHR '':'' # ?digits) = host @ CHR '':'' # ?digits"
    using h ending \<open>?digits \<noteq> []\<close> by (intro trim_id) simp_all
  have at: "lastIndexOf CHR '':'' (host @ CHR '':'' # ?digits) = Some (length host)"
    by (rule lastIndexOf_append[OF not_in_port[OF colon_comma(1) p(1)]])
  show ?thesis using p h(1) by (simp add: n parse_node_def Let_def trim at port_text(2)[OF p])
qed

lemma parse_nodes_texts: "\<forall>n \<in> set ns. node_ok n \<Longrightarrow> parse_nodes (map node_text ns) = Inr ns"
  by (induction ns) (simp_all add: parse_node_text)

lemma node_text_plain: "node_ok n \<Longrightarrow> CHR '','' \<notin> set (node_text n)"
  using not_in_port[OF colon_comma(2)] by (cases n) (auto simp: node_ok_def)

lemma split_join: "ts \<noteq> [] \<Longrightarrow> \<forall>t \<in> set ts. CHR '','' \<notin> set t \<Longrightarrow> split_at CHR '','' (join '','' ts) = ts"
proof (induction ts)
  case (Cons t ts)
  then show ?case by (cases ts) (auto simp: split_at_plain split_at_append)
qed simp

lemma parse_node_ok: "parse_node entry = Inr (host, port) \<Longrightarrow> host \<noteq> [] \<and> 1 \<le> port \<and> port \<le> 65535"
  by (auto simp: parse_node_def Let_def le_floor_iff floor_le_iff split: option.splits if_splits)

lemma parse_nodes_ok: "parse_nodes entries = Inr ns \<Longrightarrow>
    length ns = length entries \<and> (\<forall>(host, port) \<in> set ns. host \<noteq> [] \<and> 1 \<le> port \<and> port \<le> 65535)"
proof (induction entries arbitrary: ns)
  case (Cons entry entries)
  then show ?case by (auto split: sum.splits dest: parse_node_ok)
qed simp

text \<open>
  The seeds of the cluster read back: the nodes listed with commas, whose hosts may contain colons,
  are the nodes of the client. And none is ever skipped: where the configuration loads at all, it
  has as many seeds as the variable has entries, each with a host and a port from 1 to 65535, and
  none exactly where the variable is blank.
\<close>

theorem cluster_nodes_read_back:
  "(nodes \<noteq> [] \<and> (\<forall>n \<in> set nodes. node_ok n) \<longrightarrow> parseClusterNodes (Some (join '','' (map node_text nodes))) = Inr nodes)
   \<and> (\<forall>raw ns. parseClusterNodes (Some raw) = Inr ns \<longrightarrow>
        length ns = (if trim raw = [] then 0 else length (split_at CHR '','' raw))
        \<and> (\<forall>(host, port) \<in> set ns. host \<noteq> [] \<and> 1 \<le> port \<and> port \<le> 65535))"
proof (intro conjI allI impI)
  assume ns: "nodes \<noteq> [] \<and> (\<forall>n \<in> set nodes. node_ok n)"
  let ?raw = "join '','' (map node_text nodes)"
  have split: "split_at CHR '','' ?raw = map node_text nodes"
    using ns node_text_plain by (intro split_join) auto
  obtain n rest where nodes: "nodes = n # rest" using ns by (cases nodes) auto
  obtain host port where n: "n = (host, port)" by (cases n)
  obtain c cs where host: "host = c # cs" "\<not> js_space c" using ns by (cases host) (auto simp: nodes n node_ok_def)
  have raw: "\<exists>t. ?raw = c # t" by (cases rest) (simp_all add: nodes n host)
  then have "?raw \<noteq> []" "trim ?raw \<noteq> []" using host(2) by (auto simp: trim_def)
  then show "parseClusterNodes (Some ?raw) = Inr nodes"
    using ns by (simp add: parseClusterNodes_def split parse_nodes_texts)
qed (auto simp: parseClusterNodes_def trim_def split: if_splits dest: parse_nodes_ok)

theorem cluster_nodes_read_back_witness:
  "parseClusterNodes (Some (join '','' (map node_text [(''::1'', 6379), (''b'', 7000)]))) = Inr [(''::1'', 6379), (''b'', 7000)]"
  using cluster_nodes_read_back[of "[(''::1'', 6379), (''b'', 7000)]"] by (simp add: node_ok_def js_space_def Let_def)

end
