(* ===== verification/Redis.thy ===== *)
theory Redis
  imports Floats "HOL-Library.Product_Lexorder" "HOL-Library.List_Lexorder" "HOL-Library.Char_ord"
    "HOL-Library.AList" "HOL-Library.Multiset"
begin

text \<open>
  The interface between the program and Redis. Redis is not part of the repository, so the
  scripts take it as a parameter: \<open>call\<close>, which sends one command to a server in state
  \<open>'s\<close>, and \<open>elapse\<close>, the passing of time on the server. What the program relies on is
  the documented effect of each command on the keyspace; it is written out as
  \<open>redis_doc\<close> and \<open>expire_after\<close>, and the locale \<open>redis_server\<close> assumes that some view
  of the server's state follows it. Redis runs a script to completion before it serves
  another command and its clock stands still meanwhile, so a script is a sequence of calls
  with no time passing between them.

  Text values are numbers here, because the program stores nothing else under \<open>SET\<close>; a
  value is the number its text denotes. Scores and counts are whole milliseconds and
  whole numbers.
\<close>

section \<open>Commands, replies and the keyspace\<close>

datatype redis_cmd =
    GET key
  | SET key rat int \<comment> \<open>\<open>SET key value EX seconds\<close>\<close>
  | INCR key
  | DEL "key list"
  | PEXPIRE key int
  | EXPIRE key int
  | ZADD key int string
  | ZREM key string
  | ZREMRANGEBYSCORE key int int
  | ZCARD key
  | ZCOUNT key int \<comment> \<open>\<open>ZCOUNT key -inf max\<close>\<close>
  | ZRANGE key nat nat \<comment> \<open>\<open>WITHSCORES\<close>\<close>
  | ZRANGEBYSCORE key int nat \<comment> \<open>\<open>ZRANGEBYSCORE key -inf max LIMIT 0 n\<close>\<close>
  | HGET key string
  | HSET key string rat
  | HDEL key string
  | TTL key
  | PTTL key

datatype redis_reply =
    NilReply
  | Status
  | NumText rat
  | Count int
  | Members "string list"
  | Scored "(int \<times> string) list"

datatype rvalue = Str rat | ZSet "(int \<times> string) list" | Hash "(string \<times> rat) list"

text \<open>A key is absent, or holds a value and, if volatile, its remaining life in milliseconds.\<close>

type_synonym keyspace = "key \<Rightarrow> (rvalue \<times> int option) option"
type_synonym 's redis = "redis_cmd \<Rightarrow> ('s, redis_reply) state"

definition str_at :: "keyspace \<Rightarrow> key \<Rightarrow> rat option" where
  "str_at ks k = (case ks k of Some (Str v, _) \<Rightarrow> Some v | _ \<Rightarrow> None)"

definition zset_at :: "keyspace \<Rightarrow> key \<Rightarrow> (int \<times> string) list" where
  "zset_at ks k = (case ks k of Some (ZSet l, _) \<Rightarrow> l | _ \<Rightarrow> [])"

definition hash_at :: "keyspace \<Rightarrow> key \<Rightarrow> (string \<times> rat) list" where
  "hash_at ks k = (case ks k of Some (Hash h, _) \<Rightarrow> h | _ \<Rightarrow> [])"

definition ttl_at :: "keyspace \<Rightarrow> key \<Rightarrow> int option" where
  "ttl_at ks k = (case ks k of Some (_, t) \<Rightarrow> t | None \<Rightarrow> None)"

text \<open>A sorted set or a hash that becomes empty is removed with its expiry.\<close>

definition put_zset :: "keyspace \<Rightarrow> key \<Rightarrow> (int \<times> string) list \<Rightarrow> keyspace" where
  "put_zset ks k l = ks(k := (if l = [] then None else Some (ZSet l, ttl_at ks k)))"

definition put_hash :: "keyspace \<Rightarrow> key \<Rightarrow> (string \<times> rat) list \<Rightarrow> keyspace" where
  "put_hash ks k h = ks(k := (if h = [] then None else Some (Hash h, ttl_at ks k)))"

definition put_ttl :: "keyspace \<Rightarrow> key \<Rightarrow> int \<Rightarrow> keyspace" where
  "put_ttl ks k ms =
     (case ks k of None \<Rightarrow> ks
      | Some (v, _) \<Rightarrow> ks(k := (if ms \<le> 0 then None else Some (v, Some ms))))"

text \<open>Sorted sets are ordered by score and then by member, and a member occurs once.\<close>

definition zinsert :: "int \<Rightarrow> string \<Rightarrow> (int \<times> string) list \<Rightarrow> (int \<times> string) list" where
  "zinsert sc m l = insort (sc, m) (filter (\<lambda>e. snd e \<noteq> m) l)"

section \<open>The documented effect of each command\<close>

fun redis_doc :: "redis_cmd \<Rightarrow> keyspace \<Rightarrow> redis_reply \<times> keyspace" where
  "redis_doc (GET k) ks = ((case str_at ks k of Some v \<Rightarrow> NumText v | None \<Rightarrow> NilReply), ks)"
| "redis_doc (SET k v ex) ks = (Status, ks(k := Some (Str v, Some (1000 * ex))))"
| "redis_doc (INCR k) ks =
     (let n = \<lfloor>case str_at ks k of Some v \<Rightarrow> v | None \<Rightarrow> 0\<rfloor> + 1
      in (Count n, ks(k := Some (Str (of_int n), ttl_at ks k))))"
| "redis_doc (DEL dels) ks =
     (Count (int (length (filter (\<lambda>k. ks k \<noteq> None) (remdups dels)))),
      (\<lambda>k. if k \<in> set dels then None else ks k))"
| "redis_doc (PEXPIRE k ms) ks = (Count (if ks k = None then 0 else 1), put_ttl ks k ms)"
| "redis_doc (EXPIRE k s) ks = (Count (if ks k = None then 0 else 1), put_ttl ks k (1000 * s))"
| "redis_doc (ZADD k sc m) ks =
     (Count (if m \<in> set (map snd (zset_at ks k)) then 0 else 1),
      put_zset ks k (zinsert sc m (zset_at ks k)))"
| "redis_doc (ZREM k m) ks =
     (Count (if m \<in> set (map snd (zset_at ks k)) then 1 else 0),
      put_zset ks k (filter (\<lambda>e. snd e \<noteq> m) (zset_at ks k)))"
| "redis_doc (ZREMRANGEBYSCORE k lo hi) ks =
     (Count (int (length (filter (\<lambda>e. lo \<le> fst e \<and> fst e \<le> hi) (zset_at ks k)))),
      put_zset ks k (filter (\<lambda>e. \<not> (lo \<le> fst e \<and> fst e \<le> hi)) (zset_at ks k)))"
| "redis_doc (ZCARD k) ks = (Count (int (length (zset_at ks k))), ks)"
| "redis_doc (ZCOUNT k hi) ks =
     (Count (int (length (filter (\<lambda>e. fst e \<le> hi) (zset_at ks k)))), ks)"
| "redis_doc (ZRANGE k i j) ks = (Scored (take (Suc j - i) (drop i (zset_at ks k))), ks)"
| "redis_doc (ZRANGEBYSCORE k hi n) ks =
     (Members (map snd (take n (filter (\<lambda>e. fst e \<le> hi) (zset_at ks k)))), ks)"
| "redis_doc (HGET k f) ks =
     ((case map_of (hash_at ks k) f of Some v \<Rightarrow> NumText v | None \<Rightarrow> NilReply), ks)"
| "redis_doc (HSET k f v) ks =
     (Count (if map_of (hash_at ks k) f = None then 1 else 0),
      put_hash ks k (AList.update f v (hash_at ks k)))"
| "redis_doc (HDEL k f) ks =
     (Count (if map_of (hash_at ks k) f = None then 0 else 1),
      put_hash ks k (AList.delete f (hash_at ks k)))"
| "redis_doc (TTL k) ks =
     (Count (if ks k = None then -2
             else case ttl_at ks k of None \<Rightarrow> -1 | Some ms \<Rightarrow> (ms + 500) div 1000), ks)"
| "redis_doc (PTTL k) ks =
     (Count (if ks k = None then -2 else case ttl_at ks k of None \<Rightarrow> -1 | Some ms \<Rightarrow> ms), ks)"

text \<open>Time passing on the server: a volatile key is gone when its life has run out.\<close>

definition expire_after :: "nat \<Rightarrow> keyspace \<Rightarrow> keyspace" where
  "expire_after d ks =
     (\<lambda>k. case ks k of
            Some (v, Some ms) \<Rightarrow> if ms \<le> int d then None else Some (v, Some (ms - int d))
          | e \<Rightarrow> e)"

definition doc_call :: "keyspace redis" where
  "doc_call c = State (redis_doc c)"

section \<open>Reading replies as the Lua code does\<close>

definition tonumber :: "redis_reply \<Rightarrow> rat option" where
  "tonumber r = (case r of NumText v \<Rightarrow> Some (dbl v) | Count n \<Rightarrow> Some (of_int n) | _ \<Rightarrow> None)"

text \<open>\<^verbatim>\<open>tonumber(r) or d\<close>.\<close>

definition number_or :: "redis_reply \<Rightarrow> rat \<Rightarrow> rat" where
  "number_or r d = (case tonumber r of Some v \<Rightarrow> v | None \<Rightarrow> d)"

definition count_of :: "redis_reply \<Rightarrow> int" where
  "count_of r = (case r of Count n \<Rightarrow> n | _ \<Rightarrow> 0)"

definition members_of :: "redis_reply \<Rightarrow> string list" where
  "members_of r = (case r of Members ms \<Rightarrow> ms | _ \<Rightarrow> [])"

definition scored_of :: "redis_reply \<Rightarrow> (int \<times> string) list" where
  "scored_of r = (case r of Scored l \<Rightarrow> l | _ \<Rightarrow> [])"

lemma tonumber_simps [simp]:
  "tonumber NilReply = None" "tonumber (NumText v) = Some (dbl v)"
  "tonumber (Count n) = Some (of_int n)"
  by (simp_all add: tonumber_def)

lemma count_of_Count [simp]: "count_of (Count n) = n"
  by (simp add: count_of_def)

lemma members_of_Members [simp]: "members_of (Members ms) = ms"
  by (simp add: members_of_def)

lemma scored_of_Scored [simp]: "scored_of (Scored l) = l"
  by (simp add: scored_of_def)

lemma run_doc_call [simp]: "run_state (doc_call c) ks = redis_doc c ks"
  by (simp add: doc_call_def)

lemma tonumber_get [simp]:
  "tonumber (case x of None \<Rightarrow> NilReply | Some v \<Rightarrow> NumText v) = map_option dbl x"
  by (cases x) auto

lemma number_or_simps [simp]:
  "number_or NilReply d = d" "number_or (NumText v) d = dbl v" "number_or (Count n) d = of_int n"
  by (simp_all add: number_or_def)

lemma number_or_get [simp]:
  "number_or (case x of None \<Rightarrow> NilReply | Some v \<Rightarrow> NumText v) d = (case x of None \<Rightarrow> d | Some v \<Rightarrow> dbl v)"
  by (cases x) (auto simp: number_or_def)

section \<open>What a write leaves at each key\<close>

lemma str_at_upd [simp]:
  "str_at (ks(k := e)) k' =
     (if k' = k then (case e of Some (Str v, _) \<Rightarrow> Some v | _ \<Rightarrow> None) else str_at ks k')"
  by (simp add: str_at_def)

lemma zset_at_upd [simp]:
  "zset_at (ks(k := e)) k' =
     (if k' = k then (case e of Some (ZSet l, _) \<Rightarrow> l | _ \<Rightarrow> []) else zset_at ks k')"
  by (simp add: zset_at_def)

lemma hash_at_upd [simp]:
  "hash_at (ks(k := e)) k' =
     (if k' = k then (case e of Some (Hash h, _) \<Rightarrow> h | _ \<Rightarrow> []) else hash_at ks k')"
  by (simp add: hash_at_def)

lemma ttl_at_upd [simp]:
  "ttl_at (ks(k := e)) k' =
     (if k' = k then (case e of Some (_, t) \<Rightarrow> t | None \<Rightarrow> None) else ttl_at ks k')"
  by (simp add: ttl_at_def)

lemma at_put_zset [simp]:
  "str_at (put_zset ks k l) k' = (if k' = k then None else str_at ks k')"
  "zset_at (put_zset ks k l) k' = (if k' = k then l else zset_at ks k')"
  "hash_at (put_zset ks k l) k' = (if k' = k then [] else hash_at ks k')"
  "ttl_at (put_zset ks k l) k' = (if k' = k \<and> l = [] then None else ttl_at ks k')"
  by (simp_all add: put_zset_def ttl_at_def)

lemma at_put_hash [simp]:
  "str_at (put_hash ks k h) k' = (if k' = k then None else str_at ks k')"
  "zset_at (put_hash ks k h) k' = (if k' = k then [] else zset_at ks k')"
  "hash_at (put_hash ks k h) k' = (if k' = k then h else hash_at ks k')"
  "ttl_at (put_hash ks k h) k' = (if k' = k \<and> h = [] then None else ttl_at ks k')"
  by (simp_all add: put_hash_def ttl_at_def)

lemma at_put_ttl [simp]:
  "str_at (put_ttl ks k ms) k' = (if k' = k \<and> ms \<le> 0 then None else str_at ks k')"
  "zset_at (put_ttl ks k ms) k' = (if k' = k \<and> ms \<le> 0 then [] else zset_at ks k')"
  "hash_at (put_ttl ks k ms) k' = (if k' = k \<and> ms \<le> 0 then [] else hash_at ks k')"
  "ttl_at (put_ttl ks k ms) k' =
     (if k' = k then (if ks k = None \<or> ms \<le> 0 then None else Some ms) else ttl_at ks k')"
  by (auto simp: put_ttl_def str_at_def zset_at_def hash_at_def ttl_at_def split: option.splits)

lemma put_other [simp]:
  "k' \<noteq> k \<Longrightarrow> put_ttl ks k ms k' = ks k'" "k' \<noteq> k \<Longrightarrow> put_zset ks k l k' = ks k'"
  "k' \<noteq> k \<Longrightarrow> put_hash ks k h k' = ks k'"
  by (auto simp: put_ttl_def put_zset_def put_hash_def split: option.splits)

lemma at_del [simp]:
  "str_at (\<lambda>k. if k \<in> D then None else ks k) k' = (if k' \<in> D then None else str_at ks k')"
  "zset_at (\<lambda>k. if k \<in> D then None else ks k) k' = (if k' \<in> D then [] else zset_at ks k')"
  "hash_at (\<lambda>k. if k \<in> D then None else ks k) k' = (if k' \<in> D then [] else hash_at ks k')"
  by (simp_all add: str_at_def zset_at_def hash_at_def)

lemma at_expire_after [simp]:
  "str_at (expire_after d ks) k =
     (case ttl_at ks k of Some t \<Rightarrow> if t \<le> int d then None else str_at ks k | None \<Rightarrow> str_at ks k)"
  "zset_at (expire_after d ks) k =
     (case ttl_at ks k of Some t \<Rightarrow> if t \<le> int d then [] else zset_at ks k | None \<Rightarrow> zset_at ks k)"
  "hash_at (expire_after d ks) k =
     (case ttl_at ks k of Some t \<Rightarrow> if t \<le> int d then [] else hash_at ks k | None \<Rightarrow> hash_at ks k)"
  by (auto simp: expire_after_def str_at_def zset_at_def hash_at_def ttl_at_def
      split: option.splits rvalue.splits)

text \<open>Members, scores and order of a sorted set.\<close>

definition wf_zset :: "(int \<times> string) list \<Rightarrow> bool" where
  "wf_zset l \<longleftrightarrow> sorted l \<and> distinct (map snd l)"

lemma wf_zset_Nil [simp]: "wf_zset []"
  by (simp add: wf_zset_def)

lemma wf_zset_filter [simp, intro]: "wf_zset l \<Longrightarrow> wf_zset (filter P l)"
  using sorted_filter[of "\<lambda>x. x" l P] by (simp add: wf_zset_def distinct_map_filter)

lemma set_zinsert [simp]: "set (zinsert sc m l) = insert (sc, m) {e \<in> set l. snd e \<noteq> m}"
  by (simp add: zinsert_def set_insort_key)

lemma zinsert_not_Nil [simp]: "zinsert sc m l \<noteq> []"
  by (simp add: zinsert_def insort_not_Nil)

lemma length_zinsert_fresh: "m \<notin> snd ` set l \<Longrightarrow> length (zinsert sc m l) = Suc (length l)"
proof -
  assume m: "m \<notin> snd ` set l"
  then have "filter (\<lambda>e. snd e \<noteq> m) l = l" by (auto simp: filter_id_conv)
  then show ?thesis by (simp add: zinsert_def)
qed

lemma wf_zset_zinsert [simp, intro]: "wf_zset l \<Longrightarrow> wf_zset (zinsert sc m l)"
proof -
  assume wf: "wf_zset l"
  let ?l = "filter (\<lambda>e. snd e \<noteq> m) l"
  have "mset (map snd (zinsert sc m l)) = mset (m # map snd ?l)"
    by (simp add: zinsert_def mset_map)
  then have "distinct (map snd (zinsert sc m l)) = distinct (m # map snd ?l)"
    by (rule mset_eq_imp_distinct_iff)
  moreover have "distinct (m # map snd ?l)" using wf by (auto simp: wf_zset_def distinct_map_filter)
  moreover have "sorted ?l" using wf_zset_filter[OF wf] by (simp add: wf_zset_def)
  ultimately show ?thesis by (simp add: wf_zset_def zinsert_def sorted_insort)
qed

section \<open>Frames\<close>

text \<open>The keys a command may change, and programs that change no key outside a set.\<close>

fun cmd_writes :: "redis_cmd \<Rightarrow> key set" where
  "cmd_writes (SET k v ex) = {k}"
| "cmd_writes (INCR k) = {k}"
| "cmd_writes (DEL ks) = set ks"
| "cmd_writes (PEXPIRE k ms) = {k}"
| "cmd_writes (EXPIRE k s) = {k}"
| "cmd_writes (ZADD k sc m) = {k}"
| "cmd_writes (ZREM k m) = {k}"
| "cmd_writes (ZREMRANGEBYSCORE k lo hi) = {k}"
| "cmd_writes (HSET k f v) = {k}"
| "cmd_writes (HDEL k f) = {k}"
| "cmd_writes _ = {}"

lemma redis_doc_frame: "k \<notin> cmd_writes c \<Longrightarrow> snd (redis_doc c ks) k = ks k"
  by (cases c) (auto simp: put_zset_def put_hash_def put_ttl_def split: option.splits)

definition confined :: "key set \<Rightarrow> (keyspace, 'a) state \<Rightarrow> bool" where
  "confined K m \<longleftrightarrow> (\<forall>ks k. k \<notin> K \<longrightarrow> snd (run_state m ks) k = ks k)"

named_theorems frame_intros \<open>a program built from calls changes only the keys its calls name\<close>

lemma confinedD: "confined K m \<Longrightarrow> run_state m ks = (r, ks') \<Longrightarrow> k \<notin> K \<Longrightarrow> ks' k = ks k"
  by (metis confined_def snd_conv)

lemma confined_call [frame_intros]: "cmd_writes c \<subseteq> K \<Longrightarrow> confined K (doc_call c)"
  using redis_doc_frame[of _ c] by (auto simp: confined_def)

lemma confined_return [frame_intros]: "confined K (State_Monad.return x)"
  by (simp add: confined_def)

lemma confined_bind [frame_intros]:
  "confined K m \<Longrightarrow> (\<And>x. confined K (f x)) \<Longrightarrow> confined K (State_Monad.bind m f)"
  by (simp add: confined_def split_beta)

lemma confined_if [frame_intros]:
  "(b \<Longrightarrow> confined K m) \<Longrightarrow> (\<not> b \<Longrightarrow> confined K n) \<Longrightarrow> confined K (if b then m else n)"
  by simp

lemma confined_let [frame_intros]: "(\<And>x. confined K (f x)) \<Longrightarrow> confined K (let x = e in f x)"
  by simp

lemma confined_prod [frame_intros]: "(\<And>a b. confined K (f a b)) \<Longrightarrow> confined K (case p of (a, b) \<Rightarrow> f a b)"
  by (cases p) simp

lemma confined_option [frame_intros]:
  "confined K m \<Longrightarrow> (\<And>a. confined K (f a)) \<Longrightarrow> confined K (case x of None \<Rightarrow> m | Some a \<Rightarrow> f a)"
  by (cases x) auto

section \<open>The interface\<close>

text \<open>
  A program over a server simulates the same program over another one when every run gives
  the same result and matching states.
\<close>

definition simulates :: "('s \<Rightarrow> 't) \<Rightarrow> ('s, 'a) state \<Rightarrow> ('t, 'a) state \<Rightarrow> bool" where
  "simulates view m m' \<longleftrightarrow>
     (\<forall>s. run_state m' (view s) = (fst (run_state m s), view (snd (run_state m s))))"

named_theorems sim_intros \<open>a program built from calls simulates itself over the keyspace\<close>

lemma simulatesD:
  "simulates view m m' \<Longrightarrow> run_state m s = (r, s') \<Longrightarrow> run_state m' (view s) = (r, view s')"
  by (simp add: simulates_def)

lemma simulates_return [sim_intros]:
  "simulates view (State_Monad.return x) (State_Monad.return x)"
  by (simp add: simulates_def)

lemma simulates_bind [sim_intros]:
  "simulates view m m' \<Longrightarrow> (\<And>x. simulates view (f x) (f' x)) \<Longrightarrow>
     simulates view (State_Monad.bind m f) (State_Monad.bind m' f')"
  by (simp add: simulates_def split_beta)

lemma simulates_if [sim_intros]:
  "(b \<Longrightarrow> simulates view m m') \<Longrightarrow> (\<not> b \<Longrightarrow> simulates view n n') \<Longrightarrow>
     simulates view (if b then m else n) (if b then m' else n')"
  by simp

lemma simulates_let [sim_intros]:
  "(\<And>x. simulates view (f x) (f' x)) \<Longrightarrow> simulates view (let x = e in f x) (let x = e in f' x)"
  by simp

lemma simulates_prod [sim_intros]:
  "(\<And>a b. simulates view (f a b) (f' a b)) \<Longrightarrow>
     simulates view (case p of (a, b) \<Rightarrow> f a b) (case p of (a, b) \<Rightarrow> f' a b)"
  by (cases p) simp

lemma simulates_option [sim_intros]:
  "simulates view m m' \<Longrightarrow> (\<And>a. simulates view (f a) (f' a)) \<Longrightarrow>
     simulates view (case x of None \<Rightarrow> m | Some a \<Rightarrow> f a) (case x of None \<Rightarrow> m' | Some a \<Rightarrow> f' a)"
  by (cases x) auto

text \<open>
  The contract of a Redis server: every command acts on the keyspace the server shows, and
  replies, as documented; nothing but a command or the end of a key's life changes it.
\<close>

locale redis_server =
  fixes call :: "'s redis" and elapse :: "nat \<Rightarrow> 's \<Rightarrow> 's" and view :: "'s \<Rightarrow> keyspace"
  assumes call_documented:
      "run_state (call c) s = (r, s') \<Longrightarrow> redis_doc c (view s) = (r, view s')"
    and elapse_documented: "view (elapse d s) = expire_after d (view s)"
begin

lemma simulates_call [sim_intros]: "simulates view (call c) (doc_call c)"
  using call_documented by (simp add: simulates_def)

end

lemmas redis_server_sim = redis_server.simulates_call

lemma redis_server_elapse_sim:
  "redis_server call elapse view \<Longrightarrow>
     simulates view (State (\<lambda>s. ((), elapse d s))) (State (\<lambda>s. ((), expire_after d s)))"
  by (simp add: simulates_def redis_server.elapse_documented)

text \<open>The keyspace itself, with commands acting as documented, is such a server.\<close>

interpretation keyspace_server: redis_server doc_call expire_after id
  by unfold_locales auto

end
