(* ===== verification/Script_Runner.thy ===== *)
theory Script_Runner
  imports Redis Errors
begin

text \<open>
  \<^verbatim>\<open>src/algorithms/script-runner.ts\<close>: a script is run by the digest of its text, and its
  text is shipped only when the server answers that it does not have it.

  The Redis client is a parameter, a record of the calls the runner makes. A script is its
  text together with the program the text denotes, a state transformer of the server; the
  digest is computed from the text by the parameter \<open>sha1\<close>.
\<close>

record ('s, 'r) script_client =
  getClient :: "('s, js_error + unit) state" \<comment> \<open>\<^verbatim>\<open>redisService.getClient()\<close>, which may throw\<close>
  evalsha :: "string \<Rightarrow> ('s, 'r) state \<Rightarrow> ('s, js_error + 'r) state"
  eval_text :: "string \<Rightarrow> ('s, 'r) state \<Rightarrow> ('s, js_error + 'r) state"
  masters :: "('s, js_error + nat list) state" \<comment> \<open>\<^verbatim>\<open>redisService.masters()\<close>, by number\<close>
  script_load :: "nat \<Rightarrow> string \<Rightarrow> ('s, js_error + unit) state"
  recordRedisLatency :: "string \<Rightarrow> ('s, unit) state"

record ('s, 'r) redis_script =
  body :: string
  numKeys :: nat
  script_name :: string

definition isNoScriptError :: "js_error \<Rightarrow> bool" where
  "isNoScriptError e \<longleftrightarrow> str_includes (err_message e) ''NOSCRIPT''"

definition evalWithReload ::
    "(string \<Rightarrow> string) \<Rightarrow> ('s, 'r) script_client \<Rightarrow> ('s, 'r) redis_script \<Rightarrow> ('s, 'r) state \<Rightarrow>
     ('s, js_error + 'r) state" where
  "evalWithReload sha1 client script prog = State_Monad.bind
     (evalsha client (sha1 (body script)) prog)
     (\<lambda>r. case r of
            Inr v \<Rightarrow> js_return v
          | Inl e \<Rightarrow> if \<not> isNoScriptError e then js_throw e
                     else eval_text client (body script) prog)"

definition run_script ::
    "(string \<Rightarrow> string) \<Rightarrow> ('s, 'r) script_client \<Rightarrow> ('s, 'r) redis_script \<Rightarrow> key list \<Rightarrow>
     ('s, 'r) state \<Rightarrow> ('s, js_error + 'r) state" where
  "run_script sha1 client script keys prog =
     (if length keys \<noteq> numKeys script
      then js_throw (PlainError (script_name script @ '': expected '' @
             string_of_nat (numKeys script) @ '' keys, received '' @ string_of_nat (length keys)))
      else throwing (getClient client) (\<lambda>_. do {
             r \<leftarrow> evalWithReload sha1 client script prog;
             recordRedisLatency client (script_name script);
             State_Monad.return r
           }))"

text \<open>
  \<open>load\<close>: \<^verbatim>\<open>SCRIPT LOAD\<close> on every master. \<^verbatim>\<open>Promise.all\<close> starts all of them and
  rejects with the first rejection.
\<close>

fun load_on :: "('s, 'r) script_client \<Rightarrow> string \<Rightarrow> nat list \<Rightarrow> ('s, js_error + unit) state" where
  "load_on client text [] = js_return ()"
| "load_on client text (n # ns) = do {
     r \<leftarrow> script_load client n text;
     rest \<leftarrow> load_on client text ns;
     State_Monad.return (case r of Inl e \<Rightarrow> Inl e | Inr _ \<Rightarrow> rest)
   }"

definition load_script ::
    "('s, 'r) script_client \<Rightarrow> ('s, 'r) redis_script \<Rightarrow> ('s, js_error + unit) state" where
  "load_script client script =
     throwing (masters client) (\<lambda>ns. load_on client (body script) ns)"

section \<open>What the runner guarantees\<close>

lemma run_script_wrong_keys:
  "length keys \<noteq> numKeys script \<Longrightarrow>
     \<exists>m. run_state (run_script sha1 client script keys prog) s = (Inl (PlainError m), s)"
  by (simp add: run_script_def)

text \<open>Only \<^verbatim>\<open>NOSCRIPT\<close> leads to a second attempt; any other error reaches the caller.\<close>

lemma evalWithReload_propagates:
  "run_state (evalsha client (sha1 (body script)) prog) s = (Inl e, s') \<Longrightarrow>
     \<not> isNoScriptError e \<Longrightarrow>
     run_state (evalWithReload sha1 client script prog) s = (Inl e, s')"
  by (simp add: evalWithReload_def)

text \<open>A client that is not connected: no script reaches the server.\<close>

definition disconnected :: "('s, 'r) script_client \<Rightarrow> bool" where
  "disconnected client \<longleftrightarrow> (\<forall>s. run_state (getClient client) s = (Inl (RedisConnectionError ''Redis client not connected''), s))"

lemma run_script_disconnected:
  "disconnected client \<Longrightarrow> length ks = numKeys script \<Longrightarrow>
     run_state (run_script sha1 client script ks prog) s = (Inl (RedisConnectionError ''Redis client not connected''), s)"
  by (simp add: run_script_def disconnected_def)

text \<open>
  The contract of the script cache of a server: \<^verbatim>\<open>EVALSHA\<close> runs a script it has and
  answers \<^verbatim>\<open>NOSCRIPT\<close>, changing nothing, for one it does not; \<^verbatim>\<open>EVAL\<close> runs the script
  and caches it; neither the cache nor the latency histogram is part of the keyspace.
\<close>

locale script_server = redis_server call elapse view
  for call :: "'s redis" and elapse :: "nat \<Rightarrow> 's \<Rightarrow> 's" and view :: "'s \<Rightarrow> keyspace" +
  fixes sha1 :: "string \<Rightarrow> string" and client :: "('s, 'r) script_client"
    and cached :: "string \<Rightarrow> 's \<Rightarrow> bool"
  assumes connected: "run_state (getClient client) s = (Inr (), s)"
    and evalsha_cached: "cached (sha1 t) s \<Longrightarrow> simulates view prog prog' \<Longrightarrow>
      \<exists>s'. run_state (evalsha client (sha1 t) prog) s = (Inr (fst (run_state prog' (view s))), s') \<and>
           view s' = snd (run_state prog' (view s)) \<and> cached (sha1 t) s'"
    and evalsha_missing: "\<not> cached (sha1 t) s \<Longrightarrow>
      \<exists>m. run_state (evalsha client (sha1 t) prog) s = (Inl (DriverError (''NOSCRIPT'' @ m) None), s)"
    and eval_documented: "simulates view prog prog' \<Longrightarrow>
      \<exists>s'. run_state (eval_text client t prog) s = (Inr (fst (run_state prog' (view s))), s') \<and>
           view s' = snd (run_state prog' (view s)) \<and> cached (sha1 t) s'"
    and latency_view: "run_state (recordRedisLatency client n) s = ((), s') \<Longrightarrow>
      view s' = view s \<and> cached d s' = cached d s"
begin

lemma evalWithReload_runs:
  assumes sim: "simulates view prog prog'"
  shows "\<exists>s'. run_state (evalWithReload sha1 client script prog) s
                = (Inr (fst (run_state prog' (view s))), s') \<and>
              view s' = snd (run_state prog' (view s)) \<and> cached (sha1 (body script)) s'"
proof (cases "cached (sha1 (body script)) s")
  case True
  from evalsha_cached[OF True sim] show ?thesis by (auto simp: evalWithReload_def)
next
  case False
  from evalsha_missing[OF False] obtain m where
    m: "run_state (evalsha client (sha1 (body script)) prog) s = (Inl (DriverError (''NOSCRIPT'' @ m) None), s)"
    by blast
  have "isNoScriptError (DriverError (''NOSCRIPT'' @ m) None)"
    by (auto simp: isNoScriptError_def intro!: includes_prefix)
  with m show ?thesis using eval_documented[OF sim] by (simp add: evalWithReload_def)
qed

lemma run_script_runs:
  assumes sim: "simulates view prog prog'" and keys: "length keys = numKeys script"
  shows "\<exists>s'. run_state (run_script sha1 client script keys prog) s
                = (Inr (fst (run_state prog' (view s))), s') \<and>
              view s' = snd (run_state prog' (view s)) \<and> cached (sha1 (body script)) s'"
proof -
  obtain s1 where s1: "run_state (evalWithReload sha1 client script prog) s
      = (Inr (fst (run_state prog' (view s))), s1)"
    "view s1 = snd (run_state prog' (view s))" "cached (sha1 (body script)) s1"
    using evalWithReload_runs[OF sim] by blast
  obtain s2 where s2: "run_state (recordRedisLatency client (script_name script)) s1 = ((), s2)"
    by (cases "run_state (recordRedisLatency client (script_name script)) s1") auto
  show ?thesis
    using latency_view[OF s2] by (simp add: run_script_def keys connected s1 s2)
qed

lemma run_script_then:
  assumes "simulates view prog prog'" and "length keys = numKeys script"
  shows "\<exists>s'. run_state (throwing (run_script sha1 client script keys prog) (\<lambda>reply. js_return (f reply))) s
                = (Inr (f (fst (run_state prog' (view s)))), s') \<and>
              view s' = snd (run_state prog' (view s))"
  using run_script_runs[OF assms, of s] by auto

end

text \<open>
  The documented server: the keyspace with a list of cached digests. It shows that the
  contract can be met.
\<close>

type_synonym doc_server = "keyspace \<times> string list"

definition server_call :: "doc_server redis" where
  "server_call c = State (\<lambda>(ks, cs). case redis_doc c ks of (r, ks') \<Rightarrow> (r, (ks', cs)))"

definition server_elapse :: "nat \<Rightarrow> doc_server \<Rightarrow> doc_server" where
  "server_elapse d s = (expire_after d (fst s), snd s)"

definition server_cached :: "string \<Rightarrow> doc_server \<Rightarrow> bool" where
  "server_cached d s \<longleftrightarrow> d \<in> set (snd s)"

definition server_client :: "(string \<Rightarrow> string) \<Rightarrow> (doc_server, 'r) script_client" where
  "server_client sha1 =
     \<lparr>getClient = js_return (),
      evalsha = (\<lambda>d prog. State (\<lambda>s.
        if server_cached d s
        then (case run_state prog s of (r, s') \<Rightarrow> (Inr r, (fst s', snd s)))
        else (Inl (DriverError ''NOSCRIPT No matching script.'' None), s))),
      eval_text = (\<lambda>t prog. State (\<lambda>s.
        case run_state prog s of (r, s') \<Rightarrow> (Inr r, (fst s', sha1 t # snd s)))),
      masters = js_return [0],
      script_load = (\<lambda>n t. State (\<lambda>s. (Inr (), (fst s, sha1 t # snd s)))),
      recordRedisLatency = (\<lambda>n. State_Monad.return ())\<rparr>"

interpretation doc_script_server:
  script_server server_call server_elapse fst sha1 "server_client sha1" server_cached for sha1
proof unfold_locales
  fix t s and prog :: "(doc_server, 'r) state" and prog' :: "(keyspace, 'r) state"
  assume "\<not> server_cached (sha1 t) s"
  then have "run_state (evalsha (server_client sha1) (sha1 t) prog) s
      = (Inl (DriverError (''NOSCRIPT'' @ '' No matching script.'') None), s)"
    by (simp add: server_client_def)
  then show "\<exists>m. run_state (evalsha (server_client sha1) (sha1 t) prog) s
      = (Inl (DriverError (''NOSCRIPT'' @ m) None), s)"
    by blast
qed (auto simp: server_call_def server_elapse_def server_client_def server_cached_def
       split: prod.splits dest!: simulatesD)

end
