(* ===== verification/Metered.thy ===== *)
theory Metered
  imports Prelude
begin

text \<open>
  Budgets as accounts. Every limiter of the program is a stock that operations draw on and
  time refills; the same argument bounds what a run of operations can draw. An operation is
  allowed only where its guard holds (a clock that does not step back, say).
\<close>

primrec run_ops :: "('o \<Rightarrow> 's \<Rightarrow> 's) \<Rightarrow> 'o list \<Rightarrow> 's \<Rightarrow> 's" where
  "run_ops step [] s = s"
| "run_ops step (e # es) s = run_ops step es (step e s)"

primrec total_ops :: "('o \<Rightarrow> 's \<Rightarrow> 's) \<Rightarrow> ('o \<Rightarrow> 's \<Rightarrow> rat) \<Rightarrow> 'o list \<Rightarrow> 's \<Rightarrow> rat" where
  "total_ops step f [] s = 0"
| "total_ops step f (e # es) s = f e s + total_ops step f es (step e s)"

primrec valid_ops :: "('o \<Rightarrow> 's \<Rightarrow> 's) \<Rightarrow> ('o \<Rightarrow> 's \<Rightarrow> bool) \<Rightarrow> 'o list \<Rightarrow> 's \<Rightarrow> bool" where
  "valid_ops step guard [] s = True"
| "valid_ops step guard (e # es) s = (guard e s \<and> valid_ops step guard es (step e s))"

locale guarded =
  fixes step :: "'o \<Rightarrow> 's \<Rightarrow> 's" and guard :: "'o \<Rightarrow> 's \<Rightarrow> bool" and inv :: "'s \<Rightarrow> bool"
  assumes inv_step: "inv s \<Longrightarrow> guard e s \<Longrightarrow> inv (step e s)"
begin

lemma inv_run: "inv s \<Longrightarrow> valid_ops step guard es s \<Longrightarrow> inv (run_ops step es s)"
  by (induction es arbitrary: s) (auto intro: inv_step)

end

locale metered = guarded step guard inv
  for step :: "'o \<Rightarrow> 's \<Rightarrow> 's" and guard :: "'o \<Rightarrow> 's \<Rightarrow> bool" and inv :: "'s \<Rightarrow> bool" +
  fixes charge :: "'o \<Rightarrow> 's \<Rightarrow> rat" and gain :: "'o \<Rightarrow> 's \<Rightarrow> rat" and stock :: "'s \<Rightarrow> rat"
  assumes balance: "inv s \<Longrightarrow> guard e s \<Longrightarrow> charge e s + stock (step e s) \<le> stock s + gain e s"
begin

lemma total_balance:
  "inv s \<Longrightarrow> valid_ops step guard es s \<Longrightarrow>
     total_ops step charge es s + stock (run_ops step es s) \<le> stock s + total_ops step gain es s"
proof (induction es arbitrary: s)
  case (Cons e es)
  then have g: "guard e s" and v: "valid_ops step guard es (step e s)" by auto
  have "total_ops step charge es (step e s) + stock (run_ops step es (step e s))
      \<le> stock (step e s) + total_ops step gain es (step e s)"
    by (rule Cons.IH[OF inv_step[OF Cons.prems(1) g] v])
  then show ?case using balance[OF Cons.prems(1) g] by simp
qed simp

end

locale metered_solvent = metered +
  assumes stock_nonneg: "inv s \<Longrightarrow> 0 \<le> stock s"
begin

lemma total_charge_bounded:
  "inv s \<Longrightarrow> valid_ops step guard es s \<Longrightarrow>
     total_ops step charge es s \<le> stock s + total_ops step gain es s"
  using total_balance[of s es] stock_nonneg[OF inv_run[of s es]] by simp

end

end
