(* ===== verification/Token_Bucket.thy ===== *)
theory Token_Bucket
  imports Script_Runner Rate_Types Metered
begin

text \<open>
  The token bucket: the script \<^verbatim>\<open>TOKEN_BUCKET_SCRIPT\<close> of \<^verbatim>\<open>src/scripts/lua-scripts.ts\<close> and
  the class of \<^verbatim>\<open>src/algorithms/token-bucket.ts\<close>. Balances are doubles, the clock is whole
  milliseconds of the gateway. The second part states the abstract bucket the script
  implements, and the bounds that make it a limiter.
\<close>

section \<open>The script\<close>

definition token_bucket_script ::
    "'s redis \<Rightarrow> key \<Rightarrow> key \<Rightarrow> rat \<Rightarrow> rat \<Rightarrow> int \<Rightarrow> rat \<Rightarrow> int \<Rightarrow> ('s, int \<times> int \<times> int \<times> int) state" where
  "token_bucket_script call tokens_key timestamp_key capacity refill_rate now requested ttl = do {
     current \<leftarrow> call (GET tokens_key);
     last_ts \<leftarrow> call (GET timestamp_key);
     let (current, last_ts) =
       (case (tonumber current, tonumber last_ts) of
          (Some c, Some l) \<Rightarrow> (c, l)
        | _ \<Rightarrow> (capacity, of_int now));
     let current = accrue current last_ts now refill_rate capacity;
     let (allowed, current, retry_after_ms) =
       (if requested \<le> current
        then (1, fsub current requested, 0)
        else (0, current, \<lceil>fmul (fdiv (fsub requested current) refill_rate) 1000\<rceil>));
     call (SET tokens_key (tostring current) ttl);
     call (SET timestamp_key (tostring (of_int now)) ttl);
     let reset_at = now + \<lceil>fmul (fdiv (fsub capacity current) refill_rate) 1000\<rceil>;
     State_Monad.return (allowed, \<lfloor>current\<rfloor>, reset_at, retry_after_ms)
   }"

section \<open>The class\<close>

definition token_bucket_keys :: "key \<Rightarrow> key \<times> key" where
  "token_bucket_keys k =
     (''rate_limit:token_bucket:'' @ k @ '':tokens'',
      ''rate_limit:token_bucket:'' @ k @ '':timestamp'')"

definition token_bucket :: "('s, int \<times> int \<times> int \<times> int) redis_script" where
  "token_bucket = \<lparr>body = ''TOKEN_BUCKET_SCRIPT'', numKeys = 2, script_name = ''token_bucket''\<rparr>"

definition token_bucket_ttl :: "int \<Rightarrow> int \<Rightarrow> int" where
  "token_bucket_ttl lmt windowSeconds =
     \<lceil>fdiv (of_int lmt) (fdiv (of_int lmt) (of_int windowSeconds))\<rceil> + 1"

definition token_bucket_check ::
    "(string \<Rightarrow> string) \<Rightarrow> ('s, int \<times> int \<times> int \<times> int) script_client \<Rightarrow> 's redis \<Rightarrow> int \<Rightarrow>
     key \<Rightarrow> int \<Rightarrow> int \<Rightarrow> int \<Rightarrow> ('s, js_error + RateLimitCheckResult) state" where
  "token_bucket_check sha1 client call now k lmt windowSeconds cost =
     (let refillRate = fdiv (of_int lmt) (of_int windowSeconds);
          ttl = token_bucket_ttl lmt windowSeconds;
          (tokens_key, timestamp_key) = token_bucket_keys k
      in throwing
           (run_script sha1 client token_bucket [tokens_key, timestamp_key]
              (token_bucket_script call tokens_key timestamp_key (of_int lmt) refillRate now
                 (of_int cost) ttl))
           (\<lambda>reply. js_return (check_result lmt reply (\<lambda>tokens. tokens))))"

definition token_bucket_reset :: "('s, 'r) script_client \<Rightarrow> 's redis \<Rightarrow> key \<Rightarrow> ('s, js_error + unit) state" where
  "token_bucket_reset client call k =
     (let (tokens_key, timestamp_key) = token_bucket_keys k
      in throwing (getClient client) (\<lambda>_. do {
           call (DEL [tokens_key, timestamp_key]);
           js_return ()
         }))"

definition token_bucket_getStats ::
    "('s, 'r) script_client \<Rightarrow> 's redis \<Rightarrow> int \<Rightarrow> key \<Rightarrow> ('s, js_error + LimiterStats option) state" where
  "token_bucket_getStats client call now k =
     (let (tokens_key, timestamp_key) = token_bucket_keys k
      in throwing (getClient client) (\<lambda>_. do {
           tokens \<leftarrow> call (GET tokens_key);
           ttl \<leftarrow> call (TTL tokens_key);
           js_return (case tonumber tokens of
               None \<Rightarrow> None
             | Some t \<Rightarrow> Some \<lparr>stat_count = \<lfloor>t\<rfloor>, stat_resetAt = now + max 0 (count_of ttl) * 1000\<rparr>)
         }))"

section \<open>The bucket the script implements\<close>

text \<open>What a check at time \<open>now\<close> finds in the bucket: a full one where nothing is stored.\<close>

definition bucket_level :: "keyspace \<Rightarrow> key \<Rightarrow> key \<Rightarrow> rat \<Rightarrow> rat \<Rightarrow> int \<Rightarrow> rat" where
  "bucket_level ks tk sk capacity rate now =
     (case (str_at ks tk, str_at ks sk) of
        (Some c, Some l) \<Rightarrow> accrue (dbl c) (dbl l) now rate capacity
      | _ \<Rightarrow> accrue capacity (of_int now) now rate capacity)"

definition bucket_after :: "rat \<Rightarrow> rat \<Rightarrow> rat" where
  "bucket_after level requested = (if requested \<le> level then fsub level requested else level)"

lemma token_bucket_script_sim [sim_intros]:
  assumes "redis_server call elapse view"
  shows "simulates view (token_bucket_script call tk sk capacity rate now requested ttl)
           (token_bucket_script doc_call tk sk capacity rate now requested ttl)"
  unfolding token_bucket_script_def
  by (intro sim_intros redis_server_sim[OF assms])

lemma token_bucket_script_doc:
  assumes "tk \<noteq> sk"
  shows "run_state (token_bucket_script doc_call tk sk capacity rate now requested ttl) ks =
    (let level = bucket_level ks tk sk capacity rate now; after = bucket_after level requested
     in ((if requested \<le> level then 1 else 0, \<lfloor>after\<rfloor>,
          now + \<lceil>fmul (fdiv (fsub capacity after) rate) 1000\<rceil>,
          if requested \<le> level then 0 else \<lceil>fmul (fdiv (fsub requested level) rate) 1000\<rceil>),
         ks(tk := Some (Str (tostring after), Some (1000 * ttl)),
            sk := Some (Str (tostring (of_int now)), Some (1000 * ttl)))))"
  using assms
  by (cases "str_at ks tk"; cases "str_at ks sk")
     (simp_all add: token_bucket_script_def bucket_level_def bucket_after_def Let_def)

section \<open>Bounds\<close>

text \<open>The ranges the request schemas admit for a limit and a window.\<close>

definition valid_limits :: "int \<Rightarrow> int \<Rightarrow> bool" where
  "valid_limits lmt windowSeconds \<longleftrightarrow>
     1 \<le> lmt \<and> lmt \<le> 1000000 \<and> 1 \<le> windowSeconds \<and> windowSeconds \<le> 86400"

abbreviation refill_rate :: "int \<Rightarrow> int \<Rightarrow> rat" where
  "refill_rate lmt w \<equiv> fdiv (of_int lmt) (of_int w)"

lemma refill_rate_bounds:
  assumes "valid_limits lmt w"
  shows "of_int lmt * (1 - ulp53) \<le> refill_rate lmt w * of_int w"
    and "refill_rate lmt w * of_int w \<le> of_int lmt * (1 + ulp53)"
    and "0 < refill_rate lmt w"
proof -
  let ?x = "of_int lmt / of_int w :: rat"
  have w: "0 < (of_int w :: rat)" and x: "0 < ?x" using assms by (auto simp: valid_limits_def)
  have lo: "?x * (1 - ulp53) \<le> refill_rate lmt w" and hi: "refill_rate lmt w \<le> ?x * (1 + ulp53)"
    by (rule fdiv_ge[OF less_imp_le[OF x]], rule fdiv_le[OF less_imp_le[OF x]])
  have xw: "?x * of_int w = of_int lmt" using w by simp
  have "?x * (1 - ulp53) * of_int w \<le> refill_rate lmt w * of_int w"
    using lo w by (intro mult_right_mono) auto
  moreover have "?x * (1 - ulp53) * of_int w = of_int lmt * (1 - ulp53)" using xw by (metis mult.assoc mult.commute)
  ultimately show "of_int lmt * (1 - ulp53) \<le> refill_rate lmt w * of_int w" by simp
  have "refill_rate lmt w * of_int w \<le> ?x * (1 + ulp53) * of_int w"
    using hi w by (intro mult_right_mono) auto
  moreover have "?x * (1 + ulp53) * of_int w = of_int lmt * (1 + ulp53)" using xw by (metis mult.assoc mult.commute)
  ultimately show "refill_rate lmt w * of_int w \<le> of_int lmt * (1 + ulp53)" by simp
  have "0 < ?x * (1 - ulp53)" using x by (intro mult_pos_pos) auto
  then show "0 < refill_rate lmt w" using lo by linarith
qed

text \<open>The life of the keys outlasts the window by a second.\<close>

lemma token_bucket_ttl_ge:
  assumes v: "valid_limits lmt w" shows "w + 1 \<le> token_bucket_ttl lmt w"
proof -
  let ?r = "refill_rate lmt w" and ?q = "of_int lmt / refill_rate lmt w"
  have w: "1 \<le> (of_int w :: rat)" "of_int w \<le> (86400 :: rat)" and l: "0 < (of_int lmt :: rat)"
    using v by (auto simp: valid_limits_def)
  note r = refill_rate_bounds[OF v]
  have q0: "0 \<le> ?q" using l r(3) by simp
  have "of_int w * ?r \<le> of_int lmt * (1 + ulp53)" using r(2) by (simp add: mult.commute)
  then have "of_int w \<le> of_int lmt * (1 + ulp53) / ?r" using r(3) by (simp add: pos_le_divide_eq)
  then have "of_int w \<le> ?q * (1 + ulp53)" by simp
  moreover have "?q * (1 - ulp53) \<le> fdiv (of_int lmt) ?r" by (rule fdiv_ge[OF q0])
  ultimately have "of_int w - 1 < fdiv (of_int lmt) ?r" using w q0 by (simp add: algebra_simps)
  then have "w \<le> \<lceil>fdiv (of_int lmt) ?r\<rceil>" by (simp add: le_ceiling_iff)
  then show ?thesis by (simp add: token_bucket_ttl_def)
qed

lemma window_refills:
  assumes v: "valid_limits lmt w" and clk: "clock_ok prev" "clock_ok now" "1000 * w + 1 \<le> now - prev"
    and bal: "0 \<le> bal"
  shows "accrue bal (of_int prev) now (refill_rate lmt w) (of_int lmt) = of_int lmt"
proof (rule accrue_full)
  let ?r = "refill_rate lmt w" and ?d = "of_int (now - prev) :: rat"
  have w: "1 \<le> (of_int w :: rat)" "of_int w \<le> (86400 :: rat)" "0 < (of_int lmt :: rat)"
    using v by (auto simp: valid_limits_def)
  note r = refill_rate_bounds[OF v]
  show "prev \<le> now" using clk v by (simp add: valid_limits_def)
  have "of_int (1000 * w + 1) \<le> ?d" using clk(3) by (simp only: of_int_le_iff)
  then have "(1000 * of_int w + 1) * (?r * ((1 - ulp53) * (1 - ulp53)))
      \<le> ?d * (?r * ((1 - ulp53) * (1 - ulp53)))"
    using r(3) by (intro mult_right_mono) auto
  moreover have "1000 * of_int lmt \<le> (1000 * of_int w + 1) * (?r * ((1 - ulp53) * (1 - ulp53)))"
  proof -
    have "of_int w * (1000 * of_int lmt) \<le> (1000 * of_int w + 1) * ((1 - ulp53) * (1 - ulp53) * (1 - ulp53)) * of_int lmt"
      using w by simp
    also have "\<dots> = (1000 * of_int w + 1) * ((1 - ulp53) * (1 - ulp53)) * (of_int lmt * (1 - ulp53))"
      by (simp only: ac_simps)
    also have "\<dots> \<le> (1000 * of_int w + 1) * ((1 - ulp53) * (1 - ulp53)) * (?r * of_int w)"
      using r(1) w by (intro mult_left_mono) auto
    also have "\<dots> = of_int w * ((1000 * of_int w + 1) * (?r * ((1 - ulp53) * (1 - ulp53))))"
      by (simp only: ac_simps)
    finally show ?thesis using w by (simp only: mult_le_cancel_left_pos)
  qed
  ultimately have "1000 * of_int lmt \<le> ?d * (?r * ((1 - ulp53) * (1 - ulp53)))" by linarith
  moreover have "?d / 1000 * c * ?r * c = ?d * (?r * (c * c)) / 1000" for c by simp
  ultimately show "of_int lmt \<le> ?d / 1000 * (1 - ulp53) * ?r * (1 - ulp53)" by (metis (no_types) linear not_le pos_divide_less_eq zero_less_numeral mult.commute)
qed (use assms refill_rate_bounds(3)[OF v] in \<open>auto simp: valid_limits_def\<close>)

section \<open>Runs of checks on one key\<close>

text \<open>
  A run is a list of arrivals: the time that passes on the server since the last check, the
  gateway's clock at the check, and its cost. \<open>token_bucket_run\<close> is the cost it admits.
\<close>

type_synonym arrival = "nat \<times> int \<times> int"

primrec token_bucket_run ::
    "'s redis \<Rightarrow> (nat \<Rightarrow> 's \<Rightarrow> 's) \<Rightarrow> key \<Rightarrow> key \<Rightarrow> int \<Rightarrow> int \<Rightarrow> arrival list \<Rightarrow> ('s, int) state" where
  "token_bucket_run call elapse tk sk lmt w [] = State_Monad.return 0"
| "token_bucket_run call elapse tk sk lmt w (e # es) =
     (case e of (d, now, cost) \<Rightarrow> do {
        State (\<lambda>s. ((), elapse d s));
        (ok, _) \<leftarrow> token_bucket_script call tk sk (of_int lmt) (refill_rate lmt w) now (of_int cost)
                      (token_bucket_ttl lmt w);
        admitted \<leftarrow> token_bucket_run call elapse tk sk lmt w es;
        State_Monad.return ((if ok = 1 then cost else 0) + admitted)
      })"

text \<open>
  The gateway's clock does not step back between checks, and the server's clock gains less
  than a second on it: \<open>prev\<close> is the time of the check before.
\<close>

fun timely :: "int \<Rightarrow> arrival list \<Rightarrow> bool" where
  "timely prev [] = True"
| "timely prev ((d, now, cost) # es) =
     (prev \<le> now \<and> clock_ok now \<and> 0 \<le> cost \<and> int d \<le> now - prev + 999 \<and> timely now es)"

fun end_time :: "int \<Rightarrow> arrival list \<Rightarrow> int" where
  "end_time prev [] = prev"
| "end_time prev ((d, now, cost) # es) = end_time now es"

definition bucket_inv :: "int \<Rightarrow> int \<Rightarrow> key \<Rightarrow> key \<Rightarrow> keyspace \<times> int \<Rightarrow> bool" where
  "bucket_inv lmt w tk sk st \<longleftrightarrow>
     (case st of (ks, prev) \<Rightarrow> clock_ok prev \<and>
        (case str_at ks tk of
           None \<Rightarrow> True
         | Some c \<Rightarrow> 0 \<le> c \<and> c \<le> of_int lmt \<and> str_at ks sk = Some (of_int prev) \<and>
             ttl_at ks tk = Some (1000 * token_bucket_ttl lmt w) \<and>
             ttl_at ks sk = Some (1000 * token_bucket_ttl lmt w)))"

definition bucket_stock :: "int \<Rightarrow> key \<Rightarrow> keyspace \<times> int \<Rightarrow> rat" where
  "bucket_stock lmt tk st = (case str_at (fst st) tk of None \<Rightarrow> of_int lmt | Some c \<Rightarrow> c)"

definition bucket_guard :: "arrival \<Rightarrow> keyspace \<times> int \<Rightarrow> bool" where
  "bucket_guard e st = timely (snd st) [e]"

definition bucket_step :: "int \<Rightarrow> int \<Rightarrow> key \<Rightarrow> key \<Rightarrow> arrival \<Rightarrow> keyspace \<times> int \<Rightarrow> keyspace \<times> int" where
  "bucket_step lmt w tk sk e st =
     (case e of (d, now, cost) \<Rightarrow>
        (snd (run_state (token_bucket_script doc_call tk sk (of_int lmt) (refill_rate lmt w) now
                (of_int cost) (token_bucket_ttl lmt w)) (expire_after d (fst st))), now))"

definition bucket_charge :: "int \<Rightarrow> int \<Rightarrow> key \<Rightarrow> key \<Rightarrow> arrival \<Rightarrow> keyspace \<times> int \<Rightarrow> rat" where
  "bucket_charge lmt w tk sk e st =
     (case e of (d, now, cost) \<Rightarrow>
        if of_int cost \<le> bucket_level (expire_after d (fst st)) tk sk (of_int lmt) (refill_rate lmt w) now
        then of_int cost else 0)"

definition bucket_gain :: "int \<Rightarrow> int \<Rightarrow> arrival \<Rightarrow> keyspace \<times> int \<Rightarrow> rat" where
  "bucket_gain lmt w e st =
     (case e of (d, now, cost) \<Rightarrow>
        refill_rate lmt w * of_int (now - snd st) / 1000 * (1 + 1 / 10 ^ 15) + of_int lmt / 10 ^ 13)"

text \<open>
  A key that outlived its check by its whole life was full anyway: expiry never changes
  what a check finds.
\<close>

lemma bucket_level_expired:
  assumes v: "valid_limits lmt w" and inv: "bucket_inv lmt w tk sk (ks, prev)"
    and g: "prev \<le> now" "clock_ok now" "int d \<le> now - prev + 999"
  shows "bucket_level (expire_after d ks) tk sk (of_int lmt) (refill_rate lmt w) now
       = bucket_level ks tk sk (of_int lmt) (refill_rate lmt w) now"
proof (cases "str_at ks tk")
  case None
  then show ?thesis by (auto simp: bucket_level_def split: option.splits)
next
  case (Some c)
  let ?T = "1000 * token_bucket_ttl lmt w"
  have st: "0 \<le> c" "clock_ok prev" "str_at ks sk = Some (of_int prev)"
      "ttl_at ks tk = Some ?T" "ttl_at ks sk = Some ?T"
    using inv Some by (auto simp: bucket_inv_def)
  have l: "dbl (of_int lmt) = of_int lmt" "dbl (of_int prev) = of_int prev"
    using v st(2) by (auto simp: valid_limits_def clock_ok_def)
  show ?thesis
  proof (cases "?T \<le> int d")
    case True
    then have "1000 * w + 1 \<le> now - prev" using token_bucket_ttl_ge[OF v] g(3) by simp
    then have "accrue (dbl c) (of_int prev) now (refill_rate lmt w) (of_int lmt) = of_int lmt"
      using st by (intro window_refills v g) (auto intro: dbl_nonneg)
    then show ?thesis using True st Some l by (simp add: bucket_level_def)
  next
    case False
    then show ?thesis using st Some by (simp add: bucket_level_def)
  qed
qed

lemma bucket_level_bounds:
  assumes v: "valid_limits lmt w" and inv: "bucket_inv lmt w tk sk (ks, prev)" and "clock_ok now"
    and p: "prev \<le> now"
  shows "0 \<le> bucket_level ks tk sk (of_int lmt) (refill_rate lmt w) now"
    and "bucket_level ks tk sk (of_int lmt) (refill_rate lmt w) now \<le> of_int lmt"
    and "bucket_level ks tk sk (of_int lmt) (refill_rate lmt w) now
      \<le> bucket_stock lmt tk (ks, prev) * (1 + ulp53) ^ 2
         + refill_rate lmt w * of_int (now - prev) / 1000 * (1 + ulp53) ^ 3"
proof -
  let ?r = "refill_rate lmt w"
  have r: "0 \<le> ?r" using refill_rate_bounds(3)[OF v] by simp
  have l: "0 \<le> (of_int lmt :: rat)" "dbl (of_int lmt) = of_int lmt" using v by (auto simp: valid_limits_def)
  have clk: "clock_ok prev" using inv by (simp add: bucket_inv_def)
  have nn: "0 \<le> ?r * of_int (now - prev) / 1000 * (1 + ulp53) ^ 3" using r p by simp
  let ?L = "bucket_level ks tk sk (of_int lmt) ?r now"
  have "0 \<le> ?L \<and> ?L \<le> of_int lmt \<and> ?L \<le> bucket_stock lmt tk (ks, prev) * (1 + ulp53) ^ 2
         + ?r * of_int (now - prev) / 1000 * (1 + ulp53) ^ 3"
  proof (cases "str_at ks tk")
    case None
    have "of_int lmt * 1 \<le> of_int lmt * (1 + ulp53) ^ 2"
      using l(1) by (intro mult_left_mono one_le_power) auto
    with None nn l show ?thesis by (auto simp: bucket_level_def bucket_stock_def accrue_le_capacity)
  next
    case (Some c)
    have st: "0 \<le> c" "c \<le> of_int lmt" "str_at ks sk = Some (of_int prev)"
      using inv Some by (auto simp: bucket_inv_def)
    have c: "0 \<le> dbl c" "dbl c \<le> c * (1 + ulp53)" by (rule dbl_nonneg[OF st(1)], rule dbl_le[OF st(1)])
    have eq: "?L = accrue (dbl c) (of_int prev) now ?r (of_int lmt)"
      using Some st clk by (simp add: bucket_level_def clock_ok_def)
    have "?L \<le> dbl c * (1 + ulp53) + ?r * of_int (now - prev) / 1000 * (1 + ulp53) ^ 3"
      unfolding eq by (rule accrue_upper[OF clk assms(3) p c(1) r])
    also have "dbl c * (1 + ulp53) \<le> c * (1 + ulp53) * (1 + ulp53)"
      using c(2) by (intro mult_right_mono) auto
    finally have "?L \<le> c * (1 + ulp53) ^ 2 + ?r * of_int (now - prev) / 1000 * (1 + ulp53) ^ 3"
      by (simp only: power2_eq_square mult.assoc)
    then show ?thesis using Some c(1) r l
      by (simp add: eq bucket_stock_def accrue_le_capacity accrue_nonneg)
  qed
  then show "0 \<le> ?L" "?L \<le> of_int lmt" "?L \<le> bucket_stock lmt tk (ks, prev) * (1 + ulp53) ^ 2
         + ?r * of_int (now - prev) / 1000 * (1 + ulp53) ^ 3" by auto
qed

lemma times_twice_excess: "x * a * b = x + x * (a * b - 1)" for x :: rat
  by (simp add: algebra_simps)

text \<open>One check: the cost it admits and what it leaves never exceed what was there and accrued.\<close>

lemma bucket_after_balance:
  assumes l: "0 \<le> L" "L \<le> of_int lmt" and q: "0 \<le> q"
  shows "(if q \<le> L then q else 0) + tostring (bucket_after L q) \<le> L + of_int lmt * (51 / 10 ^ 15)"
proof -
  have small: "L * (51 / 10 ^ 15) \<le> of_int lmt * (51 / 10 ^ 15)" using l(2) by (intro mult_right_mono) auto
  have ts: "tostring (bucket_after L q) \<le> bucket_after L q * (1 + ulp14)"
    using l(1) by (intro tostring_le) (auto simp: bucket_after_def fsub_def intro!: dbl_nonneg)
  show ?thesis
  proof (cases "q \<le> L")
    case True
    let ?x = "L - q"
    have x: "0 \<le> ?x" "?x \<le> L" using True q by auto
    have "bucket_after L q * (1 + ulp14) \<le> ?x * (1 + ulp53) * (1 + ulp14)"
      using True dbl_le[OF x(1)] by (intro mult_right_mono) (auto simp: bucket_after_def fsub_def)
    also have "\<dots> = ?x + ?x * ((1 + ulp53) * (1 + ulp14) - 1)" by (rule times_twice_excess)
    also have "\<dots> \<le> ?x + ?x * (51 / 10 ^ 15)" using x by (intro add_left_mono mult_left_mono) auto
    also have "\<dots> \<le> ?x + L * (51 / 10 ^ 15)" using x by (intro add_left_mono mult_right_mono) auto
    finally show ?thesis using ts small True by simp
  next
    case False
    have "L * (1 + ulp14) \<le> L + L * (51 / 10 ^ 15)" using l(1) by (simp add: algebra_simps)
    with False ts small show ?thesis by (simp add: bucket_after_def)
  qed
qed

lemma bucket_after_range:
  assumes "0 \<le> L" "L \<le> of_int lmt" "0 \<le> q" "0 \<le> lmt" "lmt \<le> 10 ^ 14"
  shows "0 \<le> tostring (bucket_after L q)" and "tostring (bucket_after L q) \<le> of_int lmt"
proof -
  show "0 \<le> tostring (bucket_after L q)" using assms
    by (auto simp: bucket_after_def fsub_def intro!: tostring_nonneg dbl_nonneg)
  have "dbl (L - q) \<le> of_int lmt" if "q \<le> L" using assms by (intro dbl_le_int) auto
  then show "tostring (bucket_after L q) \<le> of_int lmt" using assms
    by (intro tostring_le_int) (auto simp: bucket_after_def fsub_def)
qed

lemma bucket_step_eq:
  assumes "tk \<noteq> sk"
  shows "bucket_step lmt w tk sk (d, now, cost) (ks, prev) =
    (let ks' = expire_after d ks; L = bucket_level ks' tk sk (of_int lmt) (refill_rate lmt w) now
     in (ks'(tk := Some (Str (tostring (bucket_after L (of_int cost))), Some (1000 * token_bucket_ttl lmt w)),
             sk := Some (Str (tostring (of_int now)), Some (1000 * token_bucket_ttl lmt w))), now))"
  by (simp add: bucket_step_def token_bucket_script_doc[OF assms] Let_def)

lemma bucket_inv_step:
  assumes ne: "tk \<noteq> sk" and v: "valid_limits lmt w" and inv: "bucket_inv lmt w tk sk st"
    and g: "bucket_guard e st"
  shows "bucket_inv lmt w tk sk (bucket_step lmt w tk sk e st)"
    and "bucket_charge lmt w tk sk e st + bucket_stock lmt tk (bucket_step lmt w tk sk e st)
       \<le> bucket_stock lmt tk st + bucket_gain lmt w e st"
proof -
  obtain ks prev d now cost where eq: "st = (ks, prev)" "e = (d, now, cost)" by (metis prod_cases3 surj_pair)
  let ?L = "bucket_level (expire_after d ks) tk sk (of_int lmt) (refill_rate lmt w) now"
  let ?r = "refill_rate lmt w"
  have t: "prev \<le> now" "clock_ok now" "0 \<le> cost" "int d \<le> now - prev + 999"
    using g by (auto simp: bucket_guard_def eq)
  note inv' = inv[unfolded eq]
  have L: "?L = bucket_level ks tk sk (of_int lmt) ?r now"
    by (rule bucket_level_expired[OF v inv' t(1,2,4)])
  note b = bucket_level_bounds[OF v inv' t(2,1), folded L]
  have lm: "0 \<le> lmt" "lmt \<le> 10 ^ 14" using v by (auto simp: valid_limits_def)
  have now: "tostring (of_int now) = of_int now" using t(2) by (simp add: clock_ok_def)
  show "bucket_inv lmt w tk sk (bucket_step lmt w tk sk e st)"
    using t ne bucket_after_range[OF b(1,2) _ lm, of "of_int cost"]
    by (simp add: eq bucket_step_eq[OF ne] bucket_inv_def Let_def now)
  have stock: "0 \<le> bucket_stock lmt tk (ks, prev)" "bucket_stock lmt tk (ks, prev) \<le> of_int lmt"
    using inv' lm by (auto simp: bucket_inv_def bucket_stock_def split: option.splits)
  let ?S = "bucket_stock lmt tk (ks, prev)" and ?G = "?r * of_int (now - prev) / 1000"
  have "?S * (1 + ulp53) ^ 2 = ?S + ?S * ((1 + ulp53) ^ 2 - 1)" by (simp add: algebra_simps)
  also have "\<dots> \<le> ?S + of_int lmt * ((1 + ulp53) ^ 2 - 1)" using stock(2)
    by (intro add_left_mono mult_right_mono) auto
  finally have S: "?S * (1 + ulp53) ^ 2 \<le> ?S + of_int lmt * ((1 + ulp53) ^ 2 - 1)" .
  have G: "?G * (1 + ulp53) ^ 3 \<le> ?G * (1 + 1 / 10 ^ 15)"
    using refill_rate_bounds(3)[OF v] t(1) by (intro mult_left_mono ulp53_cubed) auto
  have E: "of_int lmt * ((1 + ulp53) ^ 2 - 1) + of_int lmt * (51 / 10 ^ 15) \<le> of_int lmt / 10 ^ 13"
  proof -
    have "of_int lmt * (((1 + ulp53) ^ 2 - 1) + 51 / 10 ^ 15) \<le> of_int lmt * (1 / 10 ^ 13 :: rat)"
      using lm(1) by (intro mult_left_mono) (auto simp: power2_eq_square)
    then show ?thesis by (simp only: distrib_left times_divide_eq_right mult_1_right)
  qed
  have "(if of_int cost \<le> ?L then of_int cost else 0) + tostring (bucket_after ?L (of_int cost))
      \<le> ?L + of_int lmt * (51 / 10 ^ 15)"
    using t(3) by (intro bucket_after_balance[OF b(1,2)]) simp
  with S G E b(3) show "bucket_charge lmt w tk sk e st + bucket_stock lmt tk (bucket_step lmt w tk sk e st)
       \<le> bucket_stock lmt tk st + bucket_gain lmt w e st"
    using ne by (simp add: eq bucket_step_eq[OF ne] bucket_charge_def bucket_stock_def[of _ _ "(_(_ := _), _)"] bucket_gain_def Let_def)
qed

lemma bucket_stock_nonneg:
  "valid_limits lmt w \<Longrightarrow> bucket_inv lmt w tk sk st \<Longrightarrow> 0 \<le> bucket_stock lmt tk st"
  by (auto simp: bucket_inv_def bucket_stock_def valid_limits_def split: option.splits prod.splits)

interpretation bucket: metered_solvent "bucket_step lmt w tk sk" bucket_guard
    "\<lambda>st. tk \<noteq> sk \<and> valid_limits lmt w \<and> bucket_inv lmt w tk sk st"
    "bucket_charge lmt w tk sk" "bucket_gain lmt w" "bucket_stock lmt tk"
  for lmt w :: int and tk sk :: key
  by unfold_locales (auto intro: bucket_inv_step bucket_stock_nonneg)

lemma valid_ops_timely:
  "valid_ops (bucket_step lmt w tk sk) bucket_guard es st = timely (snd st) es"
  by (induction es arbitrary: st) (auto simp: bucket_guard_def bucket_step_def)

lemma total_gain:
  "total_ops (bucket_step lmt w tk sk) (bucket_gain lmt w) es (ks, prev)
     = refill_rate lmt w * of_int (end_time prev es - prev) / 1000 * (1 + 1 / 10 ^ 15)
       + of_nat (length es) * (of_int lmt / 10 ^ 13)"
proof (induction es arbitrary: ks prev)
  case (Cons e es)
  obtain d now cost where e: "e = (d, now, cost)" by (metis prod_cases3)
  obtain ks' where ks': "bucket_step lmt w tk sk e (ks, prev) = (ks', now)"
    by (auto simp: bucket_step_def e)
  show ?case by (simp add: ks' Cons.IH bucket_gain_def[of _ _ _ "(ks, prev)"])
    (simp add: e field_simps)
qed simp

lemma token_bucket_run_charge:
  assumes "tk \<noteq> sk"
  shows "of_int (fst (run_state (token_bucket_run doc_call expire_after tk sk lmt w es) ks))
     = total_ops (bucket_step lmt w tk sk) (bucket_charge lmt w tk sk) es (ks, prev)"
proof (induction es arbitrary: ks prev)
  case (Cons e es)
  obtain d now cost where e: "e = (d, now, cost)" by (metis prod_cases3)
  let ?m = "token_bucket_script doc_call tk sk (of_int lmt) (refill_rate lmt w) now (of_int cost)
    (token_bucket_ttl lmt w)"
  obtain ok l r ra ks' where m: "run_state ?m (expire_after d ks) = ((ok, l, r, ra), ks')"
    by (metis surj_pair)
  have step: "bucket_step lmt w tk sk e (ks, prev) = (ks', now)"
    by (simp add: bucket_step_def e m)
  have "bucket_charge lmt w tk sk e (ks, prev) = of_int (if ok = 1 then cost else 0)"
    using m by (auto simp: token_bucket_script_doc[OF assms] Let_def bucket_charge_def e split: if_splits)
  moreover obtain a ks'' where "run_state (token_bucket_run doc_call expire_after tk sk lmt w es) ks' = (a, ks'')"
    by (metis surj_pair)
  ultimately show ?case using Cons.IH[of ks' now] by (simp add: e m step[unfolded e])
qed simp

lemma token_bucket_run_sim:
  assumes "redis_server call elapse view"
  shows "simulates view (token_bucket_run call elapse tk sk lmt w es)
           (token_bucket_run doc_call expire_after tk sk lmt w es)"
proof (induction es)
  case (Cons e es)
  show ?case unfolding token_bucket_run.simps
    by (intro simulates_prod simulates_bind simulates_return redis_server_elapse_sim[OF assms]
        token_bucket_script_sim[OF assms] Cons.IH)
qed (simp add: sim_intros)

lemma token_bucket_keys_distinct:
  "token_bucket_keys k = (tk, sk) \<Longrightarrow> tk \<noteq> sk"
  by (auto simp: token_bucket_keys_def)

section \<open>Waiting as told\<close>

text \<open>A refused check leaves a bucket from which a wait of the told time and one more millisecond pays.\<close>

lemma retry_pays:
  fixes L q r lm :: rat
  assumes L: "0 \<le> L" "L < q" "q \<le> lm" and r: "0 < r" "lm * (1 - ulp53) \<le> r * 86400"
    and t: "(q - L) / r * 1000 * (1 - ulp53) ^ 3 + 1 \<le> t"
  shows "q \<le> L * (1 - ulp14) * (1 - ulp53) + t / 1000 * (1 - ulp53) * r * (1 - ulp53)"
proof -
  let ?c = "(1 - ulp53) * (1 - ulp53) :: rat"
  have "((q - L) / r * 1000 * (1 - ulp53) ^ 3 + 1) * (r * ?c / 1000) \<le> t * (r * ?c / 1000)"
    using t r by (intro mult_right_mono) auto
  moreover have "((q - L) / r * 1000 * (1 - ulp53) ^ 3 + 1) * (r * ?c / 1000)
      = (q - L) * (1 - ulp53) ^ 5 + r * ?c / 1000"
    using r(1) by (simp add: distrib_right eval_nat_numeral)
  moreover have "(q - L) * (1 - 1 / 10 ^ 15) \<le> (q - L) * (1 - ulp53) ^ 5"
    using L by (intro mult_left_mono) (auto simp: eval_nat_numeral)
  moreover have "lm / 10 ^ 9 \<le> r * ?c / 1000" using r by simp
  moreover have "L * (1 - 51 / 10 ^ 15) \<le> L * ((1 - ulp14) * (1 - ulp53))"
    using L by (intro mult_left_mono) auto
  moreover have "q \<le> L * (1 - 51 / 10 ^ 15) + (q - L) * (1 - 1 / 10 ^ 15) + lm / 10 ^ 9"
    using L by (simp add: field_simps)
  moreover have "t * (r * ?c / 1000) = t / 1000 * (1 - ulp53) * r * (1 - ulp53)" by simp
  ultimately show ?thesis by (simp only: mult.assoc)
qed

lemma accrue_ge_int:
  assumes clk: "clock_ok prev" "clock_ok now" "prev \<le> now" and r: "0 \<le> rate"
    and n: "\<bar>n\<bar> \<le> 2 ^ 53" "of_int n \<le> capacity"
    and enough: "of_int n \<le> bal + of_int (now - prev) / 1000 * (1 - ulp53) * rate * (1 - ulp53)"
  shows "of_int n \<le> accrue bal (of_int prev) now rate capacity"
proof -
  let ?t = "of_int (now - prev) / 1000 :: rat" and ?e = "elapsed_s now (of_int prev)"
  have t: "0 \<le> ?t" using clk by simp
  have "?t * (1 - ulp53) \<le> ?e" unfolding elapsed_s_between[OF clk] by (rule dbl_ge[OF t])
  then have "?t * (1 - ulp53) * rate * (1 - ulp53) \<le> ?e * rate * (1 - ulp53)"
    using r by (intro mult_right_mono) auto
  also have "\<dots> \<le> fmul ?e rate"
    unfolding fmul_def using r by (intro dbl_ge mult_nonneg_nonneg elapsed_s_nonneg)
  finally have "of_int n \<le> fadd bal (fmul ?e rate)"
    unfolding fadd_def using enough n(1) by (intro int_le_dbl) auto
  then show ?thesis using n(2) by (simp add: accrue_def)
qed

lemma retry_told_ge:
  assumes "0 \<le> L" "L < q" "0 < r"
  shows "(q - L) / r * 1000 * (1 - ulp53) ^ 3 \<le> of_int \<lceil>fmul (fdiv (fsub q L) r) 1000\<rceil>"
proof -
  have a: "0 \<le> (q - L) * (1 - ulp53)" "(q - L) * (1 - ulp53) \<le> fsub q L"
    using assms dbl_ge[of "q - L"] by (auto simp: fsub_def)
  then have f: "0 \<le> fsub q L" by linarith
  have "(q - L) * (1 - ulp53) / r * (1 - ulp53) \<le> fsub q L / r * (1 - ulp53)"
    using a assms by (intro mult_right_mono divide_right_mono) auto
  also have "\<dots> \<le> fdiv (fsub q L) r" using f assms by (intro fdiv_ge) auto
  finally have "(q - L) * (1 - ulp53) / r * (1 - ulp53) * 1000 * (1 - ulp53)
      \<le> fdiv (fsub q L) r * 1000 * (1 - ulp53)" by (intro mult_right_mono) auto
  also have "\<dots> \<le> fmul (fdiv (fsub q L) r) 1000"
    unfolding fmul_def using f assms by (intro dbl_ge mult_nonneg_nonneg fdiv_nonneg) auto
  also have "\<dots> \<le> of_int \<lceil>fmul (fdiv (fsub q L) r) 1000\<rceil>" by simp
  finally show ?thesis by (simp add: power3_eq_cube)
qed

text \<open>
  A refused cost within the limit is admitted by the same key at the told time and a
  millisecond, when nobody else drew on the key.
\<close>

lemma bucket_pays_after_wait:
  assumes ne: "tk \<noteq> sk" and v: "valid_limits lmt w" and inv: "bucket_inv lmt w tk sk (ks, prev)"
    and g: "prev \<le> now" "clock_ok now" "cost \<le> lmt"
    and refused: "bucket_level ks tk sk (of_int lmt) (refill_rate lmt w) now < of_int cost"
    and ks': "run_state (token_bucket_script doc_call tk sk (of_int lmt) (refill_rate lmt w) now
                (of_int cost) (token_bucket_ttl lmt w)) ks = ((ok, rem, reset_at, retry), ks')"
    and later: "clock_ok later" "now + retry + 1 \<le> later" "int d \<le> later - now + 999"
  shows "of_int cost \<le> bucket_level (expire_after d ks') tk sk (of_int lmt) (refill_rate lmt w) later"
proof -
  let ?r = "refill_rate lmt w" and ?L = "bucket_level ks tk sk (of_int lmt) (refill_rate lmt w) now"
  note b = bucket_level_bounds(1,2)[OF v inv g(2,1)] and r = refill_rate_bounds[OF v]
  have out: "retry = \<lceil>fmul (fdiv (fsub (of_int cost) ?L) ?r) 1000\<rceil>"
    "str_at ks' tk = Some (tostring ?L)" "str_at ks' sk = Some (of_int now)"
    "ttl_at ks' tk = Some (1000 * token_bucket_ttl lmt w)"
    "ttl_at ks' sk = Some (1000 * token_bucket_ttl lmt w)"
    using ks' refused ne g(2)
    by (auto simp: token_bucket_script_doc[OF ne] Let_def bucket_after_def clock_ok_def)
  have lm: "0 \<le> lmt" "lmt \<le> 10 ^ 14" "lmt \<le> 2 ^ 53" using v by (auto simp: valid_limits_def)
  have L: "0 \<le> tostring ?L" "tostring ?L \<le> of_int lmt"
    using tostring_nonneg[OF b(1)] tostring_le_int[OF b(2)] lm by auto
  have inv': "bucket_inv lmt w tk sk (ks', now)"
    using out L g(2) by (simp add: bucket_inv_def)
  have told: "(of_int cost - ?L) / ?r * 1000 * (1 - ulp53) ^ 3 \<le> of_int retry"
    unfolding out(1) by (rule retry_told_ge[OF b(1) refused r(3)])
  have "0 \<le> (of_int cost - ?L) / ?r * 1000 * (1 - ulp53) ^ 3"
    using refused r(3) by (intro mult_nonneg_nonneg divide_nonneg_pos) auto
  then have p: "now \<le> later" using told later(2) by linarith
  have "of_int (retry + 1) \<le> (of_int (later - now) :: rat)" using later(2) by (simp only: of_int_le_iff)
  then have t: "(of_int cost - ?L) / ?r * 1000 * (1 - ulp53) ^ 3 + 1 \<le> of_int (later - now)"
    using told by simp
  have r86: "of_int lmt * (1 - ulp53) \<le> ?r * 86400"
  proof -
    have "?r * of_int w \<le> ?r * 86400" using v r(3) by (intro mult_left_mono) (auto simp: valid_limits_def)
    with r(1) show ?thesis by linarith
  qed
  have "of_int cost \<le> (of_int lmt :: rat)" using g(3) by simp
  note pays = retry_pays[OF b(1) refused this r(3) r86 t]
  have "?L * (1 - ulp14) \<le> tostring ?L" by (rule tostring_ge[OF b(1)])
  then have "?L * (1 - ulp14) * (1 - ulp53) \<le> tostring ?L * (1 - ulp53)" by (intro mult_right_mono) auto
  also have "\<dots> \<le> dbl (tostring ?L)" by (rule dbl_ge[OF L(1)])
  finally have "of_int cost \<le> dbl (tostring ?L)
      + of_int (later - now) / 1000 * (1 - ulp53) * ?r * (1 - ulp53)" using pays by linarith
  moreover have "\<bar>cost\<bar> \<le> 2 ^ 53"
  proof -
    have "0 < (of_int cost :: rat)" using refused b(1) by linarith
    then show ?thesis using g(3) lm(3) by simp
  qed
  ultimately have "of_int cost \<le> accrue (dbl (tostring ?L)) (of_int now) later ?r (of_int lmt)"
    using g r(3) later(1) p by (intro accrue_ge_int) auto
  then have "of_int cost \<le> bucket_level ks' tk sk (of_int lmt) ?r later"
    using out g(2) by (simp add: bucket_level_def clock_ok_def)
  then show ?thesis
    by (simp add: bucket_level_expired[OF v inv' p later(1,3)])
qed

section \<open>What the limiter promises\<close>

text \<open>
  A check answers from the level the key has at that moment: it is admitted exactly when
  the level covers the cost, what it took and nothing else leaves the bucket, a refusal
  takes nothing and tells a wait, and the outcome does not depend on whether the server
  had the script cached.
\<close>

theorem token_bucket_check_outcome:
  fixes s :: 's and w :: int
  assumes server: "script_server call elapse view sha1 client cached"
    and keys: "token_bucket_keys k = (tk, sk)"
    and L: "L = bucket_level (view s) tk sk (of_int lmt) (refill_rate lmt w) now"
    and after: "after = bucket_after L (of_int cost)"
    and wait: "wait = \<lceil>fmul (fdiv (fsub (of_int cost) L) (refill_rate lmt w)) 1000\<rceil>"
    and ok: "ok = (of_int cost \<le> L)"
  shows "\<exists>s'. run_state (token_bucket_check sha1 client call now k lmt w cost) s =
      (Inr \<lparr>allowed = ok, limit = lmt, remaining = \<lfloor>after\<rfloor>,
            resetAt = now + \<lceil>fmul (fdiv (fsub (of_int lmt) after) (refill_rate lmt w)) 1000\<rceil>,
            retryAfter = if ok then None else Some (max 1 \<lceil>fdiv (of_int wait) 1000\<rceil>),
            retryAfterMs = if ok then None else Some wait\<rparr>, s') \<and>
    view s' = (view s)(tk := Some (Str (tostring after), Some (1000 * token_bucket_ttl lmt w)),
                       sk := Some (Str (tostring (of_int now)), Some (1000 * token_bucket_ttl lmt w)))"
proof -
  let ?prog = "\<lambda>c. token_bucket_script c tk sk (of_int lmt) (refill_rate lmt w) now (of_int cost)
    (token_bucket_ttl lmt w)"
  have sim: "simulates view (?prog call) (?prog doc_call)"
    by (rule token_bucket_script_sim[OF script_server.axioms(1)[OF server]])
  obtain s' where s': "run_state (run_script sha1 client token_bucket [tk, sk] (?prog call)) s
      = (Inr (fst (run_state (?prog doc_call) (view s))), s')"
    "view s' = snd (run_state (?prog doc_call) (view s))"
    using script_server.run_script_runs[OF server sim, of "[tk, sk]" token_bucket s] by (auto simp: token_bucket_def)
  note doc = token_bucket_script_doc[OF token_bucket_keys_distinct[OF keys]]
  show ?thesis
    by (rule exI[of _ s'])
       (simp add: token_bucket_check_def keys s' doc Let_def check_result_def after wait ok flip: L)
qed

text \<open>The documented server, used to apply the theorems at concrete inputs.\<close>

lemma token_bucket_check_outcome_witness:
  "\<exists>s'. run_state (token_bucket_check (\<lambda>t. t) (server_client (\<lambda>t. t)) server_call 5000 ''u'' 10 10 4)
        (Map.empty, []) =
      (Inr \<lparr>allowed = True, limit = 10, remaining = 6, resetAt = 9000, retryAfter = None,
            retryAfterMs = None\<rparr>, s')"
proof -
  obtain tk sk where keys: "token_bucket_keys ''u'' = (tk, sk)" by (cases "token_bucket_keys ''u''")
  have lv: "10 = bucket_level (fst (Map.empty, [] :: string list)) tk sk (of_int 10) (refill_rate 10 10) 5000"
    by (simp add: bucket_level_def str_at_def float_eval)
  have "6 = bucket_after 10 (of_int 4)" by (simp add: bucket_after_def float_eval)
  note out = token_bucket_check_outcome[OF doc_script_server.script_server_axioms keys lv this refl refl]
  have "5000 + \<lceil>fmul (fdiv (fsub (of_int 10) 6) (refill_rate 10 10)) 1000\<rceil> = 9000" by (simp add: float_eval)
  then show ?thesis using out[of "\<lambda>t. t"] by auto
qed

text \<open>
  C6: No run of checks on a key admits more than the bucket it found plus what its rate
  refills in the elapsed time, whatever the costs and however often keys expire in
  between, up to a rounding of one part in ten trillion of the limit for each check.
\<close>

theorem token_bucket_never_over_admits:
  assumes server: "redis_server call elapse view"
    and keys: "token_bucket_keys k = (tk, sk)" and v: "valid_limits lmt w"
    and inv: "bucket_inv lmt w tk sk (view s, prev)" and clk: "timely prev es"
    and run: "run_state (token_bucket_run call elapse tk sk lmt w es) s = (admitted, s')"
  shows "of_int admitted \<le> bucket_stock lmt tk (view s, prev)
      + of_int lmt / of_int w * (of_int (end_time prev es - prev) / 1000) * (1 + 2 / 10 ^ 15)
      + of_nat (length es) * (of_int lmt / 10 ^ 13)"
proof -
  have ne: "tk \<noteq> sk" by (rule token_bucket_keys_distinct[OF keys])
  have mono: "prev \<le> end_time prev es" if "timely prev es" for prev
    using that by (induction prev es rule: timely.induct) auto
  have "of_int admitted = total_ops (bucket_step lmt w tk sk) (bucket_charge lmt w tk sk) es (view s, prev)"
    using token_bucket_run_charge[OF ne, of lmt w es "view s" prev]
      simulatesD[OF token_bucket_run_sim[OF server] run] by simp
  also have "\<dots> \<le> bucket_stock lmt tk (view s, prev)
      + total_ops (bucket_step lmt w tk sk) (bucket_gain lmt w) es (view s, prev)"
    using ne v inv clk by (intro bucket.total_charge_bounded) (auto simp: valid_ops_timely)
  also have "total_ops (bucket_step lmt w tk sk) (bucket_gain lmt w) es (view s, prev)
      \<le> of_int lmt / of_int w * (of_int (end_time prev es - prev) / 1000) * (1 + 2 / 10 ^ 15)
        + of_nat (length es) * (of_int lmt / 10 ^ 13)"
  proof -
    let ?t = "of_int (end_time prev es - prev) / 1000 :: rat"
    have "refill_rate lmt w \<le> of_int lmt / of_int w * (1 + ulp53)"
      using v by (intro fdiv_le) (auto simp: valid_limits_def)
    then have "refill_rate lmt w * (?t * (1 + 1 / 10 ^ 15))
        \<le> of_int lmt / of_int w * (1 + ulp53) * (?t * (1 + 1 / 10 ^ 15))"
      using mono[OF clk] by (intro mult_right_mono) auto
    also have "\<dots> = of_int lmt / of_int w * ?t * ((1 + ulp53) * (1 + 1 / 10 ^ 15))" by simp
    also have "\<dots> \<le> of_int lmt / of_int w * ?t * (1 + 2 / 10 ^ 15)"
      using v mono[OF clk] by (intro mult_left_mono) (auto simp: valid_limits_def)
    finally have "refill_rate lmt w * (?t * (1 + 1 / 10 ^ 15)) \<le> of_int lmt / of_int w * ?t * (1 + 2 / 10 ^ 15)" .
    moreover have "refill_rate lmt w * of_int (end_time prev es - prev) / 1000 * (1 + 1 / 10 ^ 15)
        = refill_rate lmt w * (?t * (1 + 1 / 10 ^ 15))" by simp
    ultimately show ?thesis by (simp only: total_gain add_le_cancel_right)
  qed
  finally show ?thesis by simp
qed

lemma token_bucket_never_over_admits_witness:
  "fst (run_state (token_bucket_run doc_call expire_after ''rate_limit:token_bucket:u:tokens''
          ''rate_limit:token_bucket:u:timestamp'' 10 10 [(0, 5000, 8), (1000, 6000, 8), (4000, 10000, 7)])
        Map.empty) \<le> 15"
proof -
  let ?es = "[(0, 5000, 8), (1000, 6000, 8), (4000, 10000, 7)] :: arrival list"
  let ?tk = "''rate_limit:token_bucket:u:tokens''" and ?sk = "''rate_limit:token_bucket:u:timestamp''"
  obtain a ks where run: "run_state (token_bucket_run doc_call expire_after ?tk ?sk 10 10 ?es) Map.empty = (a, ks)"
    by (cases "run_state (token_bucket_run doc_call expire_after ?tk ?sk 10 10 ?es) Map.empty")
  have "of_int a \<le> bucket_stock 10 ?tk (id Map.empty, 5000)
      + of_int 10 / of_int 10 * (of_int (end_time 5000 ?es - 5000) / 1000) * (1 + 2 / 10 ^ 15)
      + of_nat (length ?es) * (of_int 10 / 10 ^ 13)"
    by (rule token_bucket_never_over_admits[OF keyspace_server.redis_server_axioms, where k = "''u''"])
       (use run in \<open>auto simp: token_bucket_keys_def valid_limits_def bucket_inv_def clock_ok_def str_at_def\<close>)
  then have "of_int a < (of_int 16 :: rat)" by (simp add: bucket_stock_def str_at_def)
  then have "a < 16" by (simp only: of_int_less_iff)
  then show ?thesis by (simp only: run fst_conv)
qed

text \<open>
  C33: A client that is refused and waits as long as it was told, and one millisecond more,
  is admitted by its next check of the same cost, when nobody else drew on the key: the
  wait it is told is an honest one. The millisecond is needed (see
  \<open>token_bucket_told_wait_falls_short\<close>).
\<close>

theorem token_bucket_told_wait_suffices:
  fixes s :: 's and w :: int
  assumes server: "redis_server call elapse view"
    and keys: "token_bucket_keys k = (tk, sk)" and v: "valid_limits lmt w"
    and inv: "bucket_inv lmt w tk sk (view s, prev)"
    and now: "prev \<le> now" "clock_ok now" "cost \<le> lmt"
    and refused: "run_state (token_bucket_script call tk sk (of_int lmt) (refill_rate lmt w) now
        (of_int cost) (token_bucket_ttl lmt w)) s = ((0, rem, reset_at, retry_ms), s1)"
    and later: "clock_ok later" "now + retry_ms + 1 \<le> later" "int d \<le> later - now + 999"
  shows "\<exists>rem' reset' s2. run_state (token_bucket_script call tk sk (of_int lmt) (refill_rate lmt w) later
        (of_int cost) (token_bucket_ttl lmt w)) (elapse d s1) = ((1, rem', reset', 0), s2)"
proof -
  let ?m = "\<lambda>c t. token_bucket_script c tk sk (of_int lmt) (refill_rate lmt w) t (of_int cost) (token_bucket_ttl lmt w)"
  note ne = token_bucket_keys_distinct[OF keys] and sim = token_bucket_script_sim[OF server]
  have first: "run_state (?m doc_call now) (view s) = ((0, rem, reset_at, retry_ms), view s1)"
    by (rule simulatesD[OF sim refused])
  then have "bucket_level (view s) tk sk (of_int lmt) (refill_rate lmt w) now < of_int cost"
    by (auto simp: token_bucket_script_doc[OF ne] Let_def split: if_splits)
  from bucket_pays_after_wait[OF ne v inv now this first later]
  have "\<exists>rem' reset' ks2. run_state (?m doc_call later) (view (elapse d s1)) = ((1, rem', reset', 0), ks2)"
    by (simp add: token_bucket_script_doc[OF ne] Let_def redis_server.elapse_documented[OF server])
  moreover obtain r s2 where "run_state (?m call later) (elapse d s1) = (r, s2)" by (metis surj_pair)
  ultimately show ?thesis using simulatesD[OF sim] by fastforce
qed

text \<open>An empty bucket of 625 units an hour, and of ten in ten seconds, at time \<open>t\<close>.\<close>

definition drained :: "int \<Rightarrow> key \<Rightarrow> key \<Rightarrow> int \<Rightarrow> keyspace" where
  "drained ttl tk sk t = Map.empty(tk := Some (Str 0, Some (1000 * ttl)),
                               sk := Some (Str (of_int t), Some (1000 * ttl)))"

lemma drained_refuses:
  assumes ne: "tk \<noteq> sk"
  shows "run_state (token_bucket_script doc_call tk sk 625 (refill_rate 625 3600) 0 1 3601)
      (drained 3601 tk sk 0) = ((0, 0, 3600000, 5760), drained 3601 tk sk 0)"
proof -
  have lv: "bucket_level (drained 3601 tk sk 0) tk sk 625 (refill_rate 625 3600) 0 = accrue 0 0 0 (refill_rate 625 3600) 625"
    using ne by (simp add: bucket_level_def drained_def)
  have "accrue 0 0 0 (refill_rate 625 3600) 625 = 0" by (simp add: float_eval)
  moreover have "\<lceil>fmul (fdiv (fsub 625 0) (refill_rate 625 3600)) 1000\<rceil> = 3600000" by code_simp
  moreover have "\<lceil>fmul (fdiv (fsub 1 0) (refill_rate 625 3600)) 1000\<rceil> = 5760" by code_simp
  ultimately show ?thesis
    using ne lv by (simp add: token_bucket_script_doc[OF ne] bucket_after_def Let_def) (simp add: drained_def fun_upd_def fun_eq_iff)
qed

lemma token_bucket_told_wait_suffices_witness:
  "\<exists>r s. run_state (token_bucket_script doc_call ''rate_limit:token_bucket:u:tokens''
        ''rate_limit:token_bucket:u:timestamp'' (of_int 625) (refill_rate 625 3600) 5761 (of_int 1)
        (token_bucket_ttl 625 3600))
      (expire_after 5761 (drained 3601 ''rate_limit:token_bucket:u:tokens'' ''rate_limit:token_bucket:u:timestamp'' 0))
     = ((1, r), s)"
proof -
  let ?tk = "''rate_limit:token_bucket:u:tokens''" and ?sk = "''rate_limit:token_bucket:u:timestamp''"
  have ttl: "token_bucket_ttl 625 3600 = 3601" by code_simp
  have "run_state (token_bucket_script doc_call ?tk ?sk (of_int 625) (refill_rate 625 3600) 0 (of_int 1)
      (token_bucket_ttl 625 3600)) (drained 3601 ?tk ?sk 0) = ((0, 0, 3600000, 5760), drained 3601 ?tk ?sk 0)"
    using drained_refuses[of ?tk ?sk] by (simp add: ttl)
  from token_bucket_told_wait_suffices[OF keyspace_server.redis_server_axioms, where k = "''u''" and prev = 0,
      OF _ _ _ _ _ _ this, where d = 5761 and later = 5761]
  show ?thesis
    by (auto simp: token_bucket_keys_def valid_limits_def clock_ok_def bucket_inv_def drained_def ttl)
qed

text \<open>Waiting exactly as told is not always enough: the quotient the script rounds up was already rounded down.\<close>

theorem token_bucket_told_wait_falls_short:
  assumes ne: "tk \<noteq> sk"
  shows "fst (fst (run_state (token_bucket_script doc_call tk sk 625 (refill_rate 625 3600) 5760 1 3601)
      (expire_after 5760 (snd (run_state (token_bucket_script doc_call tk sk 625 (refill_rate 625 3600) 0 1 3601)
         (drained 3601 tk sk 0)))))) = 0"
proof -
  have "bucket_level (expire_after 5760 (drained 3601 tk sk 0)) tk sk 625 (refill_rate 625 3600) 5760
      = accrue 0 0 5760 (refill_rate 625 3600) 625"
    using ne by (simp add: bucket_level_def drained_def)
  moreover have "\<not> 1 \<le> accrue 0 0 5760 (refill_rate 625 3600) 625" by code_simp
  ultimately show ?thesis by (simp only: drained_refuses[OF ne] snd_conv)
     (simp add: token_bucket_script_doc[OF ne] Let_def)
qed

text \<open>
  A clock that steps back is counted as no time, but its reading is stored: the same
  seconds then accrue again. Two gateways five seconds apart that check in turn admit five
  units a turn from an empty bucket of one unit a second while no time passes.
\<close>

theorem token_bucket_clock_step_back:
  assumes ne: "tk \<noteq> sk"
  shows "fst (run_state (token_bucket_run doc_call expire_after tk sk 10 10
      [(0, 5000, 1), (0, 10000, 5), (0, 5000, 1), (0, 10000, 5)]) (drained 11 tk sk 10000)) = 10"
proof -
  have ttl: "token_bucket_ttl 10 10 = 11" by (simp add: token_bucket_ttl_def float_eval)
  have b: "run_state (token_bucket_script doc_call tk sk 10 (refill_rate 10 10) 5000 1 11) (drained 11 tk sk 10000)
      = ((0, 0, 15000, 1000), drained 11 tk sk 5000)"
  proof -
    have "bucket_level (drained 11 tk sk 10000) tk sk 10 (refill_rate 10 10) 5000 = accrue 0 10000 5000 (refill_rate 10 10) 10"
      using ne by (simp add: bucket_level_def drained_def)
    moreover have "accrue 0 10000 5000 (refill_rate 10 10) 10 = 0" by (simp add: float_eval dbl_def[of "- _"] flip: dbl_def)
    moreover have "\<lceil>fmul (fdiv (fsub 10 0) (refill_rate 10 10)) 1000\<rceil> = 10000"
      "\<lceil>fmul (fdiv (fsub 1 0) (refill_rate 10 10)) 1000\<rceil> = 1000" "tostring 5000 = 5000" by (simp_all add: float_eval)
    ultimately show ?thesis using ne
      by (simp add: token_bucket_script_doc[OF ne] bucket_after_def Let_def)
         (simp add: drained_def fun_upd_def fun_eq_iff)
  qed
  have f: "run_state (token_bucket_script doc_call tk sk 10 (refill_rate 10 10) 10000 5 11) (drained 11 tk sk 5000)
      = ((1, 0, 20000, 0), drained 11 tk sk 10000)"
  proof -
    have "bucket_level (drained 11 tk sk 5000) tk sk 10 (refill_rate 10 10) 10000 = accrue 0 5000 10000 (refill_rate 10 10) 10"
      using ne by (simp add: bucket_level_def drained_def)
    moreover have "accrue 0 5000 10000 (refill_rate 10 10) 10 = 5" by (simp add: float_eval)
    moreover have "\<lceil>fmul (fdiv (fsub 10 0) (refill_rate 10 10)) 1000\<rceil> = 10000"
      "fsub 5 5 = 0" "tostring 10000 = 10000" by (simp_all add: float_eval)
    ultimately show ?thesis using ne
      by (simp add: token_bucket_script_doc[OF ne] bucket_after_def Let_def)
         (simp add: drained_def fun_upd_def fun_eq_iff)
  qed
  have "expire_after 0 (drained 11 tk sk t) = drained 11 tk sk t" for t
    by (auto simp: expire_after_def drained_def fun_eq_iff)
  then show ?thesis by (simp add: ttl b[unfolded of_int_numeral] f[unfolded of_int_numeral])
qed

end
