(* ===== verification/Sliding_Window.thy ===== *)
theory Sliding_Window
  imports Script_Runner Rate_Types Metered
begin

text \<open>
  The sliding window log: the script \<^verbatim>\<open>SLIDING_WINDOW_SCRIPT\<close> of
  \<^verbatim>\<open>src/scripts/lua-scripts.ts\<close> and the class of \<^verbatim>\<open>src/algorithms/sliding-window.ts\<close>.
  The log of a key is a sorted set of the times of its admitted requests; the property that
  matters is that no interval as long as the window holds more than the limit of them.
\<close>

section \<open>The script\<close>

definition sliding_window_script ::
    "'s redis \<Rightarrow> key \<Rightarrow> int \<Rightarrow> int \<Rightarrow> int \<Rightarrow> string \<Rightarrow> ('s, int \<times> int \<times> int \<times> int) state" where
  "sliding_window_script call log_key now window_ms max_requests member = do {
     call (ZREMRANGEBYSCORE log_key 0 (now - window_ms));
     card \<leftarrow> call (ZCARD log_key);
     let count = count_of card;
     if count < max_requests then do {
       call (ZADD log_key now member);
       call (PEXPIRE log_key window_ms);
       State_Monad.return (1, count + 1, now + window_ms, 0)
     } else do {
       oldest \<leftarrow> call (ZRANGE log_key 0 0);
       let retry_after_ms = (case scored_of oldest of [] \<Rightarrow> window_ms
                             | (score, _) # _ \<Rightarrow> max 0 (score + window_ms - now));
       call (PEXPIRE log_key window_ms);
       State_Monad.return (0, count, now + retry_after_ms, retry_after_ms)
     }
   }"

section \<open>The class\<close>

definition sliding_window_key :: "key \<Rightarrow> key" where
  "sliding_window_key k = ''rate_limit:sliding_window:'' @ k"

definition sliding_window :: "('s, int \<times> int \<times> int \<times> int) redis_script" where
  "sliding_window = \<lparr>body = ''SLIDING_WINDOW_SCRIPT'', numKeys = 1, script_name = ''sliding_window''\<rparr>"

definition sliding_member :: "int \<Rightarrow> nat \<Rightarrow> nat \<Rightarrow> string" where
  "sliding_member now pid sequence =
     string_of_int now @ ''-'' @ string_of_nat pid @ ''-'' @ string_of_nat sequence"

text \<open>The module's counter \<^verbatim>\<open>sequence\<close> goes in and comes out.\<close>

definition sliding_window_check ::
    "(string \<Rightarrow> string) \<Rightarrow> ('s, int \<times> int \<times> int \<times> int) script_client \<Rightarrow> 's redis \<Rightarrow> int \<Rightarrow>
     nat \<Rightarrow> nat \<Rightarrow> key \<Rightarrow> int \<Rightarrow> int \<Rightarrow> int \<Rightarrow> ('s, (js_error + RateLimitCheckResult) \<times> nat) state" where
  "sliding_window_check sha1 client call now pid sequence k lmt windowSeconds cost =
     (if cost \<noteq> 1
      then State_Monad.return
        (Inl (PlainError ''sliding_window does not support a cost other than 1''), sequence)
      else do {
        let windowMs = windowSeconds * 1000;
        let member = sliding_member now pid sequence;
        r \<leftarrow> throwing
          (run_script sha1 client sliding_window [sliding_window_key k]
             (sliding_window_script call (sliding_window_key k) now windowMs lmt member))
          (\<lambda>reply. js_return (check_result lmt reply (\<lambda>count. max 0 (lmt - count))));
        State_Monad.return (r, Suc sequence)
      })"

definition sliding_window_reset :: "('s, 'r) script_client \<Rightarrow> 's redis \<Rightarrow> key \<Rightarrow> ('s, js_error + unit) state" where
  "sliding_window_reset client call k =
     throwing (getClient client) (\<lambda>_. do { call (DEL [sliding_window_key k]); js_return () })"

definition sliding_window_getStats ::
    "('s, 'r) script_client \<Rightarrow> 's redis \<Rightarrow> int \<Rightarrow> key \<Rightarrow> ('s, js_error + LimiterStats option) state" where
  "sliding_window_getStats client call now k =
     throwing (getClient client) (\<lambda>_. do {
       count \<leftarrow> call (ZCARD (sliding_window_key k));
       pttl \<leftarrow> call (PTTL (sliding_window_key k));
       js_return (if count_of count = 0 then None
                  else Some \<lparr>stat_count = count_of count, stat_resetAt = now + max 0 (count_of pttl)\<rparr>)
     })"

section \<open>The log the script keeps\<close>

text \<open>What is left of a log at time \<open>now\<close>: the script drops scores between 0 and \<open>now - window_ms\<close>.\<close>

definition log_at :: "keyspace \<Rightarrow> key \<Rightarrow> int \<Rightarrow> int \<Rightarrow> (int \<times> string) list" where
  "log_at ks k now window_ms =
     filter (\<lambda>e. \<not> (0 \<le> fst e \<and> fst e \<le> now - window_ms)) (zset_at ks k)"

lemma sliding_window_script_sim [sim_intros]:
  assumes "redis_server call elapse view"
  shows "simulates view (sliding_window_script call k now w m mem) (sliding_window_script doc_call k now w m mem)"
  unfolding sliding_window_script_def
  by (intro sim_intros redis_server_sim[OF assms])

lemma sliding_window_script_admits:
  assumes "int (length (log_at ks k now w)) < m" "0 < w"
  shows "run_state (sliding_window_script doc_call k now w m mem) ks =
    ((1, int (length (log_at ks k now w)) + 1, now + w, 0),
     put_ttl (put_zset (put_zset ks k (log_at ks k now w)) k (zinsert now mem (log_at ks k now w))) k w)"
  using assms by (simp add: sliding_window_script_def log_at_def)

lemma sliding_window_script_refuses:
  assumes "m \<le> int (length (log_at ks k now w))" "0 < w"
  shows "run_state (sliding_window_script doc_call k now w m mem) ks =
    (let wait = (case log_at ks k now w of [] \<Rightarrow> w | (score, _) # _ \<Rightarrow> max 0 (score + w - now))
     in ((0, int (length (log_at ks k now w)), now + wait, wait),
         put_ttl (put_zset ks k (log_at ks k now w)) k w))"
  using assms
  by (cases "log_at ks k now w") (auto simp: sliding_window_script_def log_at_def Let_def)

lemma string_of_nat_no_dash: "CHR ''-'' \<notin> set (string_of_nat n)"
  using string_of_nat_digits[of n] by (auto simp: digit_char_def)

lemma digits_dash_inj:
  "string_of_nat a @ CHR ''-'' # x = string_of_nat b @ CHR ''-'' # y \<Longrightarrow> a = b \<and> x = y"
proof -
  assume eq: "string_of_nat a @ CHR ''-'' # x = string_of_nat b @ CHR ''-'' # y"
  have t: "takeWhile (\<lambda>c. c \<noteq> CHR ''-'') (string_of_nat n @ CHR ''-'' # z) = string_of_nat n" for n z
    using string_of_nat_no_dash[of n] by (subst takeWhile_append2) auto
  have "string_of_nat a = string_of_nat b" using arg_cong[OF eq, of "takeWhile (\<lambda>c. c \<noteq> CHR ''-'')"]
    by (simp only: t)
  then show ?thesis using eq string_of_nat_inj by auto
qed

lemma sliding_member_inj:
  assumes "0 \<le> now" "0 \<le> now'" "sliding_member now pid n = sliding_member now' pid' n'"
  shows "now = now' \<and> pid = pid' \<and> n = n'"
proof -
  have now: "string_of_int now = string_of_nat (nat now)" "string_of_int now' = string_of_nat (nat now')"
    using assms(1,2) by (simp_all add: string_of_int_def)
  from assms(3) have "nat now = nat now' \<and> string_of_nat pid @ CHR ''-'' # string_of_nat n
      = string_of_nat pid' @ CHR ''-'' # string_of_nat n'"
    unfolding sliding_member_def now by (intro digits_dash_inj) simp
  then show ?thesis using assms(1,2) digits_dash_inj[of pid "string_of_nat n" pid' "string_of_nat n'"]
    by (auto dest: string_of_nat_inj)
qed

section \<open>Runs of checks on one key\<close>

text \<open>
  An arrival is the time that passes on the server since the last check, the gateway's clock
  and the member the class made. A run returns the entries it logged. The clock does not
  step back, the server's clock is not faster than it, and no member is used twice.
\<close>

type_synonym log_arrival = "nat \<times> int \<times> string"
type_synonym log_entry = "int \<times> string"

primrec sliding_run ::
    "'s redis \<Rightarrow> (nat \<Rightarrow> 's \<Rightarrow> 's) \<Rightarrow> key \<Rightarrow> int \<Rightarrow> int \<Rightarrow> log_arrival list \<Rightarrow> ('s, log_entry list) state" where
  "sliding_run call elapse k w m [] = State_Monad.return []"
| "sliding_run call elapse k w m (e # es) =
     (case e of (d, now, mem) \<Rightarrow> do {
        State (\<lambda>s. ((), elapse d s));
        (ok, _) \<leftarrow> sliding_window_script call k now w m mem;
        logged \<leftarrow> sliding_run call elapse k w m es;
        State_Monad.return ((if ok = 1 then [(now, mem)] else []) @ logged)
      })"

text \<open>How many entries fall in the window that ends at \<open>t\<close>.\<close>

definition in_window :: "int \<Rightarrow> log_entry list \<Rightarrow> int \<Rightarrow> int" where
  "in_window w A t = int (length (filter (\<lambda>e. t - w < fst e \<and> fst e \<le> t) A))"

type_synonym log_state = "keyspace \<times> int \<times> log_entry list"

definition sliding_inv :: "key \<Rightarrow> int \<Rightarrow> int \<Rightarrow> log_state \<Rightarrow> bool" where
  "sliding_inv k w m st \<longleftrightarrow>
     (case st of (ks, prev, A) \<Rightarrow> 0 < w \<and>
        mset (zset_at ks k) = mset (filter (\<lambda>e. prev - w < fst e) A) \<and> wf_zset (zset_at ks k) \<and>
        (\<forall>e \<in> set A. 0 \<le> fst e \<and> fst e \<le> prev) \<and> distinct (map snd A) \<and>
        (zset_at ks k \<noteq> [] \<longrightarrow> ttl_at ks k = Some w) \<and> (\<forall>t. in_window w A t \<le> m))"

definition sliding_guard :: "log_arrival \<Rightarrow> log_state \<Rightarrow> bool" where
  "sliding_guard e st =
     (case (e, st) of ((d, now, mem), (ks, prev, A)) \<Rightarrow>
        prev \<le> now \<and> 0 \<le> now \<and> int d \<le> now - prev \<and> mem \<notin> snd ` set A)"

definition sliding_step :: "key \<Rightarrow> int \<Rightarrow> int \<Rightarrow> log_arrival \<Rightarrow> log_state \<Rightarrow> log_state" where
  "sliding_step k w m e st =
     (case (e, st) of ((d, now, mem), (ks, prev, A)) \<Rightarrow>
        case run_state (sliding_window_script doc_call k now w m mem) (expire_after d ks) of
          ((ok, _), ks') \<Rightarrow> (ks', now, A @ (if ok = 1 then [(now, mem)] else [])))"

text \<open>What the script finds is the part of the history still in the window, expiry or not.\<close>

lemma log_at_history:
  assumes inv: "sliding_inv k w m (ks, prev, A)" and g: "prev \<le> now" "0 \<le> now" "int d \<le> now - prev"
  shows "mset (log_at (expire_after d ks) k now w) = mset (filter (\<lambda>e. now - w < fst e) A)"
    and "wf_zset (log_at (expire_after d ks) k now w)"
proof -
  let ?Z = "zset_at ks k"
  have Z: "mset ?Z = mset (filter (\<lambda>e. prev - w < fst e) A)" "wf_zset ?Z" "\<forall>e \<in> set A. 0 \<le> fst e \<and> fst e \<le> prev"
    "?Z \<noteq> [] \<longrightarrow> ttl_at ks k = Some w" using inv by (auto simp: sliding_inv_def)
  have sub: "set ?Z \<subseteq> set A" using Z(1) by (metis filter_is_subset set_mset_mset)
  have eq: "log_at (expire_after d ks) k now w = filter (\<lambda>e. now - w < fst e) ?Z"
  proof (cases "?Z = [] \<or> int d < w")
    case True
    then have "zset_at (expire_after d ks) k = ?Z" using Z(4) by (auto split: option.splits)
    then show ?thesis using sub Z(3) by (auto simp: log_at_def intro!: filter_cong)
  next
    case False
    then have "zset_at (expire_after d ks) k = []" using Z(4) by simp
    moreover have "\<forall>e \<in> set ?Z. fst e \<le> now - w" using False sub Z(3) g(3) by fastforce
    then have "filter (\<lambda>e. now - w < fst e) ?Z = []" by (auto simp: filter_empty_conv)
    ultimately show ?thesis by (simp add: log_at_def)
  qed
  have "mset (filter (\<lambda>e. now - w < fst e) ?Z) = filter_mset (\<lambda>e. now - w < fst e) (mset ?Z)" by simp
  also have "\<dots> = mset (filter (\<lambda>e. now - w < fst e) A)"
    unfolding Z(1) using g(1) by (auto simp: filter_filter_mset intro!: filter_mset_cong)
  finally show "mset (log_at (expire_after d ks) k now w) = mset (filter (\<lambda>e. now - w < fst e) A)"
    by (simp add: eq)
  show "wf_zset (log_at (expire_after d ks) k now w)" using Z(2) by (simp add: eq)
qed

lemma in_window_snoc:
  assumes "\<forall>t. in_window w A t \<le> m" "\<forall>e \<in> set A. fst e \<le> now"
    and "int (length (filter (\<lambda>e. now - w < fst e) A)) < m"
  shows "in_window w (A @ [(now, mem)]) t \<le> m"
proof (cases "now \<le> t")
  case True
  have "length (filter (\<lambda>e. t - w < fst e \<and> fst e \<le> t) A) \<le> length (filter (\<lambda>e. now - w < fst e) A)"
    using True by (induction A) auto
  then show ?thesis using assms(3) by (simp add: in_window_def)
next
  case False
  then show ?thesis using assms(1) by (simp add: in_window_def)
qed

lemma sliding_inv_refusal:
  assumes inv: "sliding_inv k w m (ks, prev, A)" and t: "prev \<le> now" "0 \<le> now" "int d \<le> now - prev"
    and full: "m \<le> int (length (log_at (expire_after d ks) k now w))"
  shows "sliding_inv k w m
     (snd (run_state (sliding_window_script doc_call k now w m mem) (expire_after d ks)), now, A)"
proof -
  have A: "0 < w" "\<forall>e \<in> set A. 0 \<le> fst e \<and> fst e \<le> prev" "distinct (map snd A)" "\<forall>t. in_window w A t \<le> m"
    using inv by (auto simp: sliding_inv_def)
  then show ?thesis using t full log_at_history[OF inv t]
    by (auto simp: sliding_window_script_refuses sliding_inv_def Let_def put_zset_def
        intro: order_trans) blast
qed

lemma sliding_inv_step:
  assumes inv: "sliding_inv k w m st" and g: "sliding_guard e st"
  shows "sliding_inv k w m (sliding_step k w m e st)"
proof -
  obtain ks prev A d now mem where eq: "st = (ks, prev, A)" "e = (d, now, mem)" by (metis prod_cases3)
  have t: "prev \<le> now" "0 \<le> now" "int d \<le> now - prev" "mem \<notin> snd ` set A"
    using g by (auto simp: sliding_guard_def eq)
  let ?ks = "expire_after d ks"
  let ?L = "log_at ?ks k now w"
  note L = log_at_history[OF inv[unfolded eq] t(1-3)]
  have A: "0 < w" "\<forall>e \<in> set A. 0 \<le> fst e \<and> fst e \<le> prev" "distinct (map snd A)" "\<forall>t. in_window w A t \<le> m"
    using inv by (auto simp: sliding_inv_def eq)
  have len: "length ?L = length (filter (\<lambda>e. now - w < fst e) A)" using L(1) by (metis size_mset)
  show ?thesis
  proof (cases "int (length ?L) < m")
    case True
    have "set ?L \<subseteq> set A" using L(1) by (metis filter_is_subset set_mset_mset)
    then have "filter (\<lambda>e. snd e \<noteq> mem) ?L = ?L" using t(4) by (auto simp: filter_id_conv)
    then have "mset (zinsert now mem ?L) = add_mset (now, mem) (mset ?L)" by (simp add: zinsert_def)
    moreover have "in_window w (A @ [(now, mem)]) t \<le> m" for t
      using A(2) t(1) True len by (intro in_window_snoc A(4)) auto
    ultimately show ?thesis using True A t L
      by (auto simp: eq sliding_step_def sliding_window_script_admits sliding_inv_def intro: order_trans)
         (auto simp: put_zset_def)
  next
    case False
    then show ?thesis using sliding_inv_refusal[OF inv[unfolded eq] t(1-3), of mem]
      by (simp add: eq sliding_step_def sliding_window_script_refuses A(1) Let_def)
  qed
qed

interpretation sliding: guarded "sliding_step k w m" sliding_guard "sliding_inv k w m"
  for k :: key and w m :: int
  by unfold_locales (rule sliding_inv_step)

fun sliding_timely :: "int \<Rightarrow> log_arrival list \<Rightarrow> bool" where
  "sliding_timely prev [] = True"
| "sliding_timely prev ((d, now, mem) # es) =
     (prev \<le> now \<and> 0 \<le> now \<and> int d \<le> now - prev \<and> sliding_timely now es)"

lemma valid_ops_sliding:
  "sliding_timely prev es \<Longrightarrow> distinct (map (snd \<circ> snd) es) \<Longrightarrow>
     snd ` set A \<inter> (snd \<circ> snd) ` set es = {} \<Longrightarrow>
     valid_ops (sliding_step k w m) sliding_guard es (ks, prev, A)"
proof (induction es arbitrary: ks prev A)
  case (Cons e es)
  obtain d now mem where e: "e = (d, now, mem)" by (metis prod_cases3)
  obtain ok r ks' where run: "run_state (sliding_window_script doc_call k now w m mem) (expire_after d ks) = ((ok, r), ks')"
    by (metis surj_pair)
  let ?A = "A @ (if ok = 1 then [(now, mem)] else [])"
  have step: "sliding_step k w m e (ks, prev, A) = (ks', now, ?A)" by (cases r) (simp add: e sliding_step_def run)
  have fresh: "mem \<notin> (snd \<circ> snd) ` set es" "mem \<notin> snd ` set A" "snd ` set A \<inter> (snd \<circ> snd) ` set es = {}"
    using Cons.prems(2,3) by (auto simp: e)
  then have "snd ` set ?A \<inter> (snd \<circ> snd) ` set es = {}" by (cases "ok = 1") (simp_all add: image_Un Int_Un_distrib2)
  then have "valid_ops (sliding_step k w m) sliding_guard es (ks', now, ?A)"
    using Cons.prems(1,2) by (intro Cons.IH) (auto simp: e)
  moreover have "sliding_guard e (ks, prev, A)" using Cons.prems(1) fresh(2) by (simp add: e sliding_guard_def)
  ultimately show ?case by (simp add: step)
qed simp

lemma sliding_run_history:
  "snd (snd (run_ops (sliding_step k w m) es (ks, prev, A)))
     = A @ fst (run_state (sliding_run doc_call expire_after k w m es) ks)"
proof (induction es arbitrary: ks prev A)
  case (Cons e es)
  obtain d now mem where e: "e = (d, now, mem)" by (metis prod_cases3)
  obtain ok r ks' where run: "run_state (sliding_window_script doc_call k now w m mem) (expire_after d ks) = ((ok, r), ks')"
    by (metis surj_pair)
  obtain l ks'' where rest: "run_state (sliding_run doc_call expire_after k w m es) ks' = (l, ks'')"
    by (metis surj_pair)
  show ?case using Cons.IH[of ks' now "A @ (if ok = 1 then [(now, mem)] else [])"]
    by (cases r) (simp add: e sliding_step_def run rest)
qed simp

lemma sliding_run_sim:
  assumes "redis_server call elapse view"
  shows "simulates view (sliding_run call elapse k w m es) (sliding_run doc_call expire_after k w m es)"
proof (induction es)
  case (Cons e es)
  have "simulates view (State (\<lambda>s. ((), elapse d s))) (State (\<lambda>s. ((), expire_after d s)))" for d
    by (rule redis_server_elapse_sim[OF assms])
  then show ?case unfolding sliding_run.simps
    by (intro simulates_prod simulates_bind simulates_return sliding_window_script_sim[OF assms] Cons.IH)
qed (simp add: sim_intros)

section \<open>What the limiter promises\<close>

text \<open>
  C7: No interval as long as the window holds more admitted requests than the limit, over
  any run of checks, whatever the gaps between them and however often the log expires:
  the log is exact, with no burst at a boundary.
\<close>

theorem sliding_window_never_exceeds:
  assumes server: "redis_server call elapse view" and "0 < w" and "0 \<le> lmt"
    and empty: "zset_at (view s) (sliding_window_key k) = []"
    and clk: "sliding_timely prev es" and fresh: "distinct (map (snd \<circ> snd) es)"
    and run: "run_state (sliding_run call elapse (sliding_window_key k) w lmt es) s = (logged, s')"
  shows "int (length (filter (\<lambda>e. t - w < fst e \<and> fst e \<le> t) logged)) \<le> lmt"
proof -
  let ?k = "sliding_window_key k"
  have "sliding_inv ?k w lmt (view s, prev, [])"
    using assms by (simp add: sliding_inv_def in_window_def)
  moreover have "valid_ops (sliding_step ?k w lmt) sliding_guard es (view s, prev, [])"
    by (rule valid_ops_sliding[OF clk fresh]) simp
  ultimately have "sliding_inv ?k w lmt (run_ops (sliding_step ?k w lmt) es (view s, prev, []))"
    by (rule sliding.inv_run)
  then show ?thesis
    using sliding_run_history[of ?k w lmt es "view s" prev "[]"] simulatesD[OF sliding_run_sim[OF server] run]
    by (auto simp: sliding_inv_def in_window_def split: prod.splits)
qed

lemma sliding_window_never_exceeds_witness:
  "length (filter (\<lambda>e. 0 < fst e \<and> fst e \<le> 60000)
     (fst (run_state (sliding_run doc_call expire_after (sliding_window_key ''u'') 60000 2
        [(0, 1000, ''1000-7-0''), (10, 1010, ''1010-7-1''), (59000, 60010, ''60010-7-2'')]) Map.empty))) \<le> 2"
proof -
  let ?es = "[(0, 1000, ''1000-7-0''), (10, 1010, ''1010-7-1''), (59000, 60010, ''60010-7-2'')] :: log_arrival list"
  obtain l ks where run: "run_state (sliding_run doc_call expire_after (sliding_window_key ''u'') 60000 2 ?es) Map.empty = (l, ks)"
    by (cases "run_state (sliding_run doc_call expire_after (sliding_window_key ''u'') 60000 2 ?es) Map.empty")
  have "int (length (filter (\<lambda>e. 60000 - 60000 < fst e \<and> fst e \<le> 60000) l)) \<le> 2"
    by (rule sliding_window_never_exceeds[OF keyspace_server.redis_server_axioms, where prev = 0 and k = "''u''", OF _ _ _ _ _ run])
       (simp_all add: zset_at_def)
  then show ?thesis by (simp only: run fst_conv) simp
qed

lemma oldest_is_Min:
  assumes "wf_zset ((sc, mem) # l)" shows "Min (fst ` set ((sc, mem) # l)) = sc"
  using assms by (intro Min_eqI) (auto simp: wf_zset_def less_eq_prod_def)

lemma log_at_put [simp]: "0 < w \<Longrightarrow> log_at (put_ttl (put_zset ks k l) k w) k now w
    = filter (\<lambda>e. \<not> (0 \<le> fst e \<and> fst e \<le> now - w)) l"
  by (simp add: log_at_def)

text \<open>
  A refused client is told the moment the oldest request of the window ages out, its
  own refusals do not move that moment, and a check at that moment or later is admitted
  when nobody else's was in between.
\<close>

theorem sliding_window_refusal_told_exactly:
  assumes server: "redis_server call elapse view" and "1 \<le> lmt"
    and inv: "sliding_inv (sliding_window_key k) w lmt (view s, prev, A)"
    and now: "prev \<le> now" "0 \<le> now" "int d \<le> now - prev"
    and refused: "run_state (sliding_window_script call (sliding_window_key k) now w lmt mem) (elapse d s)
        = ((0, cnt, reset_at, wait), s1)"
    and later: "reset_at \<le> later" "int d' \<le> later - now"
  shows "reset_at = Min (fst ` set (log_at (view (elapse d s)) (sliding_window_key k) now w)) + w
    \<and> log_at (view s1) (sliding_window_key k) now w = log_at (view (elapse d s)) (sliding_window_key k) now w
    \<and> fst (fst (run_state (sliding_window_script call (sliding_window_key k) later w lmt mem') (elapse d' s1))) = 1"
proof -
  let ?k = "sliding_window_key k" and ?ks = "expire_after d (view s)"
  let ?L = "log_at ?ks ?k now w"
  note sim = sliding_window_script_sim[OF server] and el = redis_server.elapse_documented[OF server]
  have w: "0 < w" and A: "\<forall>e \<in> set A. 0 \<le> fst e \<and> fst e \<le> prev" "in_window w A now \<le> lmt"
    using inv by (auto simp: sliding_inv_def)
  note hist = log_at_history[OF inv now]
  have doc: "run_state (sliding_window_script doc_call ?k now w lmt mem) ?ks = ((0, cnt, reset_at, wait), view s1)"
    using simulatesD[OF sim refused] by (simp add: el)
  have full: "lmt \<le> int (length ?L)"
    using doc sliding_window_script_admits[of ?ks ?k now w lmt mem] w by (cases "int (length ?L) < lmt") auto
  then obtain sc mem0 l where L: "?L = (sc, mem0) # l" using assms(2) by (cases ?L) auto
  have inL: "e \<in> set ?L \<Longrightarrow> now - w < fst e \<and> 0 \<le> fst e \<and> fst e \<le> now" for e
    using mset_eq_setD[OF hist(1)] A(1) now(1) by auto
  have sc: "now - w < sc" using inL[of "(sc, mem0)"] L by simp
  have s1: "view s1 = put_ttl (put_zset ?ks ?k ?L) ?k w" and reset: "reset_at = sc + w"
    using doc sliding_window_script_refuses[OF full w, of mem] sc by (auto simp: L Let_def)
  have inv1: "sliding_inv ?k w lmt (view s1, now, A)"
    using sliding_inv_refusal[OF inv now full, of mem] doc by simp
  have "now \<le> later" using later(1) reset sc by simp
  note hist' = log_at_history(1)[OF inv1 this _ later(2)]
  have "length (log_at (expire_after d' (view s1)) ?k later w) = length (filter (\<lambda>e. later - w < fst e) A)"
    using hist' now(2) \<open>now \<le> later\<close> by (metis order_trans size_mset)
  also have "\<dots> = length (filter (\<lambda>e. later - w < fst e) (filter (\<lambda>e. now - w < fst e) A))"
    using \<open>now \<le> later\<close> by (auto simp: filter_filter_conj intro!: arg_cong[of _ _ length] filter_cong)
  also have "\<dots> = length (filter (\<lambda>e. later - w < fst e) ?L)"
    using hist(1) by (metis mset_filter size_mset)
  also have "\<dots> < length ?L"
    using later(1) reset by (intro length_filter_less[of "(sc, mem0)"]) (auto simp: L)
  also have "length ?L = length (filter (\<lambda>e. now - w < fst e) A)" using hist(1) by (metis size_mset)
  also have "\<dots> = nat (in_window w A now)"
    using A(1) now(1) by (auto simp: in_window_def intro!: arg_cong[of _ _ length] filter_cong)
  finally have room: "int (length (log_at (expire_after d' (view s1)) ?k later w)) < lmt" using A(2) by linarith
  obtain r s2 where last_run: "run_state (sliding_window_script call ?k later w lmt mem') (elapse d' s1) = (r, s2)"
    by (metis surj_pair)
  have "fst r = 1"
    using simulatesD[OF sim last_run] unfolding el sliding_window_script_admits[OF room w] by auto
  moreover have "log_at (view s1) ?k now w = ?L"
    unfolding s1 log_at_put[OF w] using inL by (intro filter_True) fastforce
  ultimately show ?thesis
    using reset oldest_is_Min[OF hist(2)[unfolded L]] last_run by (simp add: el L)
qed

lemma sliding_window_refusal_told_exactly_witness:
  "fst (fst (run_state (sliding_window_script doc_call (sliding_window_key ''u'') 61000 60000 1 ''61000-7-2'')
     (expire_after 59000 ((Map.empty)(sliding_window_key ''u'' := Some (ZSet [(1000, ''1000-7-0'')], Some 60000)))))) = 1"
proof -
  let ?k = "sliding_window_key ''u''"
  let ?ks = "(Map.empty)(?k := Some (ZSet [(1000, ''1000-7-0'')], Some 60000)) :: keyspace"
  have inv: "sliding_inv ?k 60000 1 (id ?ks, 1000, [(1000, ''1000-7-0'')])"
    by (simp add: sliding_inv_def wf_zset_def in_window_def)
  have e0: "expire_after 1000 ?ks = (Map.empty)(?k := Some (ZSet [(1000, ''1000-7-0'')], Some 59000))"
    by (auto simp: expire_after_def)
  have refused: "run_state (sliding_window_script doc_call ?k 2000 60000 1 ''2000-7-1'') (expire_after 1000 ?ks)
      = ((0, 1, 61000, 59000), ?ks)"
    by (simp add: e0 sliding_window_script_refuses log_at_def)
       (simp add: put_ttl_def put_zset_def fun_eq_iff)
  show ?thesis
    by (rule sliding_window_refusal_told_exactly[OF keyspace_server.redis_server_axioms _ inv _ _ _ refused,
          THEN conjunct2, THEN conjunct2]) simp_all
qed

text \<open>
  The check of the class is the script run under the class's key with a member that
  no other check of the fleet can have made, and a cost other than one is refused before
  anything is read or written.
\<close>

theorem sliding_window_check_outcome:
  fixes s :: 's and w :: int
  assumes server: "script_server call elapse view sha1 client cached"
  shows "(cost = 1 \<longrightarrow> (\<exists>s'. run_state (sliding_window_check sha1 client call now pid sequence k lmt w cost) s =
      ((Inr (check_result lmt (fst (run_state (sliding_window_script doc_call (sliding_window_key k) now
          (w * 1000) lmt (sliding_member now pid sequence)) (view s))) (\<lambda>count. max 0 (lmt - count))), Suc sequence), s')
      \<and> view s' = snd (run_state (sliding_window_script doc_call (sliding_window_key k) now
          (w * 1000) lmt (sliding_member now pid sequence)) (view s))))
    \<and> (cost \<noteq> 1 \<longrightarrow> (\<exists>m. run_state (sliding_window_check sha1 client call now pid sequence k lmt w cost) s
        = ((Inl (PlainError m), sequence), s)))
    \<and> (0 \<le> now \<and> 0 \<le> now' \<and> sliding_member now pid sequence = sliding_member now' pid' sequence'
        \<longrightarrow> (now, pid, sequence) = (now', pid', sequence'))"
proof -
  let ?p = "\<lambda>c. sliding_window_script c (sliding_window_key k) now (w * 1000) lmt (sliding_member now pid sequence)"
  have "\<exists>s'. run_state (throwing (run_script sha1 client sliding_window [sliding_window_key k] (?p call))
          (\<lambda>reply. js_return (check_result lmt reply (\<lambda>count. max 0 (lmt - count))))) s =
      (Inr (check_result lmt (fst (run_state (?p doc_call) (view s))) (\<lambda>count. max 0 (lmt - count))), s')
      \<and> view s' = snd (run_state (?p doc_call) (view s))"
    by (rule script_server.run_script_then[OF server sliding_window_script_sim[OF script_server.axioms(1)[OF server]]])
       (simp add: sliding_window_def)
  then show ?thesis using sliding_member_inj[of now now' pid sequence pid' sequence']
    by (auto simp: sliding_window_check_def Let_def simp del: run_state_throwing)
qed

lemma sliding_window_check_outcome_witness:
  "\<exists>m. run_state (sliding_window_check (\<lambda>t. t) (server_client (\<lambda>t. t)) server_call 1000 7 0 ''u'' 2 60 3) (Map.empty, [])
     = ((Inl (PlainError m), 0), (Map.empty, []))"
  using sliding_window_check_outcome[OF doc_script_server.script_server_axioms[of "\<lambda>t. t"],
      where cost = 3 and k = "''u''" and now = 1000 and pid = 7 and sequence = 0 and lmt = 2 and w = 60
        and s = "(Map.empty, [])" and now' = 1000 and pid' = 7 and sequence' = 0]
  by simp

end
