(* ===== verification/Fixed_Window.thy ===== *)
theory Fixed_Window
  imports Script_Runner Rate_Types Metered
begin

text \<open>
  The fixed window counter: the script \<^verbatim>\<open>FIXED_WINDOW_SCRIPT\<close> of
  \<^verbatim>\<open>src/scripts/lua-scripts.ts\<close> and the class of \<^verbatim>\<open>src/algorithms/fixed-window.ts\<close>. The
  window's number is part of the key, so every window has a counter of its own.
\<close>

section \<open>The script\<close>

definition fixed_window_script ::
    "'s redis \<Rightarrow> key \<Rightarrow> int \<Rightarrow> int \<Rightarrow> int \<Rightarrow> ('s, int \<times> int \<times> int \<times> int) state" where
  "fixed_window_script call counter_key max_requests window_seconds now = do {
     let window_ms = window_seconds * 1000;
     let reset_at = (\<lfloor>fdiv (of_int now) (of_int window_ms)\<rfloor> + 1) * window_ms;
     let ttl_ms = reset_at - now;
     stored \<leftarrow> call (GET counter_key);
     let count = number_or stored 0;
     if count < of_int max_requests then do {
       n \<leftarrow> call (INCR counter_key);
       call (PEXPIRE counter_key ttl_ms);
       State_Monad.return (1, count_of n, reset_at, 0)
     } else do {
       call (PEXPIRE counter_key ttl_ms);
       State_Monad.return (0, \<lfloor>count\<rfloor>, reset_at, ttl_ms)
     }
   }"

section \<open>The class\<close>

definition windowIndex :: "int \<Rightarrow> int \<Rightarrow> int" where
  "windowIndex now windowSeconds = \<lfloor>fdiv (of_int now) (of_int (windowSeconds * 1000))\<rfloor>"

definition fixed_window_key :: "key \<Rightarrow> int \<Rightarrow> key" where
  "fixed_window_key k index = ''rate_limit:fixed_window:'' @ k @ '':'' @ string_of_int index"

definition fixed_window :: "('s, int \<times> int \<times> int \<times> int) redis_script" where
  "fixed_window = \<lparr>body = ''FIXED_WINDOW_SCRIPT'', numKeys = 1, script_name = ''fixed_window''\<rparr>"

definition fixed_window_check ::
    "(string \<Rightarrow> string) \<Rightarrow> ('s, int \<times> int \<times> int \<times> int) script_client \<Rightarrow> 's redis \<Rightarrow> int \<Rightarrow>
     key \<Rightarrow> int \<Rightarrow> int \<Rightarrow> int \<Rightarrow> ('s, js_error + RateLimitCheckResult) state" where
  "fixed_window_check sha1 client call now k lmt windowSeconds cost =
     (if cost \<noteq> 1
      then js_throw (PlainError ''fixed_window does not support a cost other than 1'')
      else (let redisKey = fixed_window_key k (windowIndex now windowSeconds)
            in throwing
                 (run_script sha1 client fixed_window [redisKey]
                    (fixed_window_script call redisKey lmt windowSeconds now))
                 (\<lambda>reply. js_return (check_result lmt reply (\<lambda>count. max 0 (lmt - count))))))"

definition fixed_window_reset ::
    "('s, 'r) script_client \<Rightarrow> 's redis \<Rightarrow> int \<Rightarrow> key \<Rightarrow> int \<Rightarrow> ('s, js_error + unit) state" where
  "fixed_window_reset client call now k windowSeconds =
     (let index = windowIndex now windowSeconds
      in throwing (getClient client) (\<lambda>_. do {
           call (DEL [fixed_window_key k index, fixed_window_key k (index - 1)]);
           js_return ()
         }))"

definition fixed_window_getStats ::
    "('s, 'r) script_client \<Rightarrow> 's redis \<Rightarrow> int \<Rightarrow> key \<Rightarrow> int \<Rightarrow>
     ('s, js_error + LimiterStats option) state" where
  "fixed_window_getStats client call now k windowSeconds =
     throwing (getClient client) (\<lambda>_. do {
       let redisKey = fixed_window_key k (windowIndex now windowSeconds);
       stored \<leftarrow> call (GET redisKey);
       let windowMs = windowSeconds * 1000;
       js_return (case stored of
           NumText v \<Rightarrow> Some \<lparr>stat_count = \<lfloor>v\<rfloor>,
                              stat_resetAt = (windowIndex now windowSeconds + 1) * windowMs\<rparr>
         | _ \<Rightarrow> None)
     })"

section \<open>The counter the script keeps\<close>

definition counter_at :: "keyspace \<Rightarrow> key \<Rightarrow> rat" where
  "counter_at ks k = (case str_at ks k of Some v \<Rightarrow> dbl v | None \<Rightarrow> 0)"

definition window_left :: "int \<Rightarrow> int \<Rightarrow> int" where
  "window_left now w = (now div (1000 * w) + 1) * (1000 * w) - now"

lemma windowIndex_div:
  "clock_ok now \<Longrightarrow> 0 < w \<Longrightarrow> windowIndex now w = now div (1000 * w)"
  unfolding windowIndex_def by (subst floor_fdiv_of_int) (auto simp: clock_ok_def mult.commute)

lemma window_left_bounds: "0 < w \<Longrightarrow> 0 < window_left now w \<and> window_left now w \<le> 1000 * w"
proof -
  assume "0 < w"
  then have w: "0 < 1000 * w" by simp
  show ?thesis
    using pos_mod_bound[OF w, of now] pos_mod_sign[OF w, of now] div_mult_mod_eq[of now "1000 * w"]
    unfolding window_left_def distrib_right by linarith
qed

lemma fixed_window_script_sim [sim_intros]:
  assumes "redis_server call elapse view"
  shows "simulates view (fixed_window_script call k m w now) (fixed_window_script doc_call k m w now)"
  unfolding fixed_window_script_def
  by (intro sim_intros redis_server_sim[OF assms])

lemma fixed_window_script_doc:
  assumes "clock_ok now" "0 < w"
  shows "run_state (fixed_window_script doc_call k m w now) ks =
    (if counter_at ks k < of_int m
     then ((1, \<lfloor>case str_at ks k of Some v \<Rightarrow> v | None \<Rightarrow> 0\<rfloor> + 1, now + window_left now w, 0),
           put_ttl (ks(k := Some (Str (of_int (\<lfloor>case str_at ks k of Some v \<Rightarrow> v | None \<Rightarrow> 0\<rfloor> + 1)), ttl_at ks k)))
             k (window_left now w))
     else ((0, \<lfloor>counter_at ks k\<rfloor>, now + window_left now w, window_left now w),
           put_ttl ks k (window_left now w)))"
  using windowIndex_div[OF assms]
  by (cases "str_at ks k")
     (simp_all add: fixed_window_script_def counter_at_def windowIndex_def window_left_def Let_def ac_simps)

lemma fixed_window_key_inj:
  assumes "0 \<le> i" "0 \<le> j" "fixed_window_key k i = fixed_window_key k j" shows "i = j"
  using assms by (auto simp: fixed_window_key_def string_of_int_def dest!: string_of_nat_inj)

section \<open>Runs of checks on one key\<close>

text \<open>
  An arrival is the time that passes on the server since the last check and the gateway's
  clock; a run returns the times of the checks it admitted.
\<close>

type_synonym tick = "nat \<times> int"

primrec fixed_run ::
    "'s redis \<Rightarrow> (nat \<Rightarrow> 's \<Rightarrow> 's) \<Rightarrow> key \<Rightarrow> int \<Rightarrow> int \<Rightarrow> tick list \<Rightarrow> ('s, int list) state" where
  "fixed_run call elapse k lmt w [] = State_Monad.return []"
| "fixed_run call elapse k lmt w (e # es) =
     (case e of (d, now) \<Rightarrow> do {
        State (\<lambda>s. ((), elapse d s));
        (ok, _) \<leftarrow> fixed_window_script call (fixed_window_key k (windowIndex now w)) lmt w now;
        admitted \<leftarrow> fixed_run call elapse k lmt w es;
        State_Monad.return ((if ok = 1 then [now] else []) @ admitted)
      })"

fun fixed_timely :: "int \<Rightarrow> tick list \<Rightarrow> bool" where
  "fixed_timely prev [] = True"
| "fixed_timely prev ((d, now) # es) =
     (prev \<le> now \<and> clock_ok now \<and> int d \<le> now - prev \<and> fixed_timely now es)"

definition in_index :: "int \<Rightarrow> int list \<Rightarrow> int \<Rightarrow> int" where
  "in_index w A i = int (length (filter (\<lambda>t. t div (1000 * w) = i) A))"

type_synonym fixed_state = "keyspace \<times> int \<times> int list"

text \<open>
  The counter of the current window is the number of its admitted checks and lives as long
  as the window; the counters of later windows do not exist yet.
\<close>

definition fixed_inv :: "key \<Rightarrow> int \<Rightarrow> int \<Rightarrow> fixed_state \<Rightarrow> bool" where
  "fixed_inv k lmt w st \<longleftrightarrow>
     (case st of (ks, prev, A) \<Rightarrow>
        0 < w \<and> 0 \<le> lmt \<and> lmt \<le> 2 ^ 53 \<and> clock_ok prev \<and> (\<forall>t \<in> set A. t \<le> prev) \<and>
        (\<forall>i. in_index w A i \<le> lmt) \<and>
        (let i = prev div (1000 * w); ck = fixed_window_key k i; n = in_index w A i
         in (if n = 0 then ks ck = None
             else ks ck = Some (Str (of_int n), Some (window_left prev w))) \<and>
            (\<forall>j. i < j \<longrightarrow> ks (fixed_window_key k j) = None)))"

definition fixed_guard :: "tick \<Rightarrow> fixed_state \<Rightarrow> bool" where
  "fixed_guard e st = fixed_timely (fst (snd st)) [e]"

definition fixed_step :: "key \<Rightarrow> int \<Rightarrow> int \<Rightarrow> tick \<Rightarrow> fixed_state \<Rightarrow> fixed_state" where
  "fixed_step k lmt w e st =
     (case (e, st) of ((d, now), (ks, prev, A)) \<Rightarrow>
        case run_state (fixed_window_script doc_call (fixed_window_key k (windowIndex now w)) lmt w now)
               (expire_after d ks) of
          ((ok, _), ks') \<Rightarrow> (ks', now, A @ (if ok = 1 then [now] else [])))"

text \<open>What a check finds: the counter of its own window, with the rest of its life.\<close>

lemma counter_found:
  assumes inv: "fixed_inv k lmt w (ks, prev, A)" and g: "prev \<le> now" "clock_ok now" "int d \<le> now - prev"
  defines "i \<equiv> now div (1000 * w)"
  shows "expire_after d ks (fixed_window_key k i) =
      (if in_index w A i = 0 then None
       else Some (Str (of_int (in_index w A i)), Some (window_left prev w - int d)))"
    and "i < j \<Longrightarrow> expire_after d ks (fixed_window_key k j) = None"
    and "0 \<le> i" and "prev div (1000 * w) \<le> i"
proof -
  let ?p = "prev div (1000 * w)"
  have w: "0 < w" and A: "\<forall>t \<in> set A. t \<le> prev" and prev: "clock_ok prev"
    and cur: "if in_index w A ?p = 0 then ks (fixed_window_key k ?p) = None
      else ks (fixed_window_key k ?p) = Some (Str (of_int (in_index w A ?p)), Some (window_left prev w))"
    and later: "\<And>j. ?p < j \<Longrightarrow> ks (fixed_window_key k j) = None"
    using inv by (auto simp: fixed_inv_def Let_def)
  show pi: "?p \<le> i" unfolding i_def using g(1) w by (intro zdiv_mono1) auto
  show "0 \<le> i" unfolding i_def using g(2) w by (simp add: clock_ok_def pos_imp_zdiv_nonneg_iff)
  show "expire_after d ks (fixed_window_key k j) = None" if "i < j"
    using later[of j] that pi by (simp add: expire_after_def)
  show "expire_after d ks (fixed_window_key k i) =
      (if in_index w A i = 0 then None
       else Some (Str (of_int (in_index w A i)), Some (window_left prev w - int d)))"
  proof (cases "?p = i")
    case True
    have "int d < window_left prev w"
    proof -
      have "now < now div (1000 * w) * (1000 * w) + 1000 * w"
        using window_left_bounds[OF w, of now] by (simp add: window_left_def distrib_right)
      then show ?thesis using True g(3) by (simp add: window_left_def distrib_right i_def)
    qed
    then show ?thesis using cur True by (auto simp: expire_after_def)
  next
    case False
    then have lt: "?p < i" using pi by simp
    have "t div (1000 * w) \<noteq> i" if "t \<in> set A" for t
    proof -
      have "t div (1000 * w) \<le> ?p" using A that w by (intro zdiv_mono1) auto
      then show ?thesis using lt by simp
    qed
    then have "in_index w A i = 0" by (simp add: in_index_def filter_empty_conv)
    then show ?thesis using later[OF lt] by (simp add: expire_after_def)
  qed
qed

lemma in_index_snoc: "in_index w (A @ [t]) j = in_index w A j + (if t div (1000 * w) = j then 1 else 0)"
  by (simp add: in_index_def)

lemma in_index_nonneg [simp]: "0 \<le> in_index w A i"
  by (simp add: in_index_def)

lemma fixed_step_eq:
  assumes inv: "fixed_inv k lmt w (ks, prev, A)" and g: "prev \<le> now" "clock_ok now" "int d \<le> now - prev"
  defines "i \<equiv> now div (1000 * w)"
  shows "run_state (fixed_window_script doc_call (fixed_window_key k (windowIndex now w)) lmt w now)
      (expire_after d ks) =
    (if in_index w A i < lmt
     then ((1, in_index w A i + 1, now + window_left now w, 0),
           (expire_after d ks)(fixed_window_key k i
              := Some (Str (of_int (in_index w A i + 1)), Some (window_left now w))))
     else ((0, in_index w A i, now + window_left now w, window_left now w),
           put_ttl (expire_after d ks) (fixed_window_key k i) (window_left now w)))"
proof -
  have w: "0 < w" and n: "in_index w A i \<le> 2 ^ 53"
    using inv by (auto simp: fixed_inv_def intro: order_trans)
  have idx: "windowIndex now w = i" using windowIndex_div[OF g(2) w] by (simp add: i_def)
  note found = counter_found(1)[OF inv g, folded i_def]
  have "counter_at (expire_after d ks) (fixed_window_key k i) = of_int (in_index w A i)"
    using n by (simp add: counter_at_def str_at_def found)
  moreover have "(case str_at (expire_after d ks) (fixed_window_key k i) of Some v \<Rightarrow> v | None \<Rightarrow> 0)
      = of_int (in_index w A i)"
    by (simp add: str_at_def found)
  ultimately show ?thesis
    using window_left_bounds[OF w, of now]
    by (simp add: idx fixed_window_script_doc[OF g(2) w] put_ttl_def)
qed

lemma fixed_inv_step:
  assumes inv: "fixed_inv k lmt w st" and g: "fixed_guard e st"
  shows "fixed_inv k lmt w (fixed_step k lmt w e st)"
proof -
  obtain ks prev A d now where eq: "st = (ks, prev, A)" "e = (d, now)" by (metis prod_cases3 surj_pair)
  have t: "prev \<le> now" "clock_ok now" "int d \<le> now - prev"
    using g by (auto simp: fixed_guard_def eq)
  let ?i = "now div (1000 * w)"
  note inv' = inv[unfolded eq] and found = counter_found[OF inv[unfolded eq] t]
  have A: "0 < w" "0 \<le> lmt" "lmt \<le> 2 ^ 53" "\<forall>t \<in> set A. t \<le> prev" "\<forall>i. in_index w A i \<le> lmt"
    using inv' by (auto simp: fixed_inv_def)
  have other: "fixed_window_key k j \<noteq> fixed_window_key k ?i" if "?i < j" for j
    using fixed_window_key_inj[of j ?i k] found(3) that by auto
  show ?thesis
  proof (cases "in_index w A ?i < lmt")
    case True
    moreover have "in_index w (A @ [now]) j \<le> lmt" for j
      using A(5) True by (auto simp: in_index_snoc)
    ultimately show ?thesis using A t found(2) other
      by (auto simp: eq fixed_step_def fixed_step_eq[OF inv' t] fixed_inv_def Let_def in_index_snoc
          add_nonneg_eq_0_iff intro: order_trans)
  next
    case False
    then show ?thesis using A t found(1,2) other window_left_bounds[OF A(1), of now]
      by (auto simp: eq fixed_step_def fixed_step_eq[OF inv' t] fixed_inv_def Let_def put_ttl_def
          split: option.splits intro: order_trans)
  qed
qed

interpretation fixed: guarded "fixed_step k lmt w" fixed_guard "fixed_inv k lmt w"
  for k :: key and lmt w :: int
  by unfold_locales (rule fixed_inv_step)

lemma valid_ops_fixed: "fixed_timely (fst (snd st)) es \<Longrightarrow> valid_ops (fixed_step k lmt w) fixed_guard es st"
  by (induction es arbitrary: st) (auto simp: fixed_guard_def fixed_step_def split: prod.splits)

lemma fixed_run_history:
  "snd (snd (run_ops (fixed_step k lmt w) es (ks, prev, A)))
     = A @ fst (run_state (fixed_run doc_call expire_after k lmt w es) ks)"
proof (induction es arbitrary: ks prev A)
  case (Cons e es)
  obtain d now where e: "e = (d, now)" by (cases e)
  obtain ok r ks' where run: "run_state (fixed_window_script doc_call (fixed_window_key k (windowIndex now w)) lmt w now)
      (expire_after d ks) = ((ok, r), ks')" by (metis surj_pair)
  obtain l ks'' where rest: "run_state (fixed_run doc_call expire_after k lmt w es) ks' = (l, ks'')"
    by (metis surj_pair)
  show ?case using Cons.IH[of ks' now "A @ (if ok = 1 then [now] else [])"]
    by (cases r) (simp add: e fixed_step_def run rest)
qed simp

lemma fixed_run_sim:
  assumes "redis_server call elapse view"
  shows "simulates view (fixed_run call elapse k lmt w es) (fixed_run doc_call expire_after k lmt w es)"
proof (induction es)
  case (Cons e es)
  show ?case unfolding fixed_run.simps
    by (intro simulates_prod simulates_bind simulates_return redis_server_elapse_sim[OF assms]
        fixed_window_script_sim[OF assms] Cons.IH)
qed (simp add: sim_intros)

text \<open>An interval as long as the window meets two windows, so it holds at most twice the limit.\<close>

lemma two_windows:
  assumes "\<forall>i. in_index w A i \<le> lmt" and w: "0 < w"
  shows "int (length (filter (\<lambda>a. t - 1000 * w < a \<and> a \<le> t) A)) \<le> 2 * lmt"
proof -
  let ?W = "1000 * w" and ?i = "t div (1000 * w)"
  have "a div ?W = ?i \<or> a div ?W = ?i - 1" if "t - ?W < a" "a \<le> t" for a
  proof -
    have "a div ?W \<le> ?i" using that w by (intro zdiv_mono1) auto
    moreover have "(t - ?W) div ?W \<le> a div ?W" using that w by (intro zdiv_mono1) auto
    moreover have "(t - ?W) div ?W = ?i - 1" using w div_mult_self1[of ?W t "- 1"] by simp
    ultimately show ?thesis by linarith
  qed
  then have "length (filter (\<lambda>a. t - ?W < a \<and> a \<le> t) A)
      \<le> length (filter (\<lambda>a. a div ?W = ?i) A) + length (filter (\<lambda>a. a div ?W = ?i - 1) A)"
    by (induction A) auto
  then show ?thesis using assms(1)[rule_format, of ?i] assms(1)[rule_format, of "?i - 1"]
    unfolding in_index_def by linarith
qed

section \<open>What the limiter promises\<close>

text \<open>
  C8: Over any run of checks no window of the clock admits more than the limit, and so no
  interval as long as the window, wherever it starts, admits more than twice the limit:
  the burst at a boundary is the only error of this algorithm.
\<close>

theorem fixed_window_never_exceeds:
  assumes server: "redis_server call elapse view" and w: "0 < w" and lmt: "0 \<le> lmt" "lmt \<le> 2 ^ 53"
    and fresh: "\<forall>i. view s (fixed_window_key k i) = None" and clk: "clock_ok prev" "fixed_timely prev es"
    and run: "run_state (fixed_run call elapse k lmt w es) s = (admitted, s')"
  shows "int (length (filter (\<lambda>t. t div (1000 * w) = i) admitted)) \<le> lmt
    \<and> int (length (filter (\<lambda>a. t - 1000 * w < a \<and> a \<le> t) admitted)) \<le> 2 * lmt"
proof -
  have "fixed_inv k lmt w (view s, prev, [])"
    using assms by (simp add: fixed_inv_def in_index_def)
  moreover have "valid_ops (fixed_step k lmt w) fixed_guard es (view s, prev, [])"
    by (rule valid_ops_fixed) (simp add: clk)
  ultimately have "fixed_inv k lmt w (run_ops (fixed_step k lmt w) es (view s, prev, []))"
    by (rule fixed.inv_run)
  then have "\<forall>i. in_index w admitted i \<le> lmt"
    using fixed_run_history[of k lmt w es "view s" prev "[]"] simulatesD[OF fixed_run_sim[OF server] run]
    by (auto simp: fixed_inv_def split: prod.splits)
  then show ?thesis using two_windows[OF _ w] by (auto simp: in_index_def)
qed

lemma fixed_window_never_exceeds_witness:
  "length (filter (\<lambda>a. 0 < a \<and> a \<le> 60000)
     (fst (run_state (fixed_run doc_call expire_after ''u'' 2 60 [(0, 59000), (10, 59010), (1000, 60010)]) Map.empty))) \<le> 4"
proof -
  let ?es = "[(0, 59000), (10, 59010), (1000, 60010)] :: tick list"
  obtain l ks where run: "run_state (fixed_run doc_call expire_after ''u'' 2 60 ?es) Map.empty = (l, ks)"
    by (cases "run_state (fixed_run doc_call expire_after ''u'' 2 60 ?es) Map.empty")
  have "int (length (filter (\<lambda>t. t div (1000 * 60) = 0) l)) \<le> 2
      \<and> int (length (filter (\<lambda>a. 60000 - 1000 * 60 < a \<and> a \<le> 60000) l)) \<le> 2 * 2"
    by (rule fixed_window_never_exceeds[OF keyspace_server.redis_server_axioms, where prev = 0 and k = "''u''", OF _ _ _ _ _ _ run])
       (simp_all add: clock_ok_def)
  then show ?thesis by (simp only: run fst_conv) simp
qed

text \<open>
  A refused client is told the end of its window, and its check at that moment or
  later is admitted when nobody else's was in between.
\<close>

theorem fixed_window_refusal_told_exactly:
  assumes server: "redis_server call elapse view" and "1 \<le> lmt"
    and inv: "fixed_inv k lmt w (view s, prev, A)"
    and now: "prev \<le> now" "clock_ok now" "int d \<le> now - prev"
    and refused: "run_state (fixed_window_script call (fixed_window_key k (windowIndex now w)) lmt w now) (elapse d s)
        = ((0, cnt, reset_at, wait), s1)"
    and later: "clock_ok later" "reset_at \<le> later" "later < reset_at + 1000 * w" "int d' \<le> later - now"
  shows "reset_at = (now div (1000 * w) + 1) * (1000 * w) \<and> wait = reset_at - now
    \<and> fst (run_state (fixed_window_script call (fixed_window_key k (windowIndex later w)) lmt w later) (elapse d' s1))
        = (1, 1, reset_at + 1000 * w, 0)"
proof -
  let ?i = "now div (1000 * w)" and ?j = "later div (1000 * w)"
  note sim = fixed_window_script_sim[OF server] and el = redis_server.elapse_documented[OF server]
  note eqn = fixed_step_eq[OF inv now]
  have w: "0 < w" using inv by (simp add: fixed_inv_def)
  have doc: "run_state (fixed_window_script doc_call (fixed_window_key k (windowIndex now w)) lmt w now)
      (expire_after d (view s)) = ((0, cnt, reset_at, wait), view s1)"
    using simulatesD[OF sim refused] by (simp add: el)
  then have full: "\<not> in_index w A ?i < lmt" and told: "reset_at = now + window_left now w" "wait = window_left now w"
    unfolding eqn by (auto split: if_splits)
  have told': "reset_at = (?i + 1) * (1000 * w)" "wait = reset_at - now"
    using told by (simp_all add: window_left_def)
  have "fixed_inv k lmt w (fixed_step k lmt w (d, now) (view s, prev, A))"
    using now by (intro fixed_inv_step inv) (simp add: fixed_guard_def)
  then have inv1: "fixed_inv k lmt w (view s1, now, A)" by (simp add: fixed_step_def doc)
  have j: "?j = ?i + 1"
    using told'(1) later(2,3) by (intro int_div_pos_eq[of _ _ _ "later - reset_at"]) (auto simp: ac_simps)
  have nl: "now \<le> later" using told' later(2) told(2) window_left_bounds[OF w, of now] by linarith
  have "t div (1000 * w) \<noteq> ?j" if "t \<in> set A" for t
  proof -
    have "t \<le> now" using that inv now(1) by (auto simp: fixed_inv_def)
    then have "t div (1000 * w) \<le> ?i" using w by (intro zdiv_mono1) auto
    then show ?thesis using j by simp
  qed
  then have empty: "in_index w A ?j = 0" by (simp add: in_index_def filter_empty_conv)
  have "later + window_left later w = reset_at + 1000 * w"
    by (simp add: window_left_def j told'(1) distrib_right)
  moreover obtain r s2 where check: "run_state (fixed_window_script call (fixed_window_key k (windowIndex later w)) lmt w later)
      (elapse d' s1) = (r, s2)" by (metis surj_pair)
  ultimately have "r = (1, 1, reset_at + 1000 * w, 0)"
    using simulatesD[OF sim check] fixed_step_eq[OF inv1 nl later(1,4)] assms(2) by (auto simp: el empty)
  then show ?thesis using told' check by simp
qed

lemma fixed_window_refusal_told_exactly_witness:
  "fst (run_state (fixed_window_script doc_call (fixed_window_key ''u'' (windowIndex 60500 60)) 1 60 60500)
     (expire_after 1000 ((Map.empty)(fixed_window_key ''u'' 0 := Some (Str 1, Some 500))))) = (1, 1, 120000, 0)"
proof -
  let ?ks = "\<lambda>t. (Map.empty)(fixed_window_key ''u'' 0 := Some (Str 1, Some t)) :: keyspace"
  have other: "fixed_window_key ''u'' j \<noteq> fixed_window_key ''u'' 0" if "0 < j" for j
    using fixed_window_key_inj[of j 0 "''u''"] that by auto
  have inv: "fixed_inv ''u'' 1 60 (id (?ks 1000), 59000, [59000])"
    by (auto simp: fixed_inv_def clock_ok_def in_index_def window_left_def other Let_def)
  have e: "expire_after 500 (?ks 1000) = ?ks 500" by (auto simp: expire_after_def)
  have refused: "run_state (fixed_window_script doc_call (fixed_window_key ''u'' (windowIndex 59500 60)) 1 60 59500)
      (expire_after 500 (?ks 1000)) = ((0, 1, 60000, 500), ?ks 500)"
    unfolding e
    by (subst fixed_window_script_doc)
       (auto simp: windowIndex_div clock_ok_def counter_at_def window_left_def put_ttl_def fun_eq_iff)
  have "fst (run_state (fixed_window_script doc_call (fixed_window_key ''u'' (windowIndex 60500 60)) 1 60 60500)
     (expire_after 1000 (?ks 500))) = (1, 1, 60000 + 1000 * 60, 0)"
    by (rule fixed_window_refusal_told_exactly[OF keyspace_server.redis_server_axioms _ inv _ _ _ refused,
          THEN conjunct2, THEN conjunct2]) (simp_all add: clock_ok_def)
  then show ?thesis by simp
qed

lemma fixed_window_check_runs:
  assumes server: "script_server call elapse view sha1 client cached"
    and ck: "ck = fixed_window_key k (windowIndex now w)"
  shows "\<exists>s'. run_state (fixed_window_check sha1 client call now k lmt w 1) s =
      (Inr (check_result lmt (fst (run_state (fixed_window_script doc_call ck lmt w now) (view s)))
         (\<lambda>count. max 0 (lmt - count))), s') \<and>
    view s' = snd (run_state (fixed_window_script doc_call ck lmt w now) (view s))"
proof -
  have "length [ck] = numKeys fixed_window" by (simp add: fixed_window_def)
  from script_server.run_script_then[OF server fixed_window_script_sim[OF script_server.axioms(1)[OF server]] this]
  show ?thesis by (simp add: fixed_window_check_def Let_def ck del: run_state_throwing)
qed

text \<open>
  \<open>reset\<close> forgives: the check that follows it in the same window is the first of the
  window, whatever the counter was.
\<close>

theorem fixed_window_reset_forgives:
  fixes s :: 's and w :: int
  assumes server: "script_server call elapse view sha1 client cached"
    and v: "clock_ok now" "0 < w" "1 \<le> lmt"
  shows "\<exists>s' s''. run_state (fixed_window_reset client call now k w) s = (Inr (), s') \<and>
    run_state (fixed_window_check sha1 client call now k lmt w 1) s' =
      (Inr \<lparr>allowed = True, limit = lmt, remaining = lmt - 1, resetAt = now + window_left now w,
            retryAfter = None, retryAfterMs = None\<rparr>, s'')"
proof -
  note rs = script_server.axioms(1)[OF server]
  let ?i = "windowIndex now w"
  let ?ck = "fixed_window_key k ?i"
  let ?m = "\<lambda>c. fixed_window_script c ?ck lmt w now"
  obtain r s1 where del: "run_state (call (DEL [?ck, fixed_window_key k (?i - 1)])) s = (r, s1)"
    by (metis surj_pair)
  have s1: "view s1 ?ck = None"
    using arg_cong[OF redis_server.call_documented[OF rs del], of snd] by (auto dest: fun_cong[of _ _ ?ck])
  have "run_state (fixed_window_reset client call now k w) s = (Inr (), s1)"
    by (simp add: fixed_window_reset_def Let_def script_server.connected[OF server] del)
  moreover have "fst (run_state (?m doc_call) (view s1)) = (1, 1, now + window_left now w, 0)"
    using v by (simp add: fixed_window_script_doc counter_at_def str_at_def s1)
  moreover obtain s2 where "run_state (fixed_window_check sha1 client call now k lmt w 1) s1
      = (Inr (check_result lmt (fst (run_state (?m doc_call) (view s1))) (\<lambda>count. max 0 (lmt - count))), s2)"
    using fixed_window_check_runs[OF server refl, of now k lmt w s1] v by auto
  ultimately show ?thesis using v by (simp add: check_result_def)
qed

lemma fixed_window_reset_forgives_witness:
  "\<exists>s' s''. run_state (fixed_window_reset
      (server_client (\<lambda>t. t) :: (doc_server, int \<times> int \<times> int \<times> int) script_client) server_call 5000 ''u'' 60) (Map.empty, []) = (Inr (), s') \<and>
    run_state (fixed_window_check (\<lambda>t. t) (server_client (\<lambda>t. t)) server_call 5000 ''u'' 3 60 1) s' =
      (Inr \<lparr>allowed = True, limit = 3, remaining = 3 - 1, resetAt = 5000 + window_left 5000 60,
            retryAfter = None, retryAfterMs = None\<rparr>, s'')"
  by (rule fixed_window_reset_forgives[OF doc_script_server.script_server_axioms]) (simp_all add: clock_ok_def)

end
