(* ===== verification/Algorithms.thy ===== *)
theory Algorithms
  imports Token_Bucket Sliding_Window Fixed_Window
begin

text \<open>
  \<^verbatim>\<open>src/algorithms/index.ts\<close>: the registry of the algorithms and the interface
  \<^verbatim>\<open>IRateLimitAlgorithm\<close> they implement. The state of an algorithm's operations is the
  server and the sequence number that the sliding window keeps in the process.
\<close>

type_synonym 's process = "'s \<times> nat"
type_synonym script_reply = "int \<times> int \<times> int \<times> int"

record 's rate_limit_algorithm =
  alg_check :: "key \<Rightarrow> int \<Rightarrow> int \<Rightarrow> int \<Rightarrow> ('s process, js_error + RateLimitCheckResult) state"
  alg_reset :: "key \<Rightarrow> int \<Rightarrow> ('s process, js_error + unit) state"
  alg_getStats :: "key \<Rightarrow> int \<Rightarrow> ('s process, js_error + LimiterStats option) state"
  alg_warm :: "('s process, js_error + unit) state"

definition on_server :: "('s, 'a) state \<Rightarrow> ('s process, 'a) state" where
  "on_server m = zoom fst (\<lambda>s w. (s, snd w)) m"

definition TokenBucketAlgorithm ::
    "(string \<Rightarrow> string) \<Rightarrow> ('s, script_reply) script_client \<Rightarrow> 's redis \<Rightarrow> int \<Rightarrow> 's rate_limit_algorithm" where
  "TokenBucketAlgorithm sha1 client call now =
     \<lparr>alg_check = (\<lambda>k lmt w cost. on_server (token_bucket_check sha1 client call now k lmt w cost)),
      alg_reset = (\<lambda>k w. on_server (token_bucket_reset client call k)),
      alg_getStats = (\<lambda>k w. on_server (token_bucket_getStats client call now k)),
      alg_warm = on_server (load_script client token_bucket)\<rparr>"

definition SlidingWindowAlgorithm ::
    "(string \<Rightarrow> string) \<Rightarrow> ('s, script_reply) script_client \<Rightarrow> 's redis \<Rightarrow> int \<Rightarrow> nat \<Rightarrow> 's rate_limit_algorithm" where
  "SlidingWindowAlgorithm sha1 client call now pid =
     \<lparr>alg_check = (\<lambda>k lmt w cost. State (\<lambda>(s, sequence).
        case run_state (sliding_window_check sha1 client call now pid sequence k lmt w cost) s of
          ((r, sequence'), s') \<Rightarrow> (r, (s', sequence')))),
      alg_reset = (\<lambda>k w. on_server (sliding_window_reset client call k)),
      alg_getStats = (\<lambda>k w. on_server (sliding_window_getStats client call now k)),
      alg_warm = on_server (load_script client sliding_window)\<rparr>"

definition FixedWindowAlgorithm ::
    "(string \<Rightarrow> string) \<Rightarrow> ('s, script_reply) script_client \<Rightarrow> 's redis \<Rightarrow> int \<Rightarrow> 's rate_limit_algorithm" where
  "FixedWindowAlgorithm sha1 client call now =
     \<lparr>alg_check = (\<lambda>k lmt w cost. on_server (fixed_window_check sha1 client call now k lmt w cost)),
      alg_reset = (\<lambda>k w. on_server (fixed_window_reset client call now k w)),
      alg_getStats = (\<lambda>k w. on_server (fixed_window_getStats client call now k w)),
      alg_warm = on_server (load_script client fixed_window)\<rparr>"

definition registry ::
    "(string \<Rightarrow> string) \<Rightarrow> ('s, script_reply) script_client \<Rightarrow> 's redis \<Rightarrow> int \<Rightarrow> nat \<Rightarrow>
     (RateLimitAlgorithm \<times> 's rate_limit_algorithm) list" where
  "registry sha1 client call now pid =
     [(TOKEN_BUCKET, TokenBucketAlgorithm sha1 client call now),
      (SLIDING_WINDOW, SlidingWindowAlgorithm sha1 client call now pid),
      (FIXED_WINDOW, FixedWindowAlgorithm sha1 client call now)]"

text \<open>The values of the enumeration.\<close>

definition algorithm_text :: "RateLimitAlgorithm \<Rightarrow> string" where
  "algorithm_text a = (case a of TOKEN_BUCKET \<Rightarrow> ''token_bucket'' | SLIDING_WINDOW \<Rightarrow> ''sliding_window''
     | FIXED_WINDOW \<Rightarrow> ''fixed_window'' | LEAKY_BUCKET \<Rightarrow> ''leaky_bucket'')"

definition getAlgorithm ::
    "(string \<Rightarrow> string) \<Rightarrow> ('s, script_reply) script_client \<Rightarrow> 's redis \<Rightarrow> int \<Rightarrow> nat \<Rightarrow>
     RateLimitAlgorithm \<Rightarrow> js_error + 's rate_limit_algorithm" where
  "getAlgorithm sha1 client call now pid type =
     (case map_of (registry sha1 client call now pid) type of
        None \<Rightarrow> Inl (PlainError (''Unsupported algorithm: '' @ algorithm_text type))
      | Some algorithm \<Rightarrow> Inr algorithm)"

definition warmAll ::
    "(string \<Rightarrow> string) \<Rightarrow> ('s, script_reply) script_client \<Rightarrow> 's redis \<Rightarrow> int \<Rightarrow> nat \<Rightarrow>
     ('s process, js_error + unit) state" where
  "warmAll sha1 client call now pid =
     promise_all (map (\<lambda>(_, a). alg_warm a) (registry sha1 client call now pid))"

section \<open>The contract of an algorithm\<close>

text \<open>
  What the service relies on: a check of one unit answers, with the limit it was asked for,
  and tells a time to retry of at least a second exactly when it refuses.
\<close>

definition honest_answer :: "int \<Rightarrow> RateLimitCheckResult \<Rightarrow> bool" where
  "honest_answer lmt r \<longleftrightarrow> limit r = lmt \<and> (retryAfter r = None \<longleftrightarrow> allowed r) \<and> (retryAfterMs r = None \<longleftrightarrow> allowed r)
     \<and> (\<forall>t. retryAfter r = Some t \<longrightarrow> 1 \<le> t)"

locale rate_limit_contract =
  fixes algorithm :: "'s rate_limit_algorithm"
  assumes answers: "\<exists>r w'. run_state (alg_check algorithm k lmt windowSeconds 1) w = (Inr r, w') \<and> honest_answer lmt r"
begin

lemma never_throws: "fst (run_state (alg_check algorithm k lmt windowSeconds 1) w) \<noteq> Inl e"
  using answers[of k lmt windowSeconds w] by auto

end

lemma check_result_honest: "fst reply = 0 \<or> fst reply = 1 \<Longrightarrow> honest_answer lmt (check_result lmt reply rem)"
  by (auto simp: honest_answer_def check_result_def split: prod.splits)

lemma script_verdicts:
  "fst (fst (run_state (token_bucket_script doc_call tk sk capacity rate now requested ttl) ks)) \<in> {0, 1}"
  "fst (fst (run_state (sliding_window_script doc_call k now w m mem) ks)) \<in> {0, 1}"
  "fst (fst (run_state (fixed_window_script doc_call k m w now) ks)) \<in> {0, 1}"
  by (simp_all add: token_bucket_script_def sliding_window_script_def fixed_window_script_def Let_def split_beta)

lemma throwing_check:
  assumes server: "script_server call elapse view sha1 client cached"
    and sim: "simulates view prog prog'" and keys: "length ks = numKeys script"
    and verdict: "fst (fst (run_state prog' (view s))) \<in> {0, 1}"
  shows "\<exists>r s'. run_state (throwing (run_script sha1 client script ks prog) (\<lambda>reply. js_return (check_result lmt reply rem))) s
      = (Inr r, s') \<and> honest_answer lmt r"
  using script_server.run_script_then[OF server sim keys, of "\<lambda>reply. check_result lmt reply rem" s]
    check_result_honest[of "fst (run_state prog' (view s))" lmt rem] verdict by auto

lemma token_bucket_contract:
  fixes view :: "'s \<Rightarrow> keyspace"
  assumes server: "script_server call elapse view sha1 client cached"
  shows "rate_limit_contract (TokenBucketAlgorithm sha1 client call now)"
proof unfold_locales
  fix k :: key and lmt w :: int and p :: "'s process"
  obtain tk sk where ks: "token_bucket_keys k = (tk, sk)" by (metis surj_pair)
  have n: "length [tk, sk] = numKeys (token_bucket :: ('s, script_reply) redis_script)" by (simp add: token_bucket_def)
  show "\<exists>r w'. run_state (alg_check (TokenBucketAlgorithm sha1 client call now) k lmt w 1) p = (Inr r, w') \<and> honest_answer lmt r"
    using throwing_check[OF server token_bucket_script_sim[OF script_server.axioms(1)[OF server], where tk = tk and sk = sk and capacity = "of_int lmt"
        and rate = "refill_rate lmt w" and now = now and requested = 1 and ttl = "token_bucket_ttl lmt w"] n script_verdicts(1),
        where lmt = lmt and s = "fst p" and rem = "\<lambda>tokens. tokens"]
    by (auto simp: TokenBucketAlgorithm_def on_server_def token_bucket_check_def ks Let_def simp del: run_state_throwing)
qed

lemma sliding_window_contract:
  fixes view :: "'s \<Rightarrow> keyspace"
  assumes server: "script_server call elapse view sha1 client cached"
  shows "rate_limit_contract (SlidingWindowAlgorithm sha1 client call now pid)"
proof unfold_locales
  fix k :: key and lmt w :: int and p :: "'s process"
  have n: "length [sliding_window_key k] = numKeys (sliding_window :: ('s, script_reply) redis_script)" by (simp add: sliding_window_def)
  show "\<exists>r w'. run_state (alg_check (SlidingWindowAlgorithm sha1 client call now pid) k lmt w 1) p = (Inr r, w') \<and> honest_answer lmt r"
    using throwing_check[OF server sliding_window_script_sim[OF script_server.axioms(1)[OF server], where k = "sliding_window_key k" and now = now and w = "w * 1000"
        and m = lmt and mem = "sliding_member now pid (snd p)"] n script_verdicts(2), where lmt = lmt and s = "fst p" and rem = "\<lambda>count. max 0 (lmt - count)"]
    by (cases p) (auto simp: SlidingWindowAlgorithm_def sliding_window_check_def Let_def simp del: run_state_throwing)
qed

lemma fixed_window_contract:
  fixes view :: "'s \<Rightarrow> keyspace"
  assumes server: "script_server call elapse view sha1 client cached"
  shows "rate_limit_contract (FixedWindowAlgorithm sha1 client call now)"
proof unfold_locales
  fix k :: key and lmt w :: int and p :: "'s process"
  show "\<exists>r w'. run_state (alg_check (FixedWindowAlgorithm sha1 client call now) k lmt w 1) p = (Inr r, w') \<and> honest_answer lmt r"
    using fixed_window_check_runs[OF server refl, where now = now and k = k and w = w and lmt = lmt and s = "fst p"]
      check_result_honest[of "fst (run_state (fixed_window_script doc_call (fixed_window_key k (windowIndex now w)) lmt w now) (view (fst p)))" lmt]
      script_verdicts(3)[of "fixed_window_key k (windowIndex now w)" lmt w now "view (fst p)"]
    by (fastforce simp: FixedWindowAlgorithm_def on_server_def)
qed

lemmas algorithm_contracts = token_bucket_contract sliding_window_contract fixed_window_contract

interpretation documented_token_bucket:
  rate_limit_contract "TokenBucketAlgorithm sha1 (server_client sha1) server_call now" for sha1 now
  by (rule token_bucket_contract[OF doc_script_server.script_server_axioms])

interpretation documented_sliding_window:
  rate_limit_contract "SlidingWindowAlgorithm sha1 (server_client sha1) server_call now pid" for sha1 now pid
  by (rule sliding_window_contract[OF doc_script_server.script_server_axioms])

interpretation documented_fixed_window:
  rate_limit_contract "FixedWindowAlgorithm sha1 (server_client sha1) server_call now" for sha1 now
  by (rule fixed_window_contract[OF doc_script_server.script_server_axioms])

lemma getAlgorithm_contract:
  assumes "script_server call elapse view sha1 client cached"
    and "getAlgorithm sha1 client call now pid type = Inr algorithm"
  shows "rate_limit_contract algorithm"
  using assms(2) algorithm_contracts[OF assms(1)]
  by (cases type) (auto simp: getAlgorithm_def registry_def)

lemma getAlgorithm_leaky [simp]:
  "getAlgorithm sha1 client call now pid LEAKY_BUCKET = Inl (PlainError ''Unsupported algorithm: leaky_bucket'')"
  by (simp add: getAlgorithm_def registry_def algorithm_text_def)

lemma getAlgorithm_supported: "type \<noteq> LEAKY_BUCKET \<Longrightarrow> \<exists>a. getAlgorithm sha1 client call now pid type = Inr a"
  by (cases type) (auto simp: getAlgorithm_def registry_def)

end
