(* ===== verification/Admission_Types.thy ===== *)
theory Admission_Types
  imports Floats
begin

text \<open>
  The data of LLM admission (\<^verbatim>\<open>src/llm/types.ts\<close>). Token and request counts, times and
  concurrency are whole numbers, as the schemas of \<^verbatim>\<open>src/routes/admission.routes.ts\<close> and
  the columns of the policy table make them; the safety factor is a double.
\<close>

datatype AdmissionDecision = admit | shed

datatype ShedReason = tpm_exhausted | rpm_exhausted | queue_full | slo_infeasible | unsatisfiable

record AdmissionRequest =
  ar_tenant :: string
  ar_model :: string
  ar_promptTokens :: int
  ar_maxOutputTokens :: int
  ar_sloTtftMs :: "int option"

record AdmissionResult =
  decision :: AdmissionDecision
  res_reason :: "ShedReason option"
  res_reservationId :: "string option"
  res_reservedTokens :: "int option"
  leaseExpiresAt :: "int option"
  tokensRemaining :: int
  requestsRemaining :: int
  res_inflight :: int
  predictedWaitMs :: int
  res_retryAfter :: "int option"
  res_reclaimed :: int

record CommitRequest =
  cr_tenant :: string
  cr_model :: string
  cr_reservationId :: string
  cr_promptTokens :: int
  cr_outputTokens :: int
  cr_serviceMs :: "int option"

datatype CommitStatus = committed | reconciled_after_expiry | duplicate_ignored

record CommitResult =
  commit_status :: CommitStatus
  refundedTokens :: int
  commit_tokensRemaining :: int
  commit_inflight :: int

datatype ReservationMode = worst_case | adaptive

record AdmissionPolicy =
  pol_tenant :: string
  pol_model :: string
  pol_scope :: string
  tokensPerMinute :: int
  requestsPerMinute :: int
  maxConcurrency :: int
  maxQueueDepth :: int
  leaseSeconds :: int
  reservationMode :: ReservationMode
  reservationSafetyFactor :: rat
  pol_enabled :: bool

text \<open>\<open>DEFAULT_POLICY\<close>, completed with the three fields it omits.\<close>

definition DEFAULT_POLICY :: "string \<Rightarrow> string \<Rightarrow> string \<Rightarrow> AdmissionPolicy" where
  "DEFAULT_POLICY tenant model scope =
     \<lparr>pol_tenant = tenant, pol_model = model, pol_scope = scope,
      tokensPerMinute = 100000, requestsPerMinute = 600, maxConcurrency = 16, maxQueueDepth = 64,
      leaseSeconds = 120, reservationMode = worst_case, reservationSafetyFactor = 3 / 2,
      pol_enabled = True\<rparr>"

text \<open>What the policy schema and the table's columns admit.\<close>

definition valid_policy :: "AdmissionPolicy \<Rightarrow> bool" where
  "valid_policy p \<longleftrightarrow>
     1 \<le> tokensPerMinute p \<and> tokensPerMinute p < 2 ^ 31 \<and>
     1 \<le> requestsPerMinute p \<and> requestsPerMinute p < 2 ^ 31 \<and>
     1 \<le> maxConcurrency p \<and> maxConcurrency p \<le> 100000 \<and>
     0 \<le> maxQueueDepth p \<and> maxQueueDepth p \<le> 1000000 \<and>
     1 \<le> leaseSeconds p \<and> leaseSeconds p \<le> 3600 \<and>
     1 \<le> reservationSafetyFactor p \<and> reservationSafetyFactor p \<le> 10"

end
