(* ===== verification/Admission_Scripts.thy ===== *)
theory Admission_Scripts
  imports Redis Admission_Types
begin

text \<open>
  The three scripts of the admission protocol (\<^verbatim>\<open>src/llm/admission-scripts.ts\<close>): reserve
  (\<open>admit_script\<close>), settle (\<open>commit_script\<close>) and the read-only \<open>snapshot_script\<close>. The keys
  of one tenant and model are a record, named as in \<^verbatim>\<open>admission.service.ts\<close>.
\<close>

record llm_keys =
  k_tpm :: key
  k_tpmTs :: key
  k_rpm :: key
  k_rpmTs :: key
  k_leases :: key
  k_reservations :: key
  k_stats :: key

record admit_args =
  a_now :: int
  a_tpm_limit :: int
  a_tpm_rate :: rat
  a_rpm_limit :: int
  a_rpm_rate :: rat
  a_reserve :: int
  a_rid :: string
  a_lease_ms :: int
  a_max_concurrency :: int
  a_max_queue :: int
  a_slo_ttft_ms :: int
  a_ttl :: int
  a_reclaim_batch :: nat
  a_default_svc_ms :: int

text \<open>The empty reason of an admission is \<open>None\<close>.\<close>

record admit_reply =
  adm_admitted :: int
  adm_reason :: "ShedReason option"
  adm_reserved :: int
  adm_tokens :: int
  adm_requests :: int
  adm_inflight :: int
  adm_wait :: int
  adm_retry :: int
  adm_reclaimed :: int

section \<open>Reading a budget\<close>

text \<open>The local functions \<^verbatim>\<open>refill\<close> and \<^verbatim>\<open>current_balance\<close>, one text in the three scripts.\<close>

definition refill :: "'s redis \<Rightarrow> key \<Rightarrow> key \<Rightarrow> rat \<Rightarrow> rat \<Rightarrow> int \<Rightarrow> ('s, rat) state" where
  "refill call bal_key ts_key capacity rate now = do {
     bal \<leftarrow> call (GET bal_key);
     ts \<leftarrow> call (GET ts_key);
     State_Monad.return
       (case (tonumber bal, tonumber ts) of
          (Some bal, Some ts) \<Rightarrow> accrue bal ts now rate capacity
        | _ \<Rightarrow> capacity)
   }"

section \<open>Reserve\<close>

text \<open>Phase 1, the loop over the expired leases.\<close>

fun reclaim_loop :: "'s redis \<Rightarrow> key \<Rightarrow> key \<Rightarrow> string list \<Rightarrow> rat \<Rightarrow> int \<Rightarrow> ('s, rat \<times> int) state" where
  "reclaim_loop call leases_key res_key [] tokens reclaimed = State_Monad.return (tokens, reclaimed)"
| "reclaim_loop call leases_key res_key (m # ms) tokens reclaimed = do {
     h \<leftarrow> call (HGET res_key m);
     tokens \<leftarrow> (case tonumber h of
         Some held \<Rightarrow> do { call (HDEL res_key m); State_Monad.return (fadd tokens held) }
       | None \<Rightarrow> State_Monad.return tokens);
     call (ZREM leases_key m);
     reclaim_loop call leases_key res_key ms tokens (reclaimed + 1)
   }"

text \<open>The wait a request faces with \<open>inflight\<close> requests before it.\<close>

definition predicted_wait :: "int \<Rightarrow> int \<Rightarrow> rat \<Rightarrow> int" where
  "predicted_wait inflight max_concurrency avg_svc =
     (if max_concurrency \<le> inflight
      then \<lceil>fmul (fdiv (of_int (inflight + 1 - max_concurrency)) (of_int max_concurrency)) avg_svc\<rceil>
      else 0)"

text \<open>The chain of conditions: the reason for shedding, or none, and the wait it tells.\<close>

definition admission_verdict :: "admit_args \<Rightarrow> rat \<Rightarrow> rat \<Rightarrow> int \<Rightarrow> rat \<Rightarrow> ShedReason option \<times> int" where
  "admission_verdict a tpm_bal rpm_bal inflight avg_svc =
     (if a_tpm_limit a < a_reserve a then (Some unsatisfiable, 0)
      else if rpm_bal < 1
      then (Some rpm_exhausted, \<lceil>fmul (fdiv (fsub 1 rpm_bal) (a_rpm_rate a)) 1000\<rceil>)
      else if tpm_bal < of_int (a_reserve a)
      then (Some tpm_exhausted, \<lceil>fmul (fdiv (fsub (of_int (a_reserve a)) tpm_bal) (a_tpm_rate a)) 1000\<rceil>)
      else if a_max_concurrency a + a_max_queue a \<le> inflight then (Some queue_full, \<lceil>avg_svc\<rceil>)
      else if 0 < a_slo_ttft_ms a \<and> a_slo_ttft_ms a < predicted_wait inflight (a_max_concurrency a) avg_svc
      then (Some slo_infeasible, \<lceil>avg_svc\<rceil>)
      else (None, 0))"

text \<open>The last branch of the chain takes the hold; a request with a reason to shed takes nothing.\<close>

definition take_hold ::
    "'s redis \<Rightarrow> llm_keys \<Rightarrow> admit_args \<Rightarrow> ShedReason option \<Rightarrow> rat \<Rightarrow> rat \<Rightarrow> int \<Rightarrow> ('s, int \<times> rat \<times> rat \<times> int) state" where
  "take_hold call k a reason tpm_bal rpm_bal inflight =
     (case reason of
        Some _ \<Rightarrow> State_Monad.return (0, tpm_bal, rpm_bal, inflight)
      | None \<Rightarrow> do {
          call (ZADD (k_leases k) (a_now a + a_lease_ms a) (a_rid a));
          call (HSET (k_reservations k) (a_rid a) (of_int (a_reserve a)));
          State_Monad.return (1, fsub tpm_bal (of_int (a_reserve a)), fsub rpm_bal 1, inflight + 1)
        })"

text \<open>The balances are written whatever the decision was.\<close>

definition persist :: "'s redis \<Rightarrow> llm_keys \<Rightarrow> admit_args \<Rightarrow> rat \<Rightarrow> rat \<Rightarrow> ('s, unit) state" where
  "persist call k a tpm_bal rpm_bal = do {
     call (SET (k_tpm k) (tostring tpm_bal) (a_ttl a));
     call (SET (k_tpmTs k) (tostring (of_int (a_now a))) (a_ttl a));
     call (SET (k_rpm k) (tostring rpm_bal) (a_ttl a));
     call (SET (k_rpmTs k) (tostring (of_int (a_now a))) (a_ttl a));
     call (EXPIRE (k_leases k) (a_ttl a));
     call (EXPIRE (k_reservations k) (a_ttl a));
     State_Monad.return ()
   }"

definition admit_script :: "'s redis \<Rightarrow> llm_keys \<Rightarrow> admit_args \<Rightarrow> ('s, admit_reply) state" where
  "admit_script call k a = do {
     let now = a_now a;
     expired \<leftarrow> call (ZRANGEBYSCORE (k_leases k) now (a_reclaim_batch a));
     (reclaimed_tokens, reclaimed_count) \<leftarrow>
       reclaim_loop call (k_leases k) (k_reservations k) (members_of expired) 0 0;
     tpm_refilled \<leftarrow> refill call (k_tpm k) (k_tpmTs k) (of_int (a_tpm_limit a)) (a_tpm_rate a) now;
     let tpm_bal = min (fadd tpm_refilled reclaimed_tokens) (of_int (a_tpm_limit a));
     rpm_bal \<leftarrow> refill call (k_rpm k) (k_rpmTs k) (of_int (a_rpm_limit a)) (a_rpm_rate a) now;
     card \<leftarrow> call (ZCARD (k_leases k));
     let inflight = count_of card;
     svc \<leftarrow> call (HGET (k_stats k) ''svc_ms'');
     let avg_svc = number_or svc (of_int (a_default_svc_ms a));
     let wait = predicted_wait inflight (a_max_concurrency a) avg_svc;
     let (reason, retry_after_ms) = admission_verdict a tpm_bal rpm_bal inflight avg_svc;
     (admitted, tpm_bal, rpm_bal, inflight) \<leftarrow> take_hold call k a reason tpm_bal rpm_bal inflight;
     persist call k a tpm_bal rpm_bal;
     State_Monad.return
       \<lparr>adm_admitted = admitted, adm_reason = reason, adm_reserved = a_reserve a,
        adm_tokens = \<lfloor>tpm_bal\<rfloor>, adm_requests = \<lfloor>rpm_bal\<rfloor>, adm_inflight = inflight,
        adm_wait = wait, adm_retry = retry_after_ms, adm_reclaimed = reclaimed_count\<rparr>
   }"

section \<open>Settle\<close>

record commit_args =
  c_now :: int
  c_rid :: string
  c_actual :: int
  c_tpm_limit :: int
  c_ttl :: int
  c_service_ms :: int
  c_output_tokens :: int
  c_alpha :: rat
  c_idem_ttl :: int

record commit_reply =
  com_status :: int
  com_refund :: int
  com_tokens :: int
  com_inflight :: int

text \<open>An exponentially weighted average kept as text in a field of the statistics.\<close>

definition update_ewma :: "'s redis \<Rightarrow> key \<Rightarrow> string \<Rightarrow> rat \<Rightarrow> rat \<Rightarrow> ('s, unit) state" where
  "update_ewma call stats_key field alpha sample = do {
     stored \<leftarrow> call (HGET stats_key field);
     let next_val = (case tonumber stored of
         Some prev \<Rightarrow> fadd (fmul alpha sample) (fmul (fsub 1 alpha) prev)
       | None \<Rightarrow> sample);
     call (HSET stats_key field (tostring next_val));
     State_Monad.return ()
   }"

definition calibrate :: "'s redis \<Rightarrow> key \<Rightarrow> commit_args \<Rightarrow> ('s, unit) state" where
  "calibrate call stats_key a = do {
     (if 0 < c_service_ms a
      then update_ewma call stats_key ''svc_ms'' (c_alpha a) (of_int (c_service_ms a))
      else State_Monad.return ());
     (if 0 < c_output_tokens a
      then do {
        update_ewma call stats_key ''out_tokens'' (c_alpha a) (of_int (c_output_tokens a));
        stored \<leftarrow> call (HGET stats_key ''out_peak'');
        let peak = number_or stored 0;
        (if peak < of_int (c_output_tokens a)
         then do {
           call (HSET stats_key ''out_peak'' (tostring (of_int (c_output_tokens a))));
           State_Monad.return ()
         }
         else State_Monad.return ())
      }
      else State_Monad.return ());
     call (EXPIRE stats_key (c_ttl a));
     State_Monad.return ()
   }"

text \<open>
  Gives up the hold of a reservation: what it held and status 1, or nothing and status 2 for
  one that admission already reclaimed.
\<close>

definition drop_hold :: "'s redis \<Rightarrow> llm_keys \<Rightarrow> string \<Rightarrow> ('s, rat \<times> int) state" where
  "drop_hold call k rid = do {
     h \<leftarrow> call (HGET (k_reservations k) rid);
     case tonumber h of
       None \<Rightarrow> State_Monad.return (0, 2)
     | Some held \<Rightarrow> do {
         call (HDEL (k_reservations k) rid);
         call (ZREM (k_leases k) rid);
         State_Monad.return (held, 1)
       }
   }"

definition commit_script :: "'s redis \<Rightarrow> llm_keys \<Rightarrow> key \<Rightarrow> commit_args \<Rightarrow> ('s, commit_reply) state" where
  "commit_script call k settled_key a = do {
     let now = c_now a;
     let tpm_limit = of_int (c_tpm_limit a);
     let current_balance = refill call (k_tpm k) (k_tpmTs k) tpm_limit (fdiv tpm_limit 60) now;
     settled \<leftarrow> call (GET settled_key);
     case tonumber settled of
       Some settled_refund \<Rightarrow> do {
         bal \<leftarrow> current_balance;
         card \<leftarrow> call (ZCARD (k_leases k));
         State_Monad.return \<lparr>com_status = 3, com_refund = \<lfloor>settled_refund\<rfloor>,
                             com_tokens = \<lfloor>bal\<rfloor>, com_inflight = count_of card\<rparr>
       }
     | None \<Rightarrow> do {
         (held, status) \<leftarrow> drop_hold call k (c_rid a);
         bal \<leftarrow> current_balance;
         let refund = fsub held (of_int (c_actual a));
         let bal = min (fadd bal refund) tpm_limit;
         call (SET (k_tpm k) (tostring bal) (c_ttl a));
         call (SET (k_tpmTs k) (tostring (of_int now)) (c_ttl a));
         call (SET settled_key (tostring refund) (c_idem_ttl a));
         calibrate call (k_stats k) a;
         card \<leftarrow> call (ZCARD (k_leases k));
         State_Monad.return \<lparr>com_status = status, com_refund = \<lfloor>refund\<rfloor>,
                             com_tokens = \<lfloor>bal\<rfloor>, com_inflight = count_of card\<rparr>
       }
   }"

section \<open>Snapshot\<close>

record snapshot_reply =
  snap_tokens :: int
  snap_requests :: int
  snap_inflight :: int
  snap_expired :: int
  snap_svc :: int
  snap_out :: int
  snap_peak :: int

definition snapshot_script ::
    "'s redis \<Rightarrow> llm_keys \<Rightarrow> int \<Rightarrow> int \<Rightarrow> rat \<Rightarrow> int \<Rightarrow> rat \<Rightarrow> int \<Rightarrow> ('s, snapshot_reply) state" where
  "snapshot_script call k now tpm_limit tpm_rate rpm_limit rpm_rate default_svc_ms = do {
     tpm \<leftarrow> refill call (k_tpm k) (k_tpmTs k) (of_int tpm_limit) tpm_rate now;
     rpm \<leftarrow> refill call (k_rpm k) (k_rpmTs k) (of_int rpm_limit) rpm_rate now;
     card \<leftarrow> call (ZCARD (k_leases k));
     expired \<leftarrow> call (ZCOUNT (k_leases k) now);
     svc \<leftarrow> call (HGET (k_stats k) ''svc_ms'');
     out \<leftarrow> call (HGET (k_stats k) ''out_tokens'');
     peak \<leftarrow> call (HGET (k_stats k) ''out_peak'');
     State_Monad.return
       \<lparr>snap_tokens = \<lfloor>tpm\<rfloor>, snap_requests = \<lfloor>rpm\<rfloor>, snap_inflight = count_of card,
        snap_expired = count_of expired, snap_svc = \<lfloor>number_or svc (of_int default_svc_ms)\<rfloor>,
        snap_out = \<lfloor>number_or out 0\<rfloor>, snap_peak = \<lfloor>number_or peak 0\<rfloor>\<rparr>
   }"

end
