(* ===== verification/Admission_Ledger.thy ===== *)
theory Admission_Ledger
  imports Admission_Scripts
begin

text \<open>
  The ledger of one tenant and model that the admission scripts keep in Redis, and the
  operations the scripts implement on it: \<open>ledger_admit\<close>, \<open>ledger_commit\<close>. The scripts refine
  them (\<open>admit_script_refines\<close>, \<open>commit_script_refines\<close>); what is proved about budgets and
  leases is proved on the ledger. The names of the keys are those of
  \<^verbatim>\<open>src/llm/admission.service.ts\<close>.
\<close>

section \<open>Keys\<close>

definition ns :: "string \<Rightarrow> string \<Rightarrow> string" where
  "ns tenant model = ''llm:{'' @ tenant @ ''|'' @ model @ ''}''"

definition keys_in :: "string \<Rightarrow> llm_keys" where
  "keys_in n = \<lparr>k_tpm = n @ '':tpm'', k_tpmTs = n @ '':tpm:ts'', k_rpm = n @ '':rpm'', k_rpmTs = n @ '':rpm:ts'',
     k_leases = n @ '':leases'', k_reservations = n @ '':res'', k_stats = n @ '':stats''\<rparr>"

definition keys :: "string \<Rightarrow> string \<Rightarrow> llm_keys" where
  "keys tenant model = keys_in (ns tenant model)"

definition settled_in :: "string \<Rightarrow> string \<Rightarrow> key" where
  "settled_in n rid = n @ '':settled:'' @ rid"

definition settledKey :: "string \<Rightarrow> string \<Rightarrow> string \<Rightarrow> key" where
  "settledKey tenant model reservationId = settled_in (ns tenant model) reservationId"

lemma keys_distinct [simp]:
  "distinct [n @ '':tpm'', n @ '':tpm:ts'', n @ '':rpm'', n @ '':rpm:ts'', n @ '':leases'', n @ '':res'', n @ '':stats'']"
  by simp

lemma settled_in_fresh [simp]:
  "settled_in n rid \<noteq> n @ '':tpm''" "settled_in n rid \<noteq> n @ '':tpm:ts''"
  "settled_in n rid \<noteq> n @ '':rpm''" "settled_in n rid \<noteq> n @ '':rpm:ts''"
  "settled_in n rid \<noteq> n @ '':leases''" "settled_in n rid \<noteq> n @ '':res''" "settled_in n rid \<noteq> n @ '':stats''"
  "settled_in n rid = settled_in n rid' \<longleftrightarrow> rid = rid'"
  by (simp_all add: settled_in_def)

lemmas settled_in_fresh' [simp] = settled_in_fresh(1-7)[symmetric]

section \<open>The ledger\<close>

record ledger =
  tpm :: "rat option"
  tpmTs :: "rat option"
  rpm :: "rat option"
  rpmTs :: "rat option"
  leases :: "(int \<times> string) list"
  held :: "(string \<times> rat) list"
  stats :: "(string \<times> rat) list"
  settled :: "string \<Rightarrow> rat option"

definition ledger_at :: "string \<Rightarrow> keyspace \<Rightarrow> ledger" where
  "ledger_at n ks =
     \<lparr>tpm = str_at ks (n @ '':tpm''), tpmTs = str_at ks (n @ '':tpm:ts''),
      rpm = str_at ks (n @ '':rpm''), rpmTs = str_at ks (n @ '':rpm:ts''),
      leases = zset_at ks (n @ '':leases''), held = hash_at ks (n @ '':res''),
      stats = hash_at ks (n @ '':stats''), settled = (\<lambda>rid. str_at ks (settled_in n rid))\<rparr>"

definition level :: "rat option \<Rightarrow> rat option \<Rightarrow> rat \<Rightarrow> rat \<Rightarrow> int \<Rightarrow> rat" where
  "level bal ts capacity rate now =
     (case (bal, ts) of
        (Some b, Some t) \<Rightarrow> accrue (dbl b) (dbl t) now rate capacity
      | _ \<Rightarrow> capacity)"

text \<open>What the expired leases that a call sweeps held.\<close>

definition sweep :: "int \<Rightarrow> nat \<Rightarrow> ledger \<Rightarrow> string list" where
  "sweep now batch L = map snd (take batch (filter (\<lambda>e. fst e \<le> now) (leases L)))"

fun reclaim_sum :: "(string \<times> rat) list \<Rightarrow> string list \<Rightarrow> rat \<Rightarrow> rat" where
  "reclaim_sum h [] t = t"
| "reclaim_sum h (m # ms) t =
     reclaim_sum (AList.delete m h) ms (case map_of h m of Some v \<Rightarrow> fadd t (dbl v) | None \<Rightarrow> t)"

definition without :: "string list \<Rightarrow> ledger \<Rightarrow> ledger" where
  "without ids L = L\<lparr>leases := filter (\<lambda>e. snd e \<notin> set ids) (leases L),
                     held := filter (\<lambda>e. fst e \<notin> set ids) (held L)\<rparr>"

definition stat_or :: "ledger \<Rightarrow> string \<Rightarrow> rat \<Rightarrow> rat" where
  "stat_or L field d = (case map_of (stats L) field of Some v \<Rightarrow> dbl v | None \<Rightarrow> d)"

text \<open>What a reserve call finds: both budgets, the requests in flight, and the verdict on them.\<close>

definition swept :: "admit_args \<Rightarrow> ledger \<Rightarrow> ledger" where
  "swept a L = without (sweep (a_now a) (a_reclaim_batch a) L) L"

definition tokens_found :: "admit_args \<Rightarrow> ledger \<Rightarrow> rat" where
  "tokens_found a L =
     min (fadd (level (tpm L) (tpmTs L) (of_int (a_tpm_limit a)) (a_tpm_rate a) (a_now a))
            (reclaim_sum (held L) (sweep (a_now a) (a_reclaim_batch a) L) 0))
       (of_int (a_tpm_limit a))"

definition requests_found :: "admit_args \<Rightarrow> ledger \<Rightarrow> rat" where
  "requests_found a L = level (rpm L) (rpmTs L) (of_int (a_rpm_limit a)) (a_rpm_rate a) (a_now a)"

definition inflight_found :: "admit_args \<Rightarrow> ledger \<Rightarrow> int" where
  "inflight_found a L = int (length (leases (swept a L)))"

definition service_found :: "admit_args \<Rightarrow> ledger \<Rightarrow> rat" where
  "service_found a L = stat_or L ''svc_ms'' (of_int (a_default_svc_ms a))"

definition verdict :: "admit_args \<Rightarrow> ledger \<Rightarrow> ShedReason option \<times> int" where
  "verdict a L = admission_verdict a (tokens_found a L) (requests_found a L) (inflight_found a L) (service_found a L)"

definition ledger_admit :: "admit_args \<Rightarrow> ledger \<Rightarrow> admit_reply \<times> ledger" where
  "ledger_admit a L =
     (let now = a_now a; L1 = swept a L; tpm_bal = tokens_found a L; rpm_bal = requests_found a L;
          inflight = inflight_found a L; (reason, retry) = verdict a L;
          ok = (reason = None);
          tpm_bal' = (if ok then fsub tpm_bal (of_int (a_reserve a)) else tpm_bal);
          rpm_bal' = (if ok then fsub rpm_bal 1 else rpm_bal)
      in (\<lparr>adm_admitted = (if ok then 1 else 0), adm_reason = reason, adm_reserved = a_reserve a,
           adm_tokens = \<lfloor>tpm_bal'\<rfloor>, adm_requests = \<lfloor>rpm_bal'\<rfloor>,
           adm_inflight = inflight + (if ok then 1 else 0),
           adm_wait = predicted_wait inflight (a_max_concurrency a) (service_found a L),
           adm_retry = retry, adm_reclaimed = int (length (sweep (a_now a) (a_reclaim_batch a) L))\<rparr>,
          L1\<lparr>tpm := Some (tostring tpm_bal'), tpmTs := Some (tostring (of_int now)),
             rpm := Some (tostring rpm_bal'), rpmTs := Some (tostring (of_int now)),
             leases := (if ok then zinsert (now + a_lease_ms a) (a_rid a) (leases L1) else leases L1),
             held := (if ok then AList.update (a_rid a) (of_int (a_reserve a)) (held L1) else held L1)\<rparr>))"

lemmas found_defs = verdict_def swept_def tokens_found_def requests_found_def inflight_found_def service_found_def

lemma ledger_admit_admits:
  assumes "verdict a L = (None, w)"
  shows "snd (ledger_admit a L) = (swept a L)
      \<lparr>tpm := Some (tostring (fsub (tokens_found a L) (of_int (a_reserve a)))), tpmTs := Some (tostring (of_int (a_now a))),
       rpm := Some (tostring (fsub (requests_found a L) 1)), rpmTs := Some (tostring (of_int (a_now a))),
       leases := zinsert (a_now a + a_lease_ms a) (a_rid a) (leases (swept a L)),
       held := AList.update (a_rid a) (of_int (a_reserve a)) (held (swept a L))\<rparr>"
  using assms by (simp add: ledger_admit_def Let_def)

lemma ledger_admit_sheds:
  assumes "verdict a L = (Some reason, w)"
  shows "snd (ledger_admit a L) = (swept a L)
      \<lparr>tpm := Some (tostring (tokens_found a L)), tpmTs := Some (tostring (of_int (a_now a))),
       rpm := Some (tostring (requests_found a L)), rpmTs := Some (tostring (of_int (a_now a)))\<rparr>"
  using assms by (simp add: ledger_admit_def Let_def)

definition ewma :: "rat \<Rightarrow> rat \<Rightarrow> rat option \<Rightarrow> rat" where
  "ewma alpha sample prev =
     (case prev of Some p \<Rightarrow> fadd (fmul alpha sample) (fmul (fsub 1 alpha) (dbl p)) | None \<Rightarrow> sample)"

definition calibrated :: "commit_args \<Rightarrow> (string \<times> rat) list \<Rightarrow> (string \<times> rat) list" where
  "calibrated a h =
     (let put_avg = (\<lambda>f x h. AList.update f (tostring (ewma (c_alpha a) (of_int x) (map_of h f))) h);
          h1 = (if 0 < c_service_ms a then put_avg ''svc_ms'' (c_service_ms a) h else h)
      in if 0 < c_output_tokens a
         then (let h2 = put_avg ''out_tokens'' (c_output_tokens a) h1;
                   peak = (case map_of h2 ''out_peak'' of Some v \<Rightarrow> dbl v | None \<Rightarrow> 0)
               in if peak < of_int (c_output_tokens a)
                  then AList.update ''out_peak'' (tostring (of_int (c_output_tokens a))) h2 else h2)
         else h1)"

definition ledger_commit :: "commit_args \<Rightarrow> ledger \<Rightarrow> commit_reply \<times> ledger" where
  "ledger_commit a L =
     (let now = c_now a; limit = of_int (c_tpm_limit a);
          bal = level (tpm L) (tpmTs L) limit (fdiv limit 60) now
      in case settled L (c_rid a) of
           Some r \<Rightarrow> (\<lparr>com_status = 3, com_refund = \<lfloor>dbl r\<rfloor>, com_tokens = \<lfloor>bal\<rfloor>,
                      com_inflight = int (length (leases L))\<rparr>, L)
         | None \<Rightarrow>
             (let hold = map_of (held L) (c_rid a);
                  refund = fsub (case hold of Some v \<Rightarrow> dbl v | None \<Rightarrow> 0) (of_int (c_actual a));
                  L1 = (if hold = None then L else without [c_rid a] L);
                  bal = min (fadd bal refund) limit
              in (\<lparr>com_status = (if hold = None then 2 else 1), com_refund = \<lfloor>refund\<rfloor>,
                   com_tokens = \<lfloor>bal\<rfloor>, com_inflight = int (length (leases L1))\<rparr>,
                  L1\<lparr>tpm := Some (tostring bal), tpmTs := Some (tostring (of_int now)),
                     stats := calibrated a (stats L1),
                     settled := (settled L1)(c_rid a := Some (tostring refund))\<rparr>)))"

section \<open>The scripts over any server\<close>

lemma refill_sim [sim_intros]:
  "redis_server call elapse view \<Longrightarrow>
     simulates view (refill call bk tk c r now) (refill doc_call bk tk c r now)"
  unfolding refill_def by (intro sim_intros redis_server_sim)

lemma reclaim_loop_sim:
  assumes "redis_server call elapse view"
  shows "simulates view (reclaim_loop call lk rk ms t n) (reclaim_loop doc_call lk rk ms t n)"
proof (induction ms arbitrary: t n)
  case (Cons m ms)
  show ?case unfolding reclaim_loop.simps
    by (intro sim_intros redis_server_sim[OF assms] Cons)
qed (simp add: sim_intros)

lemma admit_script_sim:
  assumes "redis_server call elapse view"
  shows "simulates view (admit_script call k a) (admit_script doc_call k a)"
  unfolding admit_script_def take_hold_def persist_def
  by (intro sim_intros redis_server_sim[OF assms] reclaim_loop_sim[OF assms] refill_sim[OF assms])

lemma calibrate_sim:
  assumes "redis_server call elapse view"
  shows "simulates view (calibrate call sk a) (calibrate doc_call sk a)"
  unfolding calibrate_def update_ewma_def by (intro sim_intros redis_server_sim[OF assms])

lemma commit_script_sim:
  assumes "redis_server call elapse view"
  shows "simulates view (commit_script call k sk a) (commit_script doc_call k sk a)"
  unfolding commit_script_def drop_hold_def Let_def
  by (intro sim_intros redis_server_sim[OF assms] calibrate_sim[OF assms] refill_sim[OF assms])

lemma snapshot_script_sim:
  assumes "redis_server call elapse view"
  shows "simulates view (snapshot_script call k now tlim tr rlim rr d) (snapshot_script doc_call k now tlim tr rlim rr d)"
  unfolding snapshot_script_def
  by (intro sim_intros redis_server_sim[OF assms] refill_sim[OF assms])

section \<open>The scripts on the keyspace\<close>

lemma refill_doc [simp]:
  "run_state (refill doc_call bk tk c r now) ks = (level (str_at ks bk) (str_at ks tk) c r now, ks)"
  by (cases "str_at ks bk"; cases "str_at ks tk") (simp_all add: refill_def level_def)

lemma delete_filter: "AList.delete m h = filter (\<lambda>e. fst e \<noteq> m) h"
  by (auto simp: AList.delete_eq intro!: filter_cong)

lemma reclaim_loop_doc:
  assumes ne: "lk \<noteq> rk"
  shows "\<exists>ks'. run_state (reclaim_loop doc_call lk rk ms t n) ks
        = ((reclaim_sum (hash_at ks rk) ms t, n + int (length ms)), ks')
      \<and> zset_at ks' lk = filter (\<lambda>e. snd e \<notin> set ms) (zset_at ks lk)
      \<and> hash_at ks' rk = filter (\<lambda>e. fst e \<notin> set ms) (hash_at ks rk)
      \<and> (\<forall>k. k \<noteq> lk \<longrightarrow> k \<noteq> rk \<longrightarrow> ks' k = ks k)"
proof (induction ms arbitrary: t n ks)
  case (Cons m ms)
  let ?h = "map_of (hash_at ks rk) m"
  let ?k1 = "if ?h = None then ks else put_hash ks rk (AList.delete m (hash_at ks rk))"
  let ?k2 = "put_zset ?k1 lk (filter (\<lambda>e. snd e \<noteq> m) (zset_at ?k1 lk))"
  let ?t = "case ?h of None \<Rightarrow> t | Some v \<Rightarrow> fadd t (dbl v)"
  have step: "run_state (reclaim_loop doc_call lk rk (m # ms) t n) ks
      = run_state (reclaim_loop doc_call lk rk ms ?t (n + 1)) ?k2"
    by (cases ?h) simp_all
  have none: "AList.delete m (hash_at ks rk) = hash_at ks rk" if "?h = None"
    using that by (force simp: delete_filter map_of_eq_None_iff filter_id_conv)
  have obs: "hash_at ?k2 rk = AList.delete m (hash_at ks rk)"
    "zset_at ?k2 lk = filter (\<lambda>e. snd e \<noteq> m) (zset_at ks lk)"
    "\<And>k. k \<noteq> lk \<Longrightarrow> k \<noteq> rk \<Longrightarrow> ?k2 k = ks k"
    using ne none by (auto simp: put_zset_def put_hash_def)
  obtain ks' where ks': "run_state (reclaim_loop doc_call lk rk ms ?t (n + 1)) ?k2
        = ((reclaim_sum (hash_at ?k2 rk) ms ?t, n + 1 + int (length ms)), ks')"
      "zset_at ks' lk = filter (\<lambda>e. snd e \<notin> set ms) (zset_at ?k2 lk)"
      "hash_at ks' rk = filter (\<lambda>e. fst e \<notin> set ms) (hash_at ?k2 rk)"
      "\<forall>k. k \<noteq> lk \<longrightarrow> k \<noteq> rk \<longrightarrow> ks' k = ?k2 k"
    using Cons.IH[of ?t "n + 1" ?k2] by blast
  show ?case
  proof (rule exI[of _ ks'], intro conjI)
    show "run_state (reclaim_loop doc_call lk rk (m # ms) t n) ks =
        ((reclaim_sum (hash_at ks rk) (m # ms) t, n + int (length (m # ms))), ks')"
      unfolding step ks'(1) obs(1) by (cases ?h) simp_all
    show "zset_at ks' lk = filter (\<lambda>e. snd e \<notin> set (m # ms)) (zset_at ks lk)"
      unfolding ks'(2) obs(2) by (simp add: filter_filter_conj conj_commute)
    show "hash_at ks' rk = filter (\<lambda>e. fst e \<notin> set (m # ms)) (hash_at ks rk)"
      unfolding ks'(3) obs(1) by (simp add: delete_filter filter_filter_conj conj_commute)
    show "\<forall>k. k \<noteq> lk \<longrightarrow> k \<noteq> rk \<longrightarrow> ks' k = ks k" using ks'(4) obs(3) by auto
  qed
qed simp

text \<open>The keys each script may change.\<close>

definition budget_keys :: "string \<Rightarrow> key set" where
  "budget_keys n = {n @ '':tpm'', n @ '':tpm:ts'', n @ '':rpm'', n @ '':rpm:ts'', n @ '':leases'', n @ '':res''}"

lemma refill_confined [frame_intros]: "confined K (refill doc_call bk tk c r now)"
  unfolding refill_def by (intro frame_intros) auto

lemma reclaim_loop_confined [frame_intros]:
  "lk \<in> K \<Longrightarrow> rk \<in> K \<Longrightarrow> confined K (reclaim_loop doc_call lk rk ms t i)"
proof (induction ms arbitrary: t i)
  case (Cons m ms)
  then show ?case unfolding reclaim_loop.simps by (intro frame_intros) auto
qed (simp add: frame_intros)

lemma admit_script_confined: "confined (budget_keys n) (admit_script doc_call (keys_in n) a)"
  unfolding admit_script_def take_hold_def persist_def keys_in_def budget_keys_def
  by (intro frame_intros) auto

lemma calibrate_confined [frame_intros]: "sk \<in> K \<Longrightarrow> confined K (calibrate doc_call sk a)"
  unfolding calibrate_def update_ewma_def by (intro frame_intros) auto

lemma commit_script_confined:
  "confined {n @ '':tpm'', n @ '':tpm:ts'', n @ '':leases'', n @ '':res'', n @ '':stats'', sk}
     (commit_script doc_call (keys_in n) sk a)"
  unfolding commit_script_def drop_hold_def keys_in_def Let_def
  by (intro frame_intros) auto

lemma snapshot_script_confined: "confined {} (snapshot_script doc_call k now tlim tr rlim rr d)"
  unfolding snapshot_script_def by (intro frame_intros) auto

lemma take_hold_doc:
  "\<exists>ks'. run_state (take_hold doc_call (keys_in n) a reason tb rb i) ks =
      ((if reason = None then (1, fsub tb (of_int (a_reserve a)), fsub rb 1, i + 1) else (0, tb, rb, i)), ks')
    \<and> ledger_at n ks' = (ledger_at n ks)
       \<lparr>leases := (if reason = None then zinsert (a_now a + a_lease_ms a) (a_rid a) (leases (ledger_at n ks))
                    else leases (ledger_at n ks)),
        held := (if reason = None then AList.update (a_rid a) (of_int (a_reserve a)) (held (ledger_at n ks))
                    else held (ledger_at n ks))\<rparr>"
  by (cases reason) (simp_all add: take_hold_def keys_in_def ledger_at_def)

lemma persist_doc:
  assumes "0 < a_ttl a"
  shows "\<exists>ks'. run_state (persist doc_call (keys_in n) a tb rb) ks = ((), ks')
    \<and> ledger_at n ks' = (ledger_at n ks)
       \<lparr>tpm := Some (tostring tb), tpmTs := Some (tostring (of_int (a_now a))),
        rpm := Some (tostring rb), rpmTs := Some (tostring (of_int (a_now a)))\<rparr>"
  using assms by (simp add: persist_def keys_in_def ledger_at_def)

text \<open>\<open>admit_script\<close> implements \<open>ledger_admit\<close>.\<close>

lemma admit_script_doc:
  assumes ttl: "0 < a_ttl a"
  shows "\<exists>ks'. run_state (admit_script doc_call (keys_in n) a) ks = (fst (ledger_admit a (ledger_at n ks)), ks')
     \<and> ledger_at n ks' = snd (ledger_admit a (ledger_at n ks))"
proof -
  let ?L = "ledger_at n ks" and ?lk = "n @ '':leases''" and ?rk = "n @ '':res''"
  let ?ids = "sweep (a_now a) (a_reclaim_batch a) ?L"
  have ids: "map snd (take (a_reclaim_batch a) (filter (\<lambda>e. fst e \<le> a_now a) (zset_at ks ?lk))) = ?ids"
    by (simp add: sweep_def ledger_at_def)
  obtain k1 where k1: "run_state (reclaim_loop doc_call ?lk ?rk ?ids 0 0) ks
        = ((reclaim_sum (hash_at ks ?rk) ?ids 0, int (length ?ids)), k1)"
      "zset_at k1 ?lk = filter (\<lambda>e. snd e \<notin> set ?ids) (zset_at ks ?lk)"
      "hash_at k1 ?rk = filter (\<lambda>e. fst e \<notin> set ?ids) (hash_at ks ?rk)"
      "\<And>k. k \<noteq> ?lk \<Longrightarrow> k \<noteq> ?rk \<Longrightarrow> k1 k = ks k"
    using reclaim_loop_doc[of ?lk ?rk ?ids 0 0 ks] by auto
  have same: "str_at k1 k = str_at ks k" "hash_at k1 k = hash_at ks k" if "k \<noteq> ?lk" "k \<noteq> ?rk" for k
    by (simp_all only: str_at_def hash_at_def k1(4)[OF that])
  have L1: "ledger_at n k1 = without ?ids ?L"
    using k1(2,3) by (simp add: ledger_at_def without_def same)
  let ?tb = "min (fadd (level (tpm ?L) (tpmTs ?L) (of_int (a_tpm_limit a)) (a_tpm_rate a) (a_now a))
      (reclaim_sum (held ?L) ?ids 0)) (of_int (a_tpm_limit a))"
  let ?rb = "level (rpm ?L) (rpmTs ?L) (of_int (a_rpm_limit a)) (a_rpm_rate a) (a_now a)"
  let ?inf = "int (length (leases (without ?ids ?L)))" and ?svc = "stat_or ?L ''svc_ms'' (of_int (a_default_svc_ms a))"
  obtain reason retry where v: "admission_verdict a ?tb ?rb ?inf ?svc = (reason, retry)"
    by (metis surj_pair)
  obtain k2 where k2: "run_state (take_hold doc_call (keys_in n) a reason ?tb ?rb ?inf) k1 =
      ((if reason = None then (1, fsub ?tb (of_int (a_reserve a)), fsub ?rb 1, ?inf + 1) else (0, ?tb, ?rb, ?inf)), k2)"
    "ledger_at n k2 = (ledger_at n k1)
       \<lparr>leases := (if reason = None then zinsert (a_now a + a_lease_ms a) (a_rid a) (leases (ledger_at n k1))
                    else leases (ledger_at n k1)),
        held := (if reason = None then AList.update (a_rid a) (of_int (a_reserve a)) (held (ledger_at n k1))
                    else held (ledger_at n k1))\<rparr>"
    using take_hold_doc by blast
  let ?tb' = "if reason = None then fsub ?tb (of_int (a_reserve a)) else ?tb"
  let ?rb' = "if reason = None then fsub ?rb 1 else ?rb"
  obtain k3 where k3: "run_state (persist doc_call (keys_in n) a ?tb' ?rb') k2 = ((), k3)"
    "ledger_at n k3 = (ledger_at n k2)
       \<lparr>tpm := Some (tostring ?tb'), tpmTs := Some (tostring (of_int (a_now a))),
        rpm := Some (tostring ?rb'), rpmTs := Some (tostring (of_int (a_now a)))\<rparr>"
    using persist_doc[OF ttl] by blast
  have flds: "str_at ks (n @ '':tpm'') = tpm ?L" "str_at ks (n @ '':tpm:ts'') = tpmTs ?L"
    "str_at ks (n @ '':rpm'') = rpm ?L" "str_at ks (n @ '':rpm:ts'') = rpmTs ?L"
    "hash_at ks ?rk = held ?L" "hash_at ks (n @ '':stats'') = stats ?L"
    "zset_at k1 ?lk = leases (without ?ids ?L)"
    using arg_cong[OF L1, of leases] by (simp_all add: ledger_at_def)
  have svc: "(case map_of (stats ?L) ''svc_ms'' of Some v \<Rightarrow> dbl v | None \<Rightarrow> of_int (a_default_svc_ms a)) = ?svc"
    by (simp add: stat_or_def)
  have keysn: "k_leases (keys_in n) = ?lk" "k_reservations (keys_in n) = ?rk" "k_tpm (keys_in n) = n @ '':tpm''"
    "k_tpmTs (keys_in n) = n @ '':tpm:ts''" "k_rpm (keys_in n) = n @ '':rpm''"
    "k_rpmTs (keys_in n) = n @ '':rpm:ts''" "k_stats (keys_in n) = n @ '':stats''"
    by (simp_all add: keys_in_def)
  have run: "run_state (admit_script doc_call (keys_in n) a) ks = (fst (ledger_admit a ?L), k3)"
    using k2(1) k3(1) v
    by (cases reason)
       (simp_all add: admit_script_def keysn ids k1(1) same flds svc ledger_admit_def Let_def found_defs)
  show ?thesis
    using v by (intro exI[of _ k3] conjI run)
       (simp add: k3(2) k2(2) L1 ledger_admit_def Let_def found_defs)
qed

lemma update_ewma_doc [simp]:
  "run_state (update_ewma doc_call sk f alpha x) ks
     = ((), put_hash ks sk (AList.update f (tostring (ewma alpha x (map_of (hash_at ks sk) f))) (hash_at ks sk)))"
  by (cases "map_of (hash_at ks sk) f") (simp_all add: update_ewma_def ewma_def)

lemma calibrate_doc:
  assumes "0 < c_ttl a"
  shows "\<exists>ks'. run_state (calibrate doc_call sk a) ks = ((), ks') \<and> hash_at ks' sk = calibrated a (hash_at ks sk)
    \<and> (\<forall>k. k \<noteq> sk \<longrightarrow> ks' k = ks k)"
proof -
  have put: "put_hash ks' sk h k = ks' k" "put_ttl ks' sk t k = ks' k" if "k \<noteq> sk" for ks' h t k
    using that by (auto simp: put_hash_def put_ttl_def split: option.splits)
  show ?thesis
    using assms by (auto simp: calibrate_def calibrated_def Let_def put split: option.splits)
qed

lemma drop_hold_doc:
  "\<exists>ks'. run_state (drop_hold doc_call (keys_in n) rid) ks =
      (case map_of (held (ledger_at n ks)) rid of Some v \<Rightarrow> (dbl v, 1) | None \<Rightarrow> (0, 2), ks')
    \<and> ledger_at n ks' = (if map_of (held (ledger_at n ks)) rid = None then ledger_at n ks
                          else without [rid] (ledger_at n ks))
    \<and> (zset_at ks' (n @ '':leases'') \<noteq> [] \<longrightarrow> ttl_at ks' (n @ '':leases'') = ttl_at ks (n @ '':leases''))
    \<and> (hash_at ks' (n @ '':res'') \<noteq> [] \<longrightarrow> ttl_at ks' (n @ '':res'') = ttl_at ks (n @ '':res''))"
  by (cases "map_of (hash_at ks (n @ '':res'')) rid")
     (simp_all add: drop_hold_def keys_in_def ledger_at_def without_def delete_filter)

text \<open>\<open>commit_script\<close> implements \<open>ledger_commit\<close>.\<close>

lemma commit_script_doc:
  assumes ttl: "0 < c_ttl a" "0 < c_idem_ttl a"
  shows "\<exists>ks'. run_state (commit_script doc_call (keys_in n) (settled_in n (c_rid a)) a) ks
       = (fst (ledger_commit a (ledger_at n ks)), ks')
     \<and> ledger_at n ks' = snd (ledger_commit a (ledger_at n ks))
     \<and> (if settled (ledger_at n ks) (c_rid a) \<noteq> None then ks' = ks
        else ttl_at ks' (n @ '':tpm'') = Some (1000 * c_ttl a) \<and> ttl_at ks' (n @ '':tpm:ts'') = Some (1000 * c_ttl a)
          \<and> ttl_at ks' (settled_in n (c_rid a)) = Some (1000 * c_idem_ttl a)
          \<and> (leases (ledger_at n ks') \<noteq> [] \<longrightarrow> ttl_at ks' (n @ '':leases'') = ttl_at ks (n @ '':leases''))
          \<and> (held (ledger_at n ks') \<noteq> [] \<longrightarrow> ttl_at ks' (n @ '':res'') = ttl_at ks (n @ '':res'')))"
proof (cases "str_at ks (settled_in n (c_rid a))")
  case (Some r)
  then show ?thesis by (simp add: commit_script_def keys_in_def Let_def) (simp add: ledger_commit_def ledger_at_def Let_def)
next
  case None
  let ?L = "ledger_at n ks" and ?lim = "of_int (c_tpm_limit a)"
  let ?hold = "map_of (held ?L) (c_rid a)"
  obtain k1 where k1: "run_state (drop_hold doc_call (keys_in n) (c_rid a)) ks =
      (case ?hold of Some v \<Rightarrow> (dbl v, 1) | None \<Rightarrow> (0, 2), k1)"
    "ledger_at n k1 = (if ?hold = None then ?L else without [c_rid a] ?L)"
    "zset_at k1 (n @ '':leases'') \<noteq> [] \<longrightarrow> ttl_at k1 (n @ '':leases'') = ttl_at ks (n @ '':leases'')"
    "hash_at k1 (n @ '':res'') \<noteq> [] \<longrightarrow> ttl_at k1 (n @ '':res'') = ttl_at ks (n @ '':res'')"
    using drop_hold_doc by blast
  have fields: "str_at k1 (n @ '':tpm'') = tpm ?L" "str_at k1 (n @ '':tpm:ts'') = tpmTs ?L"
    using arg_cong[OF k1(2), of tpm] arg_cong[OF k1(2), of tpmTs] by (auto simp: ledger_at_def without_def)
  let ?refund = "fsub (case ?hold of Some v \<Rightarrow> dbl v | None \<Rightarrow> 0) (of_int (c_actual a))"
  let ?bal = "min (fadd (level (tpm ?L) (tpmTs ?L) ?lim (fdiv ?lim 60) (c_now a)) ?refund) ?lim"
  let ?k2 = "k1(n @ '':tpm'' := Some (Str (tostring ?bal), Some (1000 * c_ttl a)),
     n @ '':tpm:ts'' := Some (Str (tostring (of_int (c_now a))), Some (1000 * c_ttl a)),
     settled_in n (c_rid a) := Some (Str (tostring ?refund), Some (1000 * c_idem_ttl a)))"
  obtain k3 where k3: "run_state (calibrate doc_call (n @ '':stats'') a) ?k2 = ((), k3)"
    "hash_at k3 (n @ '':stats'') = calibrated a (hash_at ?k2 (n @ '':stats''))"
    "\<And>k. k \<noteq> n @ '':stats'' \<Longrightarrow> k3 k = ?k2 k"
    using calibrate_doc[OF ttl(1)] by blast
  have same: "str_at k3 k = str_at ?k2 k" "hash_at k3 k = hash_at ?k2 k" "zset_at k3 k = zset_at ?k2 k"
      "ttl_at k3 k = ttl_at ?k2 k"
    if "k \<noteq> n @ '':stats''" for k
    by (simp_all only: str_at_def hash_at_def zset_at_def ttl_at_def k3(3)[OF that])
  let ?L1 = "ledger_at n k1"
  have L3: "ledger_at n k3 = ?L1\<lparr>tpm := Some (tostring ?bal), tpmTs := Some (tostring (of_int (c_now a))),
      stats := calibrated a (stats ?L1), settled := (settled ?L1)(c_rid a := Some (tostring ?refund))\<rparr>"
    by (simp add: ledger_at_def same k3(2) fun_eq_iff)
  have fresh: "settled ?L (c_rid a) = None" using None by (simp add: ledger_at_def)
  have card: "zset_at k3 (n @ '':leases'') = leases ?L1" by (simp add: same ledger_at_def)
  have drop: "(case ?hold of Some v \<Rightarrow> (dbl v, 1) | None \<Rightarrow> (0, 2))
      = (case ?hold of Some v \<Rightarrow> dbl v | None \<Rightarrow> 0, if ?hold = None then 2 else 1)"
    by (cases ?hold) simp_all
  have names: "k_tpm (keys_in n) = n @ '':tpm''" "k_tpmTs (keys_in n) = n @ '':tpm:ts''"
    "k_leases (keys_in n) = n @ '':leases''" "k_stats (keys_in n) = n @ '':stats''"
    by (simp_all add: keys_in_def)
  have run: "run_state (commit_script doc_call (keys_in n) (settled_in n (c_rid a)) a) ks
      = (fst (ledger_commit a ?L), k3)"
    using k3(1)
    by (simp add: commit_script_def names None k1(1)[unfolded drop] fields card Let_def del: option.case_eq_if)
       (simp add: ledger_commit_def fresh k1(2) Let_def)
  have "ledger_at n k3 = snd (ledger_commit a ?L)"
    by (simp add: L3 ledger_commit_def fresh Let_def) (simp add: k1(2))
  moreover have "leases (ledger_at n k3) = zset_at k1 (n @ '':leases'')" "held (ledger_at n k3) = hash_at k1 (n @ '':res'')"
    by (simp_all add: ledger_at_def same)
  ultimately show ?thesis using run fresh k1(3,4) by (intro exI[of _ k3]) (simp add: same)
qed

section \<open>How long the keys live\<close>

lemma admit_script_ends:
  assumes "run_state (admit_script call k a) s = (r, s')"
  shows "\<exists>tb rb s1. s' = snd (run_state (persist call k a tb rb) s1)"
proof -
  have "s' = snd (run_state (admit_script call k a) s)" using assms by simp
  then show ?thesis by (simp add: admit_script_def Let_def split_beta) blast
qed

lemma admit_script_lives:
  assumes run: "run_state (admit_script doc_call (keys_in n) a) ks = (r, ks')" and ttl: "0 < a_ttl a"
  shows "k \<in> {n @ '':tpm'', n @ '':tpm:ts'', n @ '':rpm'', n @ '':rpm:ts''} \<Longrightarrow> ttl_at ks' k = Some (1000 * a_ttl a)"
    and "leases (ledger_at n ks') \<noteq> [] \<Longrightarrow> ttl_at ks' (n @ '':leases'') = Some (1000 * a_ttl a)"
    and "held (ledger_at n ks') \<noteq> [] \<Longrightarrow> ttl_at ks' (n @ '':res'') = Some (1000 * a_ttl a)"
proof -
  have absent: "zset_at m k = []" "hash_at m k = []" if "m k = None" for m k
    using that by (simp_all add: zset_at_def hash_at_def)
  obtain tb rb s1 where ks': "ks' = snd (run_state (persist doc_call (keys_in n) a tb rb) s1)"
    using admit_script_ends[OF run] by blast
  show "k \<in> {n @ '':tpm'', n @ '':tpm:ts'', n @ '':rpm'', n @ '':rpm:ts''} \<Longrightarrow> ttl_at ks' k = Some (1000 * a_ttl a)"
    using ttl by (auto simp: ks' persist_def keys_in_def)
  show "leases (ledger_at n ks') \<noteq> [] \<Longrightarrow> ttl_at ks' (n @ '':leases'') = Some (1000 * a_ttl a)"
    using ttl by (cases "s1 (n @ '':leases'')") (auto simp: ks' persist_def keys_in_def ledger_at_def absent)
  show "held (ledger_at n ks') \<noteq> [] \<Longrightarrow> ttl_at ks' (n @ '':res'') = Some (1000 * a_ttl a)"
    using ttl by (cases "s1 (n @ '':res'')") (auto simp: ks' persist_def keys_in_def ledger_at_def absent)
qed

end
