(* ===== verification/Admission_Service.thy ===== *)
theory Admission_Service
  imports Script_Runner Metrics Admission_Ledger
begin

text \<open>
  \<^verbatim>\<open>src/llm/estimator.ts\<close> and \<^verbatim>\<open>src/llm/admission.service.ts\<close>: the service computes the
  parameters of the scripts from a policy and a request, runs them, and reads their replies.
  The wall clock and the random id of a reservation are arguments; the client of the
  script runner answers with the reply of whichever script it ran.
\<close>

section \<open>The estimator\<close>

datatype estimate_basis = basis_worst_case | observed | cold_start

record ReservationEstimate =
  reserveTokens :: int
  worstCaseTokens :: int
  basis :: estimate_basis

definition estimateReservation :: "AdmissionPolicy \<Rightarrow> int \<Rightarrow> int \<Rightarrow> rat \<Rightarrow> ReservationEstimate" where
  "estimateReservation policy promptTokens maxOutputTokens observedOutputEwma =
     (let worstCase = promptTokens + maxOutputTokens
      in if reservationMode policy = worst_case
         then \<lparr>reserveTokens = worstCase, worstCaseTokens = worstCase, basis = basis_worst_case\<rparr>
         else if observedOutputEwma \<le> 0
         then \<lparr>reserveTokens = worstCase, worstCaseTokens = worstCase, basis = cold_start\<rparr>
         else (let projected = \<lceil>fmul observedOutputEwma (reservationSafetyFactor policy)\<rceil>;
                   out = min maxOutputTokens (max projected 1)
               in \<lparr>reserveTokens = promptTokens + out, worstCaseTokens = worstCase, basis = observed\<rparr>))"

section \<open>The service\<close>

datatype llm_reply = AdmitReply admit_reply | CommitReply commit_reply | SnapshotReply snapshot_reply

definition admitScript :: "('s, llm_reply) redis_script" where
  "admitScript = \<lparr>body = ''ADMIT_SCRIPT'', numKeys = 7, script_name = ''llm_admit''\<rparr>"

definition commitScript :: "('s, llm_reply) redis_script" where
  "commitScript = \<lparr>body = ''COMMIT_SCRIPT'', numKeys = 6, script_name = ''llm_commit''\<rparr>"

definition snapshotScript :: "('s, llm_reply) redis_script" where
  "snapshotScript = \<lparr>body = ''SNAPSHOT_SCRIPT'', numKeys = 6, script_name = ''llm_snapshot''\<rparr>"

definition RECLAIM_BATCH :: nat where "RECLAIM_BATCH = 32"
definition EWMA_ALPHA :: rat where "EWMA_ALPHA = dbl (2 / 10)"
definition COLD_START_SERVICE_MS :: int where "COLD_START_SERVICE_MS = 2000"

text \<open>\<^verbatim>\<open>IDEMPOTENCY_TTL_SECONDS\<close> with its environment variable unset.\<close>

definition IDEMPOTENCY_TTL_SECONDS :: int where "IDEMPOTENCY_TTL_SECONDS = 300"

definition ttlSeconds :: "AdmissionPolicy \<Rightarrow> int" where
  "ttlSeconds policy = max 120 (leaseSeconds policy * 2 + 60)"

definition reason_text :: "ShedReason \<Rightarrow> string" where
  "reason_text r = (case r of tpm_exhausted \<Rightarrow> ''tpm_exhausted'' | rpm_exhausted \<Rightarrow> ''rpm_exhausted''
     | queue_full \<Rightarrow> ''queue_full'' | slo_infeasible \<Rightarrow> ''slo_infeasible'' | unsatisfiable \<Rightarrow> ''unsatisfiable'')"

definition observedOutputTokens ::
    "('s, 'r) script_client \<Rightarrow> 's redis \<Rightarrow> string \<Rightarrow> string \<Rightarrow> AdmissionPolicy \<Rightarrow> ('s, js_error + rat) state" where
  "observedOutputTokens client call tenant model policy =
     (if reservationMode policy \<noteq> adaptive then js_return 0
      else throwing (getClient client) (\<lambda>_. do {
        value \<leftarrow> call (HGET (k_stats (keys tenant model)) ''out_tokens'');
        js_return (number_or value 0)
      }))"

definition admit_args_for :: "AdmissionPolicy \<Rightarrow> int \<Rightarrow> string \<Rightarrow> int \<Rightarrow> int option \<Rightarrow> admit_args" where
  "admit_args_for policy now reservationId reserve sloTtftMs =
     \<lparr>a_now = now, a_tpm_limit = tokensPerMinute policy,
      a_tpm_rate = fdiv (of_int (tokensPerMinute policy)) 60,
      a_rpm_limit = requestsPerMinute policy,
      a_rpm_rate = fdiv (of_int (requestsPerMinute policy)) 60,
      a_reserve = reserve, a_rid = reservationId, a_lease_ms = leaseSeconds policy * 1000,
      a_max_concurrency = maxConcurrency policy, a_max_queue = maxQueueDepth policy,
      a_slo_ttft_ms = (case sloTtftMs of Some t \<Rightarrow> t | None \<Rightarrow> 0), a_ttl = ttlSeconds policy,
      a_reclaim_batch = RECLAIM_BATCH, a_default_svc_ms = COLD_START_SERVICE_MS\<rparr>"

text \<open>The reply of the script as a result and as metrics.\<close>

definition admission_result :: "string \<Rightarrow> int \<Rightarrow> admit_reply \<Rightarrow> AdmissionResult" where
  "admission_result reservationId leaseEnd raw =
     (let ok = (adm_admitted raw = 1)
      in \<lparr>decision = (if ok then admit else shed),
          res_reason = (if adm_admitted raw = 0 then adm_reason raw else None),
          res_reservationId = (if ok then Some reservationId else None),
          res_reservedTokens = (if ok then Some (adm_reserved raw) else None),
          leaseExpiresAt = (if ok then Some leaseEnd else None),
          tokensRemaining = adm_tokens raw, requestsRemaining = adm_requests raw,
          res_inflight = adm_inflight raw, predictedWaitMs = adm_wait raw,
          res_retryAfter = (if 0 < adm_retry raw then Some (max 1 \<lceil>fdiv (of_int (adm_retry raw)) 1000\<rceil>) else None),
          res_reclaimed = adm_reclaimed raw\<rparr>)"

definition admission_metrics :: "AdmissionPolicy \<Rightarrow> ReservationEstimate \<Rightarrow> admit_reply \<Rightarrow> metric_event list" where
  "admission_metrics policy estimate raw =
     recordAdmission (pol_scope policy)
       (if adm_admitted raw = 1 then ''admit'' else (case adm_reason raw of Some r \<Rightarrow> reason_text r | None \<Rightarrow> [])) @
     (if 0 < adm_reclaimed raw then recordLeaseReclaim (pol_scope policy) (adm_reclaimed raw) else []) @
     (if adm_admitted raw = 1
      then recordReservation (pol_scope policy) (adm_reserved raw) (worstCaseTokens estimate) else [])"

definition reserve ::
    "(string \<Rightarrow> string) \<Rightarrow> ('s, llm_reply) script_client \<Rightarrow> 's redis \<Rightarrow> int \<Rightarrow> string \<Rightarrow>
     AdmissionRequest \<Rightarrow> AdmissionPolicy \<Rightarrow> ('s, AdmissionResult) recorded" where
  "reserve sha1 client call now randomUUID request policy =
     (let tenant = ar_tenant request; model = ar_model request; k = keys tenant model
      in and_then (unrecorded (observedOutputTokens client call tenant model policy)) (\<lambda>ewma.
         let estimate = estimateReservation policy (ar_promptTokens request) (ar_maxOutputTokens request) ewma;
             reservationId = randomUUID;
             args = admit_args_for policy now reservationId (reserveTokens estimate) (ar_sloTtftMs request)
         in and_then
              (unrecorded (run_script sha1 client admitScript
                 [k_tpm k, k_tpmTs k, k_rpm k, k_rpmTs k, k_leases k, k_reservations k, k_stats k]
                 (do { raw \<leftarrow> admit_script call k args; State_Monad.return (AdmitReply raw) })))
              (\<lambda>reply. case reply of
                 AdmitReply raw \<Rightarrow>
                   recording (admission_metrics policy estimate raw)
                     (admission_result reservationId (now + leaseSeconds policy * 1000) raw)
               | _ \<Rightarrow> State_Monad.return (Inl (PlainError ''not the reply of this script''), []))))"

definition commit_args_for :: "AdmissionPolicy \<Rightarrow> int \<Rightarrow> CommitRequest \<Rightarrow> commit_args" where
  "commit_args_for policy now request =
     \<lparr>c_now = now, c_rid = cr_reservationId request,
      c_actual = cr_promptTokens request + cr_outputTokens request,
      c_tpm_limit = tokensPerMinute policy, c_ttl = ttlSeconds policy,
      c_service_ms = (case cr_serviceMs request of Some t \<Rightarrow> t | None \<Rightarrow> 0),
      c_output_tokens = cr_outputTokens request, c_alpha = EWMA_ALPHA, c_idem_ttl = IDEMPOTENCY_TTL_SECONDS\<rparr>"

definition commit_result :: "commit_reply \<Rightarrow> CommitResult" where
  "commit_result raw =
     \<lparr>commit_status = (if com_status raw = 3 then duplicate_ignored
                       else if com_status raw = 2 then reconciled_after_expiry else committed),
      refundedTokens = com_refund raw, commit_tokensRemaining = com_tokens raw,
      commit_inflight = com_inflight raw\<rparr>"

definition commit_metrics :: "AdmissionPolicy \<Rightarrow> commit_reply \<Rightarrow> metric_event list" where
  "commit_metrics policy raw =
     (if com_status raw = 3 then []
      else (if com_status raw = 2 then recordLateCommit (pol_scope policy) else []) @
           (if com_refund raw < 0 then recordOverrun (pol_scope policy) (- com_refund raw) else []) @
           recordSettled (pol_scope policy))"

definition commit ::
    "(string \<Rightarrow> string) \<Rightarrow> ('s, llm_reply) script_client \<Rightarrow> 's redis \<Rightarrow> int \<Rightarrow>
     CommitRequest \<Rightarrow> AdmissionPolicy \<Rightarrow> ('s, CommitResult) recorded" where
  "commit sha1 client call now request policy =
     (let tenant = cr_tenant request; model = cr_model request; k = keys tenant model;
          sk = settledKey tenant model (cr_reservationId request)
      in and_then
           (unrecorded (run_script sha1 client commitScript
              [k_tpm k, k_tpmTs k, k_leases k, k_reservations k, k_stats k, sk]
              (do { raw \<leftarrow> commit_script call k sk (commit_args_for policy now request);
                    State_Monad.return (CommitReply raw) })))
           (\<lambda>reply. case reply of
              CommitReply raw \<Rightarrow> recording (commit_metrics policy raw) (commit_result raw)
            | _ \<Rightarrow> State_Monad.return (Inl (PlainError ''not the reply of this script''), [])))"

definition release ::
    "(string \<Rightarrow> string) \<Rightarrow> ('s, llm_reply) script_client \<Rightarrow> 's redis \<Rightarrow> int \<Rightarrow>
     string \<Rightarrow> string \<Rightarrow> string \<Rightarrow> AdmissionPolicy \<Rightarrow> ('s, CommitResult) recorded" where
  "release sha1 client call now tenant model reservationId policy =
     commit sha1 client call now
       \<lparr>cr_tenant = tenant, cr_model = model, cr_reservationId = reservationId,
        cr_promptTokens = 0, cr_outputTokens = 0, cr_serviceMs = None\<rparr> policy"

record AdmissionSnapshot =
  snapshot_tenant :: string
  snapshot_model :: string
  snapshot_counts :: snapshot_reply
  snapshot_policy :: AdmissionPolicy

definition snapshot ::
    "(string \<Rightarrow> string) \<Rightarrow> ('s, llm_reply) script_client \<Rightarrow> 's redis \<Rightarrow> int \<Rightarrow>
     string \<Rightarrow> string \<Rightarrow> AdmissionPolicy \<Rightarrow> ('s, AdmissionSnapshot) recorded" where
  "snapshot sha1 client call now tenant model policy =
     (let k = keys tenant model
      in and_then
           (unrecorded (run_script sha1 client snapshotScript
              [k_tpm k, k_tpmTs k, k_rpm k, k_rpmTs k, k_leases k, k_stats k]
              (do { raw \<leftarrow> snapshot_script call k now
                      (tokensPerMinute policy) (fdiv (of_int (tokensPerMinute policy)) 60)
                      (requestsPerMinute policy) (fdiv (of_int (requestsPerMinute policy)) 60)
                      COLD_START_SERVICE_MS;
                    State_Monad.return (SnapshotReply raw) })))
           (\<lambda>reply. case reply of
              SnapshotReply raw \<Rightarrow>
                recording [] \<lparr>snapshot_tenant = tenant, snapshot_model = model, snapshot_counts = raw, snapshot_policy = policy\<rparr>
            | _ \<Rightarrow> State_Monad.return (Inl (PlainError ''not the reply of this script''), [])))"

section \<open>The service implements the ledger\<close>

lemma ttlSeconds_pos [simp]: "0 < ttlSeconds policy"
  by (simp add: ttlSeconds_def)

text \<open>What the estimator is told of the model, and what it then asks to reserve.\<close>

definition ewma_found :: "AdmissionPolicy \<Rightarrow> ledger \<Rightarrow> rat" where
  "ewma_found policy L = (if reservationMode policy = adaptive then stat_or L ''out_tokens'' 0 else 0)"

definition estimate_found :: "AdmissionPolicy \<Rightarrow> AdmissionRequest \<Rightarrow> ledger \<Rightarrow> ReservationEstimate" where
  "estimate_found policy request L =
     estimateReservation policy (ar_promptTokens request) (ar_maxOutputTokens request) (ewma_found policy L)"

definition args_found :: "AdmissionPolicy \<Rightarrow> int \<Rightarrow> string \<Rightarrow> AdmissionRequest \<Rightarrow> ledger \<Rightarrow> admit_args" where
  "args_found policy now reservationId request L =
     admit_args_for policy now reservationId (reserveTokens (estimate_found policy request L)) (ar_sloTtftMs request)"

definition request_ns :: "AdmissionRequest \<Rightarrow> string" where
  "request_ns request = ns (ar_tenant request) (ar_model request)"

definition commit_ns :: "CommitRequest \<Rightarrow> string" where
  "commit_ns request = ns (cr_tenant request) (cr_model request)"

lemma observedOutputTokens_runs:
  assumes server: "script_server call elapse view sha1 client cached"
  shows "\<exists>s'. run_state (unrecorded (observedOutputTokens client call tenant model policy)) s
      = ((Inr (ewma_found policy (ledger_at (ns tenant model) (view s))), []), s') \<and> view s' = view s"
proof (cases "reservationMode policy = adaptive")
  case True
  have connected: "run_state (getClient client) s = (Inr (), s)"
    by (rule script_server.connected[OF server])
  let ?cmd = "HGET (k_stats (keys tenant model)) ''out_tokens''"
  obtain r s' where call: "run_state (call ?cmd) s = (r, s')" by (metis surj_pair)
  have "simulates view (call ?cmd) (doc_call ?cmd)"
    by (rule redis_server_sim[OF script_server.axioms(1)[OF server]])
  from simulatesD[OF this call] have doc: "run_state (doc_call ?cmd) (view s) = (r, view s')" .
  then have "view s' = view s" by (simp split: option.splits)
  moreover have "number_or r 0 = stat_or (ledger_at (ns tenant model) (view s)) ''out_tokens'' 0"
    using doc by (auto simp: keys_def keys_in_def stat_or_def ledger_at_def split: option.splits)
  ultimately show ?thesis
    using True by (simp add: observedOutputTokens_def connected call ewma_found_def)
qed (simp add: observedOutputTokens_def ewma_found_def)

lemma script_reply_runs:
  assumes server: "script_server call elapse view sha1 client cached"
    and sim: "simulates view prog prog'" and keys: "length ks = numKeys script"
    and doc: "run_state prog' (view s) = (r, v')"
  shows "\<exists>s'. run_state (unrecorded (run_script sha1 client script ks
      (do { raw \<leftarrow> prog; State_Monad.return (wrap raw) }))) s = ((Inr (wrap r), []), s') \<and> view s' = v'"
proof -
  have "simulates view (do { raw \<leftarrow> prog; State_Monad.return (wrap raw) }) (do { raw \<leftarrow> prog'; State_Monad.return (wrap raw) })"
    by (intro sim_intros sim)
  from script_server.run_script_runs[OF server this keys, of s] doc show ?thesis by auto
qed

lemma reserve_runs:
  assumes server: "script_server call elapse view sha1 client cached"
    and L: "L = ledger_at (request_ns request) (view s)"
    and doc: "run_state (admit_script doc_call (keys_in (request_ns request)) (args_found policy now reservationId request L)) (view s) = (raw, v')"
  shows "\<exists>s'. run_state (reserve sha1 client call now reservationId request policy) s
       = ((Inr (admission_result reservationId (now + leaseSeconds policy * 1000) raw),
           admission_metrics policy (estimate_found policy request L) raw), s') \<and> view s' = v'"
proof -
  let ?k = "keys (ar_tenant request) (ar_model request)" and ?n = "request_ns request"
  let ?a = "args_found policy now reservationId request L"
  have k: "?k = keys_in ?n" by (simp add: keys_def request_ns_def)
  obtain s1 where s1: "run_state (unrecorded (observedOutputTokens client call (ar_tenant request) (ar_model request) policy)) s
      = ((Inr (ewma_found policy L), []), s1)" "view s1 = view s"
    using observedOutputTokens_runs[OF server] unfolding L request_ns_def by blast
  have v': "run_state (admit_script doc_call ?k ?a) (view s1) = (raw, v')" using doc by (simp only: k s1(2))
  have "length [k_tpm ?k, k_tpmTs ?k, k_rpm ?k, k_rpmTs ?k, k_leases ?k, k_reservations ?k, k_stats ?k] = numKeys (admitScript :: ('a, llm_reply) redis_script)"
    by (simp add: admitScript_def)
  from script_reply_runs[OF server admit_script_sim[OF script_server.axioms(1)[OF server]] this v', of AdmitReply]
  obtain s2 where s2: "run_state (unrecorded (run_script sha1 client admitScript
      [k_tpm ?k, k_tpmTs ?k, k_rpm ?k, k_rpmTs ?k, k_leases ?k, k_reservations ?k, k_stats ?k]
      (do { raw \<leftarrow> admit_script call ?k ?a; State_Monad.return (AdmitReply raw) }))) s1 = ((Inr (AdmitReply raw), []), s2)"
    "view s2 = v'"
    by blast
  have "run_state (reserve sha1 client call now reservationId request policy) s
       = ((Inr (admission_result reservationId (now + leaseSeconds policy * 1000) raw),
           [] @ [] @ admission_metrics policy (estimate_found policy request L) raw), s2)"
    unfolding reserve_def Let_def
    by (rule run_and_then(2)[OF s1(1)], rule run_and_then(2))
       (use s2(1) in \<open>simp add: args_found_def estimate_found_def\<close>, simp add: estimate_found_def)
  then show ?thesis using s2(2) by auto
qed

lemma args_found_ttl [simp]: "a_ttl (args_found policy now rid request L) = ttlSeconds policy"
  by (simp add: args_found_def admit_args_for_def)

text \<open>
  C4: Reserving is the ledger's reserve. Over any server that keeps the contract of the script
  cache and of the commands, a reserve call answers the client and counts in the metrics
  what the operation of the ledger replies to the tokens the estimator asks for, and
  leaves the ledger as that operation does, whether or not the script was cached.
\<close>

theorem reserve_refines_ledger:
  assumes server: "script_server call elapse view sha1 client cached"
    and L: "L = ledger_at (request_ns request) (view s)"
    and ledger: "ledger_admit (args_found policy now reservationId request L) L = (raw, L')"
  shows "\<exists>s'. run_state (reserve sha1 client call now reservationId request policy) s
       = ((Inr (admission_result reservationId (now + leaseSeconds policy * 1000) raw),
           admission_metrics policy (estimate_found policy request L) raw), s')
     \<and> ledger_at (request_ns request) (view s') = L'"
proof -
  obtain v' where "run_state (admit_script doc_call (keys_in (request_ns request)) (args_found policy now reservationId request L)) (view s) = (raw, v')"
      "ledger_at (request_ns request) v' = L'"
    using admit_script_doc[of "args_found policy now reservationId request L" "request_ns request" "view s"] ledger
    by (auto simp flip: L)
  then show ?thesis using reserve_runs[OF server L] by blast
qed

lemma commit_runs:
  assumes server: "script_server call elapse view sha1 client cached"
    and doc: "run_state (commit_script doc_call (keys_in (commit_ns request)) (settled_in (commit_ns request) (cr_reservationId request))
        (commit_args_for policy now request)) (view s) = (raw, v')"
  shows "\<exists>s'. run_state (commit sha1 client call now request policy) s
       = ((Inr (commit_result raw), commit_metrics policy raw), s') \<and> view s' = v'"
proof -
  let ?k = "keys (cr_tenant request) (cr_model request)" and ?n = "commit_ns request"
  let ?a = "commit_args_for policy now request" and ?sk = "settledKey (cr_tenant request) (cr_model request) (cr_reservationId request)"
  have k: "?k = keys_in ?n" and sk: "?sk = settled_in ?n (cr_reservationId request)"
    by (simp_all add: keys_def commit_ns_def settledKey_def)
  have v': "run_state (commit_script doc_call ?k ?sk ?a) (view s) = (raw, v')" using doc by (simp only: k sk)
  have "length [k_tpm ?k, k_tpmTs ?k, k_leases ?k, k_reservations ?k, k_stats ?k, ?sk] = numKeys (commitScript :: ('a, llm_reply) redis_script)"
    by (simp add: commitScript_def)
  from script_reply_runs[OF server commit_script_sim[OF script_server.axioms(1)[OF server]] this v', of CommitReply]
  obtain s2 where s2: "run_state (unrecorded (run_script sha1 client commitScript
      [k_tpm ?k, k_tpmTs ?k, k_leases ?k, k_reservations ?k, k_stats ?k, ?sk]
      (do { raw \<leftarrow> commit_script call ?k ?sk ?a; State_Monad.return (CommitReply raw) }))) s = ((Inr (CommitReply raw), []), s2)"
    "view s2 = v'"
    by blast
  have "run_state (commit sha1 client call now request policy) s
       = ((Inr (commit_result raw), [] @ commit_metrics policy raw), s2)"
    unfolding commit_def Let_def by (rule run_and_then(2)[OF s2(1)]) simp
  then show ?thesis using s2(2) by auto
qed

lemma commit_args_for_simps [simp]:
  "c_rid (commit_args_for policy now request) = cr_reservationId request"
  "c_actual (commit_args_for policy now request) = cr_promptTokens request + cr_outputTokens request"
  "c_tpm_limit (commit_args_for policy now request) = tokensPerMinute policy"
  "c_now (commit_args_for policy now request) = now"
  "c_ttl (commit_args_for policy now request) = ttlSeconds policy"
  "c_idem_ttl (commit_args_for policy now request) = IDEMPOTENCY_TTL_SECONDS"
  by (simp_all add: commit_args_for_def)

lemma idempotency_ttl_pos [simp]: "0 < IDEMPOTENCY_TTL_SECONDS"
  by (simp add: IDEMPOTENCY_TTL_SECONDS_def)

text \<open>
  C5: Settling is the ledger's commit: over any server that keeps the contracts, a commit
  answers, counts and leaves what the operation of the ledger does.
\<close>

theorem commit_refines_ledger:
  assumes server: "script_server call elapse view sha1 client cached"
    and ledger: "ledger_commit (commit_args_for policy now request) (ledger_at (commit_ns request) (view s)) = (raw, L')"
  shows "\<exists>s'. run_state (commit sha1 client call now request policy) s
       = ((Inr (commit_result raw), commit_metrics policy raw), s')
     \<and> ledger_at (commit_ns request) (view s') = L'"
proof -
  let ?a = "commit_args_for policy now request"
  obtain v' where "run_state (commit_script doc_call (keys_in (commit_ns request)) (settled_in (commit_ns request) (cr_reservationId request))
        ?a) (view s) = (raw, v')" "ledger_at (commit_ns request) v' = L'"
    using commit_script_doc[of ?a "commit_ns request" "view s"] ledger by auto
  then show ?thesis using commit_runs[OF server] by blast
qed

text \<open>A gateway over the documented server with nothing stored, and one request of a tenant on the default policy.\<close>

abbreviation "empty_server \<equiv> (Map.empty, []) :: doc_server"

definition example_request :: AdmissionRequest where
  "example_request = \<lparr>ar_tenant = ''acme'', ar_model = ''m'', ar_promptTokens = 100, ar_maxOutputTokens = 400, ar_sloTtftMs = None\<rparr>"

definition example_policy :: AdmissionPolicy where
  "example_policy = DEFAULT_POLICY ''acme'' ''m'' ''default''"

lemma ledger_at_empty [simp]:
  "ledger_at n Map.empty = \<lparr>tpm = None, tpmTs = None, rpm = None, rpmTs = None, leases = [], held = [],
      stats = [], settled = (\<lambda>rid. None)\<rparr>"
  by (simp add: ledger_at_def str_at_def zset_at_def hash_at_def)

lemma example_args:
  "ledger_admit (args_found example_policy 1000 ''r1'' example_request (ledger_at n Map.empty)) (ledger_at n Map.empty)
     = (\<lparr>adm_admitted = 1, adm_reason = None, adm_reserved = 500, adm_tokens = 99500, adm_requests = 599,
         adm_inflight = 1, adm_wait = 0, adm_retry = 0, adm_reclaimed = 0\<rparr>,
        \<lparr>tpm = Some 99500, tpmTs = Some 1000, rpm = Some 599, rpmTs = Some 1000, leases = [(121000, ''r1'')],
         held = [(''r1'', 500)], stats = [], settled = (\<lambda>rid. None)\<rparr>)"
  by (simp add: args_found_def estimate_found_def estimateReservation_def example_policy_def DEFAULT_POLICY_def
      example_request_def admit_args_for_def ledger_admit_def found_defs admission_verdict_def level_def sweep_def
      without_def predicted_wait_def fsub_def fadd_def zinsert_def)

lemma reserve_refines_ledger_witness:
  "\<exists>s'. run_state (reserve id (server_client id) server_call 1000 ''r1'' example_request example_policy) empty_server
      = ((Inr \<lparr>decision = admit, res_reason = None, res_reservationId = Some ''r1'', res_reservedTokens = Some 500,
              leaseExpiresAt = Some 121000, tokensRemaining = 99500, requestsRemaining = 599, res_inflight = 1,
              predictedWaitMs = 0, res_retryAfter = None, res_reclaimed = 0\<rparr>,
          [Inc ''llm_admission_decisions_total'' [(''scope'', ''default''), (''outcome'', ''admit'')] 1,
           Inc ''llm_tokens_reserved_total'' [(''scope'', ''default'')] 500,
           Inc ''llm_tokens_worst_case_total'' [(''scope'', ''default'')] 500]), s')
    \<and> held (ledger_at ''llm:{acme|m}'' (fst s')) = [(''r1'', 500)]"
proof -
  let ?L = "ledger_at (request_ns example_request) (Map.empty :: keyspace)"
  have "\<exists>s'. run_state (reserve id (server_client id) server_call 1000 ''r1'' example_request example_policy) empty_server
      = ((Inr (admission_result ''r1'' (1000 + leaseSeconds example_policy * 1000) (fst (ledger_admit (args_found example_policy 1000 ''r1'' example_request ?L) ?L))),
          admission_metrics example_policy (estimate_found example_policy example_request ?L) (fst (ledger_admit (args_found example_policy 1000 ''r1'' example_request ?L) ?L))), s')
    \<and> ledger_at (request_ns example_request) (fst s') = snd (ledger_admit (args_found example_policy 1000 ''r1'' example_request ?L) ?L)"
    by (rule reserve_refines_ledger[OF doc_script_server.script_server_axioms]) simp_all
  moreover have "request_ns example_request = ''llm:{acme|m}''"
    by (simp add: request_ns_def ns_def example_request_def)
  moreover have "1000 + leaseSeconds example_policy * 1000 = 121000" "pol_scope example_policy = ''default''"
    by (simp_all add: example_policy_def DEFAULT_POLICY_def)
  moreover have "worstCaseTokens (estimate_found example_policy example_request ?L) = 500"
    by (simp add: estimate_found_def estimateReservation_def example_policy_def DEFAULT_POLICY_def example_request_def)
  ultimately show ?thesis
    unfolding example_args by (auto simp: admission_result_def admission_metrics_def record_defs)
qed

text \<open>
  Releasing a live reservation returns all it held: the client is told the hold as the
  refund, the hold and its lease are gone, and the balance is what it had refilled to plus
  the hold, capped at the budget.
\<close>

theorem release_returns_hold:
  assumes server: "script_server call elapse view sha1 client cached"
    and L: "L = ledger_at (ns tenant model) (view s)"
    and live: "map_of (held L) rid = Some (of_int h)" "\<bar>h\<bar> \<le> 2 ^ 31" "settled L rid = None"
  shows "\<exists>s' es res. run_state (release sha1 client call now tenant model rid policy) s = ((Inr res, es), s')
     \<and> commit_status res = committed \<and> refundedTokens res = h
     \<and> map_of (held (ledger_at (ns tenant model) (view s'))) rid = None
     \<and> rid \<notin> snd ` set (leases (ledger_at (ns tenant model) (view s')))
     \<and> tpm (ledger_at (ns tenant model) (view s')) = Some (tostring (min
          (fadd (level (tpm L) (tpmTs L) (of_int (tokensPerMinute policy)) (fdiv (of_int (tokensPerMinute policy)) 60) now) (of_int h))
          (of_int (tokensPerMinute policy))))"
proof -
  let ?req = "\<lparr>cr_tenant = tenant, cr_model = model, cr_reservationId = rid, cr_promptTokens = 0,
      cr_outputTokens = 0, cr_serviceMs = None\<rparr>"
  let ?c = "commit_args_for policy now ?req"
  have n: "commit_ns ?req = ns tenant model" by (simp add: commit_ns_def)
  have args: "c_rid ?c = rid" "c_actual ?c = 0" "c_tpm_limit ?c = tokensPerMinute policy" "c_now ?c = now"
    by (simp_all add: commit_args_for_def)
  have h: "dbl (of_int h) = of_int h" by (intro dbl_of_int order_trans[OF live(2)]) simp
  have sub: "fsub (of_int h) 0 = of_int h" by (simp add: fsub_def h)
  obtain raw L' where ledger: "ledger_commit ?c L = (raw, L')" by (metis surj_pair)
  obtain v' where v': "run_state (commit_script doc_call (keys_in (commit_ns ?req)) (settled_in (commit_ns ?req) (cr_reservationId ?req)) ?c) (view s) = (raw, v')"
      "ledger_at (ns tenant model) v' = L'"
    using commit_script_doc[of ?c "ns tenant model" "view s"] ledger by (auto simp: args n simp flip: L)
  have raw: "com_status raw = 1" "com_refund raw = h" and L':
    "held L' = filter (\<lambda>e. fst e \<notin> {rid}) (held L)" "leases L' = filter (\<lambda>e. snd e \<notin> {rid}) (leases L)"
    "tpm L' = Some (tostring (min (fadd (level (tpm L) (tpmTs L) (of_int (tokensPerMinute policy))
       (fdiv (of_int (tokensPerMinute policy)) 60) now) (of_int h)) (of_int (tokensPerMinute policy))))"
    using ledger live(1,3) by (auto simp: ledger_commit_def Let_def args h sub without_def)
  have "map_of (held L') rid = None" by (auto simp: L'(1) map_of_eq_None_iff)
  moreover have "rid \<notin> snd ` set (leases L')" by (auto simp: L'(2))
  ultimately show ?thesis
    using commit_runs[OF server v'(1)] raw v'(2) L'(3)
    unfolding release_def by (auto simp: commit_result_def)
qed

text \<open>The same gateway with one reservation of 500 tokens live.\<close>

definition example_store :: keyspace where
  "example_store =
     [''llm:{acme|m}:tpm'' \<mapsto> (Str 99500, Some 300000), ''llm:{acme|m}:tpm:ts'' \<mapsto> (Str 1000, Some 300000),
      ''llm:{acme|m}:leases'' \<mapsto> (ZSet [(121000, ''r1'')], Some 300000),
      ''llm:{acme|m}:res'' \<mapsto> (Hash [(''r1'', 500)], Some 300000)]"

lemma example_ledger:
  "ledger_at ''llm:{acme|m}'' example_store =
     \<lparr>tpm = Some 99500, tpmTs = Some 1000, rpm = None, rpmTs = None, leases = [(121000, ''r1'')], held = [(''r1'', 500)],
      stats = [], settled = (\<lambda>rid. None)\<rparr>"
  by (simp add: ledger_at_def str_at_def zset_at_def hash_at_def example_store_def settled_in_def fun_eq_iff)

definition example_settle :: CommitRequest where
  "example_settle = \<lparr>cr_tenant = ''acme'', cr_model = ''m'', cr_reservationId = ''r1'', cr_promptTokens = 100,
     cr_outputTokens = 200, cr_serviceMs = None\<rparr>"

lemma accrue_here: "accrue 99500 1000 1000 r 100000 = 99500"
  using accrue_same[of 99500 100000 1000 r] by simp

lemma commit_refines_ledger_witness:
  "\<exists>es s'. run_state (commit id (server_client id) server_call 1000 example_settle example_policy) (example_store, [])
      = ((Inr \<lparr>commit_status = committed, refundedTokens = 200, commit_tokensRemaining = 99700, commit_inflight = 0\<rparr>, es), s')
    \<and> held (ledger_at ''llm:{acme|m}'' (fst s')) = []"
proof -
  let ?a = "commit_args_for example_policy 1000 example_settle" and ?n = "commit_ns example_settle"
  have n: "?n = ''llm:{acme|m}''" by (simp add: commit_ns_def ns_def example_settle_def)
  have reply: "fst (ledger_commit ?a (ledger_at ?n example_store))
      = \<lparr>com_status = 1, com_refund = 200, com_tokens = 99700, com_inflight = 0\<rparr>"
    unfolding n example_ledger
    by (simp add: ledger_commit_def Let_def level_def without_def accrue_here fadd_def fsub_def example_settle_def
        example_policy_def DEFAULT_POLICY_def)
  have left_over: "held (snd (ledger_commit ?a (ledger_at ?n example_store))) = []"
    unfolding n example_ledger by (simp add: ledger_commit_def Let_def without_def example_settle_def)
  have "\<exists>s'. run_state (commit id (server_client id) server_call 1000 example_settle example_policy) (example_store, [])
      = ((Inr (commit_result (fst (ledger_commit ?a (ledger_at ?n example_store)))),
          commit_metrics example_policy (fst (ledger_commit ?a (ledger_at ?n example_store)))), s')
    \<and> ledger_at ?n (fst s') = snd (ledger_commit ?a (ledger_at ?n example_store))"
    by (rule commit_refines_ledger[OF doc_script_server.script_server_axioms]) simp
  then show ?thesis using left_over unfolding reply unfolding n by (auto simp: commit_result_def)
qed

lemma release_returns_hold_witness:
  "\<exists>s' es res. run_state (release id (server_client id) server_call 1000 ''acme'' ''m'' ''r1'' example_policy) (example_store, [])
      = ((Inr res, es), s')
    \<and> refundedTokens res = 500 \<and> tpm (ledger_at ''llm:{acme|m}'' (fst s')) = Some 100000"
proof -
  have n: "ns ''acme'' ''m'' = ''llm:{acme|m}''" by (simp add: ns_def)
  show ?thesis
    using release_returns_hold[OF doc_script_server.script_server_axioms[of id] refl, where s = "(example_store, [])" and tenant = "''acme''"
        and model = "''m''" and rid = "''r1''" and h = 500 and now = 1000 and policy = example_policy]
    by (auto simp: n example_ledger level_def example_policy_def DEFAULT_POLICY_def accrue_here fadd_def)
qed

end
