(* ===== verification/Process.thy ===== *)
theory Process
  imports Config Algorithms Admission_Service
begin

text \<open>
  The process: \<^verbatim>\<open>src/index.ts\<close> (start and shutdown), \<^verbatim>\<open>src/routes/health.routes.ts\<close>,
  \<^verbatim>\<open>src/routes/metrics.routes.ts\<close>, \<^verbatim>\<open>src/version.ts\<close> and the settings of \<^verbatim>\<open>src/app.ts\<close>. Whether a
  ping, a test query or a command of a driver succeeds is a parameter, and so are the listening
  socket and the signals.
\<close>

section \<open>Starting and stopping\<close>

record 's running =
  run_redis :: redis_service
  run_pg :: pg_service
  run_scripts :: "'s process"

definition on_redis_service :: "(redis_service, 'a) state \<Rightarrow> ('s running, 'a) state" where
  "on_redis_service = zoom run_redis (\<lambda>r st. st\<lparr>run_redis := r\<rparr>)"

definition on_pg_service :: "(pg_service, 'a) state \<Rightarrow> ('s running, 'a) state" where
  "on_pg_service = zoom run_pg (\<lambda>p st. st\<lparr>run_pg := p\<rparr>)"

definition on_scripts :: "('s process, 'a) state \<Rightarrow> ('s running, 'a) state" where
  "on_scripts = zoom run_scripts (\<lambda>p st. st\<lparr>run_scripts := p\<rparr>)"

text \<open>\<^verbatim>\<open>admissionService.warm()\<close>.\<close>

definition warm :: "('s, llm_reply) script_client \<Rightarrow> ('s, js_error + unit) state" where
  "warm client = promise_all [load_script client admitScript, load_script client commitScript, load_script client snapshotScript]"

datatype boot_outcome = Listening | Exited int

record 's machine =
  m_redis_config :: redis_config
  m_redis_events :: "redis_event list" \<comment> \<open>what the new client emits until the ping is answered\<close>
  m_ping_ok :: bool
  m_pg_ok :: bool
  m_sha1 :: "string \<Rightarrow> string"
  m_client :: "('s, script_reply) script_client"
  m_llm_client :: "('s, llm_reply) script_client"
  m_call :: "'s redis"
  m_now :: int
  m_pid :: nat

definition warm_up :: "'s machine \<Rightarrow> ('s process, js_error + unit) state" where
  "warm_up m = promise_all
     [warmAll (m_sha1 m) (m_client m) (m_call m) (m_now m) (m_pid m), on_server (warm (m_llm_client m))]"

definition started :: "'s machine \<Rightarrow> ('s running, js_error + unit) state" where
  "started m =
     throwing (on_redis_service (redis_connect (m_redis_config m) (m_redis_events m) (m_ping_ok m))) (\<lambda>_.
     throwing (on_pg_service (pg_connect (m_pg_ok m))) (\<lambda>_.
     on_scripts (warm_up m)))"

definition bootstrap :: "'s machine \<Rightarrow> ('s running, boot_outcome) state" where
  "bootstrap m = State_Monad.bind (started m) (\<lambda>r.
     State_Monad.return (case r of Inr _ \<Rightarrow> Listening | Inl e \<Rightarrow> Exited 1))"

text \<open>The shutdown once the server is closed: what quitting Redis and ending the pool throw, and the exit code.\<close>

definition shutdown :: "js_error option \<Rightarrow> js_error option \<Rightarrow> ('s running, int) state" where
  "shutdown quit_error end_error = State_Monad.bind
     (throwing (on_redis_service (redis_disconnect quit_error)) (\<lambda>_. on_pg_service (pg_disconnect end_error)))
     (\<lambda>r. State_Monad.return (case r of Inr _ \<Rightarrow> 0 | Inl e \<Rightarrow> 1))"

section \<open>Health, version and metrics\<close>

definition readVersion :: "string option option \<Rightarrow> string" where
  "readVersion pkg = (case pkg of Some (Some v) \<Rightarrow> v | _ \<Rightarrow> ''unknown'')"

text \<open>What the two dependencies do with the ping and with \<^verbatim>\<open>SELECT 1\<close> are \<open>ping_ok\<close> and \<open>answer\<close>.\<close>

definition health_route ::
    "(int \<Rightarrow> string) \<Rightarrow> string \<Rightarrow> int \<Rightarrow> bool \<Rightarrow> (js_error + unit) \<Rightarrow> ('s running, http_response) state" where
  "health_route show_date version now ping_ok answer = do {
     st \<leftarrow> State_Monad.get;
     let redis = redis_healthCheck ping_ok (run_redis st);
     postgres \<leftarrow> on_pg_service (pg_healthCheck answer);
     State_Monad.return (json (if redis then 200 else 503) (JObj
       [(''status'', JStr (if redis then if postgres then ''healthy'' else ''degraded'' else ''unhealthy'')),
        (''timestamp'', JStr (show_date now)), (''service'', JStr ''rate-limiter-service''), (''version'', JStr version),
        (''checks'', JObj [(''redis'', JStr (if redis then ''up'' else ''down'')),
                           (''postgres'', JStr (if postgres then ''up'' else ''down''))])]))
   }"

definition ready_route :: "bool \<Rightarrow> 's running \<Rightarrow> http_response" where
  "ready_route ping_ok st =
     (if redis_healthCheck ping_ok (run_redis st) then json 200 (JObj [(''ready'', JBool True)])
      else json 503 (JObj [(''ready'', JBool False), (''reason'', JStr ''redis_unavailable'')]))"

definition live_route :: http_response where
  "live_route = json 200 (JObj [(''alive'', JBool True)])"

definition metrics_route :: "string \<Rightarrow> (js_error + string) \<Rightarrow> http_response" where
  "metrics_route contentType metrics =
     (case metrics of
        Inr text \<Rightarrow> \<lparr>http_status = 200, http_headers = [(''Content-Type'', contentType)], http_body = Some (JStr text)\<rparr>
      | Inl e \<Rightarrow> json 500 (JObj [(''error'', JStr ''Failed to collect metrics'')]))"

text \<open>The settings of the application: the origins that may call it, none by default, and the largest body.\<close>

definition cors_origin :: "environment \<Rightarrow> string list option" where
  "cors_origin env = (case env ''CORS_ORIGIN'' of Some (c # cs) \<Rightarrow> Some (map trim (split_at CHR '','' (c # cs))) | _ \<Rightarrow> None)"

definition body_limit :: "environment \<Rightarrow> string" where
  "body_limit env = (case env ''MAX_BODY_SIZE'' of Some s \<Rightarrow> s | None \<Rightarrow> ''64kb'')"

section \<open>Warming the script caches\<close>

text \<open>What a computation keeps of the state, and what it has reached when it succeeds.\<close>

definition keeps :: "('s \<Rightarrow> bool) \<Rightarrow> ('s, 'a) state \<Rightarrow> bool" where
  "keeps P m \<longleftrightarrow> (\<forall>s. P s \<longrightarrow> P (snd (run_state m s)))"

definition reaches :: "('s \<Rightarrow> bool) \<Rightarrow> ('s, js_error + 'a) state \<Rightarrow> bool" where
  "reaches P m \<longleftrightarrow> (\<forall>s u. fst (run_state m s) = Inr u \<longrightarrow> P (snd (run_state m s)))"

text \<open>
  What the warm-up relies on, of a cluster or a single server: \<^verbatim>\<open>masters()\<close> names the masters, \<^verbatim>\<open>SCRIPT LOAD\<close>
  on one of them caches the script there, and nothing is forgotten meanwhile.
\<close>

definition everywhere :: "(nat \<Rightarrow> string \<Rightarrow> 's \<Rightarrow> bool) \<Rightarrow> ('s \<Rightarrow> nat list) \<Rightarrow> string \<Rightarrow> 's \<Rightarrow> bool" where
  "everywhere cached_on nodes d s \<longleftrightarrow> (\<forall>n \<in> set (nodes s). cached_on n d s)"

locale script_cluster =
  fixes sha1 :: "string \<Rightarrow> string" and client :: "('s, 'r) script_client"
    and cached_on :: "nat \<Rightarrow> string \<Rightarrow> 's \<Rightarrow> bool" and nodes :: "'s \<Rightarrow> nat list"
  assumes masters_named: "run_state (masters client) s = (r, s') \<Longrightarrow> s' = s \<and> (\<forall>ns. r = Inr ns \<longrightarrow> ns = nodes s)"
    and load_caches: "run_state (script_load client n t) s = (Inr u, s') \<Longrightarrow> cached_on n (sha1 t) s'"
    and load_keeps: "run_state (script_load client n t) s = (answer, s') \<Longrightarrow> nodes s' = nodes s \<and> (cached_on m d s \<longrightarrow> cached_on m d s')"
begin

lemma load_on_keeps: "run_state (load_on client t ms) s = (r, s') \<Longrightarrow> nodes s' = nodes s \<and> (cached_on m d s \<longrightarrow> cached_on m d s')"
proof (induction ms arbitrary: s r)
  case (Cons n ms)
  obtain r1 s1 where load: "run_state (script_load client n t) s = (r1, s1)" by (cases "run_state (script_load client n t) s")
  obtain r2 s2 where more: "run_state (load_on client t ms) s1 = (r2, s2)" by (cases "run_state (load_on client t ms) s1")
  have "s' = s2" using Cons.prems by (auto simp: load more split: sum.splits)
  then show ?case using load_keeps[OF load, of m d] Cons.IH[OF more[folded \<open>s' = s2\<close>]] by auto
qed simp

lemma load_on_caches: "run_state (load_on client t ms) s = (Inr u, s') \<Longrightarrow> \<forall>n \<in> set ms. cached_on n (sha1 t) s'"
proof (induction ms arbitrary: s u)
  case (Cons n ms)
  obtain r s1 where load: "run_state (script_load client n t) s = (r, s1)" by (cases "run_state (script_load client n t) s")
  obtain rest s2 where more: "run_state (load_on client t ms) s1 = (rest, s2)" by (cases "run_state (load_on client t ms) s1")
  have r: "r = Inr ()" "rest = Inr u" "s' = s2" using Cons.prems by (auto simp: load more split: sum.splits)
  have "cached_on n (sha1 t) s2"
    using load_caches load load_on_keeps[OF more] unfolding r by blast
  then show ?case using Cons.IH[OF more[unfolded r(2), folded r(3)]] r(3) by simp
qed simp

lemma load_script_cases:
  obtains e s1 where "run_state (load_script client script) s = (Inl e, s1)" "s1 = s"
  | r s1 where "run_state (load_script client script) s = (r, s1)" "run_state (load_on client (body script) (nodes s)) s = (r, s1)"
proof -
  obtain r s1 where m: "run_state (masters client) s = (r, s1)" by (cases "run_state (masters client) s")
  show thesis
  proof (cases r)
    case (Inl e)
    then show thesis using masters_named[OF m] m that(1)[of e s1] by (simp add: load_script_def)
  next
    case (Inr ms)
    then have "run_state (load_script client script) s = run_state (load_on client (body script) (nodes s)) s"
      using masters_named[OF m] m by (simp add: load_script_def)
    then show thesis using that(2) by (cases "run_state (load_on client (body script) (nodes s)) s") simp
  qed
qed

lemma load_script_keeps: "keeps (everywhere cached_on nodes d) (load_script client script)"
  unfolding keeps_def
proof (intro allI impI)
  fix s assume at: "everywhere cached_on nodes d s"
  show "everywhere cached_on nodes d (snd (run_state (load_script client script) s))"
    by (rule load_script_cases[of script s]) (use at load_on_keeps in \<open>fastforce simp: everywhere_def\<close>)+
qed

lemma load_script_reaches: "reaches (everywhere cached_on nodes (sha1 (body script))) (load_script client script)"
  unfolding reaches_def
proof (intro allI impI)
  fix s u assume ok: "fst (run_state (load_script client script) s) = Inr u"
  then obtain s1 where run: "run_state (load_on client (body script) (nodes s)) s = (Inr u, s1)"
    and end_: "snd (run_state (load_script client script) s) = s1"
    by (cases rule: load_script_cases[of script s]) simp_all
  show "everywhere cached_on nodes (sha1 (body script)) (snd (run_state (load_script client script) s))"
    using load_on_keeps[OF run] load_on_caches[OF run] by (simp add: everywhere_def end_)
qed

end

text \<open>
  Documented servers that keep it: the single server of the script runner, and a cluster of three
  masters, whose state is the list of the scripts each of them has.
\<close>

interpretation single_server:
  script_cluster sha1 "server_client sha1" "\<lambda>_. server_cached" "\<lambda>_. [0]" for sha1
  by unfold_locales (auto simp: server_client_def server_cached_def)

definition cluster_client :: "(string \<Rightarrow> string) \<Rightarrow> ((nat \<times> string) list, 'r) script_client" where
  "cluster_client sha1 =
     \<lparr>getClient = js_return (),
      evalsha = (\<lambda>d prog. State (\<lambda>s.
        if (0, d) \<in> set s then (case run_state prog s of (r, s') \<Rightarrow> (Inr r, s'))
        else (Inl (DriverError ''NOSCRIPT No matching script.'' None), s))),
      eval_text = (\<lambda>t prog. State (\<lambda>s. case run_state prog s of (r, s') \<Rightarrow> (Inr r, (0, sha1 t) # s'))),
      masters = js_return [0, 1, 2],
      script_load = (\<lambda>n t. State (\<lambda>s. (Inr (), (n, sha1 t) # s))),
      recordRedisLatency = (\<lambda>n. State_Monad.return ())\<rparr>"

interpretation three_masters:
  script_cluster sha1 "cluster_client sha1" "\<lambda>n d s. (n, d) \<in> set s" "\<lambda>_. [0, 1, 2]" for sha1
  by unfold_locales (auto simp: cluster_client_def)

lemma keeps_promise_all: "\<forall>m \<in> set ms. keeps P m \<Longrightarrow> keeps P (promise_all ms)"
  by (induction ms) (auto simp: keeps_def split_beta split: sum.splits)

lemma reaches_promise_all:
  "\<forall>m \<in> set ms. keeps P m \<Longrightarrow> \<exists>m \<in> set ms. reaches P m \<Longrightarrow> reaches P (promise_all ms)"
proof (induction ms)
  case (Cons m ms)
  have rest: "keeps P (promise_all ms)" using Cons.prems(1) by (simp add: keeps_promise_all)
  show ?case
  proof (cases "reaches P m")
    case True
    then show ?thesis using rest by (auto simp: reaches_def keeps_def split_beta split: sum.splits)
  next
    case False
    then have "reaches P (promise_all ms)" using Cons by auto
    then show ?thesis by (auto simp: reaches_def split_beta split: sum.splits)
  qed
qed simp

lemma keeps_on_server: "keeps P m \<Longrightarrow> keeps (P \<circ> fst) (on_server m)"
  by (auto simp: keeps_def on_server_def split_beta)

lemma reaches_on_server: "reaches P m \<Longrightarrow> reaches (P \<circ> fst) (on_server m)"
  by (auto simp: reaches_def on_server_def split_beta)

definition script_texts :: "string list" where
  "script_texts = [''TOKEN_BUCKET_SCRIPT'', ''SLIDING_WINDOW_SCRIPT'', ''FIXED_WINDOW_SCRIPT'',
     ''ADMIT_SCRIPT'', ''COMMIT_SCRIPT'', ''SNAPSHOT_SCRIPT'']"

lemmas script_bodies = token_bucket_def sliding_window_def fixed_window_def admitScript_def commitScript_def snapshotScript_def

lemma warm_up_reaches:
  fixes m :: "'a machine"
  assumes alg: "script_cluster (m_sha1 m) (m_client m) cached_on nodes"
    and llm: "script_cluster (m_sha1 m) (m_llm_client m) cached_on nodes" and t: "t \<in> set script_texts"
  shows "reaches (everywhere cached_on nodes (m_sha1 m t) \<circ> fst) (warm_up m)"
proof -
  let ?P = "everywhere cached_on nodes (m_sha1 m t)"
  have k: "keeps ?P (load_script (m_client m) a)" "keeps ?P (load_script (m_llm_client m) b)" for a b
    by (rule script_cluster.load_script_keeps[OF alg], rule script_cluster.load_script_keeps[OF llm])
  have r: "reaches (everywhere cached_on nodes (m_sha1 m (body a))) (load_script (m_client m) a)"
    "reaches (everywhere cached_on nodes (m_sha1 m (body b))) (load_script (m_llm_client m) b)" for a b
    by (rule script_cluster.load_script_reaches[OF alg], rule script_cluster.load_script_reaches[OF llm])
  let ?all = "warmAll (m_sha1 m) (m_client m) (m_call m) (m_now m) (m_pid m)"
  have all: "?all = promise_all [on_server (load_script (m_client m) token_bucket),
      on_server (load_script (m_client m) sliding_window), on_server (load_script (m_client m) fixed_window)]"
    by (simp add: warmAll_def registry_def TokenBucketAlgorithm_def SlidingWindowAlgorithm_def FixedWindowAlgorithm_def del: promise_all.simps)
  have kept: "keeps (?P \<circ> fst) ?all" "keeps (?P \<circ> fst) (on_server (warm (m_llm_client m)))"
    unfolding all warm_def using k by (auto simp del: promise_all.simps intro!: keeps_promise_all keeps_on_server)
  have first: "reaches (?P \<circ> fst) ?all" if "a \<in> set [token_bucket, sliding_window, fixed_window]" "body a = t" for a :: "('a, script_reply) redis_script"
    unfolding all
  proof (rule reaches_promise_all)
    show "\<exists>x \<in> set [on_server (load_script (m_client m) token_bucket), on_server (load_script (m_client m) sliding_window),
        on_server (load_script (m_client m) fixed_window)]. reaches (?P \<circ> fst) x"
      using that(1) reaches_on_server[OF r(1)[of a]] unfolding that(2) by auto
  qed (use k(1) in \<open>auto intro!: keeps_on_server\<close>)
  have second: "reaches (?P \<circ> fst) (on_server (warm (m_llm_client m)))"
    if "b \<in> set [admitScript, commitScript, snapshotScript]" "body b = t" for b :: "('a, llm_reply) redis_script"
    unfolding warm_def
  proof (intro reaches_on_server reaches_promise_all)
    show "\<exists>x \<in> set [load_script (m_llm_client m) admitScript, load_script (m_llm_client m) commitScript,
        load_script (m_llm_client m) snapshotScript]. reaches ?P x"
      using that(1) r(2)[of b] unfolding that(2) by auto
  qed (use k(2) in auto)
  have "reaches (?P \<circ> fst) ?all \<or> reaches (?P \<circ> fst) (on_server (warm (m_llm_client m)))"
  proof (cases "t \<in> set (map body [token_bucket, sliding_window, fixed_window :: ('a, script_reply) redis_script])")
    case True
    then show ?thesis using first by auto
  next
    case False
    then have "t \<in> set (map body [admitScript, commitScript, snapshotScript :: ('a, llm_reply) redis_script])"
      using t by (simp add: script_texts_def script_bodies)
    then show ?thesis using second by auto
  qed
  then show ?thesis unfolding warm_up_def using kept by (intro reaches_promise_all) auto
qed

section \<open>What a started process is\<close>

lemma run_on_redis_service [simp]:
  "run_state (on_redis_service m) st = (case run_state m (run_redis st) of (a, r) \<Rightarrow> (a, st\<lparr>run_redis := r\<rparr>))"
  by (simp add: on_redis_service_def)

lemma run_on_pg_service [simp]:
  "run_state (on_pg_service m) st = (case run_state m (run_pg st) of (a, p) \<Rightarrow> (a, st\<lparr>run_pg := p\<rparr>))"
  by (simp add: on_pg_service_def)

lemma run_on_scripts [simp]:
  "run_state (on_scripts m) st = (case run_state m (run_scripts st) of (a, p) \<Rightarrow> (a, st\<lparr>run_scripts := p\<rparr>))"
  by (simp add: on_scripts_def)

lemma redis_on_client: "redis_client (fold redis_on events st) = redis_client st"
  by (induction events arbitrary: st) (simp_all add: redis_on_def split: redis_event.splits)

lemma redis_connect_outcome:
  "run_state (redis_connect config events ping_ok) st = (Inr u, st') \<Longrightarrow>
     redis_client st' \<noteq> None \<and> (redis_client st = None \<longrightarrow> ping_ok)"
  by (auto simp: redis_connect_def Let_def redis_on_client split: if_splits)

lemma pg_connect_outcome:
  "run_state (pg_connect test_ok) st = (Inr u, st') \<Longrightarrow> pg_pool st' \<and> pg_isConnected st' \<and> (\<not> pg_pool st \<longrightarrow> test_ok)"
  by (auto simp: pg_connect_def split: if_splits)

text \<open>
  C39: The process listens only when it is ready. Where \<^verbatim>\<open>bootstrap\<close> gets to listening, each of the six scripts
  is cached on every master of Redis, so that no request pays for shipping one, the Redis client exists
  and the database's pool is connected; in every other case the process exits with 1. An unreachable
  Redis stops it before PostgreSQL is tried, and an unreachable PostgreSQL before a script is loaded.
\<close>

theorem warmed_before_listening:
  fixes m :: "'s machine"
  assumes alg: "script_cluster (m_sha1 m) (m_client m) cached_on nodes"
    and llm: "script_cluster (m_sha1 m) (m_llm_client m) cached_on nodes"
    and run: "run_state (bootstrap m) st = (outcome, st')"
  shows "(outcome = Listening \<longrightarrow> (\<forall>t \<in> set script_texts. everywhere cached_on nodes (m_sha1 m t) (fst (run_scripts st')))
      \<and> redis_client (run_redis st') \<noteq> None \<and> pg_pool (run_pg st') \<and> pg_isConnected (run_pg st'))
    \<and> (outcome \<noteq> Listening \<longrightarrow> outcome = Exited 1)
    \<and> (redis_client (run_redis st) = None \<and> \<not> m_ping_ok m \<longrightarrow>
         outcome = Exited 1 \<and> run_pg st' = run_pg st \<and> run_scripts st' = run_scripts st)
    \<and> (\<not> pg_pool (run_pg st) \<and> \<not> m_pg_ok m \<longrightarrow> outcome = Exited 1 \<and> run_scripts st' = run_scripts st)"
proof -
  obtain r1 k1 where redis: "run_state (redis_connect (m_redis_config m) (m_redis_events m) (m_ping_ok m)) (run_redis st) = (r1, k1)"
    by (cases "run_state (redis_connect (m_redis_config m) (m_redis_events m) (m_ping_ok m)) (run_redis st)")
  obtain r2 k2 where pg: "run_state (pg_connect (m_pg_ok m)) (run_pg st) = (r2, k2)"
    by (cases "run_state (pg_connect (m_pg_ok m)) (run_pg st)")
  obtain r3 k3 where scripts: "run_state (warm_up m) (run_scripts st) = (r3, k3)"
    by (cases "run_state (warm_up m) (run_scripts st)")
  have cached: "\<forall>t \<in> set script_texts. everywhere cached_on nodes (m_sha1 m t) (fst k3)" if "r3 = Inr u" for u
  proof
    fix t assume "t \<in> set script_texts"
    from warm_up_reaches[OF alg llm this] have "fst (run_state (warm_up m) (run_scripts st)) = Inr u \<longrightarrow>
        everywhere cached_on nodes (m_sha1 m t) (fst (snd (run_state (warm_up m) (run_scripts st))))"
      by (cases "run_scripts st") (simp add: reaches_def)
    then show "everywhere cached_on nodes (m_sha1 m t) (fst k3)" using that by (simp add: scripts)
  qed
  show ?thesis
    using run redis_connect_outcome[where u = "()", of "m_redis_config m" "m_redis_events m" "m_ping_ok m" "run_redis st" k1] redis
      pg_connect_outcome[where u = "()", of "m_pg_ok m" "run_pg st" k2] pg cached
    by (cases r1; cases r2; cases r3) (auto simp: bootstrap_def started_def scripts)
qed

definition example_machine :: "(nat \<times> string) list machine" where
  "example_machine = \<lparr>m_redis_config = default_redis, m_redis_events = [Redis_connect, Redis_ready], m_ping_ok = True, m_pg_ok = True,
     m_sha1 = (\<lambda>t. t), m_client = cluster_client (\<lambda>t. t), m_llm_client = cluster_client (\<lambda>t. t),
     m_call = (\<lambda>_. State_Monad.return NilReply), m_now = 0, m_pid = 1\<rparr>"

definition before_start :: "(nat \<times> string) list running" where
  "before_start = \<lparr>run_redis = \<lparr>redis_client = None, redis_isConnected = False\<rparr>,
     run_pg = \<lparr>pg_pool = False, pg_isConnected = False\<rparr>, run_scripts = ([], 0)\<rparr>"

lemma example_links:
  "run_state (redis_connect default_redis [Redis_connect, Redis_ready] True) (run_redis before_start)
     = (Inr (), \<lparr>redis_client = Some Standalone, redis_isConnected = True\<rparr>)"
  "run_state (pg_connect True) (run_pg before_start) = (Inr (), \<lparr>pg_pool = True, pg_isConnected = True\<rparr>)"
  by (simp_all add: redis_connect_def pg_connect_def before_start_def redis_on_def default_redis_def)

lemma example_warm: "\<exists>cs. run_state (warm_up example_machine) ([], 0) = (Inr (), (cs, 0))"
  by (simp add: warm_up_def example_machine_def warmAll_def registry_def TokenBucketAlgorithm_def SlidingWindowAlgorithm_def
      FixedWindowAlgorithm_def warm_def on_server_def load_script_def cluster_client_def)

theorem warmed_before_listening_witness:
  "\<exists>st'. run_state (bootstrap example_machine) before_start = (Listening, st')
     \<and> (\<forall>n < 3. (n, ''ADMIT_SCRIPT'') \<in> set (fst (run_scripts st')))"
proof -
  obtain cs where warm: "run_state (warm_up example_machine) ([], 0) = (Inr (), (cs, 0))" using example_warm by blast
  let ?final = "before_start\<lparr>run_redis := \<lparr>redis_client = Some Standalone, redis_isConnected = True\<rparr>,
    run_pg := \<lparr>pg_pool = True, pg_isConnected = True\<rparr>, run_scripts := (cs, 0)\<rparr>"
  have "m_redis_config example_machine = default_redis" "m_redis_events example_machine = [Redis_connect, Redis_ready]"
    "m_ping_ok example_machine" "m_pg_ok example_machine" "run_scripts before_start = ([], 0)"
    by (simp_all add: example_machine_def before_start_def)
  then have run: "run_state (bootstrap example_machine) before_start = (Listening, ?final)"
    using warm example_links by (simp add: bootstrap_def started_def before_start_def)
  have "everywhere (\<lambda>n d s. (n, d) \<in> set s) (\<lambda>_. [0, 1, 2]) (m_sha1 example_machine ''ADMIT_SCRIPT'') (fst (run_scripts ?final))"
    by (rule warmed_before_listening[THEN conjunct1, THEN mp, THEN conjunct1, THEN bspec, OF _ _ run refl])
       (use three_masters.script_cluster_axioms in \<open>simp_all add: example_machine_def script_texts_def\<close>)
  then show ?thesis using run by (auto simp: everywhere_def example_machine_def less_Suc_eq numeral_eq_Suc)
qed

section \<open>What the probes tell\<close>

definition told_status :: "http_response \<Rightarrow> jsval option" where
  "told_status r = (case http_body r of Some (JObj entries) \<Rightarrow> map_of entries ''status'' | _ \<Rightarrow> None)"

lemma run_health_route:
  "run_state (health_route show_date version now ping_ok answer) st =
     (let redis = redis_healthCheck ping_ok (run_redis st); postgres = fst (run_state (pg_healthCheck answer) (run_pg st))
      in (json (if redis then 200 else 503) (JObj
       [(''status'', JStr (if redis then if postgres then ''healthy'' else ''degraded'' else ''unhealthy'')),
        (''timestamp'', JStr (show_date now)), (''service'', JStr ''rate-limiter-service''), (''version'', JStr version),
        (''checks'', JObj [(''redis'', JStr (if redis then ''up'' else ''down'')),
                           (''postgres'', JStr (if postgres then ''up'' else ''down''))])]), st))"
  by (simp add: health_route_def run_pg_health Let_def split: prod.splits)

text \<open>
  C40: The probes tell an outage of PostgreSQL from one of Redis. A health report changes nothing; it is 503 and
  unhealthy exactly where the readiness probe is 503, and the liveness probe is 200 whatever is down.
  While Redis answers, the report is 200, and healthy exactly while a query would pass; but once the
  pool has reported one error of an idle client, the report stays degraded over any later
  queries, checks and events, although the database would answer.
\<close>

theorem probes_tell_outages_apart:
  assumes run: "run_state (health_route show_date version now ping_ok answer) st = (r, st')"
  shows "st' = st \<and> http_status r = http_status (ready_route ping_ok st) \<and> http_status r \<in> {200, 503} \<and> http_status live_route = 200
    \<and> (told_status r = Some (JStr ''unhealthy'') \<longleftrightarrow> http_status r = 503)
    \<and> (told_status r = Some (JStr ''healthy'') \<longleftrightarrow> http_status r = 200 \<and> pg_pool (run_pg st) \<and> (\<exists>u. fst (run_state (pg_query answer) (run_pg st)) = Inr u))
    \<and> (run_pg st = fold pg_step ops (pg_on Pool_error pg) \<and> http_status r = 200 \<longrightarrow> told_status r = Some (JStr ''degraded''))"
proof -
  let ?redis = "redis_healthCheck ping_ok (run_redis st)"
  let ?postgres = "fst (run_state (pg_healthCheck answer) (run_pg st))"
  have told: "told_status r = Some (JStr (if ?redis then if ?postgres then ''healthy'' else ''degraded'' else ''unhealthy''))"
    and status: "http_status r = (if ?redis then 200 else 503)" and same: "st' = st"
    using run by (auto simp: run_health_route Let_def told_status_def json_def)
  have passes: "?postgres \<longleftrightarrow> pg_pool (run_pg st) \<and> (\<exists>u. fst (run_state (pg_query answer) (run_pg st)) = Inr u)"
    by (auto simp: run_pg_health run_pg_query)
  have "\<not> ?postgres" if "run_pg st = fold pg_step ops (pg_on Pool_error pg)"
    using pg_steps_disconnected[of "pg_on Pool_error pg" ops] by (simp add: that run_pg_health pg_on_def)
  then show ?thesis using told status same passes by (auto simp: ready_route_def live_route_def json_def)
qed

theorem probes_tell_outages_apart_witness:
  "\<exists>r. run_state (health_route (\<lambda>_. ''now'') ''3.0.0'' 0 True (Inr ()))
        (before_start\<lparr>run_redis := \<lparr>redis_client = Some Standalone, redis_isConnected = True\<rparr>,
           run_pg := pg_on Pool_error \<lparr>pg_pool = True, pg_isConnected = True\<rparr>\<rparr>)
      = (r, before_start\<lparr>run_redis := \<lparr>redis_client = Some Standalone, redis_isConnected = True\<rparr>,
           run_pg := pg_on Pool_error \<lparr>pg_pool = True, pg_isConnected = True\<rparr>\<rparr>)
      \<and> told_status r = Some (JStr ''degraded'')"
proof -
  let ?st = "before_start\<lparr>run_redis := \<lparr>redis_client = Some Standalone, redis_isConnected = True\<rparr>,
           run_pg := pg_on Pool_error \<lparr>pg_pool = True, pg_isConnected = True\<rparr>\<rparr>"
  obtain r st' where run: "run_state (health_route (\<lambda>_. ''now'') ''3.0.0'' 0 True (Inr ())) ?st = (r, st')"
    by (cases "run_state (health_route (\<lambda>_. ''now'') ''3.0.0'' 0 True (Inr ())) ?st")
  have "run_pg ?st = fold pg_step [] (pg_on Pool_error \<lparr>pg_pool = True, pg_isConnected = True\<rparr>)" by simp
  moreover have "http_status r = 200" using run by (auto simp: run_health_route Let_def json_def redis_healthCheck_def)
  ultimately show ?thesis using probes_tell_outages_apart[OF run] run by blast
qed

end
