(* ===== verification/Lifecycle.thy ===== *)
theory Lifecycle
  imports Process
begin

text \<open>
  The life of the process after its start, event by event: the handlers of signals, the closing of the server, the
  callbacks that close the connections, and the backstop of \<^verbatim>\<open>src/index.ts\<close>. \<^verbatim>\<open>server.close\<close> is Node's: it stops
  listening at once, and calls back when the last connection has ended, once for each call before that; what
  quitting Redis and ending the pool come to is part of the events.
\<close>

section \<open>The states and the events\<close>

text \<open>A callback that runs: what it awaits, and whether there was a connection to close when it began to.\<close>

datatype closer = Quitting bool | Ending bool

record 's lifecycle =
  lc_running :: "'s running"
  lc_open :: nat
  lc_listening :: bool
  lc_closed :: bool
  lc_waiting :: nat
  lc_closers :: "closer list"
  lc_backstops :: "int list"
  lc_exit :: "int option"

definition serving :: "'s running \<Rightarrow> 's lifecycle" where
  "serving r = \<lparr>lc_running = r, lc_open = 0, lc_listening = True, lc_closed = False, lc_waiting = 0, lc_closers = [],
     lc_backstops = [], lc_exit = None\<rparr>"

datatype life_event =
    Connection_opened
  | Connection_ended
  | Signalled
  | Server_closed
  | Redis_quit nat "js_error option" \<comment> \<open>of which callback, and what it throws\<close>
  | Pool_ended nat "js_error option"
  | Time_passed int
  | Backstop_rang nat

definition BACKSTOP_MS :: int where "BACKSTOP_MS = 30000"

text \<open>The handler of a signal.\<close>

definition on_signal :: "'s lifecycle \<Rightarrow> 's lifecycle" where
  "on_signal l = l\<lparr>lc_listening := False, lc_waiting := (if lc_closed l then lc_waiting l else lc_waiting l + 1),
     lc_backstops := lc_backstops l @ [BACKSTOP_MS]\<rparr>"

text \<open>The two halves of a callback: Redis has been quit, or there was nothing to quit; then the same of the pool.\<close>

definition after_quit :: "nat \<Rightarrow> bool \<Rightarrow> js_error option \<Rightarrow> 's lifecycle \<Rightarrow> 's lifecycle" where
  "after_quit i had thrown l =
     (case (if had then thrown else None) of
        Some e \<Rightarrow> l\<lparr>lc_exit := Some 1\<rparr>
      | None \<Rightarrow>
          let r = lc_running l;
              r = (if had then r\<lparr>run_redis := (run_redis r)\<lparr>redis_client := None, redis_isConnected := False\<rparr>\<rparr> else r)
          in l\<lparr>lc_running := r, lc_closers := (lc_closers l)[i := Ending (pg_pool (run_pg r))]\<rparr>)"

definition after_end :: "bool \<Rightarrow> js_error option \<Rightarrow> 's lifecycle \<Rightarrow> 's lifecycle" where
  "after_end had thrown l =
     (case (if had then thrown else None) of
        Some e \<Rightarrow> l\<lparr>lc_exit := Some 1\<rparr>
      | None \<Rightarrow>
          let r = lc_running l;
              r = (if had then r\<lparr>run_pg := (run_pg r)\<lparr>pg_pool := False, pg_isConnected := False\<rparr>\<rparr> else r)
          in l\<lparr>lc_running := r, lc_exit := Some 0\<rparr>)"

text \<open>One event, or \<open>None\<close> where it cannot happen. Time does not pass a timer that is due, and after the exit nothing happens.\<close>

fun life_step :: "life_event \<Rightarrow> 's lifecycle \<Rightarrow> 's lifecycle option" where
  "life_step Connection_opened l = (if lc_exit l = None \<and> lc_listening l then Some (l\<lparr>lc_open := lc_open l + 1\<rparr>) else None)"
| "life_step Connection_ended l = (if lc_exit l = None \<and> 0 < lc_open l then Some (l\<lparr>lc_open := lc_open l - 1\<rparr>) else None)"
| "life_step Signalled l = (if lc_exit l = None then Some (on_signal l) else None)"
| "life_step Server_closed l =
     (if lc_exit l = None \<and> \<not> lc_listening l \<and> lc_open l = 0 \<and> \<not> lc_closed l
      then Some (l\<lparr>lc_closed := True, lc_waiting := 0,
        lc_closers := replicate (lc_waiting l) (Quitting (redis_client (run_redis (lc_running l)) \<noteq> None))\<rparr>)
      else None)"
| "life_step (Redis_quit i thrown) l =
     (if lc_exit l = None \<and> i < length (lc_closers l)
      then (case lc_closers l ! i of Quitting had \<Rightarrow> Some (after_quit i had thrown l) | Ending had \<Rightarrow> None)
      else None)"
| "life_step (Pool_ended i thrown) l =
     (if lc_exit l = None \<and> i < length (lc_closers l)
      then (case lc_closers l ! i of Ending had \<Rightarrow> Some (after_end had thrown l) | Quitting had \<Rightarrow> None)
      else None)"
| "life_step (Time_passed ms) l =
     (if lc_exit l = None \<and> 0 \<le> ms \<and> list_all (\<lambda>t. ms \<le> t) (lc_backstops l)
      then Some (l\<lparr>lc_backstops := map (\<lambda>t. t - ms) (lc_backstops l)\<rparr>) else None)"
| "life_step (Backstop_rang i) l =
     (if lc_exit l = None \<and> i < length (lc_backstops l) \<and> lc_backstops l ! i \<le> 0 then Some (l\<lparr>lc_exit := Some 1\<rparr>) else None)"

fun life_run :: "life_event list \<Rightarrow> 's lifecycle \<Rightarrow> 's lifecycle option" where
  "life_run [] l = Some l"
| "life_run (e # es) l = Option.bind (life_step e l) (life_run es)"

fun passed :: "life_event \<Rightarrow> int" where
  "passed (Time_passed ms) = ms"
| "passed e = 0"

lemma life_run_append: "life_run (es @ es') l = Option.bind (life_run es l) (life_run es')"
  by (induction es arbitrary: l) (simp_all split: Option.bind_split)

section \<open>One signal is one shutdown\<close>

text \<open>A signal to a process without open connections runs the shutdown of \<open>Process\<close>: the same exit code and connections.\<close>

lemma one_signal:
  assumes "run_state (shutdown quit_error end_error) r = (code, r')"
  shows "map_option (\<lambda>l. (lc_exit l, lc_running l))
      (life_run ([Signalled, Server_closed, Redis_quit 0 quit_error] @
         (if redis_client (run_redis r) \<noteq> None \<and> quit_error \<noteq> None then [] else [Pool_ended 0 end_error])) (serving r))
    = Some (Some code, r')"
  using assms
  by (cases quit_error; cases end_error; cases "redis_client (run_redis r)"; cases "pg_pool (run_pg r)")
    (auto simp: shutdown_def redis_disconnect_def pg_disconnect_def on_redis_service_def on_pg_service_def zoom_def serving_def on_signal_def
       after_quit_def after_end_def)

section \<open>The shutdown is graceful and bounded\<close>

definition graceful :: "'s lifecycle \<Rightarrow> bool" where
  "graceful l \<longleftrightarrow>
     (let redis = redis_client (run_redis (lc_running l)); pool = pg_pool (run_pg (lc_running l)) in
      (lc_closed l \<longrightarrow> lc_open l = 0 \<and> \<not> lc_listening l) \<and> (lc_closers l \<noteq> [] \<longrightarrow> lc_closed l)
      \<and> (Quitting False \<in> set (lc_closers l) \<longrightarrow> redis = None)
      \<and> (\<forall>had. Ending had \<in> set (lc_closers l) \<longrightarrow> redis = None)
      \<and> (Ending False \<in> set (lc_closers l) \<longrightarrow> \<not> pool)
      \<and> (lc_exit l = Some 0 \<longrightarrow> redis = None \<and> \<not> pool \<and> lc_open l = 0))"

lemma gracefulD:
  assumes "graceful l"
  shows "lc_closed l \<Longrightarrow> lc_open l = 0 \<and> \<not> lc_listening l" "lc_closers l \<noteq> [] \<Longrightarrow> lc_closed l"
    "Quitting False \<in> set (lc_closers l) \<Longrightarrow> redis_client (run_redis (lc_running l)) = None"
    "Ending had \<in> set (lc_closers l) \<Longrightarrow> redis_client (run_redis (lc_running l)) = None"
    "Ending False \<in> set (lc_closers l) \<Longrightarrow> \<not> pg_pool (run_pg (lc_running l))"
    "lc_exit l = Some 0 \<Longrightarrow> redis_client (run_redis (lc_running l)) = None \<and> \<not> pg_pool (run_pg (lc_running l)) \<and> lc_open l = 0"
  using assms unfolding graceful_def Let_def by blast+

lemma gracefulI:
  assumes "lc_closed l \<Longrightarrow> lc_open l = 0 \<and> \<not> lc_listening l" "lc_closers l \<noteq> [] \<Longrightarrow> lc_closed l"
    "Quitting False \<in> set (lc_closers l) \<Longrightarrow> redis_client (run_redis (lc_running l)) = None"
    "\<And>had. Ending had \<in> set (lc_closers l) \<Longrightarrow> redis_client (run_redis (lc_running l)) = None"
    "Ending False \<in> set (lc_closers l) \<Longrightarrow> \<not> pg_pool (run_pg (lc_running l))"
    "lc_exit l = Some 0 \<Longrightarrow> redis_client (run_redis (lc_running l)) = None \<and> \<not> pg_pool (run_pg (lc_running l)) \<and> lc_open l = 0"
  shows "graceful l"
  unfolding graceful_def Let_def using assms by blast

lemma graceful_exit_one: "graceful l \<Longrightarrow> graceful (l\<lparr>lc_exit := Some 1\<rparr>)"
  by (simp add: graceful_def Let_def)

lemma after_quit_graceful:
  assumes l: "graceful l" "lc_exit l = None" and i: "i < length (lc_closers l)" "lc_closers l ! i = Quitting had"
  shows "graceful (after_quit i had thrown l)"
proof (cases "had \<and> thrown \<noteq> None")
  case True
  then show ?thesis using graceful_exit_one[OF l(1)] by (auto simp: after_quit_def)
next
  case False
  have mem: "Quitting had \<in> set (lc_closers l)" using i by (metis nth_mem)
  then have closed: "lc_closed l" using gracefulD(2)[OF l(1)] by fastforce
  obtain r where after: "after_quit i had thrown l = l\<lparr>lc_running := r, lc_closers := (lc_closers l)[i := Ending (pg_pool (run_pg r))]\<rparr>"
    and gone: "redis_client (run_redis r) = None" and pool: "run_pg r = run_pg (lc_running l)"
  proof
    show "after_quit i had thrown l = l\<lparr>lc_running :=
        if had then (lc_running l)\<lparr>run_redis := (run_redis (lc_running l))\<lparr>redis_client := None, redis_isConnected := False\<rparr>\<rparr> else lc_running l,
        lc_closers := (lc_closers l)[i := Ending (pg_pool (run_pg
          (if had then (lc_running l)\<lparr>run_redis := (run_redis (lc_running l))\<lparr>redis_client := None, redis_isConnected := False\<rparr>\<rparr> else lc_running l)))]\<rparr>"
      using False by (cases had) (simp_all add: after_quit_def Let_def)
  qed (use gracefulD(3)[OF l(1)] mem in \<open>cases had; simp\<close>)+
  have members: "x = Ending (pg_pool (run_pg r)) \<or> x \<in> set (lc_closers l)" if "x \<in> set ((lc_closers l)[i := Ending (pg_pool (run_pg r))])" for x
    using subsetD[OF set_update_subset_insert that] by simp
  have "\<not> pg_pool (run_pg r)" if "Ending False \<in> set ((lc_closers l)[i := Ending (pg_pool (run_pg r))])"
    using members[OF that] gracefulD(5)[OF l(1)] pool by auto
  then show ?thesis
    unfolding after by (intro gracefulI) (simp_all add: closed gone l(2) gracefulD(1)[OF l(1) closed])
qed

lemma after_end_graceful:
  assumes l: "graceful l" and mem: "Ending had \<in> set (lc_closers l)"
  shows "graceful (after_end had thrown l)"
proof (cases "had \<and> thrown \<noteq> None")
  case True
  then show ?thesis using graceful_exit_one[OF l] by (auto simp: after_end_def)
next
  case False
  have closed: "lc_closed l" using gracefulD(2)[OF l] mem by fastforce
  obtain r where after: "after_end had thrown l = l\<lparr>lc_running := r, lc_exit := Some 0\<rparr>"
    and gone: "\<not> pg_pool (run_pg r)" and redis: "run_redis r = run_redis (lc_running l)"
  proof
    show "after_end had thrown l = l\<lparr>lc_running :=
        if had then (lc_running l)\<lparr>run_pg := (run_pg (lc_running l))\<lparr>pg_pool := False, pg_isConnected := False\<rparr>\<rparr> else lc_running l, lc_exit := Some 0\<rparr>"
      using False by (cases had) (simp_all add: after_end_def Let_def)
  qed (use gracefulD(5)[OF l] mem in \<open>cases had; simp\<close>)+
  show ?thesis
    unfolding after by (intro gracefulI) (simp_all add: closed gone redis gracefulD(1)[OF l closed] gracefulD(4)[OF l mem])
qed

lemma graceful_step:
  assumes l: "graceful l" and step: "life_step e l = Some l'"
  shows "graceful l'"
proof (cases e)
  case (Redis_quit i thrown)
  then obtain had where "lc_exit l = None" "i < length (lc_closers l)" "lc_closers l ! i = Quitting had" "l' = after_quit i had thrown l"
    using step by (auto split: if_splits closer.splits)
  then show ?thesis using after_quit_graceful[OF l] by simp
next
  case (Pool_ended i thrown)
  then obtain had where "i < length (lc_closers l)" "lc_closers l ! i = Ending had" "l' = after_end had thrown l"
    using step by (auto split: if_splits closer.splits)
  then show ?thesis using after_end_graceful[OF l] nth_mem by metis
next
  case Server_closed
  then show ?thesis using step by (auto simp: graceful_def Let_def split: if_splits)
qed (use l step in \<open>auto simp: graceful_def Let_def on_signal_def split: if_splits\<close>)

lemma graceful_run: "life_run es l = Some l' \<Longrightarrow> graceful l \<Longrightarrow> graceful l'"
  by (induction es arbitrary: l) (auto simp: bind_eq_Some_conv intro: graceful_step)

text \<open>The backstop of a signal counts down the time that passes, and cannot be passed by.\<close>

definition counting_down :: "int \<Rightarrow> 's lifecycle \<Rightarrow> bool" where
  "counting_down t l \<longleftrightarrow> 0 \<le> t \<and> t \<in> set (lc_backstops l)"

lemma counting_down_step:
  assumes "counting_down t l" "life_step e l = Some l'"
  shows "counting_down (t - passed e) l'"
  using assms
  by (cases e) (auto simp: counting_down_def on_signal_def after_quit_def after_end_def Let_def list_all_iff split: if_splits closer.splits option.splits)

lemma counting_down_run:
  "life_run es l = Some l' \<Longrightarrow> counting_down t l \<Longrightarrow> counting_down (t - sum_list (map passed es)) l'"
proof (induction es arbitrary: l t)
  case (Cons e es)
  then obtain l1 where l1: "life_step e l = Some l1" "life_run es l1 = Some l'" by (auto simp: bind_eq_Some_conv)
  show ?case using Cons.IH[OF l1(2) counting_down_step[OF Cons.prems(2) l1(1)]] by (simp add: algebra_simps)
qed simp


text \<open>A process with both connections, and a client whose connection ends twelve seconds after the signal.\<close>

definition connected_process :: "doc_server running" where
  "connected_process = \<lparr>run_redis = \<lparr>redis_client = Some Standalone, redis_isConnected = True\<rparr>,
     run_pg = \<lparr>pg_pool = True, pg_isConnected = True\<rparr>, run_scripts = (empty_server, 0)\<rparr>"

definition draining :: "life_event list" where
  "draining = [Time_passed 12000, Connection_ended, Server_closed, Redis_quit 0 None, Pool_ended 0 None]"


text \<open>
  A second signal before the server has closed runs the callback twice: both find the pool, and the driver
  refuses to end it again. The process exits with 1 although nothing failed, and before the pool has ended.
\<close>

definition two_signals :: "js_error \<Rightarrow> life_event list" where
  "two_signals refused = [Signalled, Signalled, Server_closed, Redis_quit 0 None, Redis_quit 1 None, Pool_ended 1 (Some refused)]"

lemma two_signals_exit_with_one:
  "\<exists>l. life_run (two_signals refused) (serving connected_process) = Some l \<and> lc_exit l = Some 1 \<and> pg_pool (run_pg (lc_running l))"
  by (simp add: two_signals_def serving_def connected_process_def on_signal_def after_quit_def after_end_def BACKSTOP_MS_def)

end
