(* ===== verification/Application.thy ===== *)
theory Application
  imports Middleware Database Text_Numbers
begin

text \<open>
  \<^verbatim>\<open>src/app.ts\<close> and the routers of \<^verbatim>\<open>src/routes/\<close>: which handler a request reaches. Express walks the layers in
  the order they were added; a path is compared without regard to case or to one slash at its end,
  and a route for \<^verbatim>\<open>GET\<close> answers \<^verbatim>\<open>HEAD\<close> as well. Paths come without escapes, and requests with
  \<^verbatim>\<open>OPTIONS\<close>, which Express answers itself, are left out.
\<close>

section \<open>Paths\<close>

datatype segment = Lit string | Param string

definition lower :: "string \<Rightarrow> string" where
  "lower s = map ascii_lower s"

text \<open>The segments of a path that starts with a slash, without the empty one behind a slash at the end.\<close>

definition path_segments :: "string \<Rightarrow> string list" where
  "path_segments path = (let ss = split_at (CHR ''/'') (tl path) in if last ss = [] then butlast ss else ss)"

fun match_all :: "segment list \<Rightarrow> string list \<Rightarrow> (string \<times> string) list option" where
  "match_all [] [] = Some []"
| "match_all (Lit l # ts) (s # ss) = (if lower s = l then match_all ts ss else None)"
| "match_all (Param p # ts) (s # ss) = (if s = [] then None else map_option (\<lambda>ps. (p, s) # ps) (match_all ts ss))"
| "match_all ts ss = None"

text \<open>A prefix of literals: the segments it takes, as the request spells them, and the rest.\<close>

fun match_prefix :: "string list \<Rightarrow> string list \<Rightarrow> (string list \<times> string list) option" where
  "match_prefix [] ss = Some ([], ss)"
| "match_prefix (l # ls) (s # ss) = (if lower s = l then map_option (\<lambda>(taken, rest). (s # taken, rest)) (match_prefix ls ss) else None)"
| "match_prefix (l # ls) [] = None"

definition segment_text :: "segment \<Rightarrow> string" where
  "segment_text t = (case t of Lit l \<Rightarrow> l | Param p \<Rightarrow> CHR '':'' # p)"

text \<open>\<^verbatim>\<open>req.route.path\<close> of a route, and \<^verbatim>\<open>req.baseUrl\<close> of the segments taken.\<close>

definition template_text :: "segment list \<Rightarrow> string" where
  "template_text ts = CHR ''/'' # join ''/'' (map segment_text ts)"

definition base_text :: "string list \<Rightarrow> string" where
  "base_text taken = concat (map (\<lambda>s. CHR ''/'' # s) taken)"

section \<open>Layers\<close>

datatype endpoint =
    Check_rate_limit | Reset_key | Key_stats
  | Rules_create | Rules_list | Rules_get | Rules_update | Rules_delete | Rules_enable | Rules_disable | Rules_cache_stats | Rules_cache_invalidate
  | Llm_reserve | Llm_commit | Llm_release | Llm_state
  | Policies_list | Policies_create | Policies_update | Policies_delete | Policies_cache
  | Health | Health_ready | Health_live | Metrics_text | Banner

text \<open>A layer is the gate of the control plane under a prefix, or a route.\<close>

datatype layer = Gate "string list" | Route string "segment list" endpoint

definition rateLimitRoutes :: "layer list" where
  "rateLimitRoutes =
     [Route ''POST'' [Lit ''check-rate-limit''] Check_rate_limit, Route ''POST'' [Lit ''reset''] Reset_key,
      Route ''POST'' [Lit ''stats''] Key_stats]"

definition rulesRoutes :: "layer list" where
  "rulesRoutes =
     [Gate [], Route ''POST'' [] Rules_create, Route ''GET'' [] Rules_list, Route ''GET'' [Param ''id''] Rules_get,
      Route ''PUT'' [Param ''id''] Rules_update, Route ''DELETE'' [Param ''id''] Rules_delete,
      Route ''POST'' [Param ''id'', Lit ''enable''] Rules_enable, Route ''POST'' [Param ''id'', Lit ''disable''] Rules_disable,
      Route ''GET'' [Lit ''cache'', Lit ''stats''] Rules_cache_stats, Route ''POST'' [Lit ''cache'', Lit ''invalidate''] Rules_cache_invalidate]"

definition admissionRoutes :: "layer list" where
  "admissionRoutes =
     [Route ''POST'' [Lit ''reserve''] Llm_reserve, Route ''POST'' [Lit ''commit''] Llm_commit, Route ''POST'' [Lit ''release''] Llm_release,
      Route ''GET'' [Lit ''state''] Llm_state, Gate [''policies''], Route ''GET'' [Lit ''policies''] Policies_list,
      Route ''POST'' [Lit ''policies''] Policies_create, Route ''PUT'' [Lit ''policies'', Param ''id''] Policies_update,
      Route ''DELETE'' [Lit ''policies'', Param ''id''] Policies_delete, Route ''GET'' [Lit ''policies'', Lit ''cache''] Policies_cache]"

definition healthRoutes :: "layer list" where
  "healthRoutes = [Route ''GET'' [] Health, Route ''GET'' [Lit ''ready''] Health_ready, Route ''GET'' [Lit ''live''] Health_live]"

definition metricsRoutes :: "layer list" where
  "metricsRoutes = [Route ''GET'' [] Metrics_text]"

definition mounts :: "(string list \<times> layer list) list" where
  "mounts =
     [([''api'', ''v1''], rateLimitRoutes), ([''api'', ''v1'', ''rules''], rulesRoutes), ([''api'', ''v1'', ''llm''], admissionRoutes),
      ([''health''], healthRoutes), ([''metrics''], metricsRoutes), ([], [Route ''GET'' [] Banner])]"

section \<open>Dispatch\<close>

text \<open>
  A request is stopped by the gate, which answers in the router mounted at \<open>base\<close>, or reaches a route, or
  neither, so that the last middleware answers.
\<close>

datatype dispatched = Stopped http_outcome string | Routed endpoint "(string \<times> string) list" string | Unrouted

definition method_matches :: "string \<Rightarrow> string \<Rightarrow> bool" where
  "method_matches routed meth \<longleftrightarrow> meth = routed \<or> (routed = ''GET'' \<and> meth = ''HEAD'')"

fun walk :: "http_outcome \<Rightarrow> string list \<Rightarrow> string \<Rightarrow> string list \<Rightarrow> layer list \<Rightarrow> dispatched option" where
  "walk gate taken meth ss [] = None"
| "walk gate taken meth ss (Gate prefix # ls) =
     (case match_prefix prefix ss of
        Some (further, _) \<Rightarrow> if gate = Next None then walk gate taken meth ss ls else Some (Stopped gate (base_text (taken @ further)))
      | None \<Rightarrow> walk gate taken meth ss ls)"
| "walk gate taken meth ss (Route m ts e # ls) =
     (case (if method_matches m meth then match_all ts ss else None) of
        Some ps \<Rightarrow> Some (Routed e ps (template_text ts))
      | None \<Rightarrow> walk gate taken meth ss ls)"

fun dispatch_in :: "http_outcome \<Rightarrow> string \<Rightarrow> string list \<Rightarrow> (string list \<times> layer list) list \<Rightarrow> dispatched" where
  "dispatch_in gate meth ss [] = Unrouted"
| "dispatch_in gate meth ss ((mount, layers) # ms) =
     (case match_prefix mount ss of
        None \<Rightarrow> dispatch_in gate meth ss ms
      | Some (taken, rest) \<Rightarrow>
          (case walk gate taken meth rest layers of Some d \<Rightarrow> d | None \<Rightarrow> dispatch_in gate meth ss ms))"

definition dispatch :: "http_outcome \<Rightarrow> string \<Rightarrow> string list \<Rightarrow> dispatched" where
  "dispatch gate meth ss = dispatch_in gate meth ss mounts"

text \<open>The template of the route and the base that the request log sees.\<close>

fun seen_by_log :: "dispatched \<Rightarrow> string option \<times> string" where
  "seen_by_log (Routed e ps t) = (Some t, [])"
| "seen_by_log (Stopped gate base) = (None, base)"
| "seen_by_log Unrouted = (None, [])"

text \<open>\<^verbatim>\<open>GET /\<close>.\<close>

definition banner :: "string \<Rightarrow> http_response" where
  "banner version = json 200 (JObj
     [(''service'', JStr ''Rate Limiter Service''), (''version'', JStr version), (''status'', JStr ''running''),
      (''endpoints'', JObj
        [(''llmReserve'', JStr ''POST /api/v1/llm/reserve''), (''llmCommit'', JStr ''POST /api/v1/llm/commit''),
         (''llmRelease'', JStr ''POST /api/v1/llm/release''), (''llmState'', JStr ''GET /api/v1/llm/state?tenant=&model=''),
         (''llmPolicies'', JStr ''/api/v1/llm/policies''), (''rateLimit'', JStr ''POST /api/v1/check-rate-limit''),
         (''reset'', JStr ''POST /api/v1/reset''), (''stats'', JStr ''POST /api/v1/stats''), (''rules'', JStr ''/api/v1/rules''),
         (''health'', JStr ''/health''), (''metrics'', JStr ''/metrics'')])])"

section \<open>Every route is reached\<close>

text \<open>All routes, with the path each has in full.\<close>

definition route_table :: "(string \<times> segment list \<times> endpoint \<times> string) list" where
  "route_table = concat (map (\<lambda>(mount, layers).
     concat (map (\<lambda>l. case l of Route m ts e \<Rightarrow> [(m, map Lit mount @ ts, e, template_text ts)] | Gate p \<Rightarrow> []) layers)) mounts)"

definition control_plane :: "endpoint \<Rightarrow> bool" where
  "control_plane e \<longleftrightarrow> e \<in> set [Rules_create, Rules_list, Rules_get, Rules_update, Rules_delete, Rules_enable, Rules_disable, Rules_cache_stats,
     Rules_cache_invalidate, Policies_list, Policies_create, Policies_update, Policies_delete, Policies_cache]"

lemma match_all_Some:
  "match_all [] ss = Some ps \<longleftrightarrow> ss = [] \<and> ps = []"
  "match_all (Lit l # ts) ss = Some ps \<longleftrightarrow> (\<exists>s rest. ss = s # rest \<and> lower s = l \<and> match_all ts rest = Some ps)"
  "match_all (Param p # ts) ss = Some ps \<longleftrightarrow> (\<exists>s rest qs. ss = s # rest \<and> s \<noteq> [] \<and> match_all ts rest = Some qs \<and> ps = (p, s) # qs)"
  by (cases ss; auto)+

lemmas router_defs = mounts_def rateLimitRoutes_def rulesRoutes_def admissionRoutes_def healthRoutes_def metricsRoutes_def

lemma every_route_is_reached:
  assumes "(m, full, e, template) \<in> set route_table" "method_matches m meth" "match_all full ss = Some ps"
  shows "dispatch (Next None) meth ss = Routed e ps template"
  using assms
  by (auto simp: route_table_def router_defs dispatch_def match_all_Some method_matches_def template_text_def segment_text_def)

lemma match_mounted: "match_prefix mount ss = Some (taken, rest) \<Longrightarrow> match_all ts rest = Some ps \<Longrightarrow> match_all (map Lit mount @ ts) ss = Some ps"
  by (induction mount ss arbitrary: taken rule: match_prefix.induct) (auto split: if_splits)

lemma walk_routed:
  "walk gate taken meth ss ls = Some (Routed e ps template) \<Longrightarrow>
     \<exists>m ts. Route m ts e \<in> set ls \<and> method_matches m meth \<and> match_all ts ss = Some ps \<and> template = template_text ts"
  by (induction gate taken meth ss ls rule: walk.induct) (auto split: option.splits if_splits)

lemma dispatch_in_routed:
  "dispatch_in gate meth ss ms = Routed e ps template \<Longrightarrow>
     \<exists>mount layers taken rest. (mount, layers) \<in> set ms \<and> match_prefix mount ss = Some (taken, rest)
       \<and> walk gate taken meth rest layers = Some (Routed e ps template)"
proof (induction gate meth ss ms rule: dispatch_in.induct)
  case (2 gate meth ss mount layers ms)
  show ?case
  proof (cases "\<exists>taken rest. match_prefix mount ss = Some (taken, rest) \<and> walk gate taken meth rest layers = Some (Routed e ps template)")
    case True
    then show ?thesis by (meson list.set_intros(1))
  next
    case False
    then have "dispatch_in gate meth ss ms = Routed e ps template" using "2.prems" by (auto split: option.splits)
    moreover have "match_prefix mount ss = None \<or> (\<exists>taken rest. match_prefix mount ss = Some (taken, rest) \<and> walk gate taken meth rest layers = None)"
      using False "2.prems" by (auto split: option.splits)
    ultimately show ?thesis using "2.IH" by (metis list.set_intros(2) surj_pair)
  qed
qed simp

lemma routed_in_table:
  assumes "dispatch (Next None) meth ss = Routed e ps template"
  shows "\<exists>m full. (m, full, e, template) \<in> set route_table \<and> method_matches m meth \<and> match_all full ss = Some ps"
proof -
  obtain mount layers taken rest where mounted: "(mount, layers) \<in> set mounts" "match_prefix mount ss = Some (taken, rest)"
      and walk: "walk (Next None) taken meth rest layers = Some (Routed e ps template)"
    using assms unfolding dispatch_def using dispatch_in_routed by meson
  obtain m ts where layer: "Route m ts e \<in> set layers" "method_matches m meth" "match_all ts rest = Some ps" "template = template_text ts"
    using walk_routed[OF walk] by blast
  have "(m, map Lit mount @ ts, e, template) \<in> set (concat (map (\<lambda>l. case l of Route m ts e \<Rightarrow> [(m, map Lit mount @ ts, e, template_text ts)]
      | Gate p \<Rightarrow> []) layers))"
    using layer(1,4) by force
  then have "(m, map Lit mount @ ts, e, template) \<in> set route_table"
    unfolding route_table_def using mounted(1) by fastforce
  then show ?thesis using layer(2) match_mounted[OF mounted(2) layer(3)] by blast
qed

text \<open>
  No route hides another: past the gate a request reaches an endpoint exactly where the method and the full path
  of the endpoint's route match it, whatever order the routers and the routes were added in.
\<close>

theorem routes_are_unambiguous:
  "dispatch (Next None) meth ss = Routed e ps template \<longleftrightarrow>
     (\<exists>m full. (m, full, e, template) \<in> set route_table \<and> method_matches m meth \<and> match_all full ss = Some ps)"
  using routed_in_table every_route_is_reached by blast

section \<open>What stands behind the gate\<close>

lemma walk_past_gate:
  "walk gate taken meth ss ls = None \<Longrightarrow> walk (Next None) taken meth ss ls = None"
  "walk gate taken meth ss ls = Some (Routed e ps t) \<Longrightarrow> walk (Next None) taken meth ss ls = Some (Routed e ps t)"
  by (induction gate taken meth ss ls rule: walk.induct) (auto split: option.splits if_splits)

lemma dispatch_past_gate:
  "dispatch_in gate meth ss ms = Routed e ps t \<Longrightarrow> dispatch_in (Next None) meth ss ms = Routed e ps t"
  by (induction gate meth ss ms rule: dispatch_in.induct) (auto split: option.splits simp: walk_past_gate)

lemma data_plane_open:
  assumes "(m, full, e, template) \<in> set route_table" "method_matches m meth" "match_all full ss = Some ps" "\<not> control_plane e"
  shows "dispatch gate meth ss = Routed e ps template"
  using assms
  by (auto simp: route_table_def router_defs dispatch_def match_all_Some method_matches_def template_text_def segment_text_def control_plane_def)

lemma control_plane_stopped:
  assumes "(m, full, e, template) \<in> set route_table" "method_matches m meth" "match_all full ss = Some ps" "control_plane e" "gate \<noteq> Next None"
  shows "\<exists>base. dispatch gate meth ss = Stopped gate base"
  using assms
  by (auto simp: route_table_def router_defs dispatch_def match_all_Some method_matches_def template_text_def segment_text_def control_plane_def)

text \<open>
  C32: The control plane is exactly what the gate guards. Whatever the method and the spelling of the path, a request
  that the gate does not pass reaches no endpoint that reads or changes rules or policies and is
  answered by the gate instead; and the data plane, the probes and the metrics are reached with or
  without a key.
\<close>

theorem gate_guards_the_control_plane:
  assumes reached: "dispatch (Next None) meth ss = Routed e ps template"
  shows "if control_plane e \<and> requireControlPlaneKey config req \<noteq> Next None
    then \<exists>base. dispatch (requireControlPlaneKey config req) meth ss = Stopped (requireControlPlaneKey config req) base
    else dispatch (requireControlPlaneKey config req) meth ss = Routed e ps template"
proof -
  obtain m full where entry: "(m, full, e, template) \<in> set route_table" "method_matches m meth" "match_all full ss = Some ps"
    using routed_in_table[OF reached] by blast
  show ?thesis
    using reached control_plane_stopped[OF entry, of "requireControlPlaneKey config req"]
      data_plane_open[OF entry, of "requireControlPlaneKey config req"]
    by (cases "requireControlPlaneKey config req = Next None") simp_all
qed

theorem gate_guards_the_control_plane_witness:
  "(\<exists>base. dispatch (requireControlPlaneKey \<lparr>controlPlaneKey = Some ''s3cret'', server_env = ''production''\<rparr> (example_call [])) ''POST''
      [''API'', ''v1'', ''Rules''] = Stopped (Reply (json 401 (error_body ''UNAUTHORIZED'' ''Valid control plane credentials required''))) base)
   \<and> dispatch (requireControlPlaneKey \<lparr>controlPlaneKey = Some ''s3cret'', server_env = ''production''\<rparr> (example_call [])) ''POST''
      [''api'', ''v1'', ''llm'', ''reserve''] = Routed Llm_reserve [] ''/reserve''"
proof -
  have refused: "requireControlPlaneKey \<lparr>controlPlaneKey = Some ''s3cret'', server_env = ''production''\<rparr> (example_call [])
      = Reply (json 401 (error_body ''UNAUTHORIZED'' ''Valid control plane credentials required''))"
    by (simp add: requireControlPlaneKey_def example_call_def Let_def)
  have rules: "dispatch (Next None) ''POST'' [''API'', ''v1'', ''Rules''] = Routed Rules_create [] ''/''" by code_simp
  have reserve: "dispatch (Next None) ''POST'' [''api'', ''v1'', ''llm'', ''reserve''] = Routed Llm_reserve [] ''/reserve''" by code_simp
  show ?thesis
    using gate_guards_the_control_plane[OF rules, of "\<lparr>controlPlaneKey = Some ''s3cret'', server_env = ''production''\<rparr>" "example_call []"]
      gate_guards_the_control_plane[OF reserve, of "\<lparr>controlPlaneKey = Some ''s3cret'', server_env = ''production''\<rparr>" "example_call []"]
    by (simp add: refused control_plane_def)
qed

section \<open>The labels of the request log\<close>

definition logged_labels :: "string list" where
  "logged_labels = [''/api/v1/rules'', ''/api/v1/llm/policies'', ''unmatched''] @ map (\<lambda>(m, full, e, template). template) route_table"

text \<open>The label that the request log records for a request.\<close>

definition logged_path :: "dispatched \<Rightarrow> string" where
  "logged_path d = (case seen_by_log d of (Some (c # cs), base) \<Rightarrow> c # cs | (_, base) \<Rightarrow> if base = [] then ''unmatched'' else base)"

lemma requestLogger_path:
  "requestLogger meth (fst (seen_by_log d)) (snd (seen_by_log d)) response
     = recordApiRequest meth (logged_path d) (http_status response) @ recordApiLatency meth (logged_path d)"
  by (simp add: requestLogger_def logged_path_def Let_def split: option.splits list.splits prod.splits)

lemma stopped_base:
  "walk gate taken meth ss ls = Some (Stopped g base) \<Longrightarrow>
     \<exists>prefix further rest. Gate prefix \<in> set ls \<and> match_prefix prefix ss = Some (further, rest) \<and> base = base_text (taken @ further)"
proof (induction ls)
  case (Cons l ls)
  have later: ?case if later: "walk gate taken meth ss ls = Some (Stopped g base)"
  proof -
    obtain prefix further rest where "Gate prefix \<in> set ls" "match_prefix prefix ss = Some (further, rest)" "base = base_text (taken @ further)"
      using Cons.IH[OF later] by blast
    then show ?thesis by (intro exI[of _ prefix] exI[of _ further] exI[of _ rest]) simp
  qed
  show ?case
  proof (cases l)
    case (Gate prefix)
    show ?thesis
    proof (cases "match_prefix prefix ss")
      case None
      then show ?thesis using Cons.prems later by (simp add: Gate)
    next
      case (Some hit)
      obtain further rest where hit: "hit = (further, rest)" by (cases hit)
      show ?thesis
      proof (cases "gate = Next None")
        case True
        then show ?thesis using Cons.prems later by (simp add: Gate Some hit)
      next
        case False
        then have "base = base_text (taken @ further)" using Cons.prems by (simp add: Gate Some hit)
        then show ?thesis using Some by (auto simp: Gate hit)
      qed
    qed
  next
    case (Route m ts e)
    then show ?thesis using Cons.prems later by (auto split: option.splits if_splits)
  qed
qed simp

lemma dispatch_in_stopped:
  "dispatch_in gate meth ss ms = Stopped g base \<Longrightarrow>
     \<exists>mount layers taken rest. (mount, layers) \<in> set ms \<and> match_prefix mount ss = Some (taken, rest)
       \<and> walk gate taken meth rest layers = Some (Stopped g base)"
proof (induction gate meth ss ms rule: dispatch_in.induct)
  case (2 gate meth ss mount layers ms)
  show ?case
  proof (cases "\<exists>taken rest. match_prefix mount ss = Some (taken, rest) \<and> walk gate taken meth rest layers = Some (Stopped g base)")
    case True
    then show ?thesis by (meson list.set_intros(1))
  next
    case False
    then have "dispatch_in gate meth ss ms = Stopped g base" using "2.prems" by (auto split: option.splits)
    moreover have "match_prefix mount ss = None \<or> (\<exists>taken rest. match_prefix mount ss = Some (taken, rest) \<and> walk gate taken meth rest layers = None)"
      using False "2.prems" by (auto split: option.splits)
    ultimately show ?thesis using "2.IH" by (metis list.set_intros(2) surj_pair)
  qed
qed simp

lemma match_prefix_taken: "match_prefix ls ss = Some (taken, rest) \<Longrightarrow> map lower taken = ls"
  by (induction ls ss arbitrary: taken rule: match_prefix.induct) (auto split: if_splits)

lemma lower_base: "lower (base_text taken) = base_text (map lower taken)"
  by (induction taken) (simp_all add: base_text_def lower_def ascii_lower_def)

lemma gates_of_the_routers:
  "(mount, layers) \<in> set mounts \<Longrightarrow> Gate prefix \<in> set layers \<Longrightarrow> base_text (mount @ prefix) \<in> {''/api/v1/rules'', ''/api/v1/llm/policies''}"
  by (auto simp: router_defs base_text_def)

text \<open>
  The label of a request in the log's metrics is the template of its route, the router of the gate that stopped it, or
  \<^verbatim>\<open>unmatched\<close>, in the letters of the request: but for their case there are finitely many. The
  comment there promises the template. It is kept only where a route was reached, as a request
  without a key can spell the router in any case and each spelling mints a series; and it is the
  template alone, so that the probes, the metrics, the rules and the banner share the label \<^verbatim>\<open>/\<close>.
\<close>

theorem logged_labels_but_for_case:
  "requestLogger meth (fst (seen_by_log (dispatch gate meth ss))) (snd (seen_by_log (dispatch gate meth ss))) response
     = recordApiRequest meth (logged_path (dispatch gate meth ss)) (http_status response) @ recordApiLatency meth (logged_path (dispatch gate meth ss))
   \<and> lower (logged_path (dispatch gate meth ss)) \<in> set logged_labels"
proof (rule conjI[OF requestLogger_path])
  show "lower (logged_path (dispatch gate meth ss)) \<in> set logged_labels"
  proof (cases "dispatch gate meth ss")
    case (Routed e ps template)
    then have "dispatch (Next None) meth ss = Routed e ps template" unfolding dispatch_def by (rule dispatch_past_gate)
    then obtain m full where entry: "(m, full, e, template) \<in> set route_table" using routed_in_table by blast
    then have "template \<in> set (map (\<lambda>(m, full, e, template). template) route_table)" by force
    moreover have "lower template = template \<and> template \<noteq> []"
      using entry by (auto simp: route_table_def router_defs template_text_def segment_text_def lower_def ascii_lower_def)
    moreover have "logged_path (Routed e ps template) = template" if "template \<noteq> []"
      using that by (cases template) (simp_all add: logged_path_def)
    ultimately show ?thesis unfolding Routed logged_labels_def by simp
  next
    case (Stopped g base)
    then obtain mount layers taken rest where mounted: "(mount, layers) \<in> set mounts" "match_prefix mount ss = Some (taken, rest)"
        and walk: "walk gate taken meth rest layers = Some (Stopped g base)"
      unfolding dispatch_def using dispatch_in_stopped by meson
    then obtain prefix further rest' where gate: "Gate prefix \<in> set layers" "match_prefix prefix rest = Some (further, rest')"
        "base = base_text (taken @ further)"
      using stopped_base by blast
    have "lower base = base_text (mount @ prefix)"
      using match_prefix_taken[OF mounted(2)] match_prefix_taken[OF gate(2)] by (simp add: gate(3) lower_base)
    then have "lower base \<in> {''/api/v1/rules'', ''/api/v1/llm/policies''}" using gates_of_the_routers[OF mounted(1) gate(1)] by simp
    moreover have "base \<noteq> []" using calculation by (auto simp: lower_def)
    ultimately show ?thesis unfolding Stopped by (auto simp: logged_path_def logged_labels_def)
  next
    case Unrouted
    show ?thesis unfolding Unrouted by (simp add: logged_path_def logged_labels_def lower_def ascii_lower_def)
  qed
qed

text \<open>Two spellings, two labels; and four endpoints under one.\<close>

lemma labels_differ_by_case:
  "logged_path (dispatch (Reply not_found_response) ''GET'' [''API'', ''v1'', ''rules'']) = ''/API/v1/rules''"
  "logged_path (dispatch (Reply not_found_response) ''GET'' [''api'', ''v1'', ''RULES'']) = ''/api/v1/RULES''"
  by code_simp+

lemma four_endpoints_one_label:
  "map (\<lambda>path. logged_path (dispatch (Next None) ''GET'' (path_segments path))) [''/'', ''/health'', ''/metrics'', ''/api/v1/rules'']
     = [''/'', ''/'', ''/'', ''/'']"
  by code_simp

end
