(* ===== verification/Objects.thy ===== *)
theory Objects
  imports Rate_Types
begin

text \<open>
  What the program uses of JavaScript's objects and conversions: the property of a plain
  object under a name that comes from data, which is its own or inherited from
  \<^verbatim>\<open>Object.prototype\<close>, and \<^verbatim>\<open>String(v)\<close>. The text of a number is the parameter
  \<open>show_number\<close>.
\<close>

definition prototype_functions :: "string list" where
  "prototype_functions =
     [''toString'', ''valueOf'', ''hasOwnProperty'', ''isPrototypeOf'', ''propertyIsEnumerable'', ''toLocaleString'',
      ''__defineGetter__'', ''__defineSetter__'', ''__lookupGetter__'', ''__lookupSetter__'']"

text \<open>The text of what a plain object inherits under a name; all of it is truthy.\<close>

definition inherited_text :: "string \<Rightarrow> string option" where
  "inherited_text name =
     (if name = ''constructor'' then Some ''function Object() { [native code] }''
      else if name = ''__proto__'' then Some ''[object Object]''
      else if name \<in> set prototype_functions then Some (''function '' @ name @ ''() { [native code] }'')
      else None)"

text \<open>
  \<^verbatim>\<open>String(v)\<close>, \<open>None\<close> where it throws: an object with a property of its own named \<^verbatim>\<open>toString\<close>
  has no function there, since it came from JSON, and its \<^verbatim>\<open>valueOf\<close> gives no primitive.
\<close>

fun js_string :: "(rat \<Rightarrow> string) \<Rightarrow> jsval \<Rightarrow> string option"
  and js_element :: "(rat \<Rightarrow> string) \<Rightarrow> jsval \<Rightarrow> string option"
  and js_elements :: "(rat \<Rightarrow> string) \<Rightarrow> jsval list \<Rightarrow> string option" where
  "js_string show_number JUndefined = Some ''undefined''"
| "js_string show_number JNull = Some ''null''"
| "js_string show_number (JBool b) = Some (if b then ''true'' else ''false'')"
| "js_string show_number (JNum x) = Some (show_number x)"
| "js_string show_number (JStr s) = Some s"
| "js_string show_number (JArr vs) = js_elements show_number vs"
| "js_string show_number (JObj obj) = (if map_of obj ''toString'' = None then Some ''[object Object]'' else None)"
| "js_element show_number v = (case v of JUndefined \<Rightarrow> Some [] | JNull \<Rightarrow> Some [] | _ \<Rightarrow> js_string show_number v)"
| "js_elements show_number [] = Some []"
| "js_elements show_number [v] = js_element show_number v"
| "js_elements show_number (v # w # vs) =
     Option.bind (js_element show_number v) (\<lambda>s. map_option (\<lambda>t. s @ '','' @ t) (js_elements show_number (w # vs)))"

text \<open>The text of a property of an object, \<open>None\<close> where the property is falsy or has no text.\<close>

definition truthy_property :: "(rat \<Rightarrow> string) \<Rightarrow> (string \<times> jsval) list \<Rightarrow> string \<Rightarrow> string option" where
  "truthy_property show_number obj name =
     (case map_of obj name of
        Some v \<Rightarrow> if truthy v then js_string show_number v else None
      | None \<Rightarrow> inherited_text name)"

text \<open>The program's parameters: the engine of expressions and the text of numbers.\<close>

record 're js_lib =
  new_RegExp :: "string \<Rightarrow> 're option"
  regex_test :: "'re \<Rightarrow> string \<Rightarrow> bool"
  show_number :: "rat \<Rightarrow> string"

end
