(* ===== verification/Policy_Repository.thy ===== *)
theory Policy_Repository
  imports Database Objects Admission_Types Text_Numbers
begin

text \<open>
  \<^verbatim>\<open>src/llm/policy.repository.ts\<close>: the statements on the table of admission policies, the
  mapping of its rows, and the allowlist of the columns an update may set.
\<close>

section \<open>Numbers that arrive as text\<close>

text \<open>
  \<^verbatim>\<open>Number(s)\<close> of the text of a \<^verbatim>\<open>BIGINT\<close> or \<^verbatim>\<open>NUMERIC\<close> column: a sign, digits, and perhaps a point and
  more digits; the double nearest to the decimal that it writes.
\<close>

definition Number :: "string \<Rightarrow> rat" where
  "Number s =
     (let negative = (s \<noteq> [] \<and> hd s = CHR ''-''); body = (if negative then drop 1 s else s);
          whole = takeWhile digit_char body; fraction = drop 1 (dropWhile digit_char body);
          value = of_int (digits_number whole) + of_int (digits_number fraction) / 10 ^ length fraction
      in dbl (if negative then - value else value))"

section \<open>Policies\<close>

record StoredPolicy = AdmissionPolicy +
  sp_id :: string
  sp_tenantPattern :: string
  sp_modelPattern :: string
  sp_priority :: int

definition reservation_mode :: "row_mode \<Rightarrow> ReservationMode" where
  "reservation_mode m = (case m of mode_worst_case \<Rightarrow> worst_case | mode_adaptive \<Rightarrow> adaptive)"

definition toPolicy :: "PolicyRow \<Rightarrow> StoredPolicy" where
  "toPolicy row =
     \<lparr>pol_tenant = pr_tenant_pattern row, pol_model = pr_model_pattern row,
      pol_scope = pr_tenant_pattern row @ ''|'' @ pr_model_pattern row,
      tokensPerMinute = \<lfloor>Number (pr_tokens_per_minute row)\<rfloor>, requestsPerMinute = pr_requests_per_minute row,
      maxConcurrency = pr_max_concurrency row, maxQueueDepth = pr_max_queue_depth row, leaseSeconds = pr_lease_seconds row,
      reservationMode = reservation_mode (pr_reservation_mode row),
      reservationSafetyFactor = Number (pr_reservation_safety_factor row), pol_enabled = pr_enabled row,
      sp_id = pr_id row, sp_tenantPattern = pr_tenant_pattern row, sp_modelPattern = pr_model_pattern row,
      sp_priority = pr_priority row\<rparr>"

record CreatePolicyInput =
  in_tenantPattern :: string
  in_modelPattern :: string
  in_tokensPerMinute :: "int option"
  in_requestsPerMinute :: "int option"
  in_maxConcurrency :: "int option"
  in_maxQueueDepth :: "int option"
  in_leaseSeconds :: "int option"
  in_reservationMode :: "ReservationMode option"
  in_reservationSafetyFactor :: "rat option"
  in_priority :: "int option"
  in_enabled :: "bool option"

definition COLUMN :: "(string \<times> string) list" where
  "COLUMN =
     [(''tenantPattern'', ''tenant_pattern''), (''modelPattern'', ''model_pattern''),
      (''tokensPerMinute'', ''tokens_per_minute''), (''requestsPerMinute'', ''requests_per_minute''),
      (''maxConcurrency'', ''max_concurrency''), (''maxQueueDepth'', ''max_queue_depth''),
      (''leaseSeconds'', ''lease_seconds''), (''reservationMode'', ''reservation_mode''),
      (''reservationSafetyFactor'', ''reservation_safety_factor''), (''priority'', ''priority''), (''enabled'', ''enabled'')]"

section \<open>Statements\<close>

definition first_policy :: "PolicyRow query_result \<Rightarrow> StoredPolicy option" where
  "first_policy result = (case rows result of [] \<Rightarrow> None | row # _ \<Rightarrow> Some (toPolicy row))"

definition all_policies_text :: string where
  "all_policies_text = ''SELECT * FROM llm_admission_policies ORDER BY priority DESC, created_at ASC''"

definition enabled_policies_text :: string where
  "enabled_policies_text = ''SELECT * FROM llm_admission_policies WHERE enabled = true ORDER BY priority DESC, created_at ASC''"

definition policy_by_id_text :: string where
  "policy_by_id_text = ''SELECT * FROM llm_admission_policies WHERE id = $1''"

definition delete_policy_text :: string where
  "delete_policy_text = ''DELETE FROM llm_admission_policies WHERE id = $1''"

definition insert_policy_text :: string where
  "insert_policy_text =
     ''INSERT INTO llm_admission_policies (tenant_pattern, model_pattern, tokens_per_minute, requests_per_minute, '' @
     ''max_concurrency, max_queue_depth, lease_seconds, reservation_mode, reservation_safety_factor, priority, enabled) '' @
     ''VALUES ($1, $2, $3, $4, $5, $6, $7, $8, $9, $10, $11) RETURNING *''"

definition find_all_policies :: "'d database \<Rightarrow> ('d, js_error + StoredPolicy list) state" where
  "find_all_policies db = throwing (query_policies db all_policies_text []) (\<lambda>result. js_return (map toPolicy (rows result)))"

definition findEnabledByPriority :: "'d database \<Rightarrow> ('d, js_error + StoredPolicy list) state" where
  "findEnabledByPriority db =
     throwing (query_policies db enabled_policies_text []) (\<lambda>result. js_return (map toPolicy (rows result)))"

definition find_policy_by_id :: "'d database \<Rightarrow> string \<Rightarrow> ('d, js_error + StoredPolicy option) state" where
  "find_policy_by_id db pid =
     throwing (query_policies db policy_by_id_text [JStr pid]) (\<lambda>result. js_return (first_policy result))"

definition mode_value :: "ReservationMode \<Rightarrow> jsval" where
  "mode_value m = JStr (case m of worst_case \<Rightarrow> ''worst_case'' | adaptive \<Rightarrow> ''adaptive'')"

text \<open>\<^verbatim>\<open>a ?? b\<close> for an optional field.\<close>

definition or_default :: "'a option \<Rightarrow> 'a \<Rightarrow> 'a" where
  "or_default x d = (case x of Some v \<Rightarrow> v | None \<Rightarrow> d)"

lemma or_default_simps [simp]: "or_default None d = d" "or_default (Some v) d = v"
  by (simp_all add: or_default_def)

definition insert_policy_values :: "CreatePolicyInput \<Rightarrow> jsval list" where
  "insert_policy_values input =
     (let DEFAULT = DEFAULT_POLICY [] [] [] in
      [JStr (in_tenantPattern input), JStr (in_modelPattern input),
       JNum (of_int (or_default (in_tokensPerMinute input) (tokensPerMinute DEFAULT))),
       JNum (of_int (or_default (in_requestsPerMinute input) (requestsPerMinute DEFAULT))),
       JNum (of_int (or_default (in_maxConcurrency input) (maxConcurrency DEFAULT))),
       JNum (of_int (or_default (in_maxQueueDepth input) (maxQueueDepth DEFAULT))),
       JNum (of_int (or_default (in_leaseSeconds input) (leaseSeconds DEFAULT))),
       mode_value (or_default (in_reservationMode input) (reservationMode DEFAULT)),
       JNum (or_default (in_reservationSafetyFactor input) (reservationSafetyFactor DEFAULT)),
       JNum (of_int (or_default (in_priority input) 100)),
       JBool (or_default (in_enabled input) True)])"

definition create_policy :: "'d database \<Rightarrow> CreatePolicyInput \<Rightarrow> ('d, js_error + StoredPolicy) state" where
  "create_policy db input =
     throwing (query_policies db insert_policy_text (insert_policy_values input))
       (\<lambda>result. case first_policy result of
          None \<Rightarrow> js_throw (PlainError ''Cannot read properties of undefined'')
        | Some policy \<Rightarrow> js_return policy)"

text \<open>
  \<^verbatim>\<open>COLUMN[key]\<close>, where \<open>COLUMN\<close> is a plain object: a key of the table's, or one that every object
  inherits. The body of an update is what the client sent, as the entries of the object.
\<close>

definition policy_column :: "string \<Rightarrow> string option" where
  "policy_column key = (case map_of COLUMN key of Some col \<Rightarrow> Some col | None \<Rightarrow> inherited_text key)"

definition push_field :: "string \<times> jsval \<Rightarrow> string list \<times> jsval list \<Rightarrow> string list \<times> jsval list" where
  "push_field entry acc =
     (case entry of (key, v) \<Rightarrow>
        if v = JUndefined then acc
        else (case policy_column key of None \<Rightarrow> acc | Some col \<Rightarrow> push_assignment col v acc))"

definition update_policy_text :: "string list \<Rightarrow> nat \<Rightarrow> string" where
  "update_policy_text assignments n =
     ''UPDATE llm_admission_policies SET '' @ join '', '' assignments @ '' WHERE id = '' @ placeholder n @ '' RETURNING *''"

definition update_policy :: "'d database \<Rightarrow> string \<Rightarrow> (string \<times> jsval) list \<Rightarrow> ('d, js_error + StoredPolicy option) state" where
  "update_policy db pid input =
     (case foldl (\<lambda>acc entry. push_field entry acc) ([], []) input of (assignments, vs) \<Rightarrow>
        if assignments = [] then find_policy_by_id db pid
        else throwing (query_policies db (update_policy_text assignments (length (vs @ [JStr pid]))) (vs @ [JStr pid]))
               (\<lambda>result. js_return (first_policy result)))"

definition delete_policy :: "'d database \<Rightarrow> string \<Rightarrow> ('d, js_error + bool) state" where
  "delete_policy db pid =
     throwing (query_nothing db delete_policy_text [JStr pid])
       (\<lambda>result. js_return (case rowCount result of None \<Rightarrow> False | Some n \<Rightarrow> 0 < n))"

section \<open>What an update can set\<close>

text \<open>The fields of an update that reach its statement, as columns and values.\<close>

definition column_of :: "string \<times> jsval \<Rightarrow> (string \<times> jsval) list" where
  "column_of entry = (case entry of (key, v) \<Rightarrow>
     if v = JUndefined then [] else (case policy_column key of None \<Rightarrow> [] | Some col \<Rightarrow> [(col, v)]))"

lemma push_field_column:
  "push_field e (numbered 1 fs, map snd fs) = (numbered 1 (fs @ column_of e), map snd (fs @ column_of e))"
  by (cases e) (auto simp only: push_field_def column_of_def push_assignment_numbered prod.case option.case if_True if_False append_Nil2 split: option.split if_split)

lemma policy_assignments:
  "foldl (\<lambda>acc entry. push_field entry acc) (numbered 1 fs, map snd fs) input
     = (numbered 1 (fs @ concat (map column_of input)), map snd (fs @ concat (map column_of input)))"
proof (induction input arbitrary: fs)
  case (Cons e input)
  show ?case using Cons.IH[of "fs @ column_of e"] by (simp only: foldl_Cons push_field_column) simp
qed simp

lemma column_of_columns:
  "(col, v) \<in> set (column_of (key, w)) \<Longrightarrow> col \<in> snd ` set COLUMN \<or> inherited_text key = Some col"
  by (auto simp: column_of_def policy_column_def split: if_splits option.splits dest!: map_of_SomeD intro: rev_image_eqI)

text \<open>
  An update of a policy sets the fields it recognises, each to its own numbered parameter, and
  binds every value. A column in its text is one of the table's eleven, unless the body has a
  key that every JavaScript object inherits: such a key passes the allowlist and puts the
  text of the inherited function where a column belongs.
\<close>

theorem policy_update_columns:
  "let fs = concat (map column_of input) in
     update_policy db pid input =
       (if fs = [] then find_policy_by_id db pid
        else throwing (query_policies db (update_policy_text (numbered 1 fs) (length fs + 1)) (map snd fs @ [JStr pid]))
               (\<lambda>result. js_return (first_policy result)))
     \<and> ((\<forall>(key, v) \<in> set input. inherited_text key = None) \<longrightarrow> fst ` set fs \<subseteq> snd ` set COLUMN)"
proof -
  let ?fs = "concat (map column_of input)"
  have "foldl (\<lambda>acc entry. push_field entry acc) ([], []) input = (numbered 1 ?fs, map snd ?fs)"
    using policy_assignments[of "[]" input] by simp
  then have "update_policy db pid input =
       (if ?fs = [] then find_policy_by_id db pid
        else throwing (query_policies db (update_policy_text (numbered 1 ?fs) (length ?fs + 1)) (map snd ?fs @ [JStr pid]))
               (\<lambda>result. js_return (first_policy result)))"
    by (simp add: update_policy_def)
  moreover have "fst ` set ?fs \<subseteq> snd ` set COLUMN" if "\<forall>(key, v) \<in> set input. inherited_text key = None"
  proof
    fix col assume "col \<in> fst ` set ?fs"
    then obtain key w v where e: "(key, w) \<in> set input" "(col, v) \<in> set (column_of (key, w))" by auto
    with that show "col \<in> snd ` set COLUMN" using column_of_columns[OF e(2)] by auto
  qed
  ultimately show ?thesis by (simp add: Let_def)
qed

lemma one_text: "string_of_nat (Suc 0) = ''1''" "string_of_nat 2 = ''2''"
  by code_simp+

text \<open>The witness runs an update of an inherited key next to one of the table's columns.\<close>

lemma policy_update_columns_witness:
  "(\<forall>(db :: unit database) pid. update_policy db pid [(''constructor'', JNum 1)] =
     throwing (query_policies db ''UPDATE llm_admission_policies SET function Object() { [native code] } = $1 WHERE id = $2 RETURNING *''
       [JNum 1, JStr pid]) (\<lambda>result. js_return (first_policy result)))
     \<and> fst ` set (concat (map column_of [(''priority'', JNum 1), (''owner'', JNull)])) \<subseteq> snd ` set COLUMN"
proof -
  have column: "concat (map column_of [(''constructor'', JNum 1)]) = [(''function Object() { [native code] }'', JNum 1)]"
    by (simp add: column_of_def policy_column_def COLUMN_def inherited_text_def)
  have "update_policy db pid [(''constructor'', JNum 1)] =
     throwing (query_policies db ''UPDATE llm_admission_policies SET function Object() { [native code] } = $1 WHERE id = $2 RETURNING *''
       [JNum 1, JStr pid]) (\<lambda>result. js_return (first_policy result))" for db :: "unit database" and pid
    using policy_update_columns[of "[(''constructor'', JNum 1)]" db pid] unfolding column
    by (simp add: Let_def update_policy_text_def placeholder_def one_text numeral_2_eq_2[symmetric])
  moreover have "fst ` set (concat (map column_of [(''priority'', JNum 1), (''owner'', JNull)])) \<subseteq> snd ` set COLUMN"
    using policy_update_columns[of "[(''priority'', JNum 1), (''owner'', JNull)]" "undefined :: unit database" "[]"]
    by (simp add: Let_def inherited_text_def prototype_functions_def)
  ultimately show ?thesis by blast
qed


section \<open>What a policy is after it is stored\<close>

text \<open>The text of a \<^verbatim>\<open>BIGINT\<close>, and of a \<^verbatim>\<open>NUMERIC\<close> with two places given in hundredths.\<close>

definition numeric_text :: "nat \<Rightarrow> string" where
  "numeric_text h = string_of_nat (h div 100) @ CHR ''.'' # [char_of (48 + h mod 100 div 10), char_of (48 + h mod 10)]"

lemma takeWhile_digits: "takeWhile digit_char (string_of_nat n @ rest) = string_of_nat n @ takeWhile digit_char rest"
  and dropWhile_digits: "dropWhile digit_char (string_of_nat n @ rest) = dropWhile digit_char rest"
  using string_of_nat_digits[of n] by (simp_all add: takeWhile_append2 dropWhile_append2)

lemma string_of_nat_no_minus: "hd (string_of_nat n @ rest) \<noteq> CHR ''-''"
proof -
  have "hd (string_of_nat n) \<in> set (string_of_nat n)" by simp
  then have "digit_char (hd (string_of_nat n))" using string_of_nat_digits by blast
  then show ?thesis by (auto simp: digit_char_def hd_append)
qed

lemma Number_of_nat: "Number (string_of_nat n) = dbl (of_nat n)"
proof -
  have split: "takeWhile digit_char (string_of_nat n) = string_of_nat n" "dropWhile digit_char (string_of_nat n) = []"
    using string_of_nat_digits[of n] by (simp_all add: takeWhile_eq_all_conv)
  have sign: "hd (string_of_nat n) \<noteq> CHR ''-''" using string_of_nat_no_minus[of n "[]"] by simp
  show ?thesis by (simp add: Number_def Let_def sign split digits_number_of_nat)
qed

lemma hundredths_value:
  "digits_number [char_of (48 + h mod 100 div 10), char_of (48 + h mod 10)] = int (h mod 100)"
proof -
  have "digits_number [char_of (48 + h mod 100 div 10), char_of (48 + h mod 10)] = 10 * int (h mod 100 div 10) + int (h mod 10)"
    using digits_number_append[of "[char_of (48 + h mod 100 div 10)]" "[char_of (48 + h mod 10)]"]
      digits_number_digit[of "h mod 100 div 10"] digits_number_digit[of "h mod 10"] by simp
  moreover have "10 * (h mod 100 div 10) + h mod 10 = h mod 100"
    using mult_div_mod_eq[of 10 "h mod 100"] mod_mod_cancel[of 10 100 h] by simp
  then have "int (10 * (h mod 100 div 10) + h mod 10) = int (h mod 100)" by (simp only:)
  ultimately show ?thesis by (simp only: of_nat_add of_nat_mult of_nat_numeral)
qed

lemma hundredths_sum: "of_int (int (h div 100)) + of_int (int (h mod 100)) / 100 = of_nat h / (100 :: rat)"
proof -
  have "(of_nat h :: rat) = of_nat (100 * (h div 100) + h mod 100)" by (simp only: mult_div_mod_eq)
  then have "(of_nat h :: rat) = 100 * of_nat (h div 100) + of_nat (h mod 100)" by (simp only: of_nat_add of_nat_mult of_nat_numeral)
  then show ?thesis by simp
qed

lemma Number_numeric: "Number (numeric_text h) = dbl (of_nat h / 100)"
proof -
  have point: "\<not> digit_char (CHR ''.'')" by (simp add: digit_char_def)
  let ?body = "string_of_nat (h div 100) @ CHR ''.'' # [char_of (48 + h mod 100 div 10), char_of (48 + h mod 10)]"
  have split: "takeWhile digit_char ?body = string_of_nat (h div 100)"
    "dropWhile digit_char ?body = CHR ''.'' # [char_of (48 + h mod 100 div 10), char_of (48 + h mod 10)]"
    using point by (simp_all only: takeWhile_digits dropWhile_digits takeWhile.simps dropWhile.simps if_False append_Nil2)
  have "Number ?body = dbl (of_int (int (h div 100)) + of_int (int (h mod 100)) / 100)"
    by (simp only: Number_def Let_def split string_of_nat_no_minus simp_thms if_False drop_Suc_Cons drop_0 digits_number_of_nat
        hundredths_value One_nat_def) simp
  then show ?thesis unfolding numeric_text_def hundredths_sum .
qed


section \<open>The table of policies\<close>

text \<open>
  The contract of the database for the statements the model relies on, over the rows of the table
  in the order they were created. An insert within the bounds of the columns, for a scope that
  no row has, adds a row with a new id that holds the values; a number reaches the \<^verbatim>\<open>NUMERIC\<close>
  column by its decimal text. A database that is away rejects.
\<close>

definition row_of ::
    "string \<Rightarrow> string \<Rightarrow> string \<Rightarrow> int \<Rightarrow> int \<Rightarrow> int \<Rightarrow> int \<Rightarrow> int \<Rightarrow> row_mode \<Rightarrow> nat \<Rightarrow> int \<Rightarrow> bool \<Rightarrow> PolicyRow" where
  "row_of i t m tpm rpm slots depth lease mode h prio en =
     \<lparr>pr_id = i, pr_tenant_pattern = t, pr_model_pattern = m, pr_tokens_per_minute = string_of_int tpm,
      pr_requests_per_minute = rpm, pr_max_concurrency = slots, pr_max_queue_depth = depth, pr_lease_seconds = lease,
      pr_reservation_mode = mode, pr_reservation_safety_factor = numeric_text h, pr_priority = prio, pr_enabled = en\<rparr>"

definition policy_values ::
    "string \<Rightarrow> string \<Rightarrow> int \<Rightarrow> int \<Rightarrow> int \<Rightarrow> int \<Rightarrow> int \<Rightarrow> row_mode \<Rightarrow> nat \<Rightarrow> int \<Rightarrow> bool \<Rightarrow> jsval list" where
  "policy_values t m tpm rpm slots depth lease mode h prio en =
     [JStr t, JStr m, JNum (of_int tpm), JNum (of_int rpm), JNum (of_int slots), JNum (of_int depth), JNum (of_int lease),
      JStr (case mode of mode_worst_case \<Rightarrow> ''worst_case'' | mode_adaptive \<Rightarrow> ''adaptive''), JNum (dbl (of_nat h / 100)),
      JNum (of_int prio), JBool en]"

definition within_columns :: "string \<Rightarrow> string \<Rightarrow> int \<Rightarrow> int \<Rightarrow> int \<Rightarrow> int \<Rightarrow> int \<Rightarrow> nat \<Rightarrow> int \<Rightarrow> bool" where
  "within_columns t m tpm rpm slots depth lease h prio \<longleftrightarrow>
     length t \<le> 255 \<and> length m \<le> 255 \<and> 0 < tpm \<and> tpm < 2 ^ 63 \<and> 0 < rpm \<and> rpm < 2 ^ 31 \<and> 0 < slots \<and> slots < 2 ^ 31
     \<and> 0 \<le> depth \<and> depth < 2 ^ 31 \<and> 0 < lease \<and> lease < 2 ^ 31 \<and> 100 \<le> h \<and> h < 10000 \<and> - (2 ^ 31) \<le> prio \<and> prio < 2 ^ 31"

locale policy_table =
  fixes db :: "'d database" and policy_rows :: "'d \<Rightarrow> PolicyRow list" and reachable :: "'d \<Rightarrow> bool"
  assumes enabled_policies: "reachable d \<Longrightarrow> \<exists>n d'. run_state (query_policies db enabled_policies_text []) d
        = (Inr \<lparr>rows = sort_key (\<lambda>r. - pr_priority r) (filter pr_enabled (policy_rows d)), rowCount = n\<rparr>, d')
      \<and> policy_rows d' = policy_rows d"
    and away: "\<not> reachable d \<Longrightarrow> \<exists>e d'. run_state (query_policies db enabled_policies_text []) d = (Inl e, d')
      \<and> policy_rows d' = policy_rows d"
    and policy_by_id: "reachable d \<Longrightarrow> \<exists>n d'. run_state (query_policies db policy_by_id_text [JStr i]) d
        = (Inr \<lparr>rows = filter (\<lambda>r. pr_id r = i) (policy_rows d), rowCount = n\<rparr>, d') \<and> policy_rows d' = policy_rows d"
    and insert_policy: "reachable d \<Longrightarrow> within_columns t m tpm rpm slots depth lease h prio \<Longrightarrow>
      \<forall>r \<in> set (policy_rows d). \<not> (pr_tenant_pattern r = t \<and> pr_model_pattern r = m) \<Longrightarrow>
      \<exists>i n d'. run_state (query_policies db insert_policy_text (policy_values t m tpm rpm slots depth lease mode h prio en)) d
          = (Inr \<lparr>rows = [row_of i t m tpm rpm slots depth lease mode h prio en], rowCount = n\<rparr>, d')
        \<and> i \<notin> pr_id ` set (policy_rows d) \<and> reachable d'
        \<and> policy_rows d' = policy_rows d @ [row_of i t m tpm rpm slots depth lease mode h prio en]"
begin

lemma repository_loads:
  "reachable d \<Longrightarrow> \<exists>d'. run_state (findEnabledByPriority db) d
       = (Inr (map toPolicy (sort_key (\<lambda>r. - pr_priority r) (filter pr_enabled (policy_rows d)))), d') \<and> policy_rows d' = policy_rows d"
  "\<not> reachable d \<Longrightarrow> \<exists>e d'. run_state (findEnabledByPriority db) d = (Inl e, d') \<and> policy_rows d' = policy_rows d"
  using enabled_policies[of d] away[of d] by (auto simp: findEnabledByPriority_def)

end

text \<open>A table kept as a list, next to whether the database answers, for which the contract holds.\<close>

type_synonym policy_list = "PolicyRow list \<times> bool"

definition fresh_id :: "PolicyRow list \<Rightarrow> string" where
  "fresh_id rs = replicate (Suc (sum_list (map (length \<circ> pr_id) rs))) (CHR ''i'')"

definition inserted :: "PolicyRow list \<Rightarrow> jsval list \<Rightarrow> PolicyRow option" where
  "inserted rs vs =
     (case vs of
        [JStr t, JStr m, JNum tpm, JNum rpm, JNum slots, JNum depth, JNum lease, JStr mode, JNum factor, JNum prio, JBool en] \<Rightarrow>
          if \<exists>r \<in> set rs. pr_tenant_pattern r = t \<and> pr_model_pattern r = m then None
          else Some (row_of (fresh_id rs) t m \<lfloor>tpm\<rfloor> \<lfloor>rpm\<rfloor> \<lfloor>slots\<rfloor> \<lfloor>depth\<rfloor> \<lfloor>lease\<rfloor>
                      (if mode = ''adaptive'' then mode_adaptive else mode_worst_case) (nat (round (factor * 100))) \<lfloor>prio\<rfloor> en)
      | _ \<Rightarrow> None)"

definition policy_list_db :: "policy_list database" where
  "policy_list_db =
     \<lparr>query_rules = (\<lambda>text vs. js_throw (PlainError text)),
      query_policies = (\<lambda>text vs. State (\<lambda>(rs, up).
        if \<not> up then (Inl (PlainError ''PostgreSQL pool not initialized''), (rs, up))
        else if text = enabled_policies_text
        then (Inr \<lparr>rows = sort_key (\<lambda>r. - pr_priority r) (filter pr_enabled rs), rowCount = None\<rparr>, (rs, up))
        else if text = policy_by_id_text
        then (Inr \<lparr>rows = filter (\<lambda>r. vs = [JStr (pr_id r)]) rs, rowCount = None\<rparr>, (rs, up))
        else if text = insert_policy_text
        then (case inserted rs vs of
                None \<Rightarrow> (Inl (DriverError ''duplicate key value violates unique constraint'' (Some ''23505'')), (rs, up))
              | Some row \<Rightarrow> (Inr \<lparr>rows = [row], rowCount = Some 1\<rparr>, (rs @ [row], up)))
        else (Inl (PlainError text), (rs, up)))),
      query_counts = (\<lambda>text vs. js_throw (PlainError text)), query_nothing = (\<lambda>text vs. js_throw (PlainError text))\<rparr>"

lemma fresh_id_new: "fresh_id rs \<notin> pr_id ` set rs"
proof
  assume "fresh_id rs \<in> pr_id ` set rs"
  then obtain r where r: "r \<in> set rs" "length (pr_id r) = length (fresh_id rs)" by auto
  then have "length (pr_id r) \<le> sum_list (map (length \<circ> pr_id) rs)"
    using member_le_sum_list[of "length (pr_id r)" "map (length \<circ> pr_id) rs"] by force
  then show False using r(2) by (simp add: fresh_id_def)
qed

lemma hundredths_round: "h < 10000 \<Longrightarrow> nat (round (dbl (of_nat h / 100) * 100)) = h"
proof -
  assume h: "h < 10000"
  have "\<bar>dbl (of_nat h / 100) - of_nat h / 100\<bar> \<le> (of_nat h / 100) * ulp53"
    using dbl_relerr[of "of_nat h / 100"] by simp
  also have "\<dots> \<le> 100 * ulp53" using h by (intro mult_right_mono) simp_all
  also have "\<dots> < 1 / 1000" by simp
  finally have close: "\<bar>dbl (of_nat h / 100) - of_nat h / 100\<bar> < 1 / 1000" .
  have near: "dbl (of_nat h / 100) < of_nat h / 100 + 1 / 1000" "of_nat h / 100 - 1 / 1000 < dbl (of_nat h / 100)"
    using close unfolding abs_less_iff by linarith+
  have "round (dbl (of_nat h / 100) * 100) = int h"
  proof (rule round_unique)
    show "dbl (of_nat h / 100) * 100 - 1 / 2 < of_int (int h)" using near(1) by simp
    show "of_int (int h) \<le> dbl (of_nat h / 100) * 100 + 1 / 2" using near(2) by simp
  qed
  then show ?thesis by simp
qed

lemma insert_texts: "enabled_policies_text \<noteq> policy_by_id_text" "insert_policy_text \<noteq> policy_by_id_text" "insert_policy_text \<noteq> enabled_policies_text"
  by (simp_all add: enabled_policies_text_def policy_by_id_text_def insert_policy_text_def)

interpretation documented_policies: policy_table policy_list_db fst snd
proof unfold_locales
  fix d :: policy_list
  show "snd d \<Longrightarrow> \<exists>n d'. run_state (query_policies policy_list_db enabled_policies_text []) d
        = (Inr \<lparr>rows = sort_key (\<lambda>r. - pr_priority r) (filter pr_enabled (fst d)), rowCount = n\<rparr>, d') \<and> fst d' = fst d"
    and "\<not> snd d \<Longrightarrow> \<exists>e d'. run_state (query_policies policy_list_db enabled_policies_text []) d = (Inl e, d') \<and> fst d' = fst d"
    by (cases d; simp add: policy_list_db_def)+
  show "snd d \<Longrightarrow> \<exists>n d'. run_state (query_policies policy_list_db policy_by_id_text [JStr i]) d
        = (Inr \<lparr>rows = filter (\<lambda>r. pr_id r = i) (fst d), rowCount = n\<rparr>, d') \<and> fst d' = fst d" for i
    by (cases d) (auto simp: policy_list_db_def insert_texts insert_texts(1)[symmetric] eq_commute[of i])
  fix t m :: string and tpm rpm slots depth lease prio :: int and h :: nat and mode en
  assume up: "snd d" and bounds: "within_columns t m tpm rpm slots depth lease h prio"
    and new: "\<forall>r \<in> set (fst d). \<not> (pr_tenant_pattern r = t \<and> pr_model_pattern r = m)"
  have h: "nat (round (dbl (of_nat h / 100) * 100)) = h" using bounds by (intro hundredths_round) (simp add: within_columns_def)
  have "inserted (fst d) (policy_values t m tpm rpm slots depth lease mode h prio en)
      = Some (row_of (fresh_id (fst d)) t m tpm rpm slots depth lease mode h prio en)"
    using new by (auto simp: inserted_def policy_values_def h split: row_mode.splits)
  then show "\<exists>i n d'. run_state (query_policies policy_list_db insert_policy_text (policy_values t m tpm rpm slots depth lease mode h prio en)) d
          = (Inr \<lparr>rows = [row_of i t m tpm rpm slots depth lease mode h prio en], rowCount = n\<rparr>, d')
        \<and> i \<notin> pr_id ` set (fst d) \<and> snd d' \<and> fst d' = fst d @ [row_of i t m tpm rpm slots depth lease mode h prio en]"
    using up fresh_id_new[of "fst d"]
    by (cases d) (simp add: policy_list_db_def insert_texts exI[of _ "fresh_id (fst d)"])
qed


text \<open>The bounds of an input, with the defaults of what it leaves out.\<close>

definition storable :: "CreatePolicyInput \<Rightarrow> nat \<Rightarrow> bool" where
  "storable input h \<longleftrightarrow>
     within_columns (in_tenantPattern input) (in_modelPattern input) (or_default (in_tokensPerMinute input) 100000)
       (or_default (in_requestsPerMinute input) 600) (or_default (in_maxConcurrency input) 16)
       (or_default (in_maxQueueDepth input) 64) (or_default (in_leaseSeconds input) 120) h (or_default (in_priority input) 100)
     \<and> or_default (in_tokensPerMinute input) 100000 \<le> 2 ^ 53
     \<and> or_default (in_reservationSafetyFactor input) (3 / 2) = dbl (of_nat h / 100)"

definition asked_policy :: "CreatePolicyInput \<Rightarrow> string \<Rightarrow> StoredPolicy" where
  "asked_policy input i =
     AdmissionPolicy.extend
       \<lparr>pol_tenant = in_tenantPattern input, pol_model = in_modelPattern input,
        pol_scope = in_tenantPattern input @ ''|'' @ in_modelPattern input,
        tokensPerMinute = or_default (in_tokensPerMinute input) 100000,
        requestsPerMinute = or_default (in_requestsPerMinute input) 600,
        maxConcurrency = or_default (in_maxConcurrency input) 16, maxQueueDepth = or_default (in_maxQueueDepth input) 64,
        leaseSeconds = or_default (in_leaseSeconds input) 120, reservationMode = or_default (in_reservationMode input) worst_case,
        reservationSafetyFactor = or_default (in_reservationSafetyFactor input) (3 / 2),
        pol_enabled = or_default (in_enabled input) True\<rparr>
       (StoredPolicy.fields i (in_tenantPattern input) (in_modelPattern input) (or_default (in_priority input) 100))"

definition row_mode_of :: "ReservationMode \<Rightarrow> row_mode" where
  "row_mode_of m = (case m of worst_case \<Rightarrow> mode_worst_case | adaptive \<Rightarrow> mode_adaptive)"

lemma insert_policy_values_eq:
  assumes "storable input h"
  shows "insert_policy_values input = policy_values (in_tenantPattern input) (in_modelPattern input)
     (or_default (in_tokensPerMinute input) 100000) (or_default (in_requestsPerMinute input) 600)
     (or_default (in_maxConcurrency input) 16) (or_default (in_maxQueueDepth input) 64) (or_default (in_leaseSeconds input) 120)
     (row_mode_of (or_default (in_reservationMode input) worst_case)) h (or_default (in_priority input) 100) (or_default (in_enabled input) True)"
  using assms by (simp add: insert_policy_values_def policy_values_def Let_def DEFAULT_POLICY_def storable_def row_mode_of_def mode_value_def
      split: ReservationMode.split)

lemma toPolicy_row_of:
  assumes "0 < tpm" "tpm \<le> 2 ^ 53"
  shows "toPolicy (row_of i t m tpm rpm slots depth lease mode h prio en) =
    AdmissionPolicy.extend
       \<lparr>pol_tenant = t, pol_model = m, pol_scope = t @ ''|'' @ m, tokensPerMinute = tpm, requestsPerMinute = rpm,
        maxConcurrency = slots, maxQueueDepth = depth, leaseSeconds = lease, reservationMode = reservation_mode mode,
        reservationSafetyFactor = dbl (of_nat h / 100), pol_enabled = en\<rparr>
       (StoredPolicy.fields i t m prio)"
proof -
  have "Number (string_of_int tpm) = of_int tpm"
    using assms dbl_of_int[of tpm] by (simp add: string_of_int_def Number_of_nat)
  then show ?thesis
    by (simp add: toPolicy_def row_of_def Number_numeric AdmissionPolicy.defs StoredPolicy.defs)
qed

text \<open>
  A policy reads back as it was asked for: creating one within the bounds of the columns, for
  a scope no policy has, returns the numbers of the request, with the defaults for those it
  leaves out, although the driver hands them over as text; and reading the id that the answer
  carries gives the same policy.
\<close>

theorem created_policy_reads_back:
  assumes table: "policy_table db policy_rows reachable" and up: "reachable d" and ok: "storable input h"
    and new: "\<forall>r \<in> set (policy_rows d). \<not> (pr_tenant_pattern r = in_tenantPattern input \<and> pr_model_pattern r = in_modelPattern input)"
  shows "\<exists>i d' d''. run_state (create_policy db input) d = (Inr (asked_policy input i), d')
    \<and> run_state (find_policy_by_id db i) d' = (Inr (Some (asked_policy input i)), d'')
    \<and> i \<notin> pr_id ` set (policy_rows d) \<and> length (policy_rows d'') = Suc (length (policy_rows d))"
proof -
  let ?row = "\<lambda>i. row_of i (in_tenantPattern input) (in_modelPattern input)
     (or_default (in_tokensPerMinute input) 100000) (or_default (in_requestsPerMinute input) 600)
     (or_default (in_maxConcurrency input) 16) (or_default (in_maxQueueDepth input) 64) (or_default (in_leaseSeconds input) 120)
     (row_mode_of (or_default (in_reservationMode input) worst_case)) h (or_default (in_priority input) 100) (or_default (in_enabled input) True)"
  have bounds: "within_columns (in_tenantPattern input) (in_modelPattern input) (or_default (in_tokensPerMinute input) 100000)
       (or_default (in_requestsPerMinute input) 600) (or_default (in_maxConcurrency input) 16)
       (or_default (in_maxQueueDepth input) 64) (or_default (in_leaseSeconds input) 120) h (or_default (in_priority input) 100)"
    using ok by (simp add: storable_def)
  obtain i n d' where ins: "run_state (query_policies db insert_policy_text (insert_policy_values input)) d = (Inr \<lparr>rows = [?row i], rowCount = n\<rparr>, d')"
      "i \<notin> pr_id ` set (policy_rows d)" "reachable d'" "policy_rows d' = policy_rows d @ [?row i]"
    using policy_table.insert_policy[OF table up bounds new] unfolding insert_policy_values_eq[OF ok] by blast
  have policy: "toPolicy (?row i) = asked_policy input i"
    using ok by (subst toPolicy_row_of)
      (auto simp: storable_def within_columns_def asked_policy_def row_mode_of_def reservation_mode_def split: ReservationMode.split)
  have "filter (\<lambda>r. pr_id r = i) (policy_rows d) = []" using ins(2) by (auto simp: filter_empty_conv)
  then have found: "filter (\<lambda>r. pr_id r = i) (policy_rows d') = [?row i]" by (simp add: ins(4) row_of_def)
  obtain n' d'' where read: "run_state (query_policies db policy_by_id_text [JStr i]) d' = (Inr \<lparr>rows = [?row i], rowCount = n'\<rparr>, d'')"
      "policy_rows d'' = policy_rows d'"
    using policy_table.policy_by_id[OF table ins(3), of i] unfolding found by blast
  have "run_state (create_policy db input) d = (Inr (asked_policy input i), d')"
    using ins(1) by (simp add: create_policy_def first_policy_def policy)
  moreover have "run_state (find_policy_by_id db i) d' = (Inr (Some (asked_policy input i)), d'')"
    using read(1) by (simp add: find_policy_by_id_def first_policy_def policy)
  ultimately show ?thesis using ins(2,4) read(2) by auto
qed

definition example_input :: CreatePolicyInput where
  "example_input = \<lparr>in_tenantPattern = ''acme'', in_modelPattern = ''*'', in_tokensPerMinute = Some 5000, in_requestsPerMinute = None,
     in_maxConcurrency = None, in_maxQueueDepth = None, in_leaseSeconds = None, in_reservationMode = Some adaptive,
     in_reservationSafetyFactor = Some (dbl (of_nat 125 / 100)), in_priority = None, in_enabled = None\<rparr>"

lemma created_policy_reads_back_witness:
  "\<exists>i d' d''. run_state (create_policy policy_list_db example_input) ([], True) = (Inr (asked_policy example_input i), d')
    \<and> run_state (find_policy_by_id policy_list_db i) d' = (Inr (Some (asked_policy example_input i)), d'')"
proof -
  have "storable example_input 125" by (simp add: storable_def example_input_def within_columns_def)
  from created_policy_reads_back[OF documented_policies.policy_table_axioms _ this, of "([], True)"] show ?thesis by fastforce
qed

end
