(* ===== verification/Pattern.thy ===== *)
theory Pattern
  imports Prelude
begin

text \<open>
  \<^verbatim>\<open>src/utils/pattern.ts\<close>: the globs and regular expressions of rules and policies. The
  regular expression engine is a parameter: \<open>new_RegExp\<close> is \<^verbatim>\<open>new RegExp(source)\<close>, \<open>None\<close>
  where it throws, and \<open>regex_test\<close> is \<^verbatim>\<open>regex.test(value)\<close>. The guard against nested
  quantifiers, the compilation of a glob to the source of an expression and the bounded
  cache of compiled expressions are the program's own.
\<close>

section \<open>The guard against backtracking\<close>

text \<open>\<^verbatim>\<open>/^\{\d+,/.test(s)\<close>\<close>

definition brace_quantifier :: "string \<Rightarrow> bool" where
  "brace_quantifier s =
     (case s of
        [] \<Rightarrow> False
      | c # r \<Rightarrow> c = CHR ''{'' \<and> takeWhile digit_char r \<noteq> [] \<and>
                 (case dropWhile digit_char r of [] \<Rightarrow> False | d # _ \<Rightarrow> d = CHR '',''))"

function scan_from :: "string \<Rightarrow> bool \<Rightarrow> nat \<Rightarrow> bool \<Rightarrow> bool" where
  "scan_from text alsoAlternation i inClass =
     (if i < length text
      then (let ch = text ! i in
        if ch = CHR 0x5C then scan_from text alsoAlternation (i + 2) inClass
        else if inClass then scan_from text alsoAlternation (i + 1) (ch \<noteq> CHR '']'')
        else if ch = CHR ''['' then scan_from text alsoAlternation (i + 1) True
        else if ch = CHR ''*'' \<or> ch = CHR ''+'' then True
        else if ch = CHR ''{'' \<and> brace_quantifier (drop i text) then True
        else if alsoAlternation \<and> ch = CHR ''|'' then True
        else scan_from text alsoAlternation (i + 1) inClass)
      else False)"
  by pat_completeness auto
termination by (relation "measure (\<lambda>(text, _, i, _). length text - i)") auto

declare scan_from.simps [simp del]

definition scanForQuantifier :: "string \<Rightarrow> bool \<Rightarrow> bool" where
  "scanForQuantifier text alsoAlternation = scan_from text alsoAlternation 0 False"

text \<open>\<^verbatim>\<open>source.slice(a, b)\<close> and the character after a closing parenthesis.\<close>

definition slice :: "string \<Rightarrow> nat \<Rightarrow> nat \<Rightarrow> string" where
  "slice s a b = take (b - a) (drop a s)"

definition quantified_at :: "string \<Rightarrow> nat \<Rightarrow> bool" where
  "quantified_at source i =
     (i + 1 < length source \<and>
      (source ! (i + 1) = CHR ''*'' \<or> source ! (i + 1) = CHR ''+'' \<or>
       (source ! (i + 1) = CHR ''{'' \<and> brace_quantifier (drop (i + 1) source))))"

function nested_from :: "string \<Rightarrow> nat \<Rightarrow> bool \<Rightarrow> nat list \<Rightarrow> bool" where
  "nested_from source i inClass opens =
     (if i < length source
      then (let ch = source ! i in
        if ch = CHR 0x5C then nested_from source (i + 2) inClass opens
        else if inClass then nested_from source (i + 1) (ch \<noteq> CHR '']'') opens
        else if ch = CHR ''['' then nested_from source (i + 1) True opens
        else if ch = CHR ''('' then nested_from source (i + 1) inClass (i # opens)
        else if ch \<noteq> CHR '')'' then nested_from source (i + 1) inClass opens
        else (case opens of
          [] \<Rightarrow> nested_from source (i + 1) inClass []
        | start # opens' \<Rightarrow>
            if quantified_at source i \<and> scanForQuantifier (slice source (start + 1) i) True then True
            else nested_from source (i + 1) inClass opens'))
      else False)"
  by pat_completeness auto
termination by (relation "measure (\<lambda>(source, i, _, _). length source - i)") auto

declare nested_from.simps [simp del]

definition hasNestedQuantifier :: "string \<Rightarrow> bool" where
  "hasNestedQuantifier source = nested_from source 0 False []"

section \<open>Compiling\<close>

definition regex_metachar :: "char \<Rightarrow> bool" where
  "regex_metachar c \<longleftrightarrow> c \<in> set ''.*+?^${}()|[]'' \<or> c = CHR 0x5C"

definition glob_char :: "char \<Rightarrow> string" where
  "glob_char ch =
     (if ch = CHR ''*'' then ''.*''
      else if ch = CHR ''?'' then ''.''
      else if regex_metachar ch then [CHR 0x5C, ch] else [ch])"

definition glob_source :: "string \<Rightarrow> string" where
  "glob_source pattern = ''^'' @ concat (map glob_char pattern) @ ''$''"

definition regex_form :: "string \<Rightarrow> bool" where
  "regex_form pattern \<longleftrightarrow> 2 < length pattern \<and> hd pattern = CHR ''/'' \<and> last pattern = CHR ''/''"

definition compiled_glob :: "(string \<Rightarrow> 're option) \<Rightarrow> string \<Rightarrow> 're option" where
  "compiled_glob new_RegExp pattern =
     (if regex_form pattern then new_RegExp (butlast (tl pattern))
      else if CHR ''*'' \<in> set pattern \<or> CHR ''?'' \<in> set pattern then new_RegExp (glob_source pattern)
      else None)"

definition compiled_raw :: "(string \<Rightarrow> 're option) \<Rightarrow> string \<Rightarrow> 're option" where
  "compiled_raw new_RegExp source = (if hasNestedQuantifier source then None else new_RegExp source)"

section \<open>The cache\<close>

type_synonym 're regex_cache = "(string \<times> 're option) list"

definition MAX_CACHE :: nat where "MAX_CACHE = 1000"
definition MAX_SUBJECT :: nat where "MAX_SUBJECT = 256"

definition through_cache :: "string \<Rightarrow> 're option \<Rightarrow> ('re regex_cache, 're option) state" where
  "through_cache key regex = State (\<lambda>cache.
     case map_of cache key of
       Some cached \<Rightarrow> (cached, cache)
     | None \<Rightarrow> (regex, AList.update key regex (if MAX_CACHE \<le> length cache then [] else cache)))"

definition compileRaw :: "(string \<Rightarrow> 're option) \<Rightarrow> string \<Rightarrow> ('re regex_cache, 're option) state" where
  "compileRaw new_RegExp source = through_cache (''raw'' @ [CHR 0x00] @ source) (compiled_raw new_RegExp source)"

definition compile :: "(string \<Rightarrow> 're option) \<Rightarrow> string \<Rightarrow> ('re regex_cache, 're option) state" where
  "compile new_RegExp pattern = through_cache (''glob'' @ [CHR 0x00] @ pattern) (compiled_glob new_RegExp pattern)"

definition matchRegex ::
    "(string \<Rightarrow> 're option) \<Rightarrow> ('re \<Rightarrow> string \<Rightarrow> bool) \<Rightarrow> string \<Rightarrow> string \<Rightarrow> ('re regex_cache, bool) state" where
  "matchRegex new_RegExp regex_test subject source = do {
     regex \<leftarrow> compileRaw new_RegExp source;
     State_Monad.return (case regex of
         None \<Rightarrow> False
       | Some r \<Rightarrow> regex_test r (if MAX_SUBJECT < length subject then take MAX_SUBJECT subject else subject))
   }"

definition matchPattern ::
    "(string \<Rightarrow> 're option) \<Rightarrow> ('re \<Rightarrow> string \<Rightarrow> bool) \<Rightarrow> string \<Rightarrow> string option \<Rightarrow> ('re regex_cache, bool) state" where
  "matchPattern new_RegExp regex_test subject pattern =
     (case pattern of
        None \<Rightarrow> State_Monad.return True
      | Some p \<Rightarrow>
          if p = [] \<or> p = ''*'' then State_Monad.return True
          else if subject = p then State_Monad.return True
          else do {
            regex \<leftarrow> compile new_RegExp p;
            State_Monad.return (case regex of None \<Rightarrow> False | Some r \<Rightarrow> regex_test r subject)
          })"

section \<open>What the guard rejects\<close>

lemma nth_avoids: "c \<notin> set xs \<Longrightarrow> k < length xs \<Longrightarrow> xs ! k \<noteq> c"
  by (metis nth_mem)

lemma scan_finds:
  assumes "i \<le> j" "j < length text" "text ! j \<in> {CHR ''*'', CHR ''+'', CHR ''|''}"
    and "\<forall>k < length text. text ! k \<noteq> CHR 0x5C \<and> text ! k \<noteq> CHR ''[''"
  shows "scan_from text True i False"
  using assms(1)
proof (induction "j - i" arbitrary: i)
  case 0
  then have "i = j" by simp
  then show ?case using assms by (subst scan_from.simps) (auto simp: Let_def)
next
  case (Suc n)
  then have i: "i < length text" and step: "n = j - (i + 1)" "i + 1 \<le> j" using assms(2) by auto
  then show ?case using Suc.hyps(1)[OF step] assms(4) by (subst scan_from.simps) (simp add: Let_def)
qed

lemma nested_skip:
  assumes "i \<le> j" "j \<le> length source"
    and "\<forall>k. i \<le> k \<and> k < j \<longrightarrow> source ! k \<noteq> CHR 0x5C \<and> source ! k \<noteq> CHR ''[''"
  shows "nested_from source i False opens \<or> (\<exists>opens'. nested_from source i False opens = nested_from source j False opens')"
  using assms
proof (induction "j - i" arbitrary: i opens)
  case (Suc n)
  then have step: "n = j - (i + 1)" "i + 1 \<le> j" "\<forall>k. i + 1 \<le> k \<and> k < j \<longrightarrow> source ! k \<noteq> CHR 0x5C \<and> source ! k \<noteq> CHR ''[''"
    and here: "i < length source" "source ! i \<noteq> CHR 0x5C" "source ! i \<noteq> CHR ''[''"
    by auto
  note IH = Suc.hyps(1)[OF step(1,2) Suc.prems(2) step(3)]
  show ?case
    using here IH by (subst (1 2) nested_from.simps) (auto simp: Let_def split: list.splits)
qed auto

lemma nested_skip_plain:
  assumes "i \<le> j" "j \<le> length source"
    and "\<forall>k. i \<le> k \<and> k < j \<longrightarrow> source ! k \<notin> {CHR 0x5C, CHR ''['', CHR ''('', CHR '')''}"
  shows "nested_from source i False opens = nested_from source j False opens"
  using assms
proof (induction "j - i" arbitrary: i)
  case (Suc n)
  then have step: "n = j - (i + 1)" "i + 1 \<le> j" "\<forall>k. i + 1 \<le> k \<and> k < j \<longrightarrow> source ! k \<notin> {CHR 0x5C, CHR ''['', CHR ''('', CHR '')''}"
    and here: "i < length source" "source ! i \<notin> {CHR 0x5C, CHR ''['', CHR ''('', CHR '')''}"
    by auto
  show ?case
    using here Suc.hyps(1)[OF step(1,2) Suc.prems(2) step(3)] by (subst nested_from.simps) (simp add: Let_def)
qed simp

lemma nested_only_quantified:
  assumes none: "\<And>j. j < length source \<Longrightarrow> source ! j = CHR '')'' \<Longrightarrow> \<not> quantified_at source j"
  shows "\<not> nested_from source i inClass opens"
proof (induction "length source - i" arbitrary: i inClass opens rule: less_induct)
  case less
  have IH: "\<not> nested_from source i' inClass' opens'" if "i < length source" "i < i'" for i' inClass' opens'
    using that by (intro less.hyps) simp
  show ?case
  proof (cases "i < length source")
    case True
    show ?thesis
      using True none[OF True] by (subst nested_from.simps) (simp add: Let_def IH[OF True] split: list.split)
  qed (simp add: nested_from.simps)
qed

lemma nested_group_caught:
  assumes a: "CHR 0x5C \<notin> set before \<and> CHR ''['' \<notin> set before
       \<and> set grp \<inter> {CHR 0x5C, CHR ''['', CHR ''('', CHR '')''} = {} \<and> set grp \<inter> {CHR ''*'', CHR ''+'', CHR ''|''} \<noteq> {}
       \<and> q \<in> {CHR ''*'', CHR ''+''}"
  shows "hasNestedQuantifier (before @ ''('' @ grp @ '')'' @ q # after)"
proof -
  let ?s = "before @ ''('' @ grp @ '')'' @ q # after" and ?i = "length before" and ?j = "length before + 1 + length grp"
  have pre: "?s ! k \<noteq> CHR 0x5C \<and> ?s ! k \<noteq> CHR ''[''" if "k < ?i" for k
    using that a by (simp add: nth_append nth_avoids)
  have opened: "?s ! ?i = CHR ''(''" and closing: "?s ! ?j = CHR '')''" and follow: "?s ! (?j + 1) = q"
    by (simp_all add: nth_append)
  have "?s ! k \<in> set grp" if "?i + 1 \<le> k" "k < ?j" for k
  proof -
    have "?s ! k = grp ! (k - (?i + 1))" using that by (auto simp: nth_append nth_Cons')
    then show ?thesis using that by (metis add.commute less_diff_conv2 nth_mem)
  qed
  then have plain: "?s ! k \<notin> {CHR 0x5C, CHR ''['', CHR ''('', CHR '')''}" if "?i + 1 \<le> k \<and> k < ?j" for k
    using that a by blast
  have sub: "slice ?s (?i + 1) ?j = grp" by (simp add: slice_def)
  have "set grp \<inter> {CHR ''*'', CHR ''+'', CHR ''|''} \<noteq> {}" using a by blast
  then obtain m where m: "m < length grp" "grp ! m \<in> {CHR ''*'', CHR ''+'', CHR ''|''}"
    by (auto simp: in_set_conv_nth)
  have "grp ! k \<noteq> CHR 0x5C \<and> grp ! k \<noteq> CHR ''[''" if "k < length grp" for k
    using that a by (intro conjI nth_avoids) auto
  then have scan: "scanForQuantifier grp True"
    unfolding scanForQuantifier_def using m by (intro scan_finds[where j = m]) auto
  have caught: "nested_from ?s ?i False opens" for opens
  proof -
    have "nested_from ?s ?i False opens = nested_from ?s (?i + 1) False (?i # opens)"
      using opened by (subst nested_from.simps) (simp add: Let_def)
    also have "\<dots> = nested_from ?s ?j False (?i # opens)"
      using plain by (intro nested_skip_plain) auto
    also have "\<dots>"
      using closing follow scan a sub by (subst nested_from.simps) (auto simp add: Let_def quantified_at_def)
    finally show ?thesis .
  qed
  show ?thesis
    using nested_skip[of 0 ?i ?s "[]"] pre caught by (auto simp: hasNestedQuantifier_def)
qed



section \<open>Globs\<close>

text \<open>
  What a glob means: a star stands for any run of characters within a line, a question mark
  for one, and every other character for itself.
\<close>

definition line_break :: "char \<Rightarrow> bool" where
  "line_break c \<longleftrightarrow> c = CHR 0x0A \<or> c = CHR 0x0D"

fun glob_matches :: "string \<Rightarrow> string \<Rightarrow> bool" where
  "glob_matches [] s = (s = [])"
| "glob_matches (p # ps) [] = (p = CHR ''*'' \<and> glob_matches ps [])"
| "glob_matches (p # ps) (c # s) =
     (if p = CHR ''*'' then glob_matches ps (c # s) \<or> (\<not> line_break c \<and> glob_matches (p # ps) s)
      else if p = CHR ''?'' then \<not> line_break c \<and> glob_matches ps s
      else p = c \<and> glob_matches ps s)"

text \<open>
  The expressions a glob compiles to are sequences of atoms between anchors. \<open>read_atoms\<close> reads
  the text of such a sequence as the grammar of regular expressions does: an unescaped
  metacharacter other than a dot is not an atom. \<open>atoms_match\<close> is what the sequence matches.
\<close>

datatype atom = AnyRun | AnyChar | Literal char

fun read_atoms :: "string \<Rightarrow> atom list option" where
  "read_atoms [] = Some []"
| "read_atoms [c] =
     (if c = CHR ''.'' then Some [AnyChar] else if regex_metachar c then None else Some [Literal c])"
| "read_atoms (c # d # s) =
     (if c = CHR ''.'' \<and> d = CHR ''*'' then map_option (Cons AnyRun) (read_atoms s)
      else if c = CHR ''.'' then map_option (Cons AnyChar) (read_atoms (d # s))
      else if c = CHR 0x5C then (if regex_metachar d then map_option (Cons (Literal d)) (read_atoms s) else None)
      else if regex_metachar c then None
      else map_option (Cons (Literal c)) (read_atoms (d # s)))"

fun atoms_match :: "atom list \<Rightarrow> string \<Rightarrow> bool" where
  "atoms_match [] s = (s = [])"
| "atoms_match (AnyRun # as) [] = atoms_match as []"
| "atoms_match (AnyRun # as) (c # s) = (atoms_match as (c # s) \<or> (\<not> line_break c \<and> atoms_match (AnyRun # as) s))"
| "atoms_match (AnyChar # as) s = (case s of [] \<Rightarrow> False | c # s' \<Rightarrow> \<not> line_break c \<and> atoms_match as s')"
| "atoms_match (Literal a # as) s = (case s of [] \<Rightarrow> False | c # s' \<Rightarrow> a = c \<and> atoms_match as s')"

text \<open>
  The contract of the engine for anchored sequences of atoms: it accepts their text, and the
  expression tests true exactly for what the sequence matches.
\<close>

locale regexp_engine =
  fixes new_RegExp :: "string \<Rightarrow> 're option" and regex_test :: "'re \<Rightarrow> string \<Rightarrow> bool"
  assumes anchored: "read_atoms t = Some as \<Longrightarrow> \<exists>r. new_RegExp (''^'' @ t @ ''$'') = Some r \<and> (\<forall>s. regex_test r s = atoms_match as s)"
begin

end

text \<open>An engine that knows these expressions and no others meets the contract.\<close>

definition atoms_RegExp :: "string \<Rightarrow> atom list option" where
  "atoms_RegExp t =
     (if 2 \<le> length t \<and> hd t = CHR ''^'' \<and> last t = CHR ''$'' then read_atoms (butlast (tl t)) else None)"

interpretation atoms_engine: regexp_engine atoms_RegExp atoms_match
  by unfold_locales (simp add: atoms_RegExp_def butlast_append)

definition atom_of :: "char \<Rightarrow> atom" where
  "atom_of c = (if c = CHR ''*'' then AnyRun else if c = CHR ''?'' then AnyChar else Literal c)"

lemma read_atoms_dot: "s = [] \<or> hd s \<noteq> CHR ''*'' \<Longrightarrow> read_atoms (CHR ''.'' # s) = map_option (Cons AnyChar) (read_atoms s)"
  by (cases s) simp_all

lemma read_atoms_plain: "\<not> regex_metachar c \<Longrightarrow> read_atoms (c # s) = map_option (Cons (Literal c)) (read_atoms s)"
  by (cases s) (auto simp: regex_metachar_def)

lemma glob_text_head: "concat (map glob_char p) = [] \<or> hd (concat (map glob_char p)) \<noteq> CHR ''*''"
  by (cases p) (auto simp: glob_char_def regex_metachar_def)

lemma read_atoms_glob:
  "read_atoms (concat (map glob_char pattern)) = Some (map atom_of pattern)"
proof (induction pattern)
  case (Cons c p)
  consider (star) "c = CHR ''*''" | (any) "c = CHR ''?''"
    | (meta) "regex_metachar c" "c \<noteq> CHR ''*''" "c \<noteq> CHR ''?''" | (plain) "\<not> regex_metachar c"
    by blast
  then show ?case
  proof cases
    case star
    then show ?thesis using Cons by (simp add: glob_char_def atom_of_def)
  next
    case any
    then have "glob_char c = ''.''" "atom_of c = AnyChar" by (simp_all add: glob_char_def atom_of_def)
    then show ?thesis using Cons read_atoms_dot[OF glob_text_head[of p]] by simp
  next
    case meta
    then show ?thesis using Cons by (simp add: glob_char_def atom_of_def)
  next
    case plain
    then have "c \<noteq> CHR ''*''" "c \<noteq> CHR ''?''" by (auto simp: regex_metachar_def)
    with plain show ?thesis using Cons by (simp add: glob_char_def atom_of_def read_atoms_plain)
  qed
qed simp

fun atom_char :: "atom \<Rightarrow> char" where
  "atom_char AnyRun = CHR ''*''"
| "atom_char AnyChar = CHR ''?''"
| "atom_char (Literal c) = c"

text \<open>
  The escaping is faithful: the text compiled from a glob reads back, in the grammar of
  regular expressions, as one atom for each of its characters, a star as a run, a question
  mark as any character, and every other character, metacharacters of expressions included,
  as itself; so the glob can be recovered from the compiled text, and no two globs share one.
\<close>

theorem glob_source_reads_back:
  "read_atoms (butlast (tl (glob_source pattern))) = Some (map atom_of pattern)
   \<and> map_option (map atom_char) (read_atoms (butlast (tl (glob_source pattern)))) = Some pattern"
proof -
  have "atom_char (atom_of c) = c" for c by (simp add: atom_of_def)
  then show ?thesis by (simp add: glob_source_def butlast_append read_atoms_glob o_def)
qed

lemma atoms_match_glob: "atoms_match (map atom_of p) s = glob_matches p s"
proof (induction p s rule: glob_matches.induct)
  case (2 p ps)
  then show ?case by (simp add: atom_of_def)
next
  case (3 p ps c s)
  then show ?case by (auto simp: atom_of_def)
qed simp

context regexp_engine
begin

lemma glob_compiles: "\<exists>r. new_RegExp (glob_source p) = Some r \<and> (\<forall>s. regex_test r s = glob_matches p s)"
  using anchored[OF read_atoms_glob] by (simp add: glob_source_def atoms_match_glob)

end

lemma glob_matches_plain:
  "CHR ''*'' \<notin> set p \<Longrightarrow> CHR ''?'' \<notin> set p \<Longrightarrow> glob_matches p s \<longleftrightarrow> s = p"
  by (induction p s rule: glob_matches.induct) auto

lemma glob_star: "glob_matches ps s \<Longrightarrow> glob_matches (CHR ''*'' # ps) s"
  by (cases s) simp_all

lemma glob_matches_itself: "glob_matches p p"
proof (induction p)
  case (Cons c p)
  then show ?case using glob_star[OF Cons] by (auto simp: line_break_def)
qed simp

section \<open>The cache is transparent\<close>

definition pattern_matches ::
    "(string \<Rightarrow> 're option) \<Rightarrow> ('re \<Rightarrow> string \<Rightarrow> bool) \<Rightarrow> string \<Rightarrow> string option \<Rightarrow> bool" where
  "pattern_matches new_RegExp regex_test subject pattern =
     (case pattern of
        None \<Rightarrow> True
      | Some p \<Rightarrow> p = [] \<or> p = ''*'' \<or> subject = p \<or>
          (case compiled_glob new_RegExp p of None \<Rightarrow> False | Some r \<Rightarrow> regex_test r subject))"

definition regex_matches ::
    "(string \<Rightarrow> 're option) \<Rightarrow> ('re \<Rightarrow> string \<Rightarrow> bool) \<Rightarrow> string \<Rightarrow> string \<Rightarrow> bool" where
  "regex_matches new_RegExp regex_test subject source =
     (case compiled_raw new_RegExp source of None \<Rightarrow> False | Some r \<Rightarrow> regex_test r (take MAX_SUBJECT subject))"

definition entry_ok :: "(string \<Rightarrow> 're option) \<Rightarrow> string \<Rightarrow> 're option \<Rightarrow> bool" where
  "entry_ok new_RegExp key regex \<longleftrightarrow>
     (\<forall>p. key = ''glob'' @ [CHR 0x00] @ p \<longrightarrow> regex = compiled_glob new_RegExp p) \<and>
     (\<forall>s. key = ''raw'' @ [CHR 0x00] @ s \<longrightarrow> regex = compiled_raw new_RegExp s)"

definition cache_ok :: "(string \<Rightarrow> 're option) \<Rightarrow> 're regex_cache \<Rightarrow> bool" where
  "cache_ok new_RegExp cache \<longleftrightarrow>
     length cache \<le> MAX_CACHE \<and> (\<forall>key regex. map_of cache key = Some regex \<longrightarrow> entry_ok new_RegExp key regex)"

lemma cache_ok_Nil [simp]: "cache_ok new_RegExp []"
  by (simp add: cache_ok_def)

lemma length_update_le: "length (AList.update k v l) \<le> Suc (length l)"
  by (induction l) auto

lemma through_cache_runs:
  assumes ok: "cache_ok new_RegExp cache" and entry: "entry_ok new_RegExp key regex"
    and same: "\<And>r. entry_ok new_RegExp key r \<Longrightarrow> r = regex"
  shows "\<exists>cache'. run_state (through_cache key regex) cache = (regex, cache') \<and> cache_ok new_RegExp cache'"
proof (cases "map_of cache key")
  case None
  let ?base = "if MAX_CACHE \<le> length cache then [] else cache"
  have "length ?base < MAX_CACHE" by (simp add: MAX_CACHE_def)
  then have "length (AList.update key regex ?base) \<le> MAX_CACHE" using length_update_le[of key regex ?base] by linarith
  moreover have "entry_ok new_RegExp k r" if "map_of (AList.update key regex ?base) k = Some r" for k r
    using that ok entry by (auto simp: update_conv' cache_ok_def split: if_splits)
  ultimately show ?thesis using None by (simp add: through_cache_def cache_ok_def)
next
  case (Some r)
  then have "r = regex" using ok same by (simp add: cache_ok_def)
  then show ?thesis using Some ok by (simp add: through_cache_def)
qed

lemma compile_runs:
  "cache_ok new_RegExp cache \<Longrightarrow>
     \<exists>cache'. run_state (compile new_RegExp p) cache = (compiled_glob new_RegExp p, cache') \<and> cache_ok new_RegExp cache'"
  unfolding compile_def by (rule through_cache_runs) (auto simp: entry_ok_def)

lemma compileRaw_runs:
  "cache_ok new_RegExp cache \<Longrightarrow>
     \<exists>cache'. run_state (compileRaw new_RegExp p) cache = (compiled_raw new_RegExp p, cache') \<and> cache_ok new_RegExp cache'"
  unfolding compileRaw_def by (rule through_cache_runs) (auto simp: entry_ok_def)

lemma matchPattern_runs:
  assumes "cache_ok new_RegExp cache"
  shows "\<exists>cache'. run_state (matchPattern new_RegExp regex_test subject pattern) cache
      = (pattern_matches new_RegExp regex_test subject pattern, cache') \<and> cache_ok new_RegExp cache'"
  using assms compile_runs[OF assms, of "the pattern"]
  by (cases pattern) (auto simp: matchPattern_def pattern_matches_def)

lemma matchRegex_runs:
  assumes "cache_ok new_RegExp cache"
  shows "\<exists>cache'. run_state (matchRegex new_RegExp regex_test subject source) cache
      = (regex_matches new_RegExp regex_test subject source, cache') \<and> cache_ok new_RegExp cache'"
  using compileRaw_runs[OF assms, of source]
  by (auto simp: matchRegex_def regex_matches_def split: option.splits)

text \<open>
  The cache of compiled expressions is transparent and bounded. Whatever patterns and
  expressions were matched before, in any number, a match answers what it would answer with
  nothing cached, globs are never served what was compiled for an expression of the same
  text, and no more than a thousand entries are ever kept.
\<close>

theorem matching_through_the_cache:
  assumes "cache_ok new_RegExp cache"
  shows "\<exists>cache' cache''. run_state (matchPattern new_RegExp regex_test subject pattern) cache
        = (fst (run_state (matchPattern new_RegExp regex_test subject pattern) []), cache')
      \<and> run_state (matchRegex new_RegExp regex_test subject source) cache
        = (fst (run_state (matchRegex new_RegExp regex_test subject source) []), cache'')
      \<and> cache_ok new_RegExp cache' \<and> cache_ok new_RegExp cache'' \<and> length cache' \<le> 1000 \<and> length cache'' \<le> 1000"
proof -
  have bound: "length c \<le> 1000" if "cache_ok new_RegExp c" for c
    using that by (simp add: cache_ok_def MAX_CACHE_def)
  show ?thesis
    using matchPattern_runs[OF assms, of regex_test subject pattern] matchPattern_runs[OF cache_ok_Nil, of new_RegExp regex_test subject pattern]
      matchRegex_runs[OF assms, of regex_test subject source] matchRegex_runs[OF cache_ok_Nil, of new_RegExp regex_test subject source] bound
    by (metis fst_conv)
qed

lemma matching_through_the_cache_witness:
  "\<exists>cache'. run_state (matchPattern atoms_RegExp atoms_match ''abc'' (Some ''a*'')) [(''raw'' @ [CHR 0x00] @ ''a*'', None)] = (True, cache')"
proof -
  have ok: "cache_ok atoms_RegExp [(''raw'' @ [CHR 0x00] @ ''a*'', None)]"
    by (auto simp: cache_ok_def entry_ok_def MAX_CACHE_def compiled_raw_def atoms_RegExp_def)
  have "fst (run_state (matchPattern atoms_RegExp atoms_match ''abc'' (Some ''a*'')) []) = True"
    by (simp add: matchPattern_def compile_def through_cache_def compiled_glob_def regex_form_def atoms_RegExp_def
        glob_source_def glob_char_def regex_metachar_def line_break_def)
  then show ?thesis
    using matching_through_the_cache[OF ok, where regex_test = atoms_match and subject = "''abc''" and pattern = "Some ''a*''"] by auto
qed

text \<open>
  C27: A pattern that is not between slashes matches exactly what its glob means: nothing in it
  but stars and question marks is special, so a dot matches only a dot. An absent, empty or
  bare star pattern matches everything.
\<close>

theorem patterns_are_globs:
  assumes engine: "regexp_engine new_RegExp regex_test" and "cache_ok new_RegExp cache" and form: "\<not> regex_form p"
  shows "fst (run_state (matchPattern new_RegExp regex_test subject (Some p)) cache)
      \<longleftrightarrow> p = [] \<or> p = ''*'' \<or> glob_matches p subject"
proof -
  have run: "fst (run_state (matchPattern new_RegExp regex_test subject (Some p)) cache)
      = pattern_matches new_RegExp regex_test subject (Some p)"
    using matchPattern_runs[OF assms(2), of regex_test subject "Some p"] by auto
  show ?thesis
  proof (cases "CHR ''*'' \<in> set p \<or> CHR ''?'' \<in> set p")
    case True
    obtain r where "new_RegExp (glob_source p) = Some r" "\<And>s. regex_test r s = glob_matches p s"
      using regexp_engine.glob_compiles[OF engine] by blast
    then show ?thesis
      using True form glob_matches_itself by (auto simp: run pattern_matches_def compiled_glob_def)
  next
    case False
    then show ?thesis
      using form glob_matches_plain by (auto simp: run pattern_matches_def compiled_glob_def)
  qed
qed

lemma patterns_are_globs_witness:
  "fst (run_state (matchPattern atoms_RegExp atoms_match ''10.0.0.7'' (Some ''10.0.0.*'')) [])
   \<and> \<not> fst (run_state (matchPattern atoms_RegExp atoms_match ''10x0.0.7'' (Some ''10.0.0.*'')) [])"
proof -
  have "\<not> regex_form ''10.0.0.*''" by (simp add: regex_form_def)
  from patterns_are_globs[OF atoms_engine.regexp_engine_axioms cache_ok_Nil this] show ?thesis
    by (simp add: line_break_def)
qed

end
