(* ===== verification/Policy_Resolver.thy ===== *)
theory Policy_Resolver
  imports Policy_Repository Pattern
begin

text \<open>
  \<^verbatim>\<open>src/llm/policy.resolver.ts\<close>: which admission policy governs a tenant and a model. The state is
  the last policies loaded, the answers given since, the time of the load, the compiled
  patterns, and the database behind the repository. \<^verbatim>\<open>ensureLoaded\<close> has its two halves, up to the
  query and from its outcome on, as other events run in between.
\<close>

record ('d, 're) policy_resolver =
  ps_db :: 'd
  ps_patterns :: "'re regex_cache"
  policies :: "StoredPolicy list"
  resolved :: "(string \<times> AdmissionPolicy) list"
  loadedAt :: int

definition ttlMs :: int where "ttlMs = 30000"

definition NUL :: char where "NUL = CHR 0x00"

definition cache_key :: "string \<Rightarrow> string \<Rightarrow> string" where
  "cache_key tenant model = tenant @ NUL # model"

section \<open>Operations\<close>

fun first_policy_for :: "'re js_lib \<Rightarrow> string \<Rightarrow> string \<Rightarrow> StoredPolicy list \<Rightarrow> ('re regex_cache, StoredPolicy option) state" where
  "first_policy_for js tenant model [] = State_Monad.return None"
| "first_policy_for js tenant model (p # ps) = do {
     hit \<leftarrow> matchPattern (new_RegExp js) (regex_test js) tenant (Some (sp_tenantPattern p));
     hit \<leftarrow> (if hit then matchPattern (new_RegExp js) (regex_test js) model (Some (sp_modelPattern p))
            else State_Monad.return False);
     if hit then State_Monad.return (Some p) else first_policy_for js tenant model ps
   }"

definition policy_for :: "string \<Rightarrow> string \<Rightarrow> StoredPolicy option \<Rightarrow> AdmissionPolicy" where
  "policy_for tenant model match =
     (case match of
        Some p \<Rightarrow> (AdmissionPolicy.truncate p)\<lparr>pol_tenant := tenant, pol_model := model,
            pol_scope := sp_tenantPattern p @ ''|'' @ sp_modelPattern p\<rparr>
      | None \<Rightarrow> DEFAULT_POLICY tenant model ''default'')"

text \<open>The body of \<^verbatim>\<open>resolve\<close> after \<^verbatim>\<open>await this.ensureLoaded()\<close>.\<close>

definition answer_from_set :: "'re js_lib \<Rightarrow> string \<Rightarrow> string \<Rightarrow> (('d, 're) policy_resolver, AdmissionPolicy) state" where
  "answer_from_set js tenant model = State (\<lambda>st.
     case map_of (resolved st) (cache_key tenant model) of
       Some hit \<Rightarrow> (hit, st)
     | None \<Rightarrow>
         (case run_state (first_policy_for js tenant model (policies st)) (ps_patterns st) of (match, cache) \<Rightarrow>
            let policy = policy_for tenant model match
            in (policy, st\<lparr>ps_patterns := cache, resolved := AList.update (cache_key tenant model) policy (resolved st)\<rparr>)))"

definition needs_load :: "int \<Rightarrow> ('d, 're) policy_resolver \<Rightarrow> bool" where
  "needs_load now st \<longleftrightarrow> \<not> now - loadedAt st < ttlMs"

definition load_begins :: "'d database \<Rightarrow> (('d, 're) policy_resolver, js_error + StoredPolicy list) state" where
  "load_begins db = zoom ps_db (\<lambda>d. ps_db_update (\<lambda>_. d)) (findEnabledByPriority db)"

definition load_ends :: "int \<Rightarrow> js_error + StoredPolicy list \<Rightarrow> (('d, 're) policy_resolver, unit) state" where
  "load_ends now outcome = State (\<lambda>st.
     case outcome of
       Inr found \<Rightarrow> ((), st\<lparr>policies := found, resolved := [], loadedAt := now\<rparr>)
     | Inl error \<Rightarrow> ((), st\<lparr>resolved := [], loadedAt := now\<rparr>))"

definition ensureLoaded :: "'d database \<Rightarrow> int \<Rightarrow> int \<Rightarrow> (('d, 're) policy_resolver, unit) state" where
  "ensureLoaded db now later = State (\<lambda>st.
     if needs_load now st
     then (case run_state (load_begins db) st of (outcome, st') \<Rightarrow> run_state (load_ends later outcome) st')
     else ((), st))"

definition resolve :: "'d database \<Rightarrow> 're js_lib \<Rightarrow> int \<Rightarrow> int \<Rightarrow> string \<Rightarrow> string \<Rightarrow> (('d, 're) policy_resolver, AdmissionPolicy) state" where
  "resolve db js now later tenant model = do {
     ensureLoaded db now later;
     answer_from_set js tenant model
   }"

definition invalidate :: "(('d, 're) policy_resolver, unit) state" where
  "invalidate = State (\<lambda>st. ((), st\<lparr>loadedAt := 0, resolved := []\<rparr>))"

record ResolverStats =
  stat_policies :: nat
  stat_resolvedEntries :: nat
  stat_loadedAt :: "int option"
  stat_stale :: bool

definition stats_of :: "int \<Rightarrow> ('d, 're) policy_resolver \<Rightarrow> ResolverStats" where
  "stats_of now st =
     \<lparr>stat_policies = length (policies st), stat_resolvedEntries = length (resolved st),
      stat_loadedAt = (if loadedAt st = 0 then None else Some (loadedAt st)), stat_stale = needs_load now st\<rparr>"

section \<open>The answers given since the load\<close>

definition policy_matches :: "'re js_lib \<Rightarrow> string \<Rightarrow> string \<Rightarrow> StoredPolicy \<Rightarrow> bool" where
  "policy_matches js tenant model p \<longleftrightarrow>
     pattern_matches (new_RegExp js) (regex_test js) tenant (Some (sp_tenantPattern p)) \<and>
     pattern_matches (new_RegExp js) (regex_test js) model (Some (sp_modelPattern p))"

definition governing :: "'re js_lib \<Rightarrow> StoredPolicy list \<Rightarrow> string \<Rightarrow> string \<Rightarrow> AdmissionPolicy" where
  "governing js ps tenant model = policy_for tenant model (find (policy_matches js tenant model) ps)"

lemma first_policy_for_runs:
  assumes "cache_ok (new_RegExp js) cache"
  shows "\<exists>cache'. run_state (first_policy_for js tenant model ps) cache = (find (policy_matches js tenant model) ps, cache')
    \<and> cache_ok (new_RegExp js) cache'"
  using assms
proof (induction ps arbitrary: cache)
  case (Cons p ps)
  obtain c1 where c1: "run_state (matchPattern (new_RegExp js) (regex_test js) tenant (Some (sp_tenantPattern p))) cache
      = (pattern_matches (new_RegExp js) (regex_test js) tenant (Some (sp_tenantPattern p)), c1)" "cache_ok (new_RegExp js) c1"
    using matchPattern_runs[OF Cons.prems] by blast
  obtain c2 where c2: "run_state (matchPattern (new_RegExp js) (regex_test js) model (Some (sp_modelPattern p))) c1
      = (pattern_matches (new_RegExp js) (regex_test js) model (Some (sp_modelPattern p)), c2)" "cache_ok (new_RegExp js) c2"
    using matchPattern_runs[OF c1(2)] by blast
  show ?case using c1 c2 Cons.IH[OF c1(2)] Cons.IH[OF c2(2)] by (auto simp: policy_matches_def)
qed simp

text \<open>Every answer that is remembered is the one its pair called for, where its pair can be told from its key.\<close>

definition remembers :: "'re js_lib \<Rightarrow> ('d, 're) policy_resolver \<Rightarrow> bool" where
  "remembers js st \<longleftrightarrow> cache_ok (new_RegExp js) (ps_patterns st) \<and>
     (\<forall>(k, p) \<in> set (resolved st). \<exists>tenant model. k = cache_key tenant model \<and> p = governing js (policies st) tenant model)"

lemma remembers_db [simp]: "remembers js (st\<lparr>ps_db := d\<rparr>) = remembers js st"
  by (simp add: remembers_def)

definition no_NUL :: "string \<Rightarrow> bool" where
  "no_NUL s \<longleftrightarrow> NUL \<notin> set s"

lemma cache_key_own: "no_NUL tenant \<Longrightarrow> no_NUL model \<Longrightarrow> cache_key t m = cache_key tenant model \<Longrightarrow> t = tenant \<and> m = model"
  by (auto simp: cache_key_def no_NUL_def append_eq_append_conv2 append_eq_Cons_conv Cons_eq_append_conv)

lemma answer_from_set_runs:
  assumes "remembers js st"
  shows "\<exists>t m st'. run_state (answer_from_set js tenant model) st = (governing js (policies st) t m, st')
    \<and> cache_key t m = cache_key tenant model \<and> remembers js st' \<and> policies st' = policies st \<and> loadedAt st' = loadedAt st
    \<and> ps_db st' = ps_db st \<and> (map_of (resolved st) (cache_key tenant model) = None \<longrightarrow> t = tenant \<and> m = model)"
proof (cases "map_of (resolved st) (cache_key tenant model)")
  case None
  obtain cache' where look: "run_state (first_policy_for js tenant model (policies st)) (ps_patterns st)
      = (find (policy_matches js tenant model) (policies st), cache')" "cache_ok (new_RegExp js) cache'"
    using first_policy_for_runs assms unfolding remembers_def by blast
  have "remembers js (st\<lparr>ps_patterns := cache',
      resolved := AList.update (cache_key tenant model) (governing js (policies st) tenant model) (resolved st)\<rparr>)"
    using assms look(2) unfolding remembers_def by (auto dest!: subsetD[OF set_update_subset])
  then show ?thesis using None look(1) by (intro exI[of _ tenant] exI[of _ model]) (simp add: answer_from_set_def governing_def Let_def)
next
  case (Some p)
  then obtain t m where "cache_key tenant model = cache_key t m" "p = governing js (policies st) t m"
    using assms unfolding remembers_def by (fastforce dest: map_of_SomeD)
  then show ?thesis using Some assms by (intro exI[of _ t] exI[of _ m]) (simp add: answer_from_set_def)
qed


lemma answer_from_set_own:
  assumes "remembers js st" "no_NUL tenant" "no_NUL model"
  shows "\<exists>st'. run_state (answer_from_set js tenant model) st = (governing js (policies st) tenant model, st')
    \<and> remembers js st' \<and> policies st' = policies st \<and> loadedAt st' = loadedAt st \<and> ps_db st' = ps_db st"
  using answer_from_set_runs[OF assms(1), of tenant model] cache_key_own[OF assms(2,3)] by blast

section \<open>The policy the table calls for\<close>

definition eligible :: "'re js_lib \<Rightarrow> string \<Rightarrow> string \<Rightarrow> PolicyRow \<Rightarrow> bool" where
  "eligible js tenant model row \<longleftrightarrow> pr_enabled row \<and> policy_matches js tenant model (toPolicy row)"

text \<open>
  The enabled row of highest priority that matches, the one created first among equals; the
  built-in default where no enabled row matches. Rows are in the order of their creation.
\<close>

definition governed_by :: "'re js_lib \<Rightarrow> PolicyRow list \<Rightarrow> string \<Rightarrow> string \<Rightarrow> AdmissionPolicy \<Rightarrow> bool" where
  "governed_by js tbl tenant model policy \<longleftrightarrow>
     (policy = DEFAULT_POLICY tenant model ''default'' \<and> (\<forall>row \<in> set tbl. \<not> eligible js tenant model row))
     \<or> (\<exists>before row after. tbl = before @ row # after \<and> eligible js tenant model row
          \<and> policy = policy_for tenant model (Some (toPolicy row))
          \<and> (\<forall>r \<in> set before. eligible js tenant model r \<longrightarrow> pr_priority r < pr_priority row)
          \<and> (\<forall>r \<in> set after. eligible js tenant model r \<longrightarrow> pr_priority r \<le> pr_priority row))"

definition loaded_from :: "PolicyRow list \<Rightarrow> StoredPolicy list" where
  "loaded_from tbl = map toPolicy (sort_key (\<lambda>r. - pr_priority r) (filter pr_enabled tbl))"

lemma find_sort_key:
  assumes "find P (sort_key f xs) = Some x"
  shows "\<exists>as bs. xs = as @ x # bs \<and> P x \<and> (\<forall>a \<in> set as. P a \<longrightarrow> f x < f a) \<and> (\<forall>b \<in> set bs. P b \<longrightarrow> f x \<le> f b)"
proof -
  let ?zs = "filter P xs"
  have sorted: "filter P (sort_key f xs) = sort_key f ?zs" by (rule filter_sort)
  then obtain ys where ys: "sort_key f ?zs = x # ys" using assms by (auto simp: find_hd_filter split: list.splits)
  have least: "\<forall>z \<in> set ?zs. f x \<le> f z"
  proof -
    have "sorted (map f (x # ys))" using sorted_sort_key[of f ?zs] ys by simp
    then have "\<forall>z \<in> set (x # ys). f x \<le> f z" by auto
    then show ?thesis by (metis ys set_sort)
  qed
  have "filter (\<lambda>y. f y = f x) ?zs = filter (\<lambda>y. f y = f x) (x # ys)"
    using sort_key_stable[of f "f x" ?zs] ys by simp
  then have "find (\<lambda>y. P y \<and> f y = f x) xs = Some x"
    by (simp add: find_hd_filter conj_commute)
  then obtain as bs where "xs = as @ x # bs" "P x" "\<forall>a \<in> set as. \<not> (P a \<and> f a = f x)"
    using find_splits by fastforce
  then show ?thesis using least by (intro exI[of _ as] exI[of _ bs]) force
qed

lemma governing_loaded: "governed_by js tbl tenant model (governing js (loaded_from tbl) tenant model)"
proof -
  let ?f = "\<lambda>r. - pr_priority r"
  let ?P = "policy_matches js tenant model \<circ> toPolicy"
  have find: "find (policy_matches js tenant model) (loaded_from tbl) = map_option toPolicy (find ?P (sort_key ?f (filter pr_enabled tbl)))"
    unfolding loaded_from_def by (rule find_map)
  have "find ?P (sort_key ?f (filter pr_enabled tbl)) = find (eligible js tenant model) (sort_key ?f tbl)"
    unfolding find_hd_filter filter_sort[symmetric] filter_filter by (simp add: eligible_def[abs_def] comp_def conj_commute)
  then have eq: "find (policy_matches js tenant model) (loaded_from tbl) = map_option toPolicy (find (eligible js tenant model) (sort_key ?f tbl))"
    using find by simp
  show ?thesis
  proof (cases "find (eligible js tenant model) (sort_key ?f tbl)")
    case None
    then have "\<forall>row \<in> set tbl. \<not> eligible js tenant model row" by (auto simp: find_None_iff)
    then show ?thesis by (simp add: governed_by_def governing_def eq None policy_for_def)
  next
    case (Some row)
    obtain before after where "tbl = before @ row # after" "eligible js tenant model row"
        "\<forall>r \<in> set before. eligible js tenant model r \<longrightarrow> pr_priority r < pr_priority row"
        "\<forall>r \<in> set after. eligible js tenant model r \<longrightarrow> pr_priority r \<le> pr_priority row"
      using find_sort_key[OF Some] by auto
    then show ?thesis unfolding governed_by_def governing_def eq Some by (intro disjI2) auto
  qed
qed


section \<open>What a resolution answers\<close>

lemma ensureLoaded_fresh: "\<not> needs_load now st \<Longrightarrow> run_state (ensureLoaded db now later) st = ((), st)"
  by (simp add: ensureLoaded_def)

lemma ensureLoaded_loads:
  assumes table: "policy_table db policy_rows reachable" and up: "reachable (ps_db st)" and stale: "needs_load now st"
    and ok: "remembers js st"
  shows "\<exists>st'. run_state (ensureLoaded db now later) st = ((), st') \<and> policies st' = loaded_from (policy_rows (ps_db st))
    \<and> resolved st' = [] \<and> loadedAt st' = later \<and> remembers js st' \<and> policy_rows (ps_db st') = policy_rows (ps_db st)"
  using policy_table.repository_loads(1)[OF table up] stale ok
  by (auto simp: ensureLoaded_def load_begins_def load_ends_def remembers_def loaded_from_def)

lemma ensureLoaded_fails:
  assumes table: "policy_table db policy_rows reachable" and down: "\<not> reachable (ps_db st)" and stale: "needs_load now st"
    and ok: "remembers js st"
  shows "\<exists>st'. run_state (ensureLoaded db now later) st = ((), st') \<and> policies st' = policies st
    \<and> resolved st' = [] \<and> loadedAt st' = later \<and> remembers js st'"
  using policy_table.repository_loads(2)[OF table down] stale ok
  by (auto simp: ensureLoaded_def load_begins_def load_ends_def remembers_def)

lemma resolve_reads:
  assumes table: "policy_table db policy_rows reachable" and up: "reachable (ps_db st)"
    and stale: "30000 \<le> now - loadedAt st" and ok: "remembers js st" and names: "no_NUL tenant" "no_NUL model"
  shows "\<exists>policy st'. run_state (resolve db js now later tenant model) st = (policy, st')
    \<and> governed_by js (policy_rows (ps_db st)) tenant model policy"
proof -
  have "needs_load now st" using stale by (simp add: needs_load_def ttlMs_def)
  then obtain s1 where s1: "run_state (ensureLoaded db now later) st = ((), s1)" "policies s1 = loaded_from (policy_rows (ps_db st))" "remembers js s1"
    using ensureLoaded_loads[OF table up _ ok] by blast
  show ?thesis
    using answer_from_set_own[OF s1(3) names] governing_loaded[of js "policy_rows (ps_db st)" tenant model]
    by (auto simp: resolve_def s1(1,2))
qed


definition example_policy_js :: "atom list js_lib" where
  "example_policy_js = \<lparr>new_RegExp = atoms_RegExp, regex_test = atoms_match, show_number = (\<lambda>x. string_of_int \<lfloor>x\<rfloor>)\<rparr>"

definition example_policies :: "PolicyRow list" where
  "example_policies =
     [row_of ''1'' ''*'' ''*'' 100000 600 16 64 120 mode_worst_case 150 1 True,
      row_of ''2'' ''acme'' ''*'' 5000 60 4 8 30 mode_adaptive 125 50 True]"

definition example_resolver :: "bool \<Rightarrow> (policy_list, atom list) policy_resolver" where
  "example_resolver up = \<lparr>ps_db = (example_policies, up), ps_patterns = [], policies = [], resolved = [], loadedAt = 0\<rparr>"

lemma example_resolver_remembers: "remembers example_policy_js (example_resolver up)"
  by (simp add: remembers_def example_resolver_def)

lemma plain_names: "no_NUL ''acme''" "no_NUL ''m1''" "no_NUL ''beta''"
  by (simp_all add: no_NUL_def NUL_def)


text \<open>
  C18: Where the database is away, a resolution still answers: by the last policies loaded, and with the
  built-in default while none ever were. It forgets the answers given since the last load, so
  that an outage does not let them pile up, and does not ask the database again for thirty
  seconds.
\<close>

theorem resolve_serves_the_last_set:
  assumes table: "policy_table db policy_rows reachable" and down: "\<not> reachable (ps_db st)"
    and stale: "30000 \<le> now - loadedAt st" and ok: "remembers js st" and names: "no_NUL tenant" "no_NUL model"
  shows "\<exists>st'. run_state (resolve db js now later tenant model) st = (governing js (policies st) tenant model, st')
    \<and> policies st' = policies st \<and> length (resolved st') = 1 \<and> remembers js st'
    \<and> (\<forall>now'. now' - later < 30000 \<longrightarrow> \<not> needs_load now' st')
    \<and> (policies st = [] \<longrightarrow> governing js (policies st) tenant model = DEFAULT_POLICY tenant model ''default'')"
proof -
  have "needs_load now st" using stale by (simp add: needs_load_def ttlMs_def)
  then obtain s1 where s1: "run_state (ensureLoaded db now later) st = ((), s1)" "policies s1 = policies st" "resolved s1 = []"
      "loadedAt s1 = later" "remembers js s1"
    using ensureLoaded_fails[OF table down _ ok] by blast
  obtain s2 where s2: "run_state (answer_from_set js tenant model) s1 = (governing js (policies s1) tenant model, s2)"
      "remembers js s2" "policies s2 = policies s1" "loadedAt s2 = loadedAt s1"
    using answer_from_set_own[OF s1(5) names] by blast
  have "length (resolved s2) = 1"
    using s2(1) s1(3) by (auto simp: answer_from_set_def Let_def split: prod.splits)
  then show ?thesis
    using s2(2-4) s1(2,4) by (simp add: resolve_def s1(1) s2(1) needs_load_def ttlMs_def) (simp add: governing_def policy_for_def)
qed

lemma resolve_serves_the_last_set_witness:
  "\<exists>st'. run_state (resolve policy_list_db example_policy_js 50000 50010 ''acme'' ''m1'') (example_resolver False)
      = (DEFAULT_POLICY ''acme'' ''m1'' ''default'', st') \<and> length (resolved st') = 1"
proof -
  have "30000 \<le> 50000 - loadedAt (example_resolver False)" "\<not> snd (ps_db (example_resolver False))" "policies (example_resolver False) = []"
    by (simp_all add: example_resolver_def)
  from resolve_serves_the_last_set[OF documented_policies.policy_table_axioms this(2,1) example_resolver_remembers plain_names(1,2)] this(3)
  show ?thesis by fastforce
qed

text \<open>
  Two pairs of names that differ only in where a NUL stands share an answer: after the first of
  them was resolved, the other gets the first's policy, with the first's tenant, model and
  limits, until the next load.
\<close>

theorem nul_pairs_share_a_policy:
  assumes ok: "remembers js st" and fresh: "now - loadedAt st < 30000" "now' - loadedAt st < 30000"
    and new: "map_of (resolved st) (cache_key (a @ NUL # b) c) = None"
  shows "\<exists>st' st''. run_state (resolve db js now later (a @ NUL # b) c) st = (governing js (policies st) (a @ NUL # b) c, st')
    \<and> run_state (resolve db js now' later' a (b @ NUL # c)) st' = (governing js (policies st) (a @ NUL # b) c, st'')"
proof -
  have same: "cache_key a (b @ NUL # c) = cache_key (a @ NUL # b) c" by (simp add: cache_key_def)
  obtain s1 where s1: "run_state (answer_from_set js (a @ NUL # b) c) st = (governing js (policies st) (a @ NUL # b) c, s1)"
      "loadedAt s1 = loadedAt st"
    using answer_from_set_runs[OF ok, of "a @ NUL # b" c] new by blast
  have "map_of (resolved s1) (cache_key a (b @ NUL # c)) = Some (governing js (policies st) (a @ NUL # b) c)"
    using s1(1) new by (auto simp: same answer_from_set_def Let_def update_conv split: prod.splits)
  then have "run_state (answer_from_set js a (b @ NUL # c)) s1 = (governing js (policies st) (a @ NUL # b) c, s1)"
    by (simp add: answer_from_set_def)
  then show ?thesis
    using fresh s1 by (simp add: resolve_def ensureLoaded_def needs_load_def ttlMs_def)
qed

lemma nul_pairs_share_a_policy_witness:
  "\<exists>st' st''. run_state (resolve policy_list_db example_policy_js 100 100 (''acme'' @ NUL # ''x'') ''m1'') (example_resolver True)
      = (DEFAULT_POLICY (''acme'' @ NUL # ''x'') ''m1'' ''default'', st')
    \<and> run_state (resolve policy_list_db example_policy_js 200 200 ''acme'' (''x'' @ NUL # ''m1'')) st'
      = (DEFAULT_POLICY (''acme'' @ NUL # ''x'') ''m1'' ''default'', st'')"
proof -
  have "(100 :: int) - loadedAt (example_resolver True) < 30000" "(200 :: int) - loadedAt (example_resolver True) < 30000"
    "map_of (resolved (example_resolver True)) (cache_key (''acme'' @ NUL # ''x'') ''m1'') = None"
    "governing example_policy_js (policies (example_resolver True)) t m = DEFAULT_POLICY t m ''default''" for t m
    by (simp_all add: example_resolver_def governing_def policy_for_def)
  from nul_pairs_share_a_policy[OF example_resolver_remembers this(1-3), of policy_list_db 100 200] this(4) show ?thesis by simp
qed


text \<open>
  C37: An invalidation that comes while a load is in flight is lost. The load began before a change of
  the table and ends after the change's invalidation: its outcome is kept as if it were
  current, and for thirty seconds every resolution answers by the table from before the change.
\<close>

theorem invalidation_lost_in_flight:
  assumes table: "policy_table db policy_rows reachable" and up: "reachable (ps_db st)" and ok: "remembers js st"
    and names: "no_NUL tenant" "no_NUL model" and soon: "now - later < 30000"
    and begins: "run_state (load_begins db) st = (outcome, st1)"
    and written: "run_state invalidate (st1\<lparr>ps_db := changed\<rparr>) = (u, st2)"
    and ends: "run_state (load_ends later outcome) st2 = (v, st3)"
  shows "\<exists>policy st4. run_state (resolve db js now now tenant model) st3 = (policy, st4) \<and> ps_db st3 = changed
    \<and> policy = governing js (loaded_from (policy_rows (ps_db st))) tenant model
    \<and> governed_by js (policy_rows (ps_db st)) tenant model policy"
proof -
  obtain d' where "run_state (findEnabledByPriority db) (ps_db st) = (Inr (loaded_from (policy_rows (ps_db st))), d')"
    using policy_table.repository_loads(1)[OF table up] by (auto simp: loaded_from_def)
  then have outcome: "outcome = Inr (loaded_from (policy_rows (ps_db st)))" and "st1 = st\<lparr>ps_db := d'\<rparr>"
    using begins by (auto simp: load_begins_def)
  then have st1: "remembers js st1" using ok by simp
  have st3: "policies st3 = loaded_from (policy_rows (ps_db st))" "loadedAt st3 = later" "ps_db st3 = changed" "remembers js st3"
    using written ends st1 by (auto simp: invalidate_def load_ends_def outcome remembers_def)
  have fresh: "run_state (ensureLoaded db now now) st3 = ((), st3)"
    using soon st3(2) by (intro ensureLoaded_fresh) (simp add: needs_load_def ttlMs_def)
  show ?thesis
    using answer_from_set_own[OF st3(4) names] governing_loaded[of js "policy_rows (ps_db st)" tenant model] st3(3)
    by (simp add: resolve_def fresh st3(1)) blast
qed

lemma invalidation_lost_in_flight_witness:
  "\<exists>outcome st1 st2 st3 st4 policy.
     run_state (load_begins policy_list_db) (example_resolver True) = (outcome, st1)
     \<and> run_state invalidate (st1\<lparr>ps_db := ([row_of ''2'' ''acme'' ''*'' 10 60 4 8 30 mode_adaptive 125 50 True], True)\<rparr>) = ((), st2)
     \<and> run_state (load_ends 50010 outcome) st2 = ((), st3)
     \<and> run_state (resolve policy_list_db example_policy_js 80000 80000 ''acme'' ''m1'') st3 = (policy, st4) \<and> tokensPerMinute policy = 5000"
proof -
  let ?changed = "([row_of ''2'' ''acme'' ''*'' 10 60 4 8 30 mode_adaptive 125 50 True], True)"
  have up: "snd (ps_db (example_resolver True))" by (simp add: example_resolver_def)
  obtain outcome st1 where begins: "run_state (load_begins policy_list_db) (example_resolver True) = (outcome, st1)" by (metis surj_pair)
  obtain st2 where inv: "run_state invalidate (st1\<lparr>ps_db := ?changed\<rparr>) = ((), st2)" by (simp add: invalidate_def)
  obtain st3 where ends: "run_state (load_ends 50010 outcome) st2 = ((), st3)" by (cases "run_state (load_ends 50010 outcome) st2") auto
  have soon: "(80000 :: int) - 50010 < 30000" by simp
  obtain policy st4 where run: "run_state (resolve policy_list_db example_policy_js 80000 80000 ''acme'' ''m1'') st3 = (policy, st4)"
      "policy = governing example_policy_js (loaded_from example_policies) ''acme'' ''m1''"
    using invalidation_lost_in_flight[OF documented_policies.policy_table_axioms up example_resolver_remembers plain_names(1,2) soon begins inv ends]
    by (auto simp: example_resolver_def)
  have "tokensPerMinute policy = 5000"
    by (simp add: run(2) governing_def loaded_from_def example_policies_def row_of_def toPolicy_row_of[unfolded row_of_def]
        policy_matches_def pattern_matches_def policy_for_def AdmissionPolicy.defs StoredPolicy.defs)
  then show ?thesis using begins inv ends run(1) by blast
qed

end
