(* ===== verification/Rule_Repository.thy ===== *)
theory Rule_Repository
  imports Database Text_Numbers
begin

text \<open>
  \<^verbatim>\<open>src/repositories/rule.repository.ts\<close>: the statements on the table of rules and the mapping
  of its rows. A failed statement is logged and thrown again, which leaves it as it was.
\<close>

section \<open>Requests and rows\<close>

record CreateRuleRequest =
  cr_name :: string
  cr_description :: "string option"
  cr_algorithm :: RateLimitAlgorithm
  cr_limit :: int
  cr_windowSeconds :: int
  cr_dimensionType :: DimensionType
  cr_dimensionPattern :: "string option"
  cr_priority :: "int option"
  cr_enabled :: "bool option"
  cr_tags :: "string list option"

record UpdateRuleRequest =
  up_name :: "string option"
  up_description :: "string option"
  up_algorithm :: "RateLimitAlgorithm option"
  up_limit :: "int option"
  up_windowSeconds :: "int option"
  up_dimensionType :: "DimensionType option"
  up_dimensionPattern :: "string option"
  up_priority :: "int option"
  up_enabled :: "bool option"
  up_tags :: "string list option"

text \<open>The values of the two enumerations, as they are bound to parameters.\<close>

definition algorithm_value :: "RateLimitAlgorithm \<Rightarrow> jsval" where
  "algorithm_value a = JStr (case a of TOKEN_BUCKET \<Rightarrow> ''token_bucket'' | SLIDING_WINDOW \<Rightarrow> ''sliding_window''
     | FIXED_WINDOW \<Rightarrow> ''fixed_window'' | LEAKY_BUCKET \<Rightarrow> ''leaky_bucket'')"

definition dimension_value :: "DimensionType \<Rightarrow> jsval" where
  "dimension_value d = JStr (case d of USER \<Rightarrow> ''user'' | IP \<Rightarrow> ''ip'' | ENDPOINT \<Rightarrow> ''endpoint''
     | GLOBAL \<Rightarrow> ''global'' | CUSTOM \<Rightarrow> ''custom'')"

definition mapRowToRule :: "RuleRow \<Rightarrow> RateLimitRule" where
  "mapRowToRule row =
     \<lparr>rule_id = row_id row, rule_name = row_name row, rule_algorithm = row_algorithm row,
      rule_limit = row_limit_value row, rule_windowSeconds = row_window_seconds row,
      rule_dimension = \<lparr>dim_type = row_dimension_type row, dim_pattern = row_dimension_pattern row\<rparr>,
      rule_priority = row_priority row, rule_enabled = row_enabled row,
      rule_metadata =
        (case row_metadata row of None \<Rightarrow> [] | Some m \<Rightarrow> m) @
        [(''description'', (case row_description row of None \<Rightarrow> JNull | Some d \<Rightarrow> JStr d)),
         (''tags'', JArr (case row_tags row of None \<Rightarrow> [] | Some ts \<Rightarrow> map JStr ts))],
      rule_createdAt = row_created_at row, rule_updatedAt = row_updated_at row\<rparr>"

section \<open>Statements\<close>

definition first_rule :: "RuleRow query_result \<Rightarrow> RateLimitRule option" where
  "first_rule result = (case rows result of [] \<Rightarrow> None | row # _ \<Rightarrow> Some (mapRowToRule row))"

text \<open>\<^verbatim>\<open>a || b\<close> for an optional text and for an optional number.\<close>

definition text_or_null :: "string option \<Rightarrow> jsval" where
  "text_or_null s = (case s of Some (c # cs) \<Rightarrow> JStr (c # cs) | _ \<Rightarrow> JNull)"

definition or_number :: "int option \<Rightarrow> int \<Rightarrow> int" where
  "or_number n d = (case n of None \<Rightarrow> d | Some i \<Rightarrow> if i = 0 then d else i)"

definition insert_rule_text :: string where
  "insert_rule_text =
     ''INSERT INTO rate_limit_rules ( id, name, description, algorithm, limit_value, window_seconds, '' @
     ''dimension_type, dimension_pattern, priority, enabled, tags ) '' @
     ''VALUES ($1, $2, $3, $4, $5, $6, $7, $8, $9, $10, $11) RETURNING *''"

definition insert_rule_values :: "string \<Rightarrow> CreateRuleRequest \<Rightarrow> jsval list" where
  "insert_rule_values rid request =
     [JStr rid, JStr (cr_name request), text_or_null (cr_description request),
      algorithm_value (cr_algorithm request), JNum (of_int (cr_limit request)),
      JNum (of_int (cr_windowSeconds request)), dimension_value (cr_dimensionType request),
      text_or_null (cr_dimensionPattern request), JNum (of_int (or_number (cr_priority request) 100)),
      JBool (case cr_enabled request of Some b \<Rightarrow> b | None \<Rightarrow> True),
      JArr (map JStr (case cr_tags request of Some ts \<Rightarrow> ts | None \<Rightarrow> []))]"

definition create_rule :: "'d database \<Rightarrow> string \<Rightarrow> CreateRuleRequest \<Rightarrow> ('d, js_error + RateLimitRule) state" where
  "create_rule db randomUUID request =
     throwing (query_rules db insert_rule_text (insert_rule_values randomUUID request))
       (\<lambda>result. case first_rule result of
          None \<Rightarrow> js_throw (PlainError ''Cannot read properties of undefined'')
        | Some rule \<Rightarrow> js_return rule)"

definition find_rule_by_id :: "'d database \<Rightarrow> string \<Rightarrow> ('d, js_error + RateLimitRule option) state" where
  "find_rule_by_id db rid =
     throwing (query_rules db ''SELECT * FROM rate_limit_rules WHERE id = $1'' [JStr rid]) (\<lambda>result. js_return (first_rule result))"

definition find_rule_by_name :: "'d database \<Rightarrow> string \<Rightarrow> ('d, js_error + RateLimitRule option) state" where
  "find_rule_by_name db name =
     throwing (query_rules db ''SELECT * FROM rate_limit_rules WHERE name = $1'' [JStr name]) (\<lambda>result. js_return (first_rule result))"

text \<open>
  The filters of \<^verbatim>\<open>findAll\<close>: a dimension given as the text of a query string, a limit and an
  offset that are \<open>None\<close> when they are absent or not a number.
\<close>

record rule_filter =
  by_enabled :: "bool option"
  by_dimensionType :: "string option"
  page_limit :: "int option"
  page_offset :: "int option"

definition add_clause :: "string \<Rightarrow> jsval \<Rightarrow> string \<times> jsval list \<times> nat \<Rightarrow> string \<times> jsval list \<times> nat" where
  "add_clause clause v acc =
     (case acc of (query, vs, paramIndex) \<Rightarrow> (query @ clause @ placeholder paramIndex, vs @ [v], paramIndex + 1))"

definition find_all_statement :: "rule_filter \<Rightarrow> string \<times> jsval list \<times> nat" where
  "find_all_statement options =
     (let q = (''SELECT * FROM rate_limit_rules WHERE 1=1'', [], 1);
          q = (case by_enabled options of Some b \<Rightarrow> add_clause '' AND enabled = '' (JBool b) q | None \<Rightarrow> q);
          q = (case by_dimensionType options of
                 Some d \<Rightarrow> if d = [] then q else add_clause '' AND dimension_type = '' (JStr d) q | None \<Rightarrow> q);
          q = (case q of (query, vs, n) \<Rightarrow> (query @ '' ORDER BY priority DESC, created_at DESC'', vs, n));
          q = (case page_limit options of
                 Some l \<Rightarrow> if l = 0 then q else add_clause '' LIMIT '' (JNum (of_int l)) q | None \<Rightarrow> q)
      in case page_offset options of
           Some n \<Rightarrow> if n = 0 then q else add_clause '' OFFSET '' (JNum (of_int n)) q | None \<Rightarrow> q)"

definition find_all_rules :: "'d database \<Rightarrow> rule_filter \<Rightarrow> ('d, js_error + RateLimitRule list) state" where
  "find_all_rules db options =
     (case find_all_statement options of (query, vs, _) \<Rightarrow>
        throwing (query_rules db query vs) (\<lambda>result. js_return (map mapRowToRule (rows result))))"

definition enabled_rules_text :: string where
  "enabled_rules_text = ''SELECT * FROM rate_limit_rules WHERE enabled = true ORDER BY priority DESC, created_at DESC''"

definition findEnabledRulesByPriority :: "'d database \<Rightarrow> ('d, js_error + RateLimitRule list) state" where
  "findEnabledRulesByPriority db =
     throwing (query_rules db enabled_rules_text []) (\<lambda>result. js_return (map mapRowToRule (rows result)))"

text \<open>The assignments of an update: one push for each field that is present.\<close>

definition push_update :: "string \<Rightarrow> jsval option \<Rightarrow> string list \<times> jsval list \<Rightarrow> string list \<times> jsval list" where
  "push_update col v acc = (case v of None \<Rightarrow> acc | Some x \<Rightarrow> push_assignment col x acc)"

definition rule_updates :: "UpdateRuleRequest \<Rightarrow> string list \<times> jsval list" where
  "rule_updates request =
     (let acc = ([], []);
          acc = push_update ''name'' (map_option JStr (up_name request)) acc;
          acc = push_update ''description'' (map_option JStr (up_description request)) acc;
          acc = push_update ''algorithm'' (map_option algorithm_value (up_algorithm request)) acc;
          acc = push_update ''limit_value'' (map_option (JNum \<circ> of_int) (up_limit request)) acc;
          acc = push_update ''window_seconds'' (map_option (JNum \<circ> of_int) (up_windowSeconds request)) acc;
          acc = push_update ''dimension_type'' (map_option dimension_value (up_dimensionType request)) acc;
          acc = push_update ''dimension_pattern'' (map_option JStr (up_dimensionPattern request)) acc;
          acc = push_update ''priority'' (map_option (JNum \<circ> of_int) (up_priority request)) acc;
          acc = push_update ''enabled'' (map_option JBool (up_enabled request)) acc
      in push_update ''tags'' (map_option (JArr \<circ> map JStr) (up_tags request)) acc)"

definition update_rule_text :: "string list \<Rightarrow> nat \<Rightarrow> string" where
  "update_rule_text updates paramIndex =
     ''UPDATE rate_limit_rules SET '' @ join '', '' updates @ '' WHERE id = '' @ placeholder paramIndex @ '' RETURNING *''"

definition update_rule :: "'d database \<Rightarrow> string \<Rightarrow> UpdateRuleRequest \<Rightarrow> ('d, js_error + RateLimitRule option) state" where
  "update_rule db rid request =
     (case rule_updates request of (updates, vs) \<Rightarrow>
        if updates = [] then find_rule_by_id db rid
        else throwing (query_rules db (update_rule_text updates (length vs + 1)) (vs @ [JStr rid]))
               (\<lambda>result. js_return (first_rule result)))"

definition affected :: "'row query_result \<Rightarrow> bool" where
  "affected result = (case rowCount result of None \<Rightarrow> False | Some n \<Rightarrow> 0 < n)"

definition delete_rule :: "'d database \<Rightarrow> string \<Rightarrow> ('d, js_error + bool) state" where
  "delete_rule db rid =
     throwing (query_nothing db ''DELETE FROM rate_limit_rules WHERE id = $1'' [JStr rid]) (\<lambda>result. js_return (affected result))"

definition setEnabled :: "'d database \<Rightarrow> string \<Rightarrow> bool \<Rightarrow> ('d, js_error + bool) state" where
  "setEnabled db rid enabled =
     throwing (query_nothing db ''UPDATE rate_limit_rules SET enabled = $1 WHERE id = $2'' [JBool enabled, JStr rid])
       (\<lambda>result. js_return (affected result))"

definition count_rules :: "'d database \<Rightarrow> bool option \<Rightarrow> ('d, js_error + int option) state" where
  "count_rules db enabled =
     throwing (case enabled of
         None \<Rightarrow> query_counts db ''SELECT COUNT(*) as count FROM rate_limit_rules'' []
       | Some b \<Rightarrow> query_counts db ''SELECT COUNT(*) as count FROM rate_limit_rules WHERE enabled = $1'' [JBool b])
       (\<lambda>result. case rows result of
          [] \<Rightarrow> js_throw (PlainError ''Cannot read properties of undefined'')
        | count # _ \<Rightarrow> js_return (parse_count count))"

section \<open>What the statements say\<close>

text \<open>The fields of an update that are present, as columns and values, in the order of the table.\<close>

definition present :: "string \<Rightarrow> jsval option \<Rightarrow> (string \<times> jsval) list" where
  "present col v = (case v of None \<Rightarrow> [] | Some x \<Rightarrow> [(col, x)])"

definition present_fields :: "UpdateRuleRequest \<Rightarrow> (string \<times> jsval) list" where
  "present_fields r =
     present ''name'' (map_option JStr (up_name r)) @ present ''description'' (map_option JStr (up_description r)) @
     present ''algorithm'' (map_option algorithm_value (up_algorithm r)) @
     present ''limit_value'' (map_option (JNum \<circ> of_int) (up_limit r)) @
     present ''window_seconds'' (map_option (JNum \<circ> of_int) (up_windowSeconds r)) @
     present ''dimension_type'' (map_option dimension_value (up_dimensionType r)) @
     present ''dimension_pattern'' (map_option JStr (up_dimensionPattern r)) @
     present ''priority'' (map_option (JNum \<circ> of_int) (up_priority r)) @
     present ''enabled'' (map_option JBool (up_enabled r)) @ present ''tags'' (map_option (JArr \<circ> map JStr) (up_tags r))"

lemma push_update_present:
  "push_update col v (numbered 1 fs, map snd fs) = (numbered 1 (fs @ present col v), map snd (fs @ present col v))"
  by (cases v) (simp_all only: push_update_def present_def option.case append_Nil2 push_assignment_numbered)

lemma rule_updates_present: "rule_updates r = (numbered 1 (present_fields r), map snd (present_fields r))"
proof -
  have start: "([], []) = (numbered 1 [], map snd ([] :: (string \<times> jsval) list))" by simp
  show ?thesis
    unfolding rule_updates_def Let_def start push_update_present by (simp add: present_fields_def)
qed

lemma present_columns: "map fst (present col v) = map fst (present col w) \<longleftrightarrow> (v = None \<longleftrightarrow> w = None)"
  by (auto simp: present_def split: option.splits)

definition update_statement :: "string \<Rightarrow> UpdateRuleRequest \<Rightarrow> string \<times> jsval list" where
  "update_statement rid r =
     (update_rule_text (numbered 1 (present_fields r)) (length (present_fields r) + 1), map snd (present_fields r) @ [JStr rid])"

text \<open>
  An update runs the statement that assigns each field present in the request, in order, to
  its own numbered parameter and the id to the last, and binds the fields' values in that
  order. The text depends only on which fields are present: two requests with the same
  fields run the same text, so nothing a client sends can become part of a statement.
\<close>

theorem update_statement_binds_fields:
  "update_rule db rid r =
     (if present_fields r = [] then find_rule_by_id db rid
      else throwing (query_rules db (fst (update_statement rid r)) (snd (update_statement rid r)))
             (\<lambda>result. js_return (first_rule result)))
   \<and> (map fst (present_fields r) = map fst (present_fields r') \<longrightarrow> fst (update_statement rid r) = fst (update_statement rid' r'))"
proof
  show "update_rule db rid r =
     (if present_fields r = [] then find_rule_by_id db rid
      else throwing (query_rules db (fst (update_statement rid r)) (snd (update_statement rid r)))
             (\<lambda>result. js_return (first_rule result)))"
    by (simp add: update_rule_def rule_updates_present update_statement_def)
  show "map fst (present_fields r) = map fst (present_fields r') \<longrightarrow> fst (update_statement rid r) = fst (update_statement rid' r')"
    by (metis fst_conv length_map numbered_columns update_statement_def)
qed

definition example_update :: "string \<Rightarrow> int \<Rightarrow> UpdateRuleRequest" where
  "example_update name lmt =
     \<lparr>up_name = Some name, up_description = None, up_algorithm = None, up_limit = Some lmt, up_windowSeconds = None,
      up_dimensionType = None, up_dimensionPattern = None, up_priority = None, up_enabled = None, up_tags = None\<rparr>"

lemma small_numbers: "string_of_nat (Suc 0) = ''1''" "string_of_nat 2 = ''2''" "string_of_nat 3 = ''3''"
  by code_simp+

lemma update_statement_binds_fields_witness:
  "fst (update_statement ''1'' (example_update ''x = 1; --'' 5)) = fst (update_statement ''2'' (example_update ''free'' 7))
   \<and> fst (update_statement ''2'' (example_update ''free'' 7))
       = ''UPDATE rate_limit_rules SET name = $1, limit_value = $2 WHERE id = $3 RETURNING *''"
proof -
  have "map fst (present_fields (example_update n l)) = [''name'', ''limit_value'']" for n l
    by (simp add: present_fields_def present_def example_update_def)
  then have "fst (update_statement ''1'' (example_update ''x = 1; --'' 5)) = fst (update_statement ''2'' (example_update ''free'' 7))"
    by (intro update_statement_binds_fields[THEN conjunct2, rule_format]) simp
  moreover have "fst (update_statement ''2'' (example_update ''free'' 7))
       = ''UPDATE rate_limit_rules SET name = $1, limit_value = $2 WHERE id = $3 RETURNING *''"
    by (simp add: update_statement_def present_fields_def present_def example_update_def update_rule_text_def placeholder_def
        small_numbers numeral_2_eq_2[symmetric] numeral_3_eq_3[symmetric])
  ultimately show ?thesis by simp
qed

end
