(* ===== verification/Rule_Engine.thy ===== *)
theory Rule_Engine
  imports Rule_Repository Pattern Objects "HOL-Library.Product_Lexorder" "HOL-Library.Multiset"
begin

text \<open>
  \<^verbatim>\<open>src/services/rule-engine.service.ts\<close>: which of the stored rules governs a request. The
  engine keeps the enabled rules for a minute; its state is that cache, the compiled
  patterns and the database behind the repository.
\<close>

record ('d, 're) rule_engine =
  re_db :: 'd
  re_patterns :: "'re regex_cache"
  rulesCache :: "RateLimitRule list"
  cacheLastUpdated :: int

record RuleMatchContext =
  ctx_identifier :: string
  ctx_endpoint :: "string option"
  ctx_ip :: "string option"
  ctx_metadata :: "(string \<times> jsval) list option"

record RuleMatchResult =
  matched :: bool
  matched_rule :: "RateLimitRule option"
  match_reason :: "string option"

definition CACHE_TTL :: int where "CACHE_TTL = 60000"

section \<open>Matching one rule\<close>

definition word_char :: "char \<Rightarrow> bool" where
  "word_char c \<longleftrightarrow> digit_char c \<or> c = CHR ''_'' \<or>
     (65 \<le> (of_char c :: nat) \<and> (of_char c :: nat) \<le> 90) \<or> (97 \<le> (of_char c :: nat) \<and> (of_char c :: nat) \<le> 122)"

text \<open>\<^verbatim>\<open>pattern.match(/^(\w+)=(.+)$/)\<close> and the same with a tilde: the two groups.\<close>

definition split_operator :: "char \<Rightarrow> string \<Rightarrow> (string \<times> string) option" where
  "split_operator op pattern =
     (let key = takeWhile word_char pattern
      in case dropWhile word_char pattern of
           [] \<Rightarrow> None
         | c # v \<Rightarrow> if c = op \<and> key \<noteq> [] \<and> v \<noteq> [] \<and> (\<forall>d \<in> set v. \<not> line_break d) then Some (key, v) else None)"

definition parseCustomPattern :: "string \<Rightarrow> js_error + string \<times> char \<times> string" where
  "parseCustomPattern pattern =
     (case split_operator (CHR ''='') pattern of
        Some (key, v) \<Rightarrow> Inr (key, CHR ''='', v)
      | None \<Rightarrow>
          (case split_operator (CHR ''~'') pattern of
             Some (key, v) \<Rightarrow> Inr (key, CHR ''~'', v)
           | None \<Rightarrow> Inl (PlainError (''Invalid custom pattern format: '' @ pattern))))"

definition matchCustomPattern :: "'re js_lib \<Rightarrow> RuleMatchContext \<Rightarrow> string \<Rightarrow> ('re regex_cache, bool) state" where
  "matchCustomPattern js ctx pattern =
     (case parseCustomPattern pattern of
        Inl error \<Rightarrow> State_Monad.return False
      | Inr (key, operator, v) \<Rightarrow>
          (case Option.bind (ctx_metadata ctx) (\<lambda>m. truthy_property (show_number js) m key) of
             None \<Rightarrow> State_Monad.return False
           | Some metadataValue \<Rightarrow>
               if operator = CHR ''='' then State_Monad.return (metadataValue = v)
               else if operator = CHR ''~'' then matchRegex (new_RegExp js) (regex_test js) metadataValue v
               else State_Monad.return False))"

definition falsy_text :: "string option \<Rightarrow> bool" where
  "falsy_text s \<longleftrightarrow> s = None \<or> s = Some []"

definition isRuleMatch :: "'re js_lib \<Rightarrow> RateLimitRule \<Rightarrow> RuleMatchContext \<Rightarrow> ('re regex_cache, bool) state" where
  "isRuleMatch js rule ctx =
     (let pattern = dim_pattern (rule_dimension rule);
          matches = (\<lambda>subject. matchPattern (new_RegExp js) (regex_test js) subject pattern)
      in case dim_type (rule_dimension rule) of
           GLOBAL \<Rightarrow> State_Monad.return True
         | USER \<Rightarrow>
             if falsy_text pattern then State_Monad.return True else matches (ctx_identifier ctx)
         | IP \<Rightarrow>
             if falsy_text (ctx_ip ctx) then State_Monad.return False
             else if falsy_text pattern then State_Monad.return True else matches (the (ctx_ip ctx))
         | ENDPOINT \<Rightarrow>
             if falsy_text (ctx_endpoint ctx) then State_Monad.return False
             else if falsy_text pattern then State_Monad.return True else matches (the (ctx_endpoint ctx))
         | CUSTOM \<Rightarrow>
             if falsy_text pattern then State_Monad.return False else matchCustomPattern js ctx (the pattern))"

section \<open>The engine\<close>

definition getEnabledRules ::
    "'d database \<Rightarrow> int \<Rightarrow> (('d, 're) rule_engine, js_error + RateLimitRule list) state" where
  "getEnabledRules db now = State (\<lambda>st.
     if rulesCache st \<noteq> [] \<and> now - cacheLastUpdated st < CACHE_TTL
     then (Inr (rulesCache st), st)
     else (case run_state (findEnabledRulesByPriority db) (re_db st) of
             (Inl e, d) \<Rightarrow> (Inl e, st\<lparr>re_db := d\<rparr>)
           | (Inr rules, d) \<Rightarrow> (Inr rules, st\<lparr>re_db := d, rulesCache := rules, cacheLastUpdated := now\<rparr>)))"

fun first_match :: "'re js_lib \<Rightarrow> RuleMatchContext \<Rightarrow> RateLimitRule list \<Rightarrow> ('re regex_cache, RuleMatchResult) state" where
  "first_match js ctx [] =
     State_Monad.return \<lparr>matched = False, matched_rule = None, match_reason = Some ''No matching rule found''\<rparr>"
| "first_match js ctx (rule # rules) = do {
     hit \<leftarrow> isRuleMatch js rule ctx;
     if hit then State_Monad.return \<lparr>matched = True, matched_rule = Some rule, match_reason = None\<rparr>
     else first_match js ctx rules
   }"

definition findMatchingRule ::
    "'d database \<Rightarrow> 're js_lib \<Rightarrow> int \<Rightarrow> RuleMatchContext \<Rightarrow> (('d, 're) rule_engine, js_error + RuleMatchResult) state" where
  "findMatchingRule db js now ctx =
     throwing (getEnabledRules db now) (\<lambda>rules. do {
       r \<leftarrow> zoom re_patterns (\<lambda>p. re_patterns_update (\<lambda>_. p)) (first_match js ctx rules);
       js_return r
     })"

definition invalidateCache :: "(('d, 're) rule_engine, unit) state" where
  "invalidateCache = State (\<lambda>st. ((), st\<lparr>rulesCache := [], cacheLastUpdated := 0\<rparr>))"

record CacheStats =
  cachedRules :: nat
  lastUpdated :: "int option"
  isExpired :: bool

definition getCacheStats :: "int \<Rightarrow> ('d, 're) rule_engine \<Rightarrow> CacheStats" where
  "getCacheStats now st =
     \<lparr>cachedRules = length (rulesCache st),
      lastUpdated = (if 0 < cacheLastUpdated st then Some (cacheLastUpdated st) else None),
      isExpired = (CACHE_TTL < now - cacheLastUpdated st)\<rparr>"

section \<open>Which rule governs\<close>

text \<open>Whether a rule matches, without the cache of patterns, and the first of a list that does.\<close>

definition rule_matches :: "'re js_lib \<Rightarrow> RuleMatchContext \<Rightarrow> RateLimitRule \<Rightarrow> bool" where
  "rule_matches js ctx rule = fst (run_state (isRuleMatch js rule ctx) [])"

lemma matchCustomPattern_runs:
  assumes "cache_ok (new_RegExp js) cache"
  shows "\<exists>cache'. run_state (matchCustomPattern js ctx p) cache = (fst (run_state (matchCustomPattern js ctx p) []), cache')
    \<and> cache_ok (new_RegExp js) cache'"
  using assms matchRegex_runs[OF assms, of "regex_test js"] matchRegex_runs[OF cache_ok_Nil, of "new_RegExp js" "regex_test js"]
  by (auto simp: matchCustomPattern_def split: sum.splits option.splits) (metis fst_conv)

lemma isRuleMatch_runs:
  assumes "cache_ok (new_RegExp js) cache"
  shows "\<exists>cache'. run_state (isRuleMatch js rule ctx) cache = (rule_matches js ctx rule, cache') \<and> cache_ok (new_RegExp js) cache'"
proof -
  have glob: "\<exists>cache'. run_state (matchPattern (new_RegExp js) (regex_test js) subject p) cache
        = (fst (run_state (matchPattern (new_RegExp js) (regex_test js) subject p) []), cache') \<and> cache_ok (new_RegExp js) cache'"
    for subject p
    using matchPattern_runs[OF assms, of "regex_test js" subject p]
      matchPattern_runs[OF cache_ok_Nil, of "new_RegExp js" "regex_test js" subject p] by auto
  show ?thesis
    using glob matchCustomPattern_runs[OF assms] assms
    by (auto simp: rule_matches_def isRuleMatch_def Let_def split: DimensionType.splits)
qed

lemma first_match_runs:
  assumes "cache_ok (new_RegExp js) cache"
  shows "\<exists>cache'. run_state (first_match js ctx rules) cache =
      ((case find (rule_matches js ctx) rules of
          None \<Rightarrow> \<lparr>matched = False, matched_rule = None, match_reason = Some ''No matching rule found''\<rparr>
        | Some rule \<Rightarrow> \<lparr>matched = True, matched_rule = Some rule, match_reason = None\<rparr>), cache')
    \<and> cache_ok (new_RegExp js) cache'"
  using assms
proof (induction rules arbitrary: cache)
  case (Cons rule rules)
  obtain c1 where c1: "run_state (isRuleMatch js rule ctx) cache = (rule_matches js ctx rule, c1)" "cache_ok (new_RegExp js) c1"
    using isRuleMatch_runs[OF Cons.prems] by blast
  show ?case using c1 Cons.IH[OF c1(2)] by simp
qed simp

section \<open>The table behind the engine\<close>

definition outranks :: "RuleRow \<Rightarrow> RuleRow \<Rightarrow> bool" where
  "outranks r r' \<longleftrightarrow> row_priority r' < row_priority r \<or>
     (row_priority r = row_priority r' \<and> row_created_at r' \<le> row_created_at r)"

definition enabled_in_order :: "RuleRow list \<Rightarrow> RuleRow list \<Rightarrow> bool" where
  "enabled_in_order tbl rs \<longleftrightarrow> mset rs = mset (filter row_enabled tbl) \<and> sorted_wrt outranks rs"

text \<open>The contract of the database for the one statement the engine runs.\<close>

locale rule_table =
  fixes db :: "'d database" and rule_rows :: "'d \<Rightarrow> RuleRow list"
  assumes enabled_rules: "\<exists>rs n d'. run_state (query_rules db enabled_rules_text []) d = (Inr \<lparr>rows = rs, rowCount = n\<rparr>, d')
      \<and> rule_rows d' = rule_rows d \<and> enabled_in_order (rule_rows d) rs"
begin

lemma repository_reads:
  "\<exists>rs d'. run_state (findEnabledRulesByPriority db) d = (Inr (map mapRowToRule rs), d')
     \<and> rule_rows d' = rule_rows d \<and> enabled_in_order (rule_rows d) rs"
  using enabled_rules[of d] by (auto simp: findEnabledRulesByPriority_def)

end

text \<open>A table kept as a list, for which the contract holds.\<close>

definition table_db :: "RuleRow list database" where
  "table_db =
     \<lparr>query_rules = (\<lambda>text vs. State (\<lambda>d.
        if text = enabled_rules_text
        then (Inr \<lparr>rows = sort_key (\<lambda>r. (- row_priority r, - row_created_at r)) (filter row_enabled d), rowCount = None\<rparr>, d)
        else (Inl (PlainError text), d))),
      query_policies = (\<lambda>text vs. js_throw (PlainError text)), query_counts = (\<lambda>text vs. js_throw (PlainError text)),
      query_nothing = (\<lambda>text vs. js_throw (PlainError text))\<rparr>"

interpretation documented_table: rule_table table_db "\<lambda>d. d"
proof unfold_locales
  fix d :: "RuleRow list"
  let ?rs = "sort_key (\<lambda>r. (- row_priority r, - row_created_at r)) (filter row_enabled d)"
  have "sorted_wrt (\<lambda>r r'. (- row_priority r, - row_created_at r) \<le> (- row_priority r', - row_created_at r')) ?rs"
    using sorted_sort_key[of "\<lambda>r. (- row_priority r, - row_created_at r)" "filter row_enabled d"]
    by (simp add: sorted_map)
  then have "sorted_wrt outranks ?rs"
    by (rule sorted_wrt_mono_rel[rotated]) (auto simp: outranks_def less_eq_prod_def)
  then show "\<exists>rs n d'. run_state (query_rules table_db enabled_rules_text []) d = (Inr \<lparr>rows = rs, rowCount = n\<rparr>, d')
      \<and> d' = d \<and> enabled_in_order d rs"
    by (simp add: table_db_def enabled_in_order_def)
qed

section \<open>The answers of the engine\<close>

text \<open>The answer that a table of rules calls for.\<close>

definition governs :: "'re js_lib \<Rightarrow> RuleMatchContext \<Rightarrow> RuleRow list \<Rightarrow> RuleMatchResult \<Rightarrow> bool" where
  "governs js ctx tbl result \<longleftrightarrow>
     (case matched_rule result of
        None \<Rightarrow> \<not> matched result \<and> (\<forall>row \<in> set tbl. row_enabled row \<longrightarrow> \<not> rule_matches js ctx (mapRowToRule row))
      | Some rule \<Rightarrow> matched result \<and> (\<exists>row \<in> set tbl. row_enabled row \<and> rule = mapRowToRule row \<and> rule_matches js ctx rule
          \<and> (\<forall>row' \<in> set tbl. row_enabled row' \<and> rule_matches js ctx (mapRowToRule row') \<longrightarrow> outranks row row')))"

lemma find_outranks:
  assumes "find P rs = Some r" "sorted_wrt outranks rs" "r' \<in> set rs" "P r'"
  shows "outranks r r'"
  using assms by (induction rs) (auto simp: outranks_def split: if_splits)

lemma first_match_governs:
  assumes rs: "enabled_in_order tbl rs" and cache: "cache_ok (new_RegExp js) cache"
  shows "\<exists>result cache'. run_state (first_match js ctx (map mapRowToRule rs)) cache = (result, cache')
    \<and> governs js ctx tbl result \<and> cache_ok (new_RegExp js) cache'"
proof -
  have rows: "set rs = {row \<in> set tbl. row_enabled row}"
    using rs mset_eq_setD[of rs "filter row_enabled tbl"] by (auto simp: enabled_in_order_def)
  let ?P = "rule_matches js ctx \<circ> mapRowToRule"
  let ?found = "find ?P rs"
  let ?result = "case map_option mapRowToRule ?found of
      None \<Rightarrow> \<lparr>matched = False, matched_rule = None, match_reason = Some ''No matching rule found''\<rparr>
    | Some rule \<Rightarrow> \<lparr>matched = True, matched_rule = Some rule, match_reason = None\<rparr>"
  have "governs js ctx tbl ?result"
  proof (cases ?found)
    case None
    then have "\<forall>row \<in> set rs. \<not> ?P row" by (auto simp: find_None_iff)
    then show ?thesis using rows by (auto simp: governs_def None)
  next
    case (Some row)
    then have "row \<in> set rs" "?P row" by (auto simp: find_Some_iff in_set_conv_nth)
    moreover have "\<forall>row' \<in> set tbl. row_enabled row' \<and> rule_matches js ctx (mapRowToRule row') \<longrightarrow> outranks row row'"
      using find_outranks[OF Some] rs rows by (auto simp: enabled_in_order_def)
    ultimately show ?thesis using rows by (auto simp: governs_def Some)
  qed
  then show ?thesis
    using first_match_runs[OF cache, of ctx "map mapRowToRule rs"] unfolding find_map by blast
qed

lemma findMatchingRule_reads:
  assumes table: "rule_table db rule_rows" and cache: "cache_ok (new_RegExp js) (re_patterns st)"
    and stale: "rulesCache st = [] \<or> CACHE_TTL \<le> now - cacheLastUpdated st"
  shows "\<exists>result st' rs. run_state (findMatchingRule db js now ctx) st = (Inr result, st')
    \<and> governs js ctx (rule_rows (re_db st)) result \<and> rule_rows (re_db st') = rule_rows (re_db st)
    \<and> enabled_in_order (rule_rows (re_db st)) rs \<and> rulesCache st' = map mapRowToRule rs \<and> cacheLastUpdated st' = now
    \<and> cache_ok (new_RegExp js) (re_patterns st')"
proof -
  obtain rs d' where db: "run_state (findEnabledRulesByPriority db) (re_db st) = (Inr (map mapRowToRule rs), d')"
    "rule_rows d' = rule_rows (re_db st)" "enabled_in_order (rule_rows (re_db st)) rs"
    using rule_table.repository_reads[OF table] by blast
  obtain result cache' where "run_state (first_match js ctx (map mapRowToRule rs)) (re_patterns st) = (result, cache')"
    "governs js ctx (rule_rows (re_db st)) result" "cache_ok (new_RegExp js) cache'"
    using first_match_governs[OF db(3) cache] by blast
  then show ?thesis
    using db stale by (auto simp: findMatchingRule_def getEnabledRules_def)
qed

lemma findMatchingRule_remembers:
  assumes cache: "cache_ok (new_RegExp js) (re_patterns st)"
    and fresh: "rulesCache st \<noteq> []" "now - cacheLastUpdated st < CACHE_TTL"
    and rs: "rulesCache st = map mapRowToRule rs" "enabled_in_order tbl rs"
  shows "\<exists>result st'. run_state (findMatchingRule db js now ctx) st = (Inr result, st')
    \<and> governs js ctx tbl result \<and> st' = st\<lparr>re_patterns := re_patterns st'\<rparr> \<and> cache_ok (new_RegExp js) (re_patterns st')"
proof -
  obtain result cache' where "run_state (first_match js ctx (map mapRowToRule rs)) (re_patterns st) = (result, cache')"
    "governs js ctx tbl result" "cache_ok (new_RegExp js) cache'"
    using first_match_governs[OF rs(2) cache] by blast
  then show ?thesis
    using fresh rs(1) by (auto simp: findMatchingRule_def getEnabledRules_def)
qed

text \<open>
  C15: A lookup that reads the table answers with the best rule: an enabled rule that matches and
  that no other enabled matching rule outranks by priority, or by being newer at the same
  priority; and with none only when no enabled rule matches.
\<close>

theorem lookup_finds_the_highest_rule:
  assumes table: "rule_table db rule_rows" and cache: "cache_ok (new_RegExp js) (re_patterns st)"
    and stale: "rulesCache st = [] \<or> CACHE_TTL \<le> now - cacheLastUpdated st"
  shows "\<exists>result st'. run_state (findMatchingRule db js now ctx) st = (Inr result, st')
    \<and> governs js ctx (rule_rows (re_db st)) result \<and> rule_rows (re_db st') = rule_rows (re_db st)"
  using findMatchingRule_reads[OF assms] by blast

definition example_rule :: "string \<Rightarrow> DimensionType \<Rightarrow> string option \<Rightarrow> int \<Rightarrow> RuleRow" where
  "example_rule name kind pattern priority =
     \<lparr>row_id = name, row_name = name, row_description = None, row_algorithm = TOKEN_BUCKET, row_limit_value = 100,
      row_window_seconds = 60, row_dimension_type = kind, row_dimension_pattern = pattern, row_priority = priority,
      row_enabled = True, row_tags = None, row_metadata = None, row_created_at = 0, row_updated_at = 0\<rparr>"

definition example_js :: "atom list js_lib" where
  "example_js = \<lparr>new_RegExp = atoms_RegExp, regex_test = atoms_match, show_number = (\<lambda>x. string_of_int \<lfloor>x\<rfloor>)\<rparr>"

definition example_engine :: "RuleRow list \<Rightarrow> (RuleRow list, atom list) rule_engine" where
  "example_engine tbl = \<lparr>re_db = tbl, re_patterns = [], rulesCache = [], cacheLastUpdated = 0\<rparr>"

definition example_context :: RuleMatchContext where
  "example_context = \<lparr>ctx_identifier = ''alice'', ctx_endpoint = Some ''/v1'', ctx_ip = None, ctx_metadata = None\<rparr>"

lemma lookup_finds_the_highest_rule_witness:
  "\<exists>result st'. run_state (findMatchingRule table_db example_js 5000 example_context)
      (example_engine [example_rule ''low'' GLOBAL None 1, example_rule ''high'' USER (Some ''al*'') 9]) = (Inr result, st')
    \<and> governs example_js example_context [example_rule ''low'' GLOBAL None 1, example_rule ''high'' USER (Some ''al*'') 9] result"
proof -
  let ?st = "example_engine [example_rule ''low'' GLOBAL None 1, example_rule ''high'' USER (Some ''al*'') 9]"
  have "cache_ok (new_RegExp example_js) (re_patterns ?st)" "rulesCache ?st = [] \<or> CACHE_TTL \<le> 5000 - cacheLastUpdated ?st"
    by (simp_all add: example_engine_def)
  from lookup_finds_the_highest_rule[OF documented_table.rule_table_axioms this, of example_context] show ?thesis
    by (auto simp: example_engine_def)
qed

section \<open>How stale an answer can be\<close>

text \<open>
  A history of the engine: lookups, changes of the database by anyone, and invalidations, each
  at its time. An entry records the time, the operation, the table before it, and the answer.
\<close>

datatype 'd rule_op = Lookup RuleMatchContext | Change "'d \<Rightarrow> 'd" | Invalidate

type_synonym 'd rule_entry = "int \<times> 'd rule_op \<times> RuleRow list \<times> (js_error + RuleMatchResult) option"

definition rule_step ::
    "'d database \<Rightarrow> 're js_lib \<Rightarrow> ('d \<Rightarrow> RuleRow list) \<Rightarrow> int \<times> 'd rule_op \<Rightarrow> ('d, 're) rule_engine \<Rightarrow>
     'd rule_entry \<times> ('d, 're) rule_engine" where
  "rule_step db js rule_rows e st =
     (case e of (now, op) \<Rightarrow>
        (case op of
           Lookup ctx \<Rightarrow> (case run_state (findMatchingRule db js now ctx) st of
               (answer, st') \<Rightarrow> ((now, op, rule_rows (re_db st), Some answer), st'))
         | Change f \<Rightarrow> ((now, op, rule_rows (re_db st), None), st\<lparr>re_db := f (re_db st)\<rparr>)
         | Invalidate \<Rightarrow> ((now, op, rule_rows (re_db st), None), snd (run_state invalidateCache st))))"

definition rule_history ::
    "'d database \<Rightarrow> 're js_lib \<Rightarrow> ('d \<Rightarrow> RuleRow list) \<Rightarrow> (int \<times> 'd rule_op) list \<Rightarrow> ('d, 're) rule_engine \<Rightarrow>
     'd rule_entry list \<times> ('d, 're) rule_engine" where
  "rule_history db js rule_rows es st =
     foldl (\<lambda>(tr, st) e. case rule_step db js rule_rows e st of (x, st') \<Rightarrow> (tr @ [x], st')) ([], st) es"

lemma rule_history_Nil [simp]: "rule_history db js rule_rows [] st = ([], st)"
  by (simp add: rule_history_def)

lemma rule_history_snoc:
  "rule_history db js rule_rows (es @ [e]) st =
     (case rule_history db js rule_rows es st of (tr, st1) \<Rightarrow>
        case rule_step db js rule_rows e st1 of (x, st2) \<Rightarrow> (tr @ [x], st2))"
  by (simp add: rule_history_def split_beta)

text \<open>What an entry of a history still vouches for: a table seen in it and not invalidated since.\<close>

definition seen_since :: "'d rule_entry list \<Rightarrow> nat \<Rightarrow> int \<Rightarrow> RuleRow list \<Rightarrow> bool" where
  "seen_since tr i t tbl \<longleftrightarrow>
     (\<exists>j \<le> i. (\<exists>op answer. tr ! j = (t, op, tbl, answer)) \<and> (\<forall>k. j < k \<and> k < i \<longrightarrow> fst (snd (tr ! k)) \<noteq> Invalidate))"

definition answered_within :: "'re js_lib \<Rightarrow> 'd rule_entry list \<Rightarrow> nat \<Rightarrow> bool" where
  "answered_within js tr i \<longleftrightarrow>
     (case tr ! i of (now, op, _, answer) \<Rightarrow>
        (case op of
           Lookup ctx \<Rightarrow> \<exists>result t tbl. answer = Some (Inr result) \<and> now - t < 60000 \<and> seen_since tr i t tbl \<and> governs js ctx tbl result
         | _ \<Rightarrow> True))"

definition vouched :: "'d rule_entry list \<Rightarrow> ('d, 're) rule_engine \<Rightarrow> bool" where
  "vouched tr st \<longleftrightarrow> rulesCache st = [] \<or>
     (\<exists>j < length tr. \<exists>op tbl answer rs. tr ! j = (cacheLastUpdated st, op, tbl, answer) \<and> enabled_in_order tbl rs
        \<and> rulesCache st = map mapRowToRule rs \<and> (\<forall>k. j < k \<and> k < length tr \<longrightarrow> fst (snd (tr ! k)) \<noteq> Invalidate))"

lemma seen_since_append:
  assumes i: "i < length tr"
  shows "seen_since (tr @ [x]) i t tbl \<longleftrightarrow> seen_since tr i t tbl"
proof -
  have same: "(tr @ [x]) ! k = tr ! k" if "k \<le> i" for k using that i by (simp add: nth_append)
  show ?thesis by (simp add: seen_since_def same cong: conj_cong)
qed

lemma answered_within_append: "i < length tr \<Longrightarrow> answered_within js (tr @ [x]) i \<longleftrightarrow> answered_within js tr i"
  by (simp add: answered_within_def nth_append seen_since_append split: prod.split rule_op.split)

lemma answered_withinI:
  "tr ! i = (now, Lookup ctx, tbl, Some (Inr result)) \<Longrightarrow> now - t < 60000 \<Longrightarrow> seen_since tr i t tbl' \<Longrightarrow>
     governs js ctx tbl' result \<Longrightarrow> answered_within js tr i"
  by (simp add: answered_within_def) blast

lemma vouched_append: "vouched tr st \<Longrightarrow> fst (snd x) \<noteq> Invalidate \<Longrightarrow> rulesCache st' = rulesCache st \<Longrightarrow>
    cacheLastUpdated st' = cacheLastUpdated st \<Longrightarrow> vouched (tr @ [x]) st'"
proof -
  assume v: "vouched tr st" and x: "fst (snd x) \<noteq> Invalidate" and same: "rulesCache st' = rulesCache st" "cacheLastUpdated st' = cacheLastUpdated st"
  show "vouched (tr @ [x]) st'"
  proof (cases "rulesCache st = []")
    case False
    with v obtain j op tbl answer rs where j: "j < length tr" "tr ! j = (cacheLastUpdated st, op, tbl, answer)" "enabled_in_order tbl rs"
        "rulesCache st = map mapRowToRule rs" "\<forall>k. j < k \<and> k < length tr \<longrightarrow> fst (snd (tr ! k)) \<noteq> Invalidate"
      unfolding vouched_def by blast
    then show ?thesis unfolding vouched_def same
      using x by (intro disjI2 exI[of _ j]) (auto simp: nth_append less_Suc_eq)
  qed (simp add: vouched_def same)
qed

text \<open>A lookup that reads the table, and one that answers from the cache.\<close>

lemma reading_lookup_keeps:
  assumes table: "rule_table db rule_rows" and cache: "cache_ok (new_RegExp js) (re_patterns st)"
    and stale: "rulesCache st = [] \<or> CACHE_TTL \<le> now - cacheLastUpdated st"
    and step: "rule_step db js rule_rows (now, Lookup ctx) st = (x, st')"
  shows "cache_ok (new_RegExp js) (re_patterns st') \<and> vouched (tr @ [x]) st' \<and> answered_within js (tr @ [x]) (length tr)"
proof -
  obtain result s1 rs where run: "run_state (findMatchingRule db js now ctx) st = (Inr result, s1)"
    and s1: "governs js ctx (rule_rows (re_db st)) result" "enabled_in_order (rule_rows (re_db st)) rs"
      "rulesCache s1 = map mapRowToRule rs" "cacheLastUpdated s1 = now" "cache_ok (new_RegExp js) (re_patterns s1)"
    using findMatchingRule_reads[OF table cache stale, of ctx] by blast
  have x: "x = (now, Lookup ctx, rule_rows (re_db st), Some (Inr result))" and eq: "s1 = st'"
    using step run by (simp_all add: rule_step_def)
  note st' = s1[unfolded eq]
  have "vouched (tr @ [x]) st'"
    unfolding vouched_def using st'(2-4) x
    by (intro disjI2 exI[of _ "length tr"]) auto
  moreover have "seen_since (tr @ [x]) (length tr) now (rule_rows (re_db st))"
    unfolding seen_since_def using x by (intro exI[of _ "length tr"]) auto
  moreover have "(tr @ [x]) ! length tr = (now, Lookup ctx, rule_rows (re_db st), Some (Inr result))" by (simp add: x)
  ultimately show ?thesis using st'(1,5) answered_withinI[of "tr @ [x]" "length tr" now ctx _ result now] by auto
qed

lemma cached_lookup_keeps:
  assumes cache: "cache_ok (new_RegExp js) (re_patterns st)" and vouched: "vouched tr st"
    and fresh: "rulesCache st \<noteq> []" "now - cacheLastUpdated st < CACHE_TTL"
    and step: "rule_step db js rule_rows (now, Lookup ctx) st = (x, st')"
  shows "cache_ok (new_RegExp js) (re_patterns st') \<and> vouched (tr @ [x]) st' \<and> answered_within js (tr @ [x]) (length tr)"
proof -
  obtain j op' tbl answer rs where j: "j < length tr" "tr ! j = (cacheLastUpdated st, op', tbl, answer)"
      "enabled_in_order tbl rs" "rulesCache st = map mapRowToRule rs"
      "\<forall>k. j < k \<and> k < length tr \<longrightarrow> fst (snd (tr ! k)) \<noteq> Invalidate"
    using vouched fresh(1) by (auto simp: vouched_def)
  obtain result s1 where run: "run_state (findMatchingRule db js now ctx) st = (Inr result, s1)"
    and s1: "governs js ctx tbl result" "s1 = st\<lparr>re_patterns := re_patterns s1\<rparr>" "cache_ok (new_RegExp js) (re_patterns s1)"
    using findMatchingRule_remembers[OF cache fresh j(4,3), of db ctx] by blast
  have x: "x = (now, Lookup ctx, rule_rows (re_db st), Some (Inr result))" and eq: "s1 = st'"
    using step run by (simp_all add: rule_step_def)
  note st' = s1[unfolded eq]
  have same: "rulesCache st' = rulesCache st" "cacheLastUpdated st' = cacheLastUpdated st"
    by (subst st'(2); simp)+
  have "vouched (tr @ [x]) st'" by (rule vouched_append[OF vouched _ same]) (simp add: x)
  moreover have "seen_since (tr @ [x]) (length tr) (cacheLastUpdated st) tbl"
    unfolding seen_since_def using j by (intro exI[of _ j]) (auto simp: nth_append)
  moreover have "(tr @ [x]) ! length tr = (now, Lookup ctx, rule_rows (re_db st), Some (Inr result))" by (simp add: x)
  ultimately show ?thesis using st'(1,3) fresh(2) answered_withinI[of "tr @ [x]" "length tr" now ctx _ result "cacheLastUpdated st"]
    by (auto simp: CACHE_TTL_def)
qed

lemma rule_step_keeps:
  assumes table: "rule_table db rule_rows" and cache: "cache_ok (new_RegExp js) (re_patterns st)" and vouched: "vouched tr st"
    and step: "rule_step db js rule_rows e st = (x, st')"
  shows "cache_ok (new_RegExp js) (re_patterns st') \<and> vouched (tr @ [x]) st' \<and> answered_within js (tr @ [x]) (length tr)"
proof -
  obtain now op where e: "e = (now, op)" by (cases e)
  show ?thesis
  proof (cases op)
    case (Change f)
    then show ?thesis using step vouched_append[OF vouched, of x st'] cache
      by (auto simp: rule_step_def e answered_within_def nth_append)
  next
    case Invalidate
    then show ?thesis using step cache by (auto simp: rule_step_def e answered_within_def nth_append invalidateCache_def vouched_def)
  next
    case (Lookup ctx)
    note step = step[unfolded e Lookup]
    show ?thesis
    proof (cases "rulesCache st = [] \<or> CACHE_TTL \<le> now - cacheLastUpdated st")
      case True
      then show ?thesis by (rule reading_lookup_keeps[OF table cache _ step])
    next
      case False
      then show ?thesis by (intro cached_lookup_keeps[OF cache vouched _ _ step]) auto
    qed
  qed
qed

lemma rule_history_keeps:
  assumes table: "rule_table db rule_rows" and start: "cache_ok (new_RegExp js) (re_patterns st)" "rulesCache st = []"
  shows "rule_history db js rule_rows es st = (tr, st') \<Longrightarrow>
    cache_ok (new_RegExp js) (re_patterns st') \<and> vouched tr st' \<and> (\<forall>i < length tr. answered_within js tr i)"
proof (induction es arbitrary: tr st' rule: rev_induct)
  case Nil
  then show ?case using start by (auto simp: vouched_def)
next
  case (snoc e es)
  obtain tr1 st1 x where run: "rule_history db js rule_rows es st = (tr1, st1)" "rule_step db js rule_rows e st1 = (x, st')" "tr = tr1 @ [x]"
    using snoc.prems by (auto simp: rule_history_snoc split: prod.splits)
  note IH = snoc.IH[OF run(1)]
  show ?case
    using rule_step_keeps[OF table _ _ run(2), where tr = tr1] IH by (auto simp: run(3) less_Suc_eq answered_within_append)
qed



text \<open>
  A global rule silences every rule below it: while an enabled global rule outranks all
  others, as the rule the schema seeds at priority 999 does, every lookup that reads the
  table answers with it, whoever asks, and no other rule ever governs.
\<close>

theorem global_rule_silences_the_rest:
  assumes table: "rule_table db rule_rows" and cache: "cache_ok (new_RegExp js) (re_patterns st)"
    and stale: "rulesCache st = [] \<or> CACHE_TTL \<le> now - cacheLastUpdated st"
    and top: "g \<in> set (rule_rows (re_db st))" "row_enabled g" "row_dimension_type g = GLOBAL"
      "\<forall>row \<in> set (rule_rows (re_db st)). row_enabled row \<and> row \<noteq> g \<longrightarrow> row_priority row < row_priority g"
  shows "\<exists>result st'. run_state (findMatchingRule db js now ctx) st = (Inr result, st') \<and> matched_rule result = Some (mapRowToRule g)"
proof -
  have g: "rule_matches js ctx (mapRowToRule g)"
    using top(3) by (simp add: rule_matches_def isRuleMatch_def mapRowToRule_def Let_def)
  obtain result st' where run: "run_state (findMatchingRule db js now ctx) st = (Inr result, st')"
    "governs js ctx (rule_rows (re_db st)) result"
    using findMatchingRule_reads[OF table cache stale] by blast
  obtain rule where rule: "matched_rule result = Some rule" using run(2) g top(1,2) by (cases "matched_rule result") (auto simp: governs_def)
  then obtain row where row: "row \<in> set (rule_rows (re_db st))" "row_enabled row" "rule = mapRowToRule row" "outranks row g"
    using run(2) g top(1,2) by (auto simp: governs_def)
  then have "row = g" using top(4) by (force simp: outranks_def)
  then show ?thesis using run(1) rule row(3) by blast
qed

lemma global_rule_silences_the_rest_witness:
  "\<exists>result st'. run_state (findMatchingRule table_db example_js 5000 example_context)
      (example_engine [example_rule ''User Default'' USER None 500, example_rule ''Global Default'' GLOBAL None 999]) = (Inr result, st')
    \<and> map_option rule_name (matched_rule result) = Some ''Global Default''"
proof -
  let ?tbl = "[example_rule ''User Default'' USER None 500, example_rule ''Global Default'' GLOBAL None 999]"
  have "cache_ok (new_RegExp example_js) (re_patterns (example_engine ?tbl))"
    "rulesCache (example_engine ?tbl) = [] \<or> CACHE_TTL \<le> 5000 - cacheLastUpdated (example_engine ?tbl)"
    by (simp_all add: example_engine_def)
  from global_rule_silences_the_rest[OF documented_table.rule_table_axioms this, of "example_rule ''Global Default'' GLOBAL None 999" example_context]
  show ?thesis by (auto simp: example_engine_def example_rule_def mapRowToRule_def)
qed

text \<open>
  A custom pattern written as the comment of \<^verbatim>\<open>matchCustomPattern\<close> says, with the prefix
  \<^verbatim>\<open>metadata.\<close>, never matches, whatever the request carries; the same pattern without the
  prefix matches the requests whose metadata has the value.
\<close>

theorem prefixed_custom_pattern_never_matches:
  assumes custom: "dim_type (rule_dimension rule) = CUSTOM"
  shows "(\<forall>rest. dim_pattern (rule_dimension rule) = Some (''metadata.'' @ rest) \<longrightarrow> \<not> rule_matches js ctx rule)
    \<and> (\<forall>key v. dim_pattern (rule_dimension rule) = Some (key @ ''='' @ v) \<and> list_all word_char key \<and> key \<noteq> [] \<and>
           list_all (\<lambda>c. \<not> line_break c) v \<and> v \<noteq> [] \<and> ctx_metadata ctx = Some [(key, JStr v)] \<longrightarrow> rule_matches js ctx rule)"
proof (intro conjI allI impI)
  fix rest
  assume p: "dim_pattern (rule_dimension rule) = Some (''metadata.'' @ rest)"
  have "split_operator op (''metadata.'' @ rest) = None" if "op \<in> set ''=~''" for op
    using that by (auto simp: split_operator_def word_char_def digit_char_def)
  then have "parseCustomPattern (''metadata.'' @ rest) = Inl (PlainError (''Invalid custom pattern format: '' @ ''metadata.'' @ rest))"
    by (simp add: parseCustomPattern_def)
  then show "\<not> rule_matches js ctx rule"
    by (simp add: rule_matches_def isRuleMatch_def custom p falsy_text_def matchCustomPattern_def)
next
  fix key v
  assume p: "dim_pattern (rule_dimension rule) = Some (key @ ''='' @ v) \<and> list_all word_char key \<and> key \<noteq> [] \<and>
           list_all (\<lambda>c. \<not> line_break c) v \<and> v \<noteq> [] \<and> ctx_metadata ctx = Some [(key, JStr v)]"
  have "\<not> word_char (CHR ''='')" by (simp add: word_char_def digit_char_def)
  then have "parseCustomPattern (key @ ''='' @ v) = Inr (key, CHR ''='', v)"
    using p by (simp add: parseCustomPattern_def split_operator_def Let_def list_all_iff takeWhile_append dropWhile_append)
  then show "rule_matches js ctx rule"
    using p by (simp add: rule_matches_def isRuleMatch_def custom falsy_text_def matchCustomPattern_def truthy_property_def)
qed

lemma prefixed_custom_pattern_never_matches_witness:
  "\<not> rule_matches example_js (example_context\<lparr>ctx_metadata := Some [(''plan'', JStr ''pro'')]\<rparr>)
       (mapRowToRule (example_rule ''pro'' CUSTOM (Some ''metadata.plan=pro'') 1))
   \<and> rule_matches example_js (example_context\<lparr>ctx_metadata := Some [(''plan'', JStr ''pro'')]\<rparr>)
       (mapRowToRule (example_rule ''pro'' CUSTOM (Some ''plan=pro'') 1))"
proof -
  let ?rule = "\<lambda>p. mapRowToRule (example_rule ''pro'' CUSTOM (Some p) 1)"
  let ?ctx = "example_context\<lparr>ctx_metadata := Some [(''plan'', JStr ''pro'')]\<rparr>"
  have rule: "dim_type (rule_dimension (?rule p)) = CUSTOM" "dim_pattern (rule_dimension (?rule p)) = Some p" for p
    by (simp_all add: mapRowToRule_def example_rule_def)
  have ok: "list_all word_char ''plan''" "list_all (\<lambda>c. \<not> line_break c) ''pro''"
    by (simp_all add: word_char_def digit_char_def line_break_def)
  have "\<not> rule_matches example_js ?ctx (?rule (''metadata.'' @ ''plan=pro''))"
    using prefixed_custom_pattern_never_matches[OF rule(1), of "''metadata.'' @ ''plan=pro''" example_js ?ctx] rule(2) by blast
  moreover have "rule_matches example_js ?ctx (?rule (''plan'' @ ''='' @ ''pro''))"
    using prefixed_custom_pattern_never_matches[OF rule(1), of "''plan'' @ ''='' @ ''pro''" example_js ?ctx] rule(2) ok by auto
  ultimately show ?thesis by simp
qed

end
