(* ===== verification/Tables.thy ===== *)
theory Tables
  imports Policy_Resolver Rule_Engine Connections
begin

text \<open>
  \<^verbatim>\<open>src/database/schema.ts\<close> and \<^verbatim>\<open>src/scripts/migrate.ts\<close>: the constraints PostgreSQL holds the rows to, the
  rows a migration seeds, and the migration itself. The statements are run by PostgreSQL; of them the
  model has what they do to the two tables the program reads. A statement of several commands is one
  transaction: where it fails, nothing of it stays.
\<close>

section \<open>The constraints of the columns\<close>

definition int4 :: "int \<Rightarrow> bool" where
  "int4 n \<longleftrightarrow> - (2 ^ 31) \<le> n \<and> n < 2 ^ 31"

definition rule_row_ok :: "RuleRow \<Rightarrow> bool" where
  "rule_row_ok row \<longleftrightarrow>
     length (row_name row) \<le> 255 \<and> 0 < row_limit_value row \<and> int4 (row_limit_value row)
     \<and> 0 < row_window_seconds row \<and> int4 (row_window_seconds row)
     \<and> (case row_dimension_pattern row of Some p \<Rightarrow> length p \<le> 500 | None \<Rightarrow> True) \<and> int4 (row_priority row)"

text \<open>A positive \<^verbatim>\<open>BIGINT\<close> and a \<^verbatim>\<open>NUMERIC(4,2)\<close> of at least 1, as the text the driver hands over.\<close>

definition positive_bigint :: "string \<Rightarrow> bool" where
  "positive_bigint s \<longleftrightarrow> list_all digit_char s \<and> 0 < digits_number s \<and> digits_number s < 2 ^ 63"

definition factor_text :: "string \<Rightarrow> bool" where
  "factor_text s \<longleftrightarrow> (let whole = takeWhile digit_char s; rest = dropWhile digit_char s; hundredths = drop 1 rest
     in take 1 rest = ''.'' \<and> length hundredths = 2 \<and> list_all digit_char hundredths
        \<and> 100 \<le> digits_number (whole @ hundredths) \<and> digits_number (whole @ hundredths) < 10000)"

definition policy_row_ok :: "PolicyRow \<Rightarrow> bool" where
  "policy_row_ok row \<longleftrightarrow>
     length (pr_tenant_pattern row) \<le> 255 \<and> length (pr_model_pattern row) \<le> 255
     \<and> positive_bigint (pr_tokens_per_minute row) \<and> 0 < pr_requests_per_minute row \<and> int4 (pr_requests_per_minute row)
     \<and> 0 < pr_max_concurrency row \<and> int4 (pr_max_concurrency row) \<and> 0 \<le> pr_max_queue_depth row \<and> int4 (pr_max_queue_depth row)
     \<and> 0 < pr_lease_seconds row \<and> int4 (pr_lease_seconds row) \<and> factor_text (pr_reservation_safety_factor row) \<and> int4 (pr_priority row)"

section \<open>The seeded rows\<close>

definition insert_rule_unless :: "RuleRow \<Rightarrow> RuleRow list \<Rightarrow> RuleRow list" where
  "insert_rule_unless r rs = (if row_name r \<in> row_name ` set rs then rs else rs @ [r])"

definition insert_policy_unless :: "PolicyRow \<Rightarrow> PolicyRow list \<Rightarrow> PolicyRow list" where
  "insert_policy_unless p ps =
     (if (pr_tenant_pattern p, pr_model_pattern p) \<in> (\<lambda>r. (pr_tenant_pattern r, pr_model_pattern r)) ` set ps then ps else ps @ [p])"

definition seeded_rule :: "string \<Rightarrow> int \<Rightarrow> string \<Rightarrow> string \<Rightarrow> int \<Rightarrow> DimensionType \<Rightarrow> int \<Rightarrow> RuleRow" where
  "seeded_rule i now name description lmt dimension priority =
     \<lparr>row_id = i, row_name = name, row_description = Some description, row_algorithm = TOKEN_BUCKET, row_limit_value = lmt,
      row_window_seconds = 60, row_dimension_type = dimension, row_dimension_pattern = None, row_priority = priority,
      row_enabled = True, row_tags = None, row_metadata = None, row_created_at = now, row_updated_at = now\<rparr>"

definition seed_rules :: "(nat \<Rightarrow> string) \<Rightarrow> int \<Rightarrow> RuleRow list \<Rightarrow> RuleRow list" where
  "seed_rules uuid now rs = fold insert_rule_unless
     [seeded_rule (uuid 0) now ''Global Default'' ''Default global rate limit'' 1000 GLOBAL 999,
      seeded_rule (uuid 1) now ''User Default'' ''Default per-user rate limit'' 100 USER 500,
      seeded_rule (uuid 2) now ''IP Default'' ''Default per-IP rate limit'' 200 IP 500] rs"

definition seed_policies :: "(nat \<Rightarrow> string) \<Rightarrow> PolicyRow list \<Rightarrow> PolicyRow list" where
  "seed_policies uuid ps = insert_policy_unless
     \<lparr>pr_id = uuid 3, pr_tenant_pattern = ''*'', pr_model_pattern = ''*'', pr_tokens_per_minute = ''100000'',
      pr_requests_per_minute = 600, pr_max_concurrency = 16, pr_max_queue_depth = 64, pr_lease_seconds = 120,
      pr_reservation_mode = mode_worst_case, pr_reservation_safety_factor = ''1.50'', pr_priority = 1, pr_enabled = True\<rparr> ps"

section \<open>Migrations\<close>

record tables =
  t_rules :: "RuleRow list"
  t_policies :: "PolicyRow list"

definition create_tables :: "(nat \<Rightarrow> string) \<Rightarrow> int \<Rightarrow> tables option \<Rightarrow> tables option" where
  "create_tables uuid now found =
     (let t = (case found of Some t \<Rightarrow> t | None \<Rightarrow> \<lparr>t_rules = [], t_policies = []\<rparr>)
      in Some \<lparr>t_rules = seed_rules uuid now (t_rules t), t_policies = seed_policies uuid (t_policies t)\<rparr>)"

definition drop_tables :: "tables option \<Rightarrow> tables option" where
  "drop_tables found = None"

record migration =
  mg_pg :: pg_service
  mg_tables :: "tables option"

definition on_pool :: "(pg_service, 'a) state \<Rightarrow> (migration, 'a) state" where
  "on_pool = zoom mg_pg (\<lambda>p m. m\<lparr>mg_pg := p\<rparr>)"

text \<open>A query, which fails with an error of the driver or changes the tables.\<close>

definition run_sql :: "js_error option \<Rightarrow> (tables option \<Rightarrow> tables option) \<Rightarrow> (migration, js_error + unit) state" where
  "run_sql failure change =
     throwing (on_pool (pg_query (case failure of Some e \<Rightarrow> Inl e | None \<Rightarrow> Inr ())))
       (\<lambda>_. State (\<lambda>m. (Inr (), m\<lparr>mg_tables := change (mg_tables m)\<rparr>)))"

text \<open>
  \<^verbatim>\<open>migrate()\<close> with the argument of the command line, whether the connection works and how the first and
  the second statement fail, if they do; the result is the exit code. Ending the pool succeeds. An
  unknown command exits at once.
\<close>

definition migration_steps ::
    "(tables option \<Rightarrow> tables option) \<Rightarrow> js_error option \<Rightarrow> js_error option \<Rightarrow> string \<Rightarrow> (migration, js_error + unit) state option" where
  "migration_steps create first second command =
     (if command = ''up'' then Some (run_sql first create)
      else if command = ''down'' then Some (run_sql first drop_tables)
      else if command = ''reset'' then Some (throwing (run_sql first drop_tables) (\<lambda>_. run_sql second create))
      else None)"

definition migrate ::
    "(tables option \<Rightarrow> tables option) \<Rightarrow> bool \<Rightarrow> js_error option \<Rightarrow> js_error option \<Rightarrow> string option \<Rightarrow> (migration, int) state" where
  "migrate create connects first second argument =
     (let command = (case argument of Some (c # cs) \<Rightarrow> c # cs | _ \<Rightarrow> ''up'');
          failed = State_Monad.bind (on_pool (pg_disconnect None)) (\<lambda>_. State_Monad.return 1)
      in State_Monad.bind (on_pool (pg_connect connects)) (\<lambda>r. case r of
           Inl e \<Rightarrow> failed
         | Inr _ \<Rightarrow> (case migration_steps create first second command of
               None \<Rightarrow> State_Monad.return 1
             | Some steps \<Rightarrow> State_Monad.bind steps (\<lambda>r. case r of
                   Inl e \<Rightarrow> failed
                 | Inr _ \<Rightarrow> State_Monad.bind (on_pool (pg_disconnect None)) (\<lambda>_. State_Monad.return 0)))))"

section \<open>What the constraints give the program\<close>

text \<open>The type of a policy: every limit is positive, so that no rate is zero and no wait divides by zero.\<close>

definition positive_policy :: "AdmissionPolicy \<Rightarrow> bool" where
  "positive_policy p \<longleftrightarrow>
     1 \<le> tokensPerMinute p \<and> 1 \<le> requestsPerMinute p \<and> requestsPerMinute p < 2 ^ 31 \<and> 1 \<le> maxConcurrency p \<and> maxConcurrency p < 2 ^ 31
     \<and> 0 \<le> maxQueueDepth p \<and> maxQueueDepth p < 2 ^ 31 \<and> 1 \<le> leaseSeconds p \<and> leaseSeconds p < 2 ^ 31
     \<and> 1 \<le> reservationSafetyFactor p \<and> reservationSafetyFactor p \<le> 100"

lemma Number_bigint: "positive_bigint s \<Longrightarrow> 1 \<le> Number s"
proof -
  assume s: "positive_bigint s"
  then have digits: "\<forall>c \<in> set s. digit_char c" and n: "0 < digits_number s" by (simp_all add: positive_bigint_def list_all_iff)
  have whole: "takeWhile digit_char s = s" "dropWhile digit_char s = []" using digits by (simp_all add: takeWhile_eq_all_conv)
  have "s \<noteq> []" using n by auto
  then have "digit_char (hd s)" using digits by simp
  then have sign: "hd s \<noteq> CHR ''-''" by (auto simp: digit_char_def)
  have "Number s = dbl (of_int (digits_number s))" by (simp add: Number_def Let_def whole sign)
  then show ?thesis using dbl_mono[of 1 "of_int (digits_number s)"] n by simp
qed

lemma Number_factor: "factor_text s \<Longrightarrow> 1 \<le> Number s \<and> Number s \<le> 100"
proof -
  assume s: "factor_text s"
  let ?whole = "takeWhile digit_char s" and ?hundredths = "drop 1 (dropWhile digit_char s)"
  let ?decimal = "of_int (digits_number ?whole) + of_int (digits_number ?hundredths) / 100 :: rat"
  have len: "length ?hundredths = 2" and bounds: "100 \<le> digits_number (?whole @ ?hundredths)" "digits_number (?whole @ ?hundredths) < 10000"
    and point: "take 1 (dropWhile digit_char s) = ''.''"
    using s by (simp_all add: factor_text_def Let_def)
  have "of_int (digits_number (?whole @ ?hundredths)) = 100 * ?decimal"
    unfolding digits_number_append len by simp
  moreover have "(100 :: rat) \<le> of_int (digits_number (?whole @ ?hundredths))" "(of_int (digits_number (?whole @ ?hundredths)) :: rat) < 10000"
    using bounds by linarith+
  ultimately have range: "1 \<le> ?decimal" "?decimal \<le> 100" by simp_all
  have "hd s \<noteq> CHR ''-''"
  proof
    assume minus: "hd s = CHR ''-''"
    then have "dropWhile digit_char s = s" by (cases s) (auto simp: digit_char_def)
    then have "take 1 s = ''.''" using point by simp
    then show False using minus by (cases s) auto
  qed
  then have "Number s = dbl (of_int (digits_number ?whole) + of_int (digits_number ?hundredths) / 10 ^ length ?hundredths)"
    by (simp add: Number_def Let_def)
  moreover have "10 ^ length ?hundredths = (100 :: rat)" unfolding len by simp
  ultimately have "Number s = dbl ?decimal" by (simp only:)
  then show ?thesis using dbl_mono[OF range(1)] dbl_mono[OF range(2)] by simp
qed

lemma toPolicy_positive: "policy_row_ok row \<Longrightarrow> positive_policy (AdmissionPolicy.truncate (toPolicy row))"
  using Number_bigint[of "pr_tokens_per_minute row"] Number_factor[of "pr_reservation_safety_factor row"]
  by (auto simp: policy_row_ok_def positive_policy_def toPolicy_def AdmissionPolicy.truncate_def int4_def le_floor_iff)

lemma default_policy_positive: "positive_policy (DEFAULT_POLICY tenant model scope)"
  by (simp add: positive_policy_def DEFAULT_POLICY_def)

lemma policy_for_positive: "(\<And>p. match = Some p \<Longrightarrow> positive_policy (AdmissionPolicy.truncate p)) \<Longrightarrow> positive_policy (policy_for tenant model match)"
  by (cases match) (simp_all add: policy_for_def default_policy_positive, simp add: positive_policy_def AdmissionPolicy.truncate_def)

text \<open>
  The resolver as it runs: answers, loads that begin and end, invalidations and changes of the database,
  in any order; the outcomes of the loads begun so far may end at any time.
\<close>

inductive resolver_runs :: "'d database \<Rightarrow> 're js_lib \<Rightarrow> ('d, 're) policy_resolver \<Rightarrow> (js_error + StoredPolicy list) list \<Rightarrow> bool"
  for db js where
  start: "policies st = [] \<Longrightarrow> resolved st = [] \<Longrightarrow> resolver_runs db js st []"
| answers: "resolver_runs db js st loads \<Longrightarrow> run_state (answer_from_set js tenant model) st = (policy, st') \<Longrightarrow> resolver_runs db js st' loads"
| begins: "resolver_runs db js st loads \<Longrightarrow> run_state (load_begins db) st = (outcome, st') \<Longrightarrow> resolver_runs db js st' (outcome # loads)"
| ends: "resolver_runs db js st loads \<Longrightarrow> outcome \<in> set loads \<Longrightarrow> run_state (load_ends now outcome) st = (u, st') \<Longrightarrow> resolver_runs db js st' loads"
| invalidated: "resolver_runs db js st loads \<Longrightarrow> run_state invalidate st = (u, st') \<Longrightarrow> resolver_runs db js st' loads"
| changed: "resolver_runs db js st loads \<Longrightarrow> resolver_runs db js (st\<lparr>ps_db := d\<rparr>) loads"

text \<open>Every policy of the set satisfies one predicate and every answer remembered another, in the state and in the loads under way.\<close>

definition resolver_all ::
    "(StoredPolicy \<Rightarrow> bool) \<Rightarrow> (AdmissionPolicy \<Rightarrow> bool) \<Rightarrow> ('d, 're) policy_resolver \<Rightarrow> (js_error + StoredPolicy list) list \<Rightarrow> bool" where
  "resolver_all stored_ok answer_ok st loads \<longleftrightarrow> list_all stored_ok (policies st) \<and> (\<forall>(k, p) \<in> set (resolved st). answer_ok p)
     \<and> (\<forall>ps. Inr ps \<in> set loads \<longrightarrow> list_all stored_ok ps)"

definition table_rows :: "(PolicyRow \<Rightarrow> bool) \<Rightarrow> 'd database \<Rightarrow> bool" where
  "table_rows row_ok db \<longleftrightarrow>
     (\<forall>d result d'. run_state (query_policies db enabled_policies_text []) d = (Inr result, d') \<longrightarrow> list_all row_ok (rows result))"

lemma first_policy_for_member: "run_state (first_policy_for js tenant model ps) cache = (Some p, cache') \<Longrightarrow> p \<in> set ps"
  by (induction ps arbitrary: cache) (auto split: if_splits prod.splits)

text \<open>
  What rows, policies and answers may satisfy so that the resolver keeps it: a row's policy has
  it, and so has the answer of such a policy or of the default.
\<close>

locale kept_by_resolver =
  fixes row_ok :: "PolicyRow \<Rightarrow> bool" and stored_ok :: "StoredPolicy \<Rightarrow> bool" and answer_ok :: "AdmissionPolicy \<Rightarrow> bool"
  assumes read_ok: "row_ok row \<Longrightarrow> stored_ok (toPolicy row)"
    and default_ok: "answer_ok (DEFAULT_POLICY tenant model ''default'')"
    and chosen_ok: "stored_ok p \<Longrightarrow> answer_ok (policy_for tenant model (Some p))"
begin

lemma answer_kept:
  assumes kept: "resolver_all stored_ok answer_ok st loads" and run: "run_state (answer_from_set js tenant model) st = (policy, st')"
  shows "answer_ok policy \<and> resolver_all stored_ok answer_ok st' loads"
proof (cases "map_of (resolved st) (cache_key tenant model)")
  case (Some hit)
  then have "(cache_key tenant model, hit) \<in> set (resolved st)" by (rule map_of_SomeD)
  then show ?thesis using kept run by (auto simp: answer_from_set_def Some resolver_all_def)
next
  case None
  obtain match cache where first: "run_state (first_policy_for js tenant model (policies st)) (ps_patterns st) = (match, cache)"
    by (cases "run_state (first_policy_for js tenant model (policies st)) (ps_patterns st)")
  have policy: "policy = policy_for tenant model match"
    and st': "st' = st\<lparr>ps_patterns := cache, resolved := AList.update (cache_key tenant model) policy (resolved st)\<rparr>"
    using run by (auto simp: answer_from_set_def None first Let_def)
  have "answer_ok policy"
  proof (cases match)
    case None
    then show ?thesis by (simp add: policy policy_for_def default_ok)
  next
    case (Some p)
    then have "p \<in> set (policies st)" using first first_policy_for_member by metis
    then show ?thesis using kept by (auto simp: policy Some resolver_all_def list_all_iff intro: chosen_ok)
  qed
  then show ?thesis using kept set_update_subset[of "cache_key tenant model" policy "resolved st"]
    unfolding st' resolver_all_def by auto
qed

lemma load_begins_kept:
  assumes tbl: "table_rows row_ok db"
    and kept: "resolver_all stored_ok answer_ok st loads" and run: "run_state (load_begins db) st = (outcome, st')"
  shows "resolver_all stored_ok answer_ok st' (outcome # loads)"
proof -
  obtain r d' where query: "run_state (query_policies db enabled_policies_text []) (ps_db st) = (r, d')"
    by (cases "run_state (query_policies db enabled_policies_text []) (ps_db st)")
  have st': "policies st' = policies st" "resolved st' = resolved st"
    and outcome: "outcome = (case r of Inl e \<Rightarrow> Inl e | Inr result \<Rightarrow> Inr (map toPolicy (rows result)))"
    using run by (auto simp: load_begins_def findEnabledByPriority_def query split: sum.splits)
  have "list_all stored_ok (map toPolicy (rows result))" if "r = Inr result" for result
    using tbl query that unfolding table_rows_def by (auto simp: list_all_iff intro!: read_ok)
  then show ?thesis using kept by (auto simp: resolver_all_def st' outcome split: sum.splits)
qed

lemma load_ends_kept:
  "resolver_all stored_ok answer_ok st loads \<Longrightarrow> outcome \<in> set loads \<Longrightarrow> run_state (load_ends now outcome) st = (u, st') \<Longrightarrow>
     resolver_all stored_ok answer_ok st' loads"
  by (auto simp: load_ends_def resolver_all_def split: sum.splits)

lemma resolver_runs_kept:
  assumes run: "resolver_runs db js st loads" and tbl: "table_rows row_ok db"
  shows "resolver_all stored_ok answer_ok st loads"
  using run
proof (induction rule: resolver_runs.induct)
  case (answers st loads tenant model policy st')
  then show ?case using answer_kept by blast
next
  case (begins st loads outcome st')
  then show ?case using load_begins_kept[OF tbl] by blast
next
  case (ends st loads outcome now u st')
  then show ?case using load_ends_kept by blast
qed (auto simp: resolver_all_def invalidate_def)

lemma resolve_kept:
  assumes run: "resolver_runs db js st loads" and tbl: "table_rows row_ok db"
  shows "\<exists>policy st' loads'. run_state (resolve db js now later tenant model) st = (policy, st')
    \<and> answer_ok policy \<and> resolver_runs db js st' loads'"
proof -
  obtain s1 where s1: "run_state (ensureLoaded db now later) st = ((), s1)" by (cases "run_state (ensureLoaded db now later) st") simp
  have "\<exists>loads'. resolver_runs db js s1 loads'"
  proof (cases "needs_load now st")
    case True
    obtain outcome s0 where begins: "run_state (load_begins db) st = (outcome, s0)" by (cases "run_state (load_begins db) st")
    then have "run_state (load_ends later outcome) s0 = ((), s1)" using s1 True by (simp add: ensureLoaded_def)
    then show ?thesis using resolver_runs.ends[OF resolver_runs.begins[OF run begins]] by auto
  qed (use run s1 in \<open>auto simp: ensureLoaded_def\<close>)
  then obtain loads' where reach: "resolver_runs db js s1 loads'" by blast
  obtain policy st' where answer: "run_state (answer_from_set js tenant model) s1 = (policy, st')"
    by (cases "run_state (answer_from_set js tenant model) s1")
  have "answer_ok policy" using answer_kept[OF resolver_runs_kept[OF reach tbl] answer] by blast
  then show ?thesis using resolver_runs.answers[OF reach answer] by (auto simp: resolve_def s1 answer)
qed

end

interpretation positive_policies:
  kept_by_resolver policy_row_ok "\<lambda>p. positive_policy (AdmissionPolicy.truncate p)" positive_policy
  by unfold_locales (auto simp: toPolicy_positive default_policy_positive intro!: policy_for_positive)

text \<open>
  C19: Every policy that ever governs a request is well typed: its budgets, slots and lease are positive and
  its safety factor at least one, so that no rate is zero. It holds in every state the resolver can
  reach by answering, by loads that begin and end in any order, by invalidations and by changes of the
  table, as long as the table keeps the constraints of its columns; and resolving leads to such a
  state again.
\<close>

theorem resolved_policies_are_positive:
  assumes constraints: "\<forall>d result d'. run_state (query_policies db enabled_policies_text []) d = (Inr result, d') \<longrightarrow> list_all policy_row_ok (rows result)"
    and run: "resolver_runs db js st loads"
  shows "\<exists>policy st' loads'. run_state (resolve db js now later tenant model) st = (policy, st')
    \<and> positive_policy policy \<and> resolver_runs db js st' loads'"
  using run constraints by (intro positive_policies.resolve_kept) (simp_all add: table_rows_def)

text \<open>A table that keeps the constraints.\<close>

definition constrained_db :: "PolicyRow list database" where
  "constrained_db =
     \<lparr>query_rules = (\<lambda>text vs. js_throw (PlainError text)),
      query_policies = (\<lambda>text vs. State (\<lambda>d.
        (Inr \<lparr>rows = sort_key (\<lambda>r. - pr_priority r) (filter (\<lambda>r. pr_enabled r \<and> policy_row_ok r) d), rowCount = None\<rparr>, d))),
      query_counts = (\<lambda>text vs. js_throw (PlainError text)), query_nothing = (\<lambda>text vs. js_throw (PlainError text))\<rparr>"

theorem resolved_policies_are_positive_witness:
  "\<exists>policy st' loads'. run_state (resolve constrained_db example_js 40000 40000 ''acme'' ''gpt'')
        \<lparr>ps_db = seed_policies (\<lambda>_. ''p'') [], ps_patterns = [], policies = [], resolved = [], loadedAt = 0\<rparr> = (policy, st')
     \<and> positive_policy policy \<and> resolver_runs constrained_db example_js st' loads'"
proof (rule resolved_policies_are_positive)
  show "\<forall>d result d'. run_state (query_policies constrained_db enabled_policies_text []) d = (Inr result, d') \<longrightarrow> list_all policy_row_ok (rows result)"
    by (auto simp: constrained_db_def list_all_iff)
qed (rule resolver_runs.start, simp_all)

section \<open>A fresh deployment, and migrating again\<close>

lemma seeded_names: "row_name (seeded_rule i now name description lmt dimension priority) = name"
  by (simp add: seeded_rule_def)

lemma seed_rules_fresh:
  "seed_rules uuid now [] =
     [seeded_rule (uuid 0) now ''Global Default'' ''Default global rate limit'' 1000 GLOBAL 999,
      seeded_rule (uuid 1) now ''User Default'' ''Default per-user rate limit'' 100 USER 500,
      seeded_rule (uuid 2) now ''IP Default'' ''Default per-IP rate limit'' 200 IP 500]"
  by (simp add: seed_rules_def insert_rule_unless_def seeded_names)

lemma insert_rule_unless_present: "row_name r \<in> row_name ` set rs \<Longrightarrow> insert_rule_unless r rs = rs"
  by (simp add: insert_rule_unless_def)

lemma insert_rule_unless_names: "row_name ` set (insert_rule_unless r rs) = insert (row_name r) (row_name ` set rs)"
  by (auto simp: insert_rule_unless_def)

lemma seed_rules_again: "seed_rules uuid' later (seed_rules uuid now rs) = seed_rules uuid now rs"
  by (simp add: seed_rules_def insert_rule_unless_present insert_rule_unless_names seeded_names)

lemma seed_policies_again: "seed_policies uuid' (seed_policies uuid ps) = seed_policies uuid ps"
  by (auto simp: seed_policies_def insert_policy_unless_def)

lemma seeded_rows_ok: "list_all rule_row_ok (seed_rules uuid now [])" "list_all policy_row_ok (seed_policies uuid [])"
proof -
  show "list_all rule_row_ok (seed_rules uuid now [])"
    unfolding seed_rules_fresh by (simp add: seeded_rule_def rule_row_ok_def int4_def)
  have "positive_bigint ''100000''" "factor_text ''1.50''" by code_simp+
  then show "list_all policy_row_ok (seed_policies uuid [])"
    by (simp add: seed_policies_def insert_policy_unless_def policy_row_ok_def int4_def)
qed

text \<open>
  A fresh deployment has one limit. After the first migration the rows keep their constraints and
  migrating again changes nothing; but every lookup, whoever asks, answers with the seeded rule
  \<^verbatim>\<open>Global Default\<close>, a thousand a minute, and the per-user and per-address rules seeded beside it govern
  no request.
\<close>

theorem fresh_deployment_has_one_limit:
  assumes table: "rule_table db rule_rows" and cache: "cache_ok (new_RegExp js) (re_patterns st)"
    and stale: "rulesCache st = [] \<or> CACHE_TTL \<le> now - cacheLastUpdated st"
    and fresh: "create_tables uuid seeded None = Some t" "rule_rows (re_db st) = t_rules t"
  shows "(\<exists>result st' rule. run_state (findMatchingRule db js now ctx) st = (Inr result, st') \<and> matched_rule result = Some rule
      \<and> rule_name rule = ''Global Default'' \<and> rule_limit rule = 1000 \<and> rule_windowSeconds rule = 60)
    \<and> list_all rule_row_ok (t_rules t) \<and> list_all policy_row_ok (t_policies t) \<and> length (t_rules t) = 3
    \<and> create_tables uuid' later (Some t) = Some t"
proof -
  let ?g = "seeded_rule (uuid 0) seeded ''Global Default'' ''Default global rate limit'' 1000 GLOBAL 999"
  have t: "t_rules t = seed_rules uuid seeded []" "t_policies t = seed_policies uuid []"
    using fresh(1) by (auto simp: create_tables_def)
  have top: "?g \<in> set (rule_rows (re_db st))" "row_enabled ?g" "row_dimension_type ?g = GLOBAL"
    "\<forall>row \<in> set (rule_rows (re_db st)). row_enabled row \<and> row \<noteq> ?g \<longrightarrow> row_priority row < row_priority ?g"
    unfolding fresh(2) t(1) seed_rules_fresh by (simp_all add: seeded_rule_def)
  obtain result st' where "run_state (findMatchingRule db js now ctx) st = (Inr result, st')" "matched_rule result = Some (mapRowToRule ?g)"
    using global_rule_silences_the_rest[OF table cache stale top] by blast
  moreover have "rule_name (mapRowToRule ?g) = ''Global Default''" "rule_limit (mapRowToRule ?g) = 1000" "rule_windowSeconds (mapRowToRule ?g) = 60"
    by (simp_all add: mapRowToRule_def seeded_rule_def)
  moreover have "create_tables uuid' later (Some t) = Some t"
    by (simp add: create_tables_def t seed_rules_again seed_policies_again)
  moreover have "length (t_rules t) = 3" by (simp add: t(1) seed_rules_fresh)
  ultimately show ?thesis using seeded_rows_ok by (auto simp: t)
qed

theorem fresh_deployment_has_one_limit_witness:
  "\<exists>result st' rule. run_state (findMatchingRule table_db example_js 5000 example_context) (example_engine (seed_rules (\<lambda>_. ''r'') 0 [])) = (Inr result, st')
     \<and> matched_rule result = Some rule \<and> rule_name rule = ''Global Default''"
proof -
  let ?st = "example_engine (seed_rules (\<lambda>_. ''r'') 0 [])"
  let ?t = "\<lparr>t_rules = seed_rules (\<lambda>_. ''r'') 0 [], t_policies = seed_policies (\<lambda>_. ''r'') []\<rparr>"
  have "cache_ok (new_RegExp example_js) (re_patterns ?st)" "rulesCache ?st = [] \<or> CACHE_TTL \<le> 5000 - cacheLastUpdated ?st"
    "create_tables (\<lambda>_. ''r'') 0 None = Some ?t" "re_db ?st = t_rules ?t"
    by (simp_all add: example_engine_def create_tables_def)
  from fresh_deployment_has_one_limit[OF documented_table.rule_table_axioms this, of example_context] show ?thesis by blast
qed

lemma run_run_sql:
  "pg_pool (mg_pg m) \<Longrightarrow> pg_isConnected (mg_pg m) \<Longrightarrow> run_state (run_sql failure change) m =
     (case failure of Some e \<Rightarrow> (Inl e, m) | None \<Rightarrow> (Inr (), m\<lparr>mg_tables := change (mg_tables m)\<rparr>))"
  by (simp add: run_sql_def on_pool_def run_pg_query split: option.splits)

lemma run_steps:
  assumes "pg_pool (mg_pg m)" "pg_isConnected (mg_pg m)" and "command \<in> {''up'', ''down'', ''reset''}"
  shows "\<exists>steps r. migration_steps create first second command = Some steps
    \<and> run_state steps m = (r, m\<lparr>mg_tables := (if first \<noteq> None then mg_tables m else if command = ''down'' then None
         else if command = ''reset'' then (if second = None then create None else None) else create (mg_tables m))\<rparr>)
    \<and> ((\<exists>u. r = Inr u) \<longleftrightarrow> first = None \<and> (command = ''reset'' \<longrightarrow> second = None))"
proof -
  consider "command = ''up''" | "command = ''down''" | "command = ''reset''" using assms(3) by blast
  then show ?thesis
  proof cases
    case 1
    then show ?thesis using assms(1,2) by (cases first) (simp_all add: migration_steps_def run_run_sql)
  next
    case 2
    then show ?thesis using assms(1,2) by (cases first) (simp_all add: migration_steps_def run_run_sql drop_tables_def)
  next
    case 3
    then show ?thesis using assms(1,2) by (cases first; cases second) (simp_all add: migration_steps_def run_run_sql drop_tables_def)
  qed
qed

text \<open>
  A migration tells what it did. It exits with 0 exactly where the connection and its statements succeeded,
  with the pool ended and the tables created and seeded, dropped, or both; a failure of a single
  statement leaves the tables as they were, but a reset whose second half fails leaves none.
\<close>

theorem migrations_tell_what_they_did:
  assumes fresh: "\<not> pg_pool (mg_pg m)" and run: "run_state (migrate create connects first second argument) m = (code, m')"
    and known: "argument \<in> {None, Some ''up'', Some ''down'', Some ''reset''}"
  shows "(code = 0 \<longleftrightarrow> connects \<and> first = None \<and> (argument = Some ''reset'' \<longrightarrow> second = None))
    \<and> (code = 0 \<or> code = 1) \<and> \<not> pg_pool (mg_pg m')
    \<and> mg_tables m' = (if \<not> connects \<or> first \<noteq> None then mg_tables m
        else if argument = Some ''down'' then None
        else if argument = Some ''reset'' then (if second = None then create None else None)
        else create (mg_tables m))"
proof -
  define command where "command = (case argument of Some (c # cs) \<Rightarrow> c # cs | _ \<Rightarrow> ''up'')"
  have command: "command \<in> {''up'', ''down'', ''reset''}" "argument = Some ''down'' \<longleftrightarrow> command = ''down''"
    "argument = Some ''reset'' \<longleftrightarrow> command = ''reset''"
    using known by (auto simp: command_def)
  let ?m = "m\<lparr>mg_pg := (mg_pg m)\<lparr>pg_pool := True, pg_isConnected := True\<rparr>\<rparr>"
  have ends: "run_state (on_pool (pg_disconnect None)) x = (Inr (), y) \<Longrightarrow> \<not> pg_pool (mg_pg y) \<and> mg_tables y = mg_tables x" for x y
    by (auto simp: on_pool_def pg_disconnect_def split: if_splits)
  show ?thesis
  proof (cases connects)
    case False
    then show ?thesis using run fresh
      by (auto simp: migrate_def Let_def on_pool_def pg_connect_def pg_disconnect_def)
  next
    case True
    have pool: "pg_pool (mg_pg ?m)" "pg_isConnected (mg_pg ?m)" by simp_all
    obtain steps r where steps: "migration_steps create first second command = Some steps"
      "run_state steps ?m = (r, ?m\<lparr>mg_tables := (if first \<noteq> None then mg_tables ?m else if command = ''down'' then None
         else if command = ''reset'' then (if second = None then create None else None) else create (mg_tables ?m))\<rparr>)"
      "(\<exists>u. r = Inr u) \<longleftrightarrow> first = None \<and> (command = ''reset'' \<longrightarrow> second = None)"
      using run_steps[OF pool command(1), of create first second] by blast
    obtain y where y: "run_state (on_pool (pg_disconnect None)) (snd (run_state steps ?m)) = (Inr (), y)"
      by (simp add: on_pool_def pg_disconnect_def steps(2))
    have "run_state (on_pool (pg_connect connects)) m = (Inr (), ?m)" using True fresh by (simp add: on_pool_def pg_connect_def)
    then have "code = (case r of Inl e \<Rightarrow> 1 | Inr u \<Rightarrow> 0)" "m' = y"
      using run y by (auto simp: migrate_def Let_def command_def[symmetric] steps(1,2) split: sum.splits)
    then show ?thesis using ends[OF y] steps(3) True by (auto simp: steps(2) command(2,3) split: sum.splits)
  qed
qed

end
