(* ===== verification/Admission_Protocol.thy ===== *)
theory Admission_Protocol
  imports Admission_Ledger Metered
begin

text \<open>
  Runs of the admission protocol on one tenant and model: any interleaving of reserve and
  commit calls by any number of gateway replicas (each call is one script, so the
  interleavings are the lists of calls), with time passing and keys expiring between
  them. Leases and holds stay in step, the inflight bound holds, a settled reservation
  stays settled, and tokens are conserved.
\<close>

section \<open>Runs\<close>

datatype llm_op = Admit admit_args | Commit commit_args

type_synonym timed_op = "nat \<times> llm_op" \<comment> \<open>the time that passes on the server before the call\<close>

fun op_now :: "llm_op \<Rightarrow> int" where
  "op_now (Admit a) = a_now a"
| "op_now (Commit c) = c_now c"

fun op_script :: "'s redis \<Rightarrow> string \<Rightarrow> llm_op \<Rightarrow> ('s, admit_reply + commit_reply) state" where
  "op_script call n (Admit a) = do { r \<leftarrow> admit_script call (keys_in n) a; State_Monad.return (Inl r) }"
| "op_script call n (Commit c) =
     do { r \<leftarrow> commit_script call (keys_in n) (settled_in n (c_rid c)) c; State_Monad.return (Inr r) }"

primrec protocol_run ::
    "'s redis \<Rightarrow> (nat \<Rightarrow> 's \<Rightarrow> 's) \<Rightarrow> string \<Rightarrow> timed_op list \<Rightarrow> ('s, (admit_reply + commit_reply) list) state" where
  "protocol_run call elapse n [] = State_Monad.return []"
| "protocol_run call elapse n (e # es) =
     (case e of (d, op) \<Rightarrow> do {
        State (\<lambda>s. ((), elapse d s));
        r \<leftarrow> op_script call n op;
        rs \<leftarrow> protocol_run call elapse n es;
        State_Monad.return (r # rs)
      })"

definition llm_step :: "string \<Rightarrow> timed_op \<Rightarrow> keyspace \<Rightarrow> keyspace" where
  "llm_step n e ks = (case e of (d, op) \<Rightarrow> snd (run_state (op_script doc_call n op) (expire_after d ks)))"

lemma op_script_sim:
  "redis_server call elapse view \<Longrightarrow> simulates view (op_script call n op) (op_script doc_call n op)"
  by (cases op) (auto intro!: sim_intros admit_script_sim commit_script_sim)

lemma protocol_run_sim:
  assumes "redis_server call elapse view"
  shows "simulates view (protocol_run call elapse n es) (protocol_run doc_call expire_after n es)"
proof (induction es)
  case (Cons e es)
  show ?case unfolding protocol_run.simps
    by (intro simulates_prod simulates_bind simulates_return redis_server_elapse_sim[OF assms]
        op_script_sim[OF assms] Cons.IH)
qed (simp add: sim_intros)

lemma protocol_run_end:
  "snd (run_state (protocol_run doc_call expire_after n es) ks) = run_ops (llm_step n) es ks"
proof (induction es arbitrary: ks)
  case (Cons e es)
  obtain d op where e: "e = (d, op)" by (cases e)
  show ?case by (simp add: e llm_step_def[of n "(d, op)"] split_beta flip: Cons.IH)
qed simp

section \<open>Leases and holds\<close>

text \<open>
  The lease set and the hold table name the same reservations, hold whole tokens, expire
  together, and are no more than the slots and the queue.
\<close>

definition whole_hold :: "rat \<Rightarrow> bool" where
  "whole_hold v \<longleftrightarrow> (\<exists>m. v = of_int m \<and> 0 \<le> m \<and> m \<le> 2 ^ 31)"

definition matched :: "int \<Rightarrow> ledger \<Rightarrow> bool" where
  "matched cap L \<longleftrightarrow>
     wf_zset (leases L) \<and> distinct (map fst (held L)) \<and>
     snd ` set (leases L) = fst ` set (held L) \<and> int (length (leases L)) \<le> cap \<and>
     (\<forall>e \<in> set (held L). whole_hold (snd e))"

definition lease_inv :: "string \<Rightarrow> int \<Rightarrow> keyspace \<Rightarrow> bool" where
  "lease_inv n cap ks \<longleftrightarrow> 0 \<le> cap \<and> matched cap (ledger_at n ks) \<and>
     (leases (ledger_at n ks) \<noteq> [] \<longrightarrow> ttl_at ks (n @ '':leases'') = ttl_at ks (n @ '':res''))"

fun lease_guard :: "string \<Rightarrow> int \<Rightarrow> timed_op \<Rightarrow> keyspace \<Rightarrow> bool" where
  "lease_guard n cap (d, Admit a) ks =
     (0 < a_ttl a \<and> a_max_concurrency a + a_max_queue a \<le> cap \<and> 0 \<le> a_reserve a \<and> a_tpm_limit a \<le> 2 ^ 31 \<and>
      a_rid a \<notin> fst ` set (held (ledger_at n ks)))"
| "lease_guard n cap (d, Commit c) ks = (0 < c_ttl c \<and> 0 < c_idem_ttl c)"

lemma image_filter_out: "f ` {e \<in> S. f e \<notin> I} = f ` S - I"
  by auto

lemma matched_without: "matched cap L \<Longrightarrow> matched cap (without ids L)"
proof -
  assume m: "matched cap L"
  have "int (length (leases (without ids L))) \<le> int (length (leases L))" by (simp add: without_def)
  then have "int (length (leases (without ids L))) \<le> cap" using m by (simp add: matched_def)
  then show ?thesis using m by (simp add: matched_def without_def distinct_map_filter image_filter_out)
qed

lemma matched_hold:
  assumes m: "matched cap L" and fresh: "rid \<notin> fst ` set (held L)" and room: "int (length (leases L)) < cap"
    and v: "whole_hold v"
  shows "matched cap (L\<lparr>leases := zinsert sc rid (leases L), held := AList.update rid v (held L)\<rparr>)"
proof -
  have lf: "rid \<notin> snd ` set (leases L)" using m fresh by (simp add: matched_def)
  then have keep: "{e \<in> set (leases L). snd e \<noteq> rid} = set (leases L)" by auto
  have "set (AList.update rid v (held L)) \<subseteq> insert (rid, v) (set (held L))"
    by (rule set_update_subset)
  then show ?thesis using m room v length_zinsert_fresh[OF lf]
    by (auto simp: matched_def dom_update distinct_update keep)
qed

lemma admission_verdict_admits:
  assumes "admission_verdict a tb rb inflight svc = (None, w)"
  shows "a_reserve a \<le> a_tpm_limit a" "1 \<le> rb" "of_int (a_reserve a) \<le> tb"
    "inflight < a_max_concurrency a + a_max_queue a"
    "a_slo_ttft_ms a \<le> 0 \<or> predicted_wait inflight (a_max_concurrency a) svc \<le> a_slo_ttft_ms a"
  using assms by (auto simp: admission_verdict_def split: if_splits)

lemma ledger_admit_matched:
  assumes m: "matched cap L" and g: "a_max_concurrency a + a_max_queue a \<le> cap" "0 \<le> a_reserve a"
      "a_tpm_limit a \<le> 2 ^ 31" "a_rid a \<notin> fst ` set (held L)"
  shows "matched cap (snd (ledger_admit a L))"
proof -
  have m1: "matched cap (swept a L)" unfolding swept_def by (rule matched_without[OF m])
  have fresh: "a_rid a \<notin> fst ` set (held (swept a L))" using g(4) by (auto simp: swept_def without_def)
  have same: "matched cap (X\<lparr>tpm := p, tpmTs := q, rpm := r, rpmTs := t\<rparr>) = matched cap X"
    "matched cap (X\<lparr>tpm := p, tpmTs := q, rpm := r, rpmTs := t, leases := l, held := h\<rparr>)
      = matched cap (X\<lparr>leases := l, held := h\<rparr>)" for X p q r t l h
    by (simp_all add: matched_def)
  obtain reason w where v: "verdict a L = (reason, w)" by (cases "verdict a L")
  show ?thesis
  proof (cases reason)
    case None
    note ok = admission_verdict_admits[OF v[unfolded verdict_def None]]
    have "whole_hold (of_int (a_reserve a))"
      unfolding whole_hold_def using g(2,3) ok(1) by (intro exI[of _ "a_reserve a"]) auto
    then have "matched cap ((swept a L)\<lparr>leases := zinsert (a_now a + a_lease_ms a) (a_rid a) (leases (swept a L)),
        held := AList.update (a_rid a) (of_int (a_reserve a)) (held (swept a L))\<rparr>)"
      using ok(4) g(1) by (intro matched_hold[OF m1 fresh]) (auto simp: inflight_found_def)
    then show ?thesis by (simp only: ledger_admit_admits[OF v[unfolded None]] same)
  next
    case (Some reason)
    then show ?thesis using m1 by (simp only: ledger_admit_sheds[OF v[unfolded Some]] same)
  qed
qed

lemma ledger_commit_held:
  "leases (snd (ledger_commit c L)) = leases (if settled L (c_rid c) = None \<and> map_of (held L) (c_rid c) \<noteq> None then without [c_rid c] L else L)"
  "held (snd (ledger_commit c L)) = held (if settled L (c_rid c) = None \<and> map_of (held L) (c_rid c) \<noteq> None then without [c_rid c] L else L)"
  by (auto simp: ledger_commit_def Let_def split: option.splits)

lemma ledger_commit_matched: "matched cap L \<Longrightarrow> matched cap (snd (ledger_commit c L))"
  using matched_without[of cap L "[c_rid c]"]
  by (auto simp: matched_def ledger_commit_held)

lemma leases_empty_iff: "matched cap L \<Longrightarrow> leases L = [] \<longleftrightarrow> held L = []"
  unfolding matched_def by (metis image_is_empty list.set(1) set_empty2)

text \<open>The lease set and the hold table are both there or both gone after any time.\<close>

lemma lease_inv_expire:
  assumes inv: "lease_inv n cap ks"
  shows "lease_inv n cap (expire_after d ks)"
    and "held (ledger_at n (expire_after d ks)) = held (ledger_at n ks) \<and>
         leases (ledger_at n (expire_after d ks)) = leases (ledger_at n ks)
       \<or> held (ledger_at n (expire_after d ks)) = [] \<and> leases (ledger_at n (expire_after d ks)) = []"
proof -
  let ?L = "ledger_at n ks" and ?L' = "ledger_at n (expire_after d ks)"
  have m: "matched cap ?L" and cap: "0 \<le> cap"
    and t: "leases ?L \<noteq> [] \<Longrightarrow> ttl_at ks (n @ '':leases'') = ttl_at ks (n @ '':res'')"
    using inv by (auto simp: lease_inv_def)
  show alt: "held ?L' = held ?L \<and> leases ?L' = leases ?L \<or> held ?L' = [] \<and> leases ?L' = []"
    using t leases_empty_iff[OF m] by (auto simp: ledger_at_def split: option.splits)
  then have "matched cap ?L'" using m cap by (elim disjE) (simp_all add: matched_def)
  moreover have "ttl_at (expire_after d ks) (n @ '':leases'') = ttl_at (expire_after d ks) (n @ '':res'')"
    if "leases ?L' \<noteq> []"
  proof -
    have same: "leases ?L' = leases ?L" "held ?L' = held ?L" using alt that by auto
    have "ttl_at (expire_after d ks) k = map_option (\<lambda>ms. ms - int d) (ttl_at ks k)"
      if "zset_at (expire_after d ks) k \<noteq> [] \<or> hash_at (expire_after d ks) k \<noteq> []" for k
      using that by (auto simp: expire_after_def ttl_at_def zset_at_def hash_at_def split: option.splits if_splits)
    moreover have "held ?L' \<noteq> []" using that same leases_empty_iff[OF m] by simp
    ultimately show ?thesis using that t same by (simp add: ledger_at_def)
  qed
  ultimately show "lease_inv n cap (expire_after d ks)" using cap by (simp add: lease_inv_def)
qed

lemma lease_inv_step:
  assumes inv: "lease_inv n cap ks" and g: "lease_guard n cap e ks"
  shows "lease_inv n cap (llm_step n e ks)"
proof -
  obtain d op where e: "e = (d, op)" by (cases e)
  let ?ks = "expire_after d ks"
  let ?L = "ledger_at n ?ks"
  have inv': "lease_inv n cap ?ks" by (rule lease_inv_expire(1)[OF inv])
  then have m: "matched cap ?L" and cap: "0 \<le> cap"
    and t: "leases ?L \<noteq> [] \<Longrightarrow> ttl_at ?ks (n @ '':leases'') = ttl_at ?ks (n @ '':res'')"
    by (auto simp: lease_inv_def)
  show ?thesis
  proof (cases op)
    case (Admit a)
    then have g': "0 < a_ttl a" "a_max_concurrency a + a_max_queue a \<le> cap" "0 \<le> a_reserve a"
        "a_tpm_limit a \<le> 2 ^ 31" "a_rid a \<notin> fst ` set (held ?L)"
      using g lease_inv_expire(2)[OF inv, of d] by (auto simp: e)
    obtain ks' where ks': "run_state (admit_script doc_call (keys_in n) a) ?ks = (fst (ledger_admit a ?L), ks')"
        "ledger_at n ks' = snd (ledger_admit a ?L)"
      using admit_script_doc[OF g'(1)] by blast
    have m': "matched cap (ledger_at n ks')"
      unfolding ks'(2) by (rule ledger_admit_matched[OF m g'(2-5)])
    have step: "llm_step n e ks = ks'" by (simp add: llm_step_def e Admit ks'(1))
    show ?thesis
      using m' cap admit_script_lives(2,3)[OF ks'(1) g'(1)] leases_empty_iff[OF m']
      by (simp add: step lease_inv_def)
  next
    case (Commit c)
    then have g': "0 < c_ttl c" "0 < c_idem_ttl c" using g by (auto simp: e)
    obtain ks' where ks': "run_state (commit_script doc_call (keys_in n) (settled_in n (c_rid c)) c) ?ks
          = (fst (ledger_commit c ?L), ks')"
        "ledger_at n ks' = snd (ledger_commit c ?L)"
        "ks' = ?ks \<or> (leases (ledger_at n ks') \<noteq> [] \<longrightarrow> ttl_at ks' (n @ '':leases'') = ttl_at ?ks (n @ '':leases''))
          \<and> (held (ledger_at n ks') \<noteq> [] \<longrightarrow> ttl_at ks' (n @ '':res'') = ttl_at ?ks (n @ '':res''))"
      using commit_script_doc[OF g', of n ?ks] by (metis (no_types, lifting))
    have m': "matched cap (ledger_at n ks')"
      unfolding ks'(2) by (rule ledger_commit_matched[OF m])
    have sub: "leases (ledger_at n ks') \<noteq> [] \<Longrightarrow> leases ?L \<noteq> []"
      unfolding ks'(2) ledger_commit_held by (auto simp: without_def split: if_splits)
    have step: "llm_step n e ks = ks'" by (simp add: llm_step_def e Commit ks'(1))
    show ?thesis
      using m' cap ks'(3) t sub leases_empty_iff[OF m'] inv' by (auto simp: step lease_inv_def)
  qed
qed

interpretation leases: guarded "llm_step n" "lease_guard n cap" "lease_inv n cap"
  for n :: string and cap :: int
  by unfold_locales (rule lease_inv_step)

section \<open>The calls a gateway makes\<close>

text \<open>
  What the service's code makes of a policy: positive lives, whole token counts within the
  columns' range, and a fresh random id for every reservation.
\<close>

fun op_ok :: "int \<Rightarrow> llm_op \<Rightarrow> bool" where
  "op_ok cap (Admit a) = (0 < a_ttl a \<and> a_max_concurrency a + a_max_queue a \<le> cap \<and> 0 \<le> a_reserve a
     \<and> a_tpm_limit a \<le> 2 ^ 31)"
| "op_ok cap (Commit c) = (0 < c_ttl c \<and> 0 < c_idem_ttl c)"

fun op_rids :: "llm_op \<Rightarrow> string list" where
  "op_rids (Admit a) = [a_rid a]"
| "op_rids (Commit c) = []"

definition gateway_calls :: "int \<Rightarrow> timed_op list \<Rightarrow> bool" where
  "gateway_calls cap es \<longleftrightarrow> (\<forall>e \<in> set es. op_ok cap (snd e)) \<and> distinct (concat (map (op_rids \<circ> snd) es))"

lemma held_expire: "set (held (ledger_at n (expire_after d ks))) \<subseteq> set (held (ledger_at n ks))"
  by (auto simp: ledger_at_def split: option.splits if_splits)

lemma held_without: "set (held (without ids L)) \<subseteq> set (held L)"
  by (auto simp: without_def)

lemma ledger_admit_held: "set (held (snd (ledger_admit a L))) \<subseteq> insert (a_rid a, of_int (a_reserve a)) (set (held L))"
proof -
  obtain reason w where v: "verdict a L = (reason, w)" by (cases "verdict a L")
  show ?thesis
    using set_update_subset[of "a_rid a" "of_int (a_reserve a)" "held (swept a L)"] held_without[of "sweep (a_now a) (a_reclaim_batch a) L" L]
    by (cases reason) (auto simp: ledger_admit_admits ledger_admit_sheds v swept_def)
qed

lemma held_step:
  assumes ok: "op_ok cap op"
  shows "fst ` set (held (ledger_at n (llm_step n (d, op) ks))) \<subseteq> fst ` set (held (ledger_at n ks)) \<union> set (op_rids op)"
proof (cases op)
  case (Admit a)
  let ?L = "ledger_at n (expire_after d ks)"
  obtain ks' where "run_state (admit_script doc_call (keys_in n) a) (expire_after d ks) = (fst (ledger_admit a ?L), ks')"
      "ledger_at n ks' = snd (ledger_admit a ?L)"
    using admit_script_doc[of a n "expire_after d ks"] ok Admit by auto
  then have "held (ledger_at n (llm_step n (d, op) ks)) = held (snd (ledger_admit a ?L))"
    by (simp add: llm_step_def Admit)
  then show ?thesis using ledger_admit_held[of a ?L] held_expire[of n d ks] by (fastforce simp: Admit)
next
  case (Commit c)
  let ?L = "ledger_at n (expire_after d ks)"
  obtain ks' where "run_state (commit_script doc_call (keys_in n) (settled_in n (c_rid c)) c) (expire_after d ks)
        = (fst (ledger_commit c ?L), ks')" "ledger_at n ks' = snd (ledger_commit c ?L)"
    using commit_script_doc[of c n "expire_after d ks"] ok Commit by auto
  then have "held (ledger_at n (llm_step n (d, op) ks)) = held (snd (ledger_commit c ?L))"
    by (simp add: llm_step_def Commit)
  then have "set (held (ledger_at n (llm_step n (d, op) ks))) \<subseteq> set (held ?L)"
    using held_without[of "[c_rid c]" ?L] by (simp add: ledger_commit_held)
  then show ?thesis using held_expire[of n d ks] by auto
qed

lemma gateway_calls_valid:
  assumes "gateway_calls cap es"
    and "fst ` set (held (ledger_at n ks)) \<inter> set (concat (map (op_rids \<circ> snd) es)) = {}"
  shows "valid_ops (llm_step n) (lease_guard n cap) es ks"
  using assms
proof (induction es arbitrary: ks)
  case (Cons e es)
  obtain d op where e: "e = (d, op)" by (cases e)
  have ok: "op_ok cap op" and rest: "gateway_calls cap es"
    and new: "set (op_rids op) \<inter> set (concat (map (op_rids \<circ> snd) es)) = {}"
    using Cons.prems(1) by (auto simp: gateway_calls_def e)
  have "lease_guard n cap e ks" using ok Cons.prems(2) by (cases op) (auto simp: e)
  moreover have "fst ` set (held (ledger_at n (llm_step n e ks))) \<inter> set (concat (map (op_rids \<circ> snd) es)) = {}"
    using held_step[OF ok, of n d ks] new Cons.prems(2) by (auto simp: e)
  ultimately show ?case using Cons.IH[OF rest] by simp
qed simp

lemma lease_inv_fresh:
  "0 \<le> cap \<Longrightarrow> leases (ledger_at n ks) = [] \<Longrightarrow> held (ledger_at n ks) = [] \<Longrightarrow> lease_inv n cap ks"
  by (simp add: lease_inv_def matched_def)

text \<open>
  C3: After any interleaving of reserve and commit calls, with keys expiring whenever their
  life runs out, every lease has exactly one hold and every hold a lease, no reservation is
  there twice, and the requests in flight are never more than the slots and the queue.
\<close>

theorem leases_match_holds:
  assumes server: "redis_server call elapse view" and "0 \<le> cap"
    and fresh: "leases (ledger_at n (view s)) = []" "held (ledger_at n (view s)) = []"
    and calls: "gateway_calls cap es"
    and run: "run_state (protocol_run call elapse n es) s = (rs, s')"
  shows "snd ` set (leases (ledger_at n (view s'))) = fst ` set (held (ledger_at n (view s')))
    \<and> distinct (map snd (leases (ledger_at n (view s')))) \<and> distinct (map fst (held (ledger_at n (view s'))))
    \<and> int (length (leases (ledger_at n (view s')))) \<le> cap"
proof -
  have "valid_ops (llm_step n) (lease_guard n cap) es (view s)"
    by (rule gateway_calls_valid[OF calls]) (simp add: fresh)
  then have "lease_inv n cap (run_ops (llm_step n) es (view s))"
    using leases.inv_run lease_inv_fresh[OF assms(2) fresh] by blast
  moreover have "view s' = run_ops (llm_step n) es (view s)"
    using protocol_run_end[of n es "view s"] simulatesD[OF protocol_run_sim[OF server] run] by simp
  ultimately show ?thesis by (simp add: lease_inv_def matched_def wf_zset_def)
qed

text \<open>A call of a gateway with a budget of 6000 tokens and 60 requests a minute, one slot and one place.\<close>

definition example_admit :: "string \<Rightarrow> int \<Rightarrow> admit_args" where
  "example_admit rid now =
     \<lparr>a_now = now, a_tpm_limit = 6000, a_tpm_rate = 100, a_rpm_limit = 60, a_rpm_rate = 1, a_reserve = 1000,
      a_rid = rid, a_lease_ms = 120000, a_max_concurrency = 1, a_max_queue = 1, a_slo_ttft_ms = 0, a_ttl = 300,
      a_reclaim_batch = 32, a_default_svc_ms = 2000\<rparr>"

definition example_commit :: "string \<Rightarrow> int \<Rightarrow> int \<Rightarrow> commit_args" where
  "example_commit rid now actual =
     \<lparr>c_now = now, c_rid = rid, c_actual = actual, c_tpm_limit = 6000, c_ttl = 300, c_service_ms = 0,
      c_output_tokens = 0, c_alpha = dbl (1 / 5), c_idem_ttl = 300\<rparr>"

lemma leases_match_holds_witness:
  "length (leases (ledger_at ''n'' (snd (run_state (protocol_run doc_call expire_after ''n''
      [(0, Admit (example_admit ''r1'' 1000)), (5, Admit (example_admit ''r2'' 1005)),
       (5, Admit (example_admit ''r3'' 1010)), (9, Commit (example_commit ''r1'' 1019 700))]) Map.empty)))) \<le> 2"
proof -
  let ?es = "[(0, Admit (example_admit ''r1'' 1000)), (5, Admit (example_admit ''r2'' 1005)),
       (5, Admit (example_admit ''r3'' 1010)), (9, Commit (example_commit ''r1'' 1019 700))] :: timed_op list"
  obtain rs ks where run: "run_state (protocol_run doc_call expire_after ''n'' ?es) Map.empty = (rs, ks)"
    by (cases "run_state (protocol_run doc_call expire_after ''n'' ?es) Map.empty")
  have "gateway_calls 2 ?es" by (simp add: gateway_calls_def example_admit_def example_commit_def)
  moreover have "leases (ledger_at ''n'' (id Map.empty)) = []" "held (ledger_at ''n'' (id Map.empty)) = []"
    by (simp_all add: ledger_at_def zset_at_def hash_at_def)
  ultimately have "int (length (leases (ledger_at ''n'' (id ks)))) \<le> 2"
    using leases_match_holds[OF keyspace_server.redis_server_axioms _ _ _ _ run, where cap = 2] by simp
  then show ?thesis by (simp only: run snd_conv id_apply)
qed

section \<open>A settled reservation stays settled\<close>

lemma settled_stays:
  assumes ok: "op_ok cap op" and key: "ks (settled_in n rid) = Some (Str v, Some t)" and "int d < t"
  shows "llm_step n (d, op) ks (settled_in n rid) = Some (Str v, Some (t - int d))"
proof -
  let ?ks = "expire_after d ks"
  have live: "?ks (settled_in n rid) = Some (Str v, Some (t - int d))"
    using assms by (simp add: expire_after_def)
  show ?thesis
  proof (cases op)
    case (Admit a)
    obtain r ks' where run: "run_state (admit_script doc_call (keys_in n) a) ?ks = (r, ks')" by (metis surj_pair)
    then have "ks' (settled_in n rid) = ?ks (settled_in n rid)"
      by (rule confinedD[OF admit_script_confined]) (simp add: budget_keys_def)
    then show ?thesis by (simp add: llm_step_def Admit run live)
  next
    case (Commit c)
    obtain r ks' where run: "run_state (commit_script doc_call (keys_in n) (settled_in n (c_rid c)) c) ?ks = (r, ks')"
      by (metis surj_pair)
    have "ks' (settled_in n rid) = ?ks (settled_in n rid)"
    proof (cases "c_rid c = rid")
      case True
      have "settled (ledger_at n ?ks) (c_rid c) \<noteq> None" using live by (simp add: True ledger_at_def str_at_def)
      then show ?thesis using commit_script_doc[of c n ?ks] ok run by (auto simp: Commit)
    next
      case False
      then show ?thesis by (intro confinedD[OF commit_script_confined run]) simp
    qed
    then show ?thesis by (simp add: llm_step_def Commit run live)
  qed
qed

lemma settled_stays_run:
  assumes "\<forall>e \<in> set es. op_ok cap (snd e)" "ks (settled_in n rid) = Some (Str v, Some t)"
    and "int (sum_list (map fst es)) < t"
  shows "run_ops (llm_step n) es ks (settled_in n rid) = Some (Str v, Some (t - int (sum_list (map fst es))))"
  using assms
proof (induction es arbitrary: ks t)
  case (Cons e es)
  obtain d op where e: "e = (d, op)" by (cases e)
  have "llm_step n e ks (settled_in n rid) = Some (Str v, Some (t - int d))"
    using Cons.prems settled_stays[of cap op ks n rid v t d] by (simp add: e)
  with Cons.IH[where ks = "llm_step n e ks" and t = "t - int d"] Cons.prems show ?case by (simp add: e)
qed simp

lemma ledger_commit_settles:
  assumes "settled L (c_rid c) = None" and "0 \<le> c_actual c" "c_actual c \<le> 2 ^ 31"
    and "\<forall>e \<in> set (held L). whole_hold (snd e)"
  shows "\<exists>m. com_refund (fst (ledger_commit c L)) = m \<and> \<bar>m\<bar> \<le> 2 ^ 31
    \<and> settled (snd (ledger_commit c L)) (c_rid c) = Some (of_int m)"
proof -
  obtain h where h: "(case map_of (held L) (c_rid c) of Some v \<Rightarrow> dbl v | None \<Rightarrow> 0) = of_int h" "0 \<le> h" "h \<le> 2 ^ 31"
  proof (cases "map_of (held L) (c_rid c)")
    case (Some v)
    then have "whole_hold v" using assms(4) map_of_SomeD[of "held L"] by fastforce
    then show ?thesis using that Some by (auto simp: whole_hold_def)
  qed (use that[of 0] in simp)
  have d: "\<bar>h - c_actual c\<bar> \<le> 2 ^ 31" using h assms(2,3) by linarith
  then have "fsub (of_int h) (of_int (c_actual c)) = of_int (h - c_actual c)"
    by (intro fsub_of_int order_trans[OF d]) simp
  moreover have "tostring (of_int (h - c_actual c)) = of_int (h - c_actual c)"
    by (intro tostring_of_int order_trans[OF d]) simp
  ultimately show ?thesis using d assms(1)
    by (intro exI[of _ "h - c_actual c"]) (simp add: ledger_commit_def Let_def h(1))
qed

text \<open>
  C2: A commit that is retried is answered as a duplicate with the refund of the first, and
  changes nothing, whatever other reserves, commits and retries came in between, as long
  as the memory of the settlement lasts.
\<close>

theorem commit_replay_ignored:
  assumes server: "redis_server call elapse view" and inv: "lease_inv n cap (view s)"
    and c: "op_ok cap (Commit c)" "0 \<le> c_actual c" "c_actual c \<le> 2 ^ 31"
    and first: "run_state (commit_script call (keys_in n) (settled_in n (c_rid c)) c) s = (r, s1)"
    and settles: "com_status r \<noteq> 3"
    and others: "\<forall>e \<in> set es. op_ok cap (snd e)" "run_state (protocol_run call elapse n es) s1 = (rs, s2)"
    and time: "int (sum_list (map fst es) + d) < 1000 * c_idem_ttl c"
    and again: "c_rid c' = c_rid c" "op_ok cap (Commit c')"
  shows "\<exists>r' s3. run_state (commit_script call (keys_in n) (settled_in n (c_rid c)) c') (elapse d s2) = (r', s3)
    \<and> com_status r' = 3 \<and> com_refund r' = com_refund r \<and> view s3 = view (elapse d s2)"
proof -
  let ?sk = "settled_in n (c_rid c)" and ?L = "ledger_at n (view s)"
  note sim = commit_script_sim[OF server]
  have run: "run_state (commit_script doc_call (keys_in n) ?sk c) (view s) = (r, view s1)"
    by (rule simulatesD[OF sim first])
  note doc = commit_script_doc[of c n "view s"]
  have r: "r = fst (ledger_commit c ?L)" and L1: "ledger_at n (view s1) = snd (ledger_commit c ?L)"
    using doc c(1) run by auto
  have none: "settled ?L (c_rid c) = None"
    using settles by (cases "settled ?L (c_rid c)") (auto simp: r ledger_commit_def Let_def)
  have ttl: "ttl_at (view s1) ?sk = Some (1000 * c_idem_ttl c)" using doc c(1) run none by auto
  have whole: "\<forall>e \<in> set (held ?L). whole_hold (snd e)" using inv by (simp add: lease_inv_def matched_def)
  obtain m where m: "com_refund r = m" "\<bar>m\<bar> \<le> 2 ^ 31" "settled (ledger_at n (view s1)) (c_rid c) = Some (of_int m)"
    using ledger_commit_settles[OF none c(2,3) whole] unfolding r L1 by blast
  have key: "view s1 ?sk = Some (Str (of_int m), Some (1000 * c_idem_ttl c))"
    using m(3) ttl by (auto simp: ledger_at_def str_at_def ttl_at_def split: option.splits rvalue.splits)
  have "view s2 = run_ops (llm_step n) es (view s1)"
    using protocol_run_end[of n es "view s1"] simulatesD[OF protocol_run_sim[OF server] others(2)] by simp
  then have "view s2 ?sk = Some (Str (of_int m), Some (1000 * c_idem_ttl c - int (sum_list (map fst es))))"
    using settled_stays_run[where ks = "view s1", OF others(1) key] time by simp
  then have live: "settled (ledger_at n (view (elapse d s2))) (c_rid c') = Some (of_int m)"
    using time by (simp add: redis_server.elapse_documented[OF server] expire_after_def ledger_at_def str_at_def again(1))
  let ?ks = "view (elapse d s2)"
  have replay: "run_state (commit_script doc_call (keys_in n) ?sk c') ?ks = (fst (ledger_commit c' (ledger_at n ?ks)), ?ks)"
    using commit_script_doc[of c' n ?ks] again live by auto
  obtain r' s3 where "run_state (commit_script call (keys_in n) ?sk c') (elapse d s2) = (r', s3)" by (metis surj_pair)
  moreover from simulatesD[OF sim this] have "r' = fst (ledger_commit c' (ledger_at n ?ks))" "view s3 = ?ks"
    unfolding replay by auto
  moreover have "dbl (of_int m) = of_int m" by (intro dbl_of_int order_trans[OF m(2)]) simp
  ultimately show ?thesis using live m(1) by (simp add: ledger_commit_def Let_def)
qed

lemma commit_replay_ignored_witness:
  "\<exists>r s1 rs s2 r'. run_state (commit_script doc_call (keys_in ''n'') (settled_in ''n'' ''r1'') (example_commit ''r1'' 1019 700)) Map.empty = (r, s1)
    \<and> run_state (protocol_run doc_call expire_after ''n'' [(5, Admit (example_admit ''r2'' 1024)), (0, Commit (example_commit ''r1'' 1024 700))]) s1 = (rs, s2)
    \<and> fst (run_state (commit_script doc_call (keys_in ''n'') (settled_in ''n'' ''r1'') (example_commit ''r1'' 5000 900)) (expire_after 60000 s2)) = r'
    \<and> com_status r' = 3 \<and> com_refund r' = com_refund r"
proof -
  let ?c = "example_commit ''r1'' 1019 700" and ?c' = "example_commit ''r1'' 5000 900" and ?sk = "settled_in ''n'' ''r1''"
  let ?es = "[(5, Admit (example_admit ''r2'' 1024)), (0, Commit (example_commit ''r1'' 1024 700))] :: timed_op list"
  have rid: "c_rid ?c = ''r1''" "c_rid ?c' = ''r1''" by (simp_all add: example_commit_def)
  obtain r s1 where first: "run_state (commit_script doc_call (keys_in ''n'') ?sk ?c) Map.empty = (r, s1)"
    by (metis surj_pair)
  obtain rs s2 where rest: "run_state (protocol_run doc_call expire_after ''n'' ?es) s1 = (rs, s2)" by (metis surj_pair)
  have empty: "ledger_at ''n'' Map.empty = \<lparr>tpm = None, tpmTs = None, rpm = None, rpmTs = None, leases = [], held = [],
      stats = [], settled = (\<lambda>rid. None)\<rparr>"
    by (simp add: ledger_at_def str_at_def zset_at_def hash_at_def)
  have ok: "op_ok 2 (Commit ?c)" "op_ok 2 (Commit ?c')" by (simp_all add: example_commit_def)
  have "r = fst (ledger_commit ?c (ledger_at ''n'' Map.empty))"
    using commit_script_doc[of ?c "''n''" Map.empty] first ok by (auto simp: rid)
  then have settles: "com_status r \<noteq> 3" by (simp add: empty ledger_commit_def Let_def)
  have inv: "lease_inv ''n'' 2 (id Map.empty)" by (simp add: lease_inv_fresh empty)
  note replay = commit_replay_ignored[where call = doc_call and elapse = expire_after and view = id and s = Map.empty
      and n = "''n''" and c = ?c and cap = 2 and r = r and ?s1.0 = s1 and es = ?es and rs = rs and ?s2.0 = s2 and d = 60000 and c' = ?c']
  have "\<exists>r' s3. run_state (commit_script doc_call (keys_in ''n'') (settled_in ''n'' (c_rid ?c)) ?c') (expire_after 60000 s2) = (r', s3)
    \<and> com_status r' = 3 \<and> com_refund r' = com_refund r \<and> id s3 = id (expire_after 60000 s2)"
    by (rule replay[OF keyspace_server.redis_server_axioms inv ok(1) _ _ _ settles _ rest _ _ ok(2)])
       (use first in \<open>simp_all add: rid\<close>, simp_all add: example_commit_def example_admit_def)
  then show ?thesis using first rest by (auto simp: rid)
qed

end
