(* ===== verification/Admission_Outcomes.thy ===== *)
theory Admission_Outcomes
  imports Admission_Service Admission_Protocol
begin

text \<open>
  What the clients of the admission service can rely on: how much a reservation holds, what a
  refusal tells, that an admitted request can be settled, what a snapshot foretells, and what
  the metrics say about the work in flight.
\<close>

section \<open>How much is reserved\<close>

lemma dbl_pos [float_bounds]: "0 < x \<Longrightarrow> 0 < dbl x"
  by (simp add: dbl_def rnd_pos)

lemma tostring_pos [float_bounds]: "0 < x \<Longrightarrow> 0 < tostring x"
  by (simp add: tostring_def rnd_pos)

text \<open>
  A reservation holds the prompt and at least one token of output, and never more than the
  prompt and the ceiling the caller declared. It holds all of that in the worst-case mode
  and until something was observed; otherwise the output it holds is the ceiling or no less
  than the observed mean.
\<close>

theorem reservation_within_ceiling:
  assumes "1 \<le> m" and factor: "1 \<le> reservationSafetyFactor policy" and "dbl mean = mean"
  shows "p + 1 \<le> reserveTokens (estimateReservation policy p m mean)
    \<and> reserveTokens (estimateReservation policy p m mean) \<le> p + m
    \<and> worstCaseTokens (estimateReservation policy p m mean) = p + m
    \<and> (reservationMode policy = worst_case \<or> mean \<le> 0 \<longrightarrow> reserveTokens (estimateReservation policy p m mean) = p + m)
    \<and> min (of_int m) mean \<le> of_int (reserveTokens (estimateReservation policy p m mean) - p)"
proof -
  define projected where "projected = \<lceil>fmul mean (reservationSafetyFactor policy)\<rceil>"
  have "mean \<le> of_int projected" if "0 < mean"
  proof -
    have "mean * 1 \<le> mean * reservationSafetyFactor policy" using that factor by (intro mult_left_mono) auto
    then have "dbl mean \<le> fmul mean (reservationSafetyFactor policy)"
      unfolding fmul_def by (intro dbl_mono) simp
    then show ?thesis using assms(3) unfolding projected_def by (metis le_of_int_ceiling order_trans)
  qed
  then show ?thesis using assms(1)
    by (auto simp: estimateReservation_def Let_def min_def max_def simp flip: projected_def)
qed

lemma reservation_within_ceiling_witness:
  "min 400 150 \<le> (of_int (reserveTokens (estimateReservation
      (example_policy\<lparr>reservationMode := adaptive\<rparr>) 100 400 150) - 100) :: rat)"
proof -
  have "dbl 150 = 150" by (rule dbl_numeral) simp
  with reservation_within_ceiling[of 400 "example_policy\<lparr>reservationMode := adaptive\<rparr>" 150 100]
  show ?thesis by (simp add: example_policy_def DEFAULT_POLICY_def)
qed

section \<open>What a refusal tells\<close>

text \<open>The average service time that commits keep is that of positive samples.\<close>

definition service_times_positive :: "ledger \<Rightarrow> bool" where
  "service_times_positive L \<longleftrightarrow> (\<forall>v. map_of (stats L) ''svc_ms'' = Some v \<longrightarrow> 0 < v)"

lemma ewma_pos: "0 < alpha \<Longrightarrow> alpha < 1 \<Longrightarrow> 0 < x \<Longrightarrow> (\<forall>p. prev = Some p \<longrightarrow> 0 < p) \<Longrightarrow> 0 < ewma alpha x prev"
  by (cases prev) (auto simp: ewma_def fadd_def fmul_def fsub_def intro!: dbl_pos add_pos_pos mult_pos_pos)

lemma service_times_commit:
  assumes "service_times_positive L" and "0 < c_alpha a" "c_alpha a < 1"
  shows "service_times_positive (snd (ledger_commit a L))"
proof -
  have "0 < tostring (ewma (c_alpha a) (of_int (c_service_ms a)) (map_of (stats L) ''svc_ms''))" if "0 < c_service_ms a"
    using assms that by (intro tostring_pos ewma_pos) (auto simp: service_times_positive_def)
  then show ?thesis using assms(1)
    by (auto simp: service_times_positive_def ledger_commit_def calibrated_def Let_def without_def
        update_conv' split: option.splits if_splits)
qed

lemma service_times_admit: "service_times_positive L \<Longrightarrow> service_times_positive (snd (ledger_admit a L))"
  by (simp add: service_times_positive_def ledger_admit_def Let_def split_beta swept_def without_def)

lemma admission_verdict_waits:
  assumes "admission_verdict a tb rb inflight svc = (reason, w)" and "0 < a_tpm_rate a" "0 < a_rpm_rate a" "0 < svc"
  shows "reason \<noteq> None \<and> reason \<noteq> Some unsatisfiable \<longleftrightarrow> 0 < w" and "0 \<le> w"
proof -
  have pos: "0 < \<lceil>fmul (fdiv (fsub x y) r) 1000\<rceil>" if "y < x" "0 < r" for x y r
    using that by (auto simp: fmul_def fdiv_def fsub_def intro!: dbl_pos divide_pos_pos mult_pos_pos)
  show "reason \<noteq> None \<and> reason \<noteq> Some unsatisfiable \<longleftrightarrow> 0 < w" "0 \<le> w"
    using assms pos[of rb 1 "a_rpm_rate a"] pos[of tb "of_int (a_reserve a)" "a_tpm_rate a"]
    by (auto simp: admission_verdict_def split: if_splits)
qed

lemma service_found_pos:
  "service_times_positive L \<Longrightarrow> 0 < a_default_svc_ms a \<Longrightarrow> 0 < service_found a L"
  by (auto simp: service_found_def stat_or_def service_times_positive_def intro: dbl_pos split: option.splits)

lemma ledger_admit_reply:
  assumes "ledger_admit a L = (raw, L')"
  shows "adm_reason raw = fst (verdict a L)" "adm_retry raw = snd (verdict a L)"
    "adm_admitted raw = (if fst (verdict a L) = None then 1 else 0)" "adm_reserved raw = a_reserve a"
    "adm_inflight raw = inflight_found a L + (if fst (verdict a L) = None then 1 else 0)"
    "adm_reclaimed raw = int (length (sweep (a_now a) (a_reclaim_batch a) L))"
  using assms by (auto simp: ledger_admit_def Let_def split_beta)

lemma reserve_answers:
  assumes server: "script_server call elapse view sha1 client cached"
    and policy: "valid_policy policy" and stats: "service_times_positive (ledger_at (request_ns request) (view s))"
  shows "\<exists>res es s'. run_state (reserve sha1 client call now rid request policy) s = ((Inr res, es), s')
    \<and> (decision res = admit \<longleftrightarrow> res_reason res = None) \<and> (decision res = admit \<longleftrightarrow> res_reservationId res = Some rid)
    \<and> (decision res = shed \<longleftrightarrow> res_reservationId res = None)
    \<and> (res_retryAfter res = None \<longleftrightarrow> decision res = admit \<or> res_reason res = Some unsatisfiable)
    \<and> (\<forall>t. res_retryAfter res = Some t \<longrightarrow> 1 \<le> t)"
proof -
  let ?L = "ledger_at (request_ns request) (view s)"
  let ?a = "args_found policy now rid request ?L"
  obtain raw v' where doc: "run_state (admit_script doc_call (keys_in (request_ns request)) ?a) (view s) = (raw, v')"
    by (metis surj_pair)
  have raw: "raw = fst (ledger_admit ?a ?L)"
    using admit_script_doc[of ?a "request_ns request" "view s"] doc by auto
  note reply = ledger_admit_reply[OF prod.collapse[symmetric], of ?a ?L, folded raw]
  have rates: "0 < a_tpm_rate ?a" "0 < a_rpm_rate ?a" "0 < a_default_svc_ms ?a"
    using policy by (auto simp: args_found_def admit_args_for_def valid_policy_def fdiv_def COLD_START_SERVICE_MS_def
        intro!: dbl_pos)
  have waits: "fst (verdict ?a ?L) \<noteq> None \<and> fst (verdict ?a ?L) \<noteq> Some unsatisfiable \<longleftrightarrow> 0 < snd (verdict ?a ?L)"
    by (rule admission_verdict_waits[where reason = "fst (verdict ?a ?L)" and w = "snd (verdict ?a ?L)"])
       (auto simp: verdict_def intro!: rates service_found_pos stats)
  have "decision (admission_result rid l raw) = (if fst (verdict ?a ?L) = None then admit else shed)
      \<and> res_reason (admission_result rid l raw) = fst (verdict ?a ?L)
      \<and> res_reservationId (admission_result rid l raw) = (if fst (verdict ?a ?L) = None then Some rid else None)
      \<and> res_retryAfter (admission_result rid l raw) = (if 0 < snd (verdict ?a ?L)
          then Some (max 1 \<lceil>fdiv (of_int (snd (verdict ?a ?L))) 1000\<rceil>) else None)" for l
    by (auto simp: admission_result_def Let_def reply)
  then show ?thesis
    using reserve_runs[OF server refl doc] waits by (fastforce split: if_splits)
qed

text \<open>
  C13: Every answer tells the client what to do next. An admission carries the id of the
  reservation and no reason; a refusal carries a reason and no id; and it carries a time of
  at least one second after which to retry, except when the request is larger than the
  budget can ever be, where retrying would never help.
\<close>

theorem refusal_tells_when_to_retry:
  assumes server: "script_server call elapse view sha1 client cached"
    and policy: "valid_policy policy" and stats: "service_times_positive (ledger_at (request_ns request) (view s))"
  shows "\<exists>res es s'. run_state (reserve sha1 client call now rid request policy) s = ((Inr res, es), s')
    \<and> (decision res = admit \<longleftrightarrow> res_reason res = None) \<and> (decision res = admit \<longleftrightarrow> res_reservationId res = Some rid)
    \<and> (decision res = shed \<longleftrightarrow> res_reservationId res = None)
    \<and> (res_retryAfter res = None \<longleftrightarrow> decision res = admit \<or> res_reason res = Some unsatisfiable)
    \<and> (\<forall>t. res_retryAfter res = Some t \<longrightarrow> 1 \<le> t)"
  using reserve_answers[OF assms] .

lemma example_policy_valid: "valid_policy example_policy"
  by (simp add: example_policy_def DEFAULT_POLICY_def valid_policy_def)

lemma refusal_tells_when_to_retry_witness:
  "\<exists>res es s'. run_state (reserve id (server_client id) server_call 1000 ''r1''
       (example_request\<lparr>ar_maxOutputTokens := 200000\<rparr>) example_policy) empty_server = ((Inr res, es), s')
    \<and> (res_retryAfter res = None \<longleftrightarrow> decision res = admit \<or> res_reason res = Some unsatisfiable)"
proof -
  have "service_times_positive (ledger_at n (fst empty_server))" for n by (simp add: service_times_positive_def)
  from refusal_tells_when_to_retry[OF doc_script_server.script_server_axioms[of id] example_policy_valid this,
      of 1000 "''r1''" "example_request\<lparr>ar_maxOutputTokens := 200000\<rparr>"]
  show ?thesis by (elim exE conjE) (intro exI conjI, assumption, assumption)
qed

section \<open>An admitted request can be settled\<close>

lemma ledger_admit_settled [simp]: "settled (snd (ledger_admit a L)) = settled L"
  by (simp add: ledger_admit_def Let_def split_beta swept_def without_def)

lemma ledger_admit_holds:
  "fst (verdict a L) = None \<Longrightarrow> map_of (held (snd (ledger_admit a L))) (a_rid a) = Some (of_int (a_reserve a))"
  by (simp add: ledger_admit_def Let_def split_beta update_conv')

lemma expire_after_ledger:
  assumes "held (ledger_at n ks) \<noteq> [] \<Longrightarrow> ttl_at ks (n @ '':res'') = Some t" and "int d < t"
    and "settled (ledger_at n ks) rid = None"
  shows "held (ledger_at n (expire_after d ks)) = held (ledger_at n ks)"
    "settled (ledger_at n (expire_after d ks)) rid = None"
  using assms by (cases "held (ledger_at n ks) = []"; auto simp: ledger_at_def split: option.splits)+

lemma counted_overrun:
  "counted ''llm_overrun_tokens_total'' [(''scope'', pol_scope policy)] (commit_metrics policy raw)
     = (if com_status raw \<noteq> 3 \<and> com_refund raw < 0 then of_int (- com_refund raw) else 0)"
  by (simp add: commit_metrics_def record_defs)

text \<open>What an admission leaves: a hold of the amount it answered, in keys that outlive the call.\<close>

lemma admission_leaves_hold:
  fixes view :: "'s \<Rightarrow> keyspace"
  assumes server: "script_server call elapse view sha1 client cached" and policy: "valid_policy policy"
    and request: "0 \<le> ar_promptTokens request" "0 \<le> ar_maxOutputTokens request"
    and new_id: "settled (ledger_at (request_ns request) (view s)) rid = None"
    and reserved: "run_state (reserve sha1 client call now rid request policy) s = ((Inr res, es), s1)" "decision res = admit"
      "res_reservedTokens res = Some r"
    and alive: "int d < 1000 * ttlSeconds policy"
  shows "0 \<le> r" and "r \<le> 2 ^ 31"
    and "map_of (held (ledger_at (request_ns request) (view (elapse d s1)))) rid = Some (of_int r)"
    and "settled (ledger_at (request_ns request) (view (elapse d s1))) rid = None"
proof -
  let ?n = "request_ns request" and ?L = "ledger_at (request_ns request) (view s)"
  let ?a = "args_found policy now rid request ?L"
  have rid: "a_rid ?a = rid" and limit: "a_tpm_limit ?a = tokensPerMinute policy"
    and amount: "a_reserve ?a = reserveTokens (estimate_found policy request ?L)"
    by (simp_all add: args_found_def admit_args_for_def)
  obtain raw v' where doc: "run_state (admit_script doc_call (keys_in ?n) ?a) (view s) = (raw, v')" by (metis surj_pair)
  have raw: "raw = fst (ledger_admit ?a ?L)" and L1: "ledger_at ?n v' = snd (ledger_admit ?a ?L)"
    using admit_script_doc[of ?a ?n "view s"] doc by auto
  note reply = ledger_admit_reply[OF prod.collapse[symmetric], of ?a ?L, folded raw]
  have res: "res = admission_result rid (now + leaseSeconds policy * 1000) raw" and s1: "view s1 = v'"
    using reserve_runs[OF server refl doc] reserved(1) by auto
  have ok: "fst (verdict ?a ?L) = None" and r: "r = a_reserve ?a"
    using reserved(2,3) by (auto simp: res admission_result_def Let_def reply split: if_splits)
  show "0 \<le> r" using request by (auto simp: r amount estimate_found_def estimateReservation_def Let_def)
  have "r \<le> tokensPerMinute policy"
    using admission_verdict_admits(1)[of ?a "tokens_found ?a ?L" "requests_found ?a ?L" "inflight_found ?a ?L" "service_found ?a ?L"] ok
    by (cases "verdict ?a ?L") (auto simp: verdict_def r limit)
  then show "r \<le> 2 ^ 31" using policy by (simp add: valid_policy_def)
  have ks: "view (elapse d s1) = expire_after d v'"
    using redis_server.elapse_documented[OF script_server.axioms(1)[OF server]] by (simp add: s1)
  have "held (ledger_at ?n (expire_after d v')) = held (ledger_at ?n v')" "settled (ledger_at ?n (expire_after d v')) rid = None"
    using expire_after_ledger[of ?n v' "1000 * ttlSeconds policy" d rid] admit_script_lives(3)[OF doc] alive new_id
    by (auto simp: L1)
  then show "map_of (held (ledger_at ?n (view (elapse d s1)))) rid = Some (of_int r)" "settled (ledger_at ?n (view (elapse d s1))) rid = None"
    using ledger_admit_holds[OF ok] by (simp_all add: ks L1 rid r)
qed

text \<open>What a commit answers of a hold it finds and has not settled.\<close>

lemma commit_of_hold:
  fixes view :: "'s \<Rightarrow> keyspace"
  assumes server: "script_server call elapse view sha1 client cached"
    and hold: "map_of (held (ledger_at n (view s))) rid = Some (of_int r)" "settled (ledger_at n (view s)) rid = None" "0 \<le> r" "r \<le> 2 ^ 31"
    and settle: "commit_ns settle = n" "cr_reservationId settle = rid"
      "used = cr_promptTokens settle + cr_outputTokens settle" "0 \<le> used" "used \<le> 2 ^ 31"
  shows "\<exists>res' es' s2. run_state (commit sha1 client call now settle policy) s = ((Inr res', es'), s2)
    \<and> commit_status res' = committed \<and> refundedTokens res' = r - used
    \<and> (used \<le> r \<longrightarrow> counted ''llm_overrun_tokens_total'' [(''scope'', pol_scope policy)] es' = 0)
    \<and> map_of (held (ledger_at n (view s2))) rid = None"
proof -
  let ?c = "commit_args_for policy now settle"
  obtain raw v2 where commit: "run_state (commit_script doc_call (keys_in n) (settled_in n rid) ?c) (view s) = (raw, v2)"
    by (metis surj_pair)
  have raw: "raw = fst (ledger_commit ?c (ledger_at n (view s)))" and L2: "ledger_at n v2 = snd (ledger_commit ?c (ledger_at n (view s)))"
    using commit_script_doc[of ?c n "view s"] commit by (auto simp: settle(2))
  have "dbl (of_int r) = of_int r" by (rule dbl_of_int) (use hold(3,4) in simp)
  moreover have "fsub (of_int r) (of_int used) = of_int (r - used)" by (rule fsub_of_int) (use hold(3,4) settle(4,5) in simp)
  ultimately have answer: "com_status raw = 1" "com_refund raw = r - used" and gone: "map_of (held (ledger_at n v2)) rid = None"
    using hold(1,2) settle(3) unfolding L2
    by (auto simp: raw ledger_commit_def Let_def settle(2) without_def map_of_eq_None_iff simp del: of_int_diff of_int_add)
  have "run_state (commit_script doc_call (keys_in (commit_ns settle)) (settled_in (commit_ns settle) (cr_reservationId settle)) ?c)
      (view s) = (raw, v2)"
    using commit by (simp add: settle)
  from commit_runs[OF server this] show ?thesis
    using answer gone by (auto simp: commit_result_def counted_overrun)
qed


lemma example_reserved:
  "\<exists>res es s'. run_state (reserve id (server_client id) server_call 1000 ''r1'' example_request example_policy) empty_server
      = ((Inr res, es), s') \<and> decision res = admit \<and> res_reservedTokens res = Some 500"
proof -
  let ?n = "request_ns example_request" and ?s = empty_server
  let ?a = "args_found example_policy 1000 ''r1'' example_request (ledger_at ?n (fst ?s))"
  obtain raw v' where doc: "run_state (admit_script doc_call (keys_in ?n) ?a) (fst ?s) = (raw, v')" by (metis surj_pair)
  have "raw = fst (ledger_admit ?a (ledger_at ?n (fst ?s)))"
    using admit_script_doc[of ?a ?n "fst ?s"] doc by auto
  then show ?thesis
    using reserve_runs[OF doc_script_server.script_server_axioms[of id] refl doc]
    unfolding fst_conv example_args by (auto simp: admission_result_def)
qed


section \<open>What a snapshot foretells\<close>

lemma snapshot_doc:
  "run_state (snapshot_script doc_call (keys_in n) now tlim tr rl rr d) ks =
     (let L = ledger_at n ks in
      \<lparr>snap_tokens = \<lfloor>level (tpm L) (tpmTs L) (of_int tlim) tr now\<rfloor>,
       snap_requests = \<lfloor>level (rpm L) (rpmTs L) (of_int rl) rr now\<rfloor>,
       snap_inflight = int (length (leases L)),
       snap_expired = int (length (filter (\<lambda>e. fst e \<le> now) (leases L))),
       snap_svc = \<lfloor>stat_or L ''svc_ms'' (of_int d)\<rfloor>, snap_out = \<lfloor>stat_or L ''out_tokens'' 0\<rfloor>,
       snap_peak = \<lfloor>stat_or L ''out_peak'' 0\<rfloor>\<rparr>, ks)"
  by (simp add: snapshot_script_def keys_in_def ledger_at_def Let_def stat_or_def split: option.splits)

lemma level_dbl:
  assumes "dbl c = c"
  shows "dbl (level b t c r now) = level b t c r now"
  using assms by (simp add: level_def accrue_def min_def fadd_def split: option.splits)

lemma level_le: "level b t c r now \<le> c"
  by (simp add: level_def accrue_le_capacity split: option.splits)

lemma found_without_expired:
  assumes "filter (\<lambda>e. fst e \<le> a_now a) (leases L) = []" and "\<bar>a_tpm_limit a\<bar> \<le> 2 ^ 53"
  shows "tokens_found a L = level (tpm L) (tpmTs L) (of_int (a_tpm_limit a)) (a_tpm_rate a) (a_now a)"
    and "inflight_found a L = int (length (leases L))"
proof -
  have none: "sweep (a_now a) (a_reclaim_batch a) L = []" using assms(1) by (simp add: sweep_def)
  have "dbl (of_int (a_tpm_limit a)) = of_int (a_tpm_limit a)" by (rule dbl_of_int[OF assms(2)])
  from level_dbl[OF this] show "tokens_found a L = level (tpm L) (tpmTs L) (of_int (a_tpm_limit a)) (a_tpm_rate a) (a_now a)"
    by (simp add: tokens_found_def none fadd_def level_le min_def)
  show "inflight_found a L = int (length (leases L))" by (simp add: inflight_found_def swept_def none without_def)
qed

lemma snapshot_runs:
  assumes server: "script_server call elapse view sha1 client cached"
  shows "\<exists>s'. run_state (snapshot sha1 client call now tenant model policy) s
      = ((Inr \<lparr>snapshot_tenant = tenant, snapshot_model = model,
               snapshot_counts = fst (run_state (snapshot_script doc_call (keys tenant model) now
                  (tokensPerMinute policy) (fdiv (of_int (tokensPerMinute policy)) 60)
                  (requestsPerMinute policy) (fdiv (of_int (requestsPerMinute policy)) 60) COLD_START_SERVICE_MS) (view s)),
               snapshot_policy = policy\<rparr>, []), s') \<and> view s' = view s"
proof -
  let ?k = "keys tenant model"
  let ?prog = "\<lambda>call. snapshot_script call ?k now (tokensPerMinute policy) (fdiv (of_int (tokensPerMinute policy)) 60)
      (requestsPerMinute policy) (fdiv (of_int (requestsPerMinute policy)) 60) COLD_START_SERVICE_MS"
  have "length [k_tpm ?k, k_tpmTs ?k, k_rpm ?k, k_rpmTs ?k, k_leases ?k, k_stats ?k] = numKeys (snapshotScript :: ('a, llm_reply) redis_script)"
    by (simp add: snapshotScript_def)
  moreover have "run_state (?prog doc_call) (view s) = (fst (run_state (?prog doc_call) (view s)), view s)"
    by (simp add: keys_def snapshot_doc)
  ultimately obtain s1 where s1: "run_state (unrecorded (run_script sha1 client snapshotScript
      [k_tpm ?k, k_tpmTs ?k, k_rpm ?k, k_rpmTs ?k, k_leases ?k, k_stats ?k]
      (do { raw \<leftarrow> ?prog call; State_Monad.return (SnapshotReply raw) }))) s
        = ((Inr (SnapshotReply (fst (run_state (?prog doc_call) (view s)))), []), s1)" "view s1 = view s"
    using script_reply_runs[OF server snapshot_script_sim[OF script_server.axioms(1)[OF server]], where wrap = SnapshotReply] by blast
  show ?thesis
    unfolding snapshot_def Let_def
    by (rule exI[of _ s1], intro conjI s1(2), rule run_and_then(2)[OF s1(1), where es' = "[]", simplified]) simp
qed



section \<open>The work in flight, as the metrics have it\<close>

lemma derived_inflight_reserve:
  "derived_inflight (pol_scope policy) (admission_metrics policy estimate raw) =
     (if adm_admitted raw = 1 then 1 else 0) - (if 0 < adm_reclaimed raw then of_int (adm_reclaimed raw) else 0)"
  by (auto simp: derived_inflight_def admission_metrics_def record_defs reason_text_def split: option.splits ShedReason.splits)

lemma derived_inflight_commit:
  "derived_inflight (pol_scope policy) (commit_metrics policy raw) = (if com_status raw = 3 then 0 else -1)"
  by (simp add: derived_inflight_def commit_metrics_def record_defs)

lemma counted_late:
  "counted ''llm_late_commits_total'' [(''scope'', pol_scope policy)] (commit_metrics policy raw)
     = (if com_status raw = 2 then 1 else 0)"
  by (simp add: commit_metrics_def record_defs)

lemma length_without_ids:
  assumes "distinct (map snd l)" "distinct ids" "set ids \<subseteq> snd ` set l"
  shows "length (filter (\<lambda>e. snd e \<notin> set ids) l) + length ids = length l"
proof -
  have "map snd (filter (\<lambda>e. snd e \<notin> set ids) l) = filter (\<lambda>x. x \<notin> set ids) (map snd l)"
    by (simp add: filter_map o_def)
  then have "length (filter (\<lambda>e. snd e \<notin> set ids) l) = length (filter (\<lambda>x. x \<notin> set ids) (map snd l))"
    by (metis length_map)
  also have "\<dots> = card (set (filter (\<lambda>x. x \<notin> set ids) (map snd l)))"
    by (rule distinct_card[symmetric, OF distinct_filter[OF assms(1)]])
  also have "\<dots> = card (set (map snd l) - set ids)"
    by (rule arg_cong[of _ _ card]) auto
  also have "\<dots> = card (set (map snd l)) - card (set ids)"
    using assms(3) by (intro card_Diff_subset) auto
  finally show ?thesis
    using assms distinct_card[OF assms(1)] distinct_card[OF assms(2)] card_mono[of "set (map snd l)" "set ids"] by simp
qed

lemma ledger_admit_length:
  assumes wf: "distinct (map snd (leases L))" and new_id: "a_rid a \<notin> snd ` set (leases L)"
    and run: "ledger_admit a L = (raw, L')"
  shows "int (length (leases L')) = int (length (leases L)) + adm_admitted raw - adm_reclaimed raw"
proof -
  let ?ids = "sweep (a_now a) (a_reclaim_batch a) L"
  have "distinct (map snd (filter (\<lambda>e. fst e \<le> a_now a) (leases L)))" using wf by (rule distinct_map_filter)
  then have "distinct ?ids" unfolding sweep_def by (simp only: distinct_take flip: take_map)
  moreover have "set ?ids \<subseteq> snd ` set (leases L)"
    by (force simp: sweep_def dest: in_set_takeD)
  ultimately have swept: "length (leases (swept a L)) + length ?ids = length (leases L)"
    using length_without_ids[OF wf, of ?ids] by (simp add: swept_def without_def)
  have "a_rid a \<notin> snd ` set (leases (swept a L))" using new_id by (auto simp: swept_def without_def)
  note grown = length_zinsert_fresh[OF this]
  show ?thesis using swept grown run
    by (auto simp: ledger_admit_def Let_def split_beta)
qed

lemma ledger_commit_length:
  assumes m: "matched cap L" and run: "ledger_commit a L = (raw, L')"
  shows "int (length (leases L')) = int (length (leases L)) - (if com_status raw = 1 then 1 else 0)"
    and "com_status raw \<in> {1, 2, 3}"
proof -
  have wf: "distinct (map snd (leases L))" using m by (simp add: matched_def wf_zset_def)
  have gone: "length (filter (\<lambda>e. snd e \<noteq> c_rid a) (leases L)) + 1 = length (leases L)" if "map_of (held L) (c_rid a) = Some v" for v
  proof -
    have "c_rid a \<in> fst ` set (held L)" using map_of_SomeD[OF that] by force
    then have "c_rid a \<in> snd ` set (leases L)" using m by (simp add: matched_def)
    then show ?thesis using length_without_ids[OF wf, of "[c_rid a]"] by simp
  qed
  show "int (length (leases L')) = int (length (leases L)) - (if com_status raw = 1 then 1 else 0)"
    using run gone by (force simp: ledger_commit_def Let_def without_def split: option.splits if_splits)
  show "com_status raw \<in> {1, 2, 3}"
    using run by (auto simp: ledger_commit_def Let_def split: option.splits if_splits)
qed

text \<open>
  The work in flight that the metrics derive is the admissions less the settlements less
  the reclaims, and a reserve call moves it by exactly what it moves the set of leases. A
  commit that comes after its hold was reclaimed counts the settlement as well as the
  reclaim, so the derived number falls behind the leases by one with each such commit: it
  is the number of leases less the number of late commits.
\<close>

theorem derived_inflight_drifts_by_late_commits:
  assumes server: "script_server call elapse view sha1 client cached"
    and inv: "matched cap (ledger_at (request_ns request) (view s))" and same: "commit_ns settle = request_ns request"
    and new_id: "rid \<notin> snd ` set (leases (ledger_at (request_ns request) (view s)))"
  shows "(\<forall>res es s'. run_state (reserve sha1 client call now rid request policy) s = ((Inr res, es), s') \<longrightarrow>
       of_int (int (length (leases (ledger_at (request_ns request) (view s')))))
         = of_int (int (length (leases (ledger_at (request_ns request) (view s))))) + derived_inflight (pol_scope policy) es)
    \<and> (\<forall>res es s'. run_state (commit sha1 client call now settle policy) s = ((Inr res, es), s') \<longrightarrow>
       of_int (int (length (leases (ledger_at (request_ns request) (view s')))))
         = of_int (int (length (leases (ledger_at (request_ns request) (view s))))) + derived_inflight (pol_scope policy) es
           + counted ''llm_late_commits_total'' [(''scope'', pol_scope policy)] es)"
proof (intro conjI allI impI)
  fix res es s'
  let ?n = "request_ns request" and ?L = "ledger_at (request_ns request) (view s)"
  assume run: "run_state (reserve sha1 client call now rid request policy) s = ((Inr res, es), s')"
  let ?a = "args_found policy now rid request ?L"
  obtain raw v' where doc: "run_state (admit_script doc_call (keys_in ?n) ?a) (view s) = (raw, v')" by (metis surj_pair)
  have ledger: "ledger_admit ?a ?L = (raw, ledger_at ?n v')"
    using admit_script_doc[of ?a ?n "view s"] doc by (auto simp: prod_eq_iff)
  have rid: "a_rid ?a \<notin> snd ` set (leases ?L)" using new_id by (simp add: args_found_def admit_args_for_def)
  have "distinct (map snd (leases ?L))" using inv by (simp add: matched_def wf_zset_def)
  note moved = ledger_admit_length[OF this rid ledger]
  have "es = admission_metrics policy (estimate_found policy request ?L) raw" "view s' = v'"
    using reserve_runs[OF server refl doc] run by auto
  then show "of_int (int (length (leases (ledger_at ?n (view s'))))) = of_int (int (length (leases ?L))) + derived_inflight (pol_scope policy) es"
    using moved ledger_admit_reply(3,6)[OF ledger] by (simp add: derived_inflight_reserve)
next
  fix res es s'
  let ?n = "request_ns request" and ?L = "ledger_at (request_ns request) (view s)"
  assume run: "run_state (commit sha1 client call now settle policy) s = ((Inr res, es), s')"
  let ?a = "commit_args_for policy now settle"
  obtain raw v' where doc: "run_state (commit_script doc_call (keys_in ?n) (settled_in ?n (cr_reservationId settle)) ?a) (view s) = (raw, v')"
    by (metis surj_pair)
  have ledger: "ledger_commit ?a ?L = (raw, ledger_at ?n v')"
    using commit_script_doc[of ?a ?n "view s"] doc by (auto simp: prod_eq_iff)
  have "es = commit_metrics policy raw" "view s' = v'"
    using commit_runs[OF server doc[folded same]] run by auto
  then show "of_int (int (length (leases (ledger_at ?n (view s'))))) = of_int (int (length (leases ?L))) + derived_inflight (pol_scope policy) es
           + counted ''llm_late_commits_total'' [(''scope'', pol_scope policy)] es"
    using ledger_commit_length[OF inv ledger] by (auto simp: derived_inflight_commit counted_late)
qed

text \<open>A commit of a reservation nobody holds any more: nothing was in flight, and the metrics say minus one.\<close>

lemma derived_inflight_drifts_by_late_commits_witness:
  "\<exists>res es s'. run_state (commit id (server_client id) server_call 1000 example_settle example_policy) empty_server = ((Inr res, es), s')
    \<and> of_int (int (length (leases (ledger_at (request_ns example_request) (fst s')))))
         = derived_inflight (pol_scope example_policy) es + counted ''llm_late_commits_total'' [(''scope'', pol_scope example_policy)] es"
proof -
  have "matched 0 (ledger_at (request_ns example_request) (fst empty_server))" by (simp add: matched_def)
  note drifts = derived_inflight_drifts_by_late_commits[OF doc_script_server.script_server_axioms[of id] this, of example_settle "''r1''" 1000 example_policy]
  have same: "commit_ns example_settle = request_ns example_request" "''r1'' \<notin> snd ` set (leases (ledger_at (request_ns example_request) (fst empty_server)))"
    by (simp_all add: commit_ns_def request_ns_def example_settle_def example_request_def)
  obtain raw v' where doc: "run_state (commit_script doc_call (keys_in (commit_ns example_settle)) (settled_in (commit_ns example_settle)
      (cr_reservationId example_settle)) (commit_args_for example_policy 1000 example_settle)) (fst empty_server) = (raw, v')"
    by (metis surj_pair)
  obtain s' where run: "run_state (commit id (server_client id) server_call 1000 example_settle example_policy) empty_server
      = ((Inr (commit_result raw), commit_metrics example_policy raw), s')"
    using commit_runs[OF doc_script_server.script_server_axioms[of id] doc] by blast
  have none: "leases (ledger_at (request_ns example_request) (fst empty_server)) = []" by simp
  note count = drifts[OF same, THEN conjunct2, rule_format, OF run, unfolded none]
  show ?thesis by (intro exI conjI, rule run) (use count in simp)
qed

end
