(* ===== verification/Admission_Routes.thy ===== *)
theory Admission_Routes
  imports Policy_Resolver Admission_Outcomes Middleware
begin

text \<open>
  \<^verbatim>\<open>src/routes/admission.routes.ts\<close>: the admission protocol over HTTP, and the policies behind the
  key of the control plane. The state is the resolver with its database next to the Redis
  server. The body of a policy update stays the object the client sent.
\<close>

record ('d, 're, 's) gateway =
  gw_db :: "'d database"
  gw_js :: "'re js_lib"
  gw_sha1 :: "string \<Rightarrow> string"
  gw_client :: "('s, llm_reply) script_client"
  gw_call :: "'s redis"
  failure_admission :: string
  gw_control :: control_config
  gw_date :: "int \<Rightarrow> string"
  reserve_schema :: "AdmissionRequest \<Rightarrow> string list option"
  commit_schema :: "CommitRequest \<Rightarrow> string list option"
  release_schema :: "string \<times> string \<times> string \<Rightarrow> string list option"
  policy_schema :: "CreatePolicyInput \<Rightarrow> string list option"
  policy_update_schema :: "(string \<times> jsval) list \<Rightarrow> string list option"

type_synonym ('d, 're, 's) gateway_state = "('d, 're) policy_resolver \<times> 's"

definition on_resolver :: "('r, 'a) state \<Rightarrow> ('r \<times> 's, 'a) state" where
  "on_resolver m = zoom fst (\<lambda>r w. (r, snd w)) m"

definition on_redis :: "('s, 'a) state \<Rightarrow> ('r \<times> 's, 'a) state" where
  "on_redis m = zoom snd (\<lambda>s w. (fst w, s)) m"

lemma run_on_resolver [simp]: "run_state (on_resolver m) w = (case run_state m (fst w) of (a, r) \<Rightarrow> (a, (r, snd w)))"
  by (simp add: on_resolver_def)

lemma run_on_redis [simp]: "run_state (on_redis m) w = (case run_state m (snd w) of (a, s) \<Rightarrow> (a, (fst w, s)))"
  by (simp add: on_redis_def)

definition on_policies :: "('d, 'a) state \<Rightarrow> (('d, 're, 's) gateway_state, 'a) state" where
  "on_policies m = on_resolver (zoom ps_db (\<lambda>d. ps_db_update (\<lambda>_. d)) m)"

text \<open>Resolve the policy of a pair, at the clock readings of the resolver, and go on with it.\<close>

definition with_policy ::
    "('d, 're, 's) gateway \<Rightarrow> int \<Rightarrow> int \<Rightarrow> string \<Rightarrow> string \<Rightarrow> (AdmissionPolicy \<Rightarrow> ('d, 're, 's) gateway_state handler) \<Rightarrow>
     ('d, 're, 's) gateway_state handler" where
  "with_policy gw t0 t1 tenant model f = do {
     policy \<leftarrow> on_resolver (resolve (gw_db gw) (gw_js gw) t0 t1 tenant model);
     f policy
   }"

section \<open>Bodies\<close>

definition jint :: "int \<Rightarrow> jsval" where "jint n = JNum (of_int n)"

definition field :: "string \<Rightarrow> jsval option \<Rightarrow> (string \<times> jsval) list" where
  "field name v = (case v of None \<Rightarrow> [] | Some x \<Rightarrow> [(name, x)])"

definition admission_json :: "AdmissionResult \<Rightarrow> jsval" where
  "admission_json r = JObj
     ([(''decision'', JStr (case decision r of admit \<Rightarrow> ''admit'' | shed \<Rightarrow> ''shed''))] @
      field ''reason'' (map_option (JStr \<circ> reason_text) (res_reason r)) @
      field ''reservationId'' (map_option JStr (res_reservationId r)) @
      field ''reservedTokens'' (map_option jint (res_reservedTokens r)) @
      field ''leaseExpiresAt'' (map_option jint (leaseExpiresAt r)) @
      [(''tokensRemaining'', jint (tokensRemaining r)), (''requestsRemaining'', jint (requestsRemaining r)),
       (''inflight'', jint (res_inflight r)), (''predictedWaitMs'', jint (predictedWaitMs r))] @
      field ''retryAfter'' (map_option jint (res_retryAfter r)) @ [(''reclaimed'', jint (res_reclaimed r))])"

definition commit_json :: "CommitResult \<Rightarrow> jsval" where
  "commit_json r = JObj
     [(''status'', JStr (case commit_status r of committed \<Rightarrow> ''committed'' | reconciled_after_expiry \<Rightarrow> ''reconciled_after_expiry''
          | duplicate_ignored \<Rightarrow> ''duplicate_ignored'')),
      (''refundedTokens'', jint (refundedTokens r)), (''tokensRemaining'', jint (commit_tokensRemaining r)),
      (''inflight'', jint (commit_inflight r))]"

definition policy_fields :: "AdmissionPolicy \<Rightarrow> (string \<times> jsval) list" where
  "policy_fields p =
     [(''tenant'', JStr (pol_tenant p)), (''model'', JStr (pol_model p)), (''scope'', JStr (pol_scope p)),
      (''tokensPerMinute'', jint (tokensPerMinute p)), (''requestsPerMinute'', jint (requestsPerMinute p)),
      (''maxConcurrency'', jint (maxConcurrency p)), (''maxQueueDepth'', jint (maxQueueDepth p)),
      (''leaseSeconds'', jint (leaseSeconds p)), (''reservationMode'', mode_value (reservationMode p)),
      (''reservationSafetyFactor'', JNum (reservationSafetyFactor p)), (''enabled'', JBool (pol_enabled p))]"

definition stored_policy_json :: "StoredPolicy \<Rightarrow> jsval" where
  "stored_policy_json p = JObj
     ([(''id'', JStr (sp_id p)), (''tenantPattern'', JStr (sp_tenantPattern p)), (''modelPattern'', JStr (sp_modelPattern p))] @
      policy_fields (AdmissionPolicy.truncate p) @ [(''priority'', jint (sp_priority p))])"

text \<open>\<^verbatim>\<open>STATUS_BY_REASON\<close>.\<close>

definition STATUS_BY_REASON :: "ShedReason \<Rightarrow> int" where
  "STATUS_BY_REASON r = (case r of tpm_exhausted \<Rightarrow> 429 | rpm_exhausted \<Rightarrow> 429 | queue_full \<Rightarrow> 503
     | slo_infeasible \<Rightarrow> 503 | unsatisfiable \<Rightarrow> 400)"

definition reserve_response :: "AdmissionResult \<Rightarrow> http_response" where
  "reserve_response r =
     \<lparr>http_status = (if decision r = admit then 200 else (case res_reason r of Some s \<Rightarrow> STATUS_BY_REASON s | None \<Rightarrow> 429)),
      http_headers =
        [(''X-RateLimit-Tokens-Remaining'', string_of_int (tokensRemaining r)),
         (''X-RateLimit-Requests-Remaining'', string_of_int (requestsRemaining r)),
         (''X-Admission-Inflight'', string_of_int (res_inflight r))] @
        (case res_retryAfter r of Some t \<Rightarrow> if t = 0 then [] else [(''Retry-After'', string_of_int t)] | None \<Rightarrow> []),
      http_body = Some (admission_json r)\<rparr>"

section \<open>The data plane\<close>

definition reserve_route ::
    "('d, 're, 's) gateway \<Rightarrow> int \<Rightarrow> int \<Rightarrow> int \<Rightarrow> string \<Rightarrow> AdmissionRequest http_request \<Rightarrow> ('d, 're, 's) gateway_state served" where
  "reserve_route gw t0 t1 now randomUUID req =
     before (validateRequest (reserve_schema gw) req)
       (guardState ''admission'' (failure_admission gw)
          [(''decision'', JStr ''shed''), (''reason'', JStr ''limiter_unavailable'')]
          (with_policy gw t0 t1 (ar_tenant (rq_body req)) (ar_model (rq_body req)) (\<lambda>policy.
             and_then (on_redis (reserve (gw_sha1 gw) (gw_client gw) (gw_call gw) now randomUUID (rq_body req) policy))
               (\<lambda>result. recording [] (reserve_response result)))))"

definition commit_route ::
    "('d, 're, 's) gateway \<Rightarrow> int \<Rightarrow> int \<Rightarrow> int \<Rightarrow> CommitRequest http_request \<Rightarrow> ('d, 're, 's) gateway_state served" where
  "commit_route gw t0 t1 now req =
     before (validateRequest (commit_schema gw) req)
       (forwarding same_error
          (with_policy gw t0 t1 (cr_tenant (rq_body req)) (cr_model (rq_body req)) (\<lambda>policy.
             and_then (on_redis (commit (gw_sha1 gw) (gw_client gw) (gw_call gw) now (rq_body req) policy))
               (\<lambda>result. recording [] (json 200 (commit_json result))))))"

definition release_route ::
    "('d, 're, 's) gateway \<Rightarrow> int \<Rightarrow> int \<Rightarrow> int \<Rightarrow> (string \<times> string \<times> string) http_request \<Rightarrow> ('d, 're, 's) gateway_state served" where
  "release_route gw t0 t1 now req =
     (case rq_body req of (tenant, model, reservationId) \<Rightarrow>
        before (validateRequest (release_schema gw) req)
          (forwarding same_error
             (with_policy gw t0 t1 tenant model (\<lambda>policy.
                and_then (on_redis (release (gw_sha1 gw) (gw_client gw) (gw_call gw) now tenant model reservationId policy))
                  (\<lambda>result. recording [] (json 200 (commit_json result)))))))"

definition snapshot_json :: "AdmissionSnapshot \<Rightarrow> jsval" where
  "snapshot_json s = JObj
     [(''tenant'', JStr (snapshot_tenant s)), (''model'', JStr (snapshot_model s)),
      (''tokensRemaining'', jint (snap_tokens (snapshot_counts s))), (''requestsRemaining'', jint (snap_requests (snapshot_counts s))),
      (''inflight'', jint (snap_inflight (snapshot_counts s))), (''expiredLeasesPending'', jint (snap_expired (snapshot_counts s))),
      (''avgServiceMs'', jint (snap_svc (snapshot_counts s))), (''avgOutputTokens'', jint (snap_out (snapshot_counts s))),
      (''peakOutputTokens'', jint (snap_peak (snapshot_counts s))),
      (''policy'', JObj (policy_fields (snapshot_policy s)))]"

definition state_route ::
    "('d, 're, 's) gateway \<Rightarrow> int \<Rightarrow> int \<Rightarrow> int \<Rightarrow> unit http_request \<Rightarrow> ('d, 're, 's) gateway_state served" where
  "state_route gw t0 t1 now req =
     forwarding same_error
       (let tenant = (case map_of (rq_query req) ''tenant'' of Some t \<Rightarrow> t | None \<Rightarrow> []);
            model = (case map_of (rq_query req) ''model'' of Some m \<Rightarrow> m | None \<Rightarrow> [])
        in if tenant = [] \<or> model = []
           then recording [] (json 400 (error_body ''VALIDATION_ERROR'' ''tenant and model are required''))
           else with_policy gw t0 t1 tenant model (\<lambda>policy.
                  and_then (on_redis (snapshot (gw_sha1 gw) (gw_client gw) (gw_call gw) now tenant model policy))
                    (\<lambda>s. recording [] (json 200 (snapshot_json s)))))"


section \<open>The control plane\<close>

text \<open>A write that is answered invalidates the resolver before it answers.\<close>

definition written :: "http_response \<Rightarrow> (('d, 're, 's) gateway_state, js_error + http_response) state" where
  "written response = do { on_resolver invalidate; js_return response }"

definition missing_policy :: "string \<Rightarrow> js_error" where
  "missing_policy pid = NotFoundError (''No policy with id '' @ pid)"

definition data_json :: "jsval \<Rightarrow> jsval" where
  "data_json v = JObj [(''data'', v)]"

definition list_policies_handler :: "('d, 're, 's) gateway \<Rightarrow> ('d, 're, 's) gateway_state handler" where
  "list_policies_handler gw =
     unrecorded (throwing (on_policies (find_all_policies (gw_db gw)))
       (\<lambda>ps. js_return (json 200 (data_json (JArr (map stored_policy_json ps))))))"

definition create_policy_handler :: "('d, 're, 's) gateway \<Rightarrow> CreatePolicyInput \<Rightarrow> ('d, 're, 's) gateway_state handler" where
  "create_policy_handler gw b =
     unrecorded (throwing (on_policies (create_policy (gw_db gw) b))
       (\<lambda>policy. written (json 201 (data_json (stored_policy_json policy)))))"

definition update_policy_handler ::
    "('d, 're, 's) gateway \<Rightarrow> string \<Rightarrow> (string \<times> jsval) list \<Rightarrow> ('d, 're, 's) gateway_state handler" where
  "update_policy_handler gw pid b =
     unrecorded (throwing (on_policies (update_policy (gw_db gw) pid b)) (\<lambda>found. case found of
         None \<Rightarrow> js_throw (missing_policy pid)
       | Some policy \<Rightarrow> written (json 200 (data_json (stored_policy_json policy)))))"

definition delete_policy_handler :: "('d, 're, 's) gateway \<Rightarrow> string \<Rightarrow> ('d, 're, 's) gateway_state handler" where
  "delete_policy_handler gw pid =
     unrecorded (throwing (on_policies (delete_policy (gw_db gw) pid)) (\<lambda>deleted.
       if \<not> deleted then js_throw (missing_policy pid)
       else written \<lparr>http_status = 204, http_headers = [], http_body = None\<rparr>))"

definition policy_cache_handler :: "('d, 're, 's) gateway \<Rightarrow> int \<Rightarrow> ('d, 're, 's) gateway_state handler" where
  "policy_cache_handler gw now = State (\<lambda>w.
     let s = stats_of now (fst w) in
     ((Inr (json 200 (data_json (JObj
         [(''policies'', JNum (of_nat (stat_policies s))), (''resolvedEntries'', JNum (of_nat (stat_resolvedEntries s))),
          (''loadedAt'', (case stat_loadedAt s of Some t \<Rightarrow> JStr (gw_date gw t) | None \<Rightarrow> JNull)), (''stale'', JBool (stat_stale s))]))), []), w))"

datatype policy_call =
    List_policies | Create_policy CreatePolicyInput | Update_policy string "(string \<times> jsval) list" | Delete_policy string | Policy_cache

definition validated_body :: "('b \<Rightarrow> string list option) \<Rightarrow> 'b \<Rightarrow> 's served \<Rightarrow> 's served" where
  "validated_body schema b handler = before
     (validateRequest schema \<lparr>rq_method = [], rq_headers = [], rq_params = [], rq_query = [], rq_body = b, rq_ip = None\<rparr>) handler"

definition policies_router ::
    "('d, 're, 's) gateway \<Rightarrow> int \<Rightarrow> unit http_request \<Rightarrow> policy_call \<Rightarrow> ('d, 're, 's) gateway_state served" where
  "policies_router gw now req call =
     before (requireControlPlaneKey (gw_control gw) req)
       (case call of
          List_policies \<Rightarrow> forwarding same_error (list_policies_handler gw)
        | Create_policy b \<Rightarrow> validated_body (policy_schema gw) b
            (forwarding (conflict_or_same (''A policy already covers '' @ in_tenantPattern b @ '' / '' @ in_modelPattern b)) (create_policy_handler gw b))
        | Update_policy pid b \<Rightarrow> validated_body (policy_update_schema gw) b
            (forwarding (conflict_or_same ''Another policy already covers that tenant and model pattern'') (update_policy_handler gw pid b))
        | Delete_policy pid \<Rightarrow> forwarding same_error (delete_policy_handler gw pid)
        | Policy_cache \<Rightarrow> forwarding same_error (policy_cache_handler gw now))"

section \<open>What a reservation is answered\<close>

lemma run_with_policy:
  assumes "run_state (resolve (gw_db gw) (gw_js gw) t0 t1 tenant model) (fst w) = (policy, r')"
  shows "run_state (with_policy gw t0 t1 tenant model f) w = run_state (f policy) (r', snd w)"
  using assms by (simp add: with_policy_def)

lemma accepts [simp]: "schema (rq_body req) = None \<Longrightarrow> before (validateRequest schema req) handler = handler"
  by (simp add: before_def validateRequest_def)

text \<open>
  The status of a reservation tells the caller what to do: 200 exactly for an admission, with the id
  of the reservation; 429 for a budget that refills and 503 for a backend that is full, both with
  a time to retry of at least a second; and 400, without one, for a request that can never fit.
\<close>

theorem reserve_status_tells_what_to_do:
  fixes w :: "('d, 're, 's) gateway_state" and view :: "'s \<Rightarrow> keyspace"
  assumes server: "script_server (gw_call gw) elapse view (gw_sha1 gw) (gw_client gw) cached"
    and accepted: "reserve_schema gw (rq_body req) = None"
    and policy: "run_state (resolve (gw_db gw) (gw_js gw) t0 t1 (ar_tenant (rq_body req)) (ar_model (rq_body req))) (fst w) = (policy, r')"
      "valid_policy policy"
    and stats: "service_times_positive (ledger_at (request_ns (rq_body req)) (view (snd w)))"
  shows "\<exists>res r es w'. run_state (reserve_route gw t0 t1 now rid req) w = ((Reply r, es), w') \<and> http_body r = Some (admission_json res)
    \<and> (http_status r = 200 \<longleftrightarrow> decision res = admit) \<and> (http_status r = 200 \<longleftrightarrow> res_reservationId res = Some rid)
    \<and> (http_status r = 429 \<longleftrightarrow> res_reason res = Some tpm_exhausted \<or> res_reason res = Some rpm_exhausted)
    \<and> (http_status r = 503 \<longleftrightarrow> res_reason res = Some queue_full \<or> res_reason res = Some slo_infeasible)
    \<and> (http_status r = 400 \<longleftrightarrow> res_reason res = Some unsatisfiable)
    \<and> (if http_status r = 429 \<or> http_status r = 503
       then \<exists>t \<ge> 1. map_of (http_headers r) ''Retry-After'' = Some (string_of_int t)
       else map_of (http_headers r) ''Retry-After'' = None)"
proof -
  let ?b = "rq_body req"
  obtain res es s' where run: "run_state (reserve (gw_sha1 gw) (gw_client gw) (gw_call gw) now rid ?b policy) (snd w) = ((Inr res, es), s')"
    and res: "decision res = admit \<longleftrightarrow> res_reason res = None" "decision res = admit \<longleftrightarrow> res_reservationId res = Some rid"
      "res_retryAfter res = None \<longleftrightarrow> decision res = admit \<or> res_reason res = Some unsatisfiable"
      "\<forall>t. res_retryAfter res = Some t \<longrightarrow> 1 \<le> t"
    using reserve_answers[OF server policy(2) stats, of now rid] by (elim exE conjE) (rule that; assumption)
  have "run_state (reserve_route gw t0 t1 now rid req) w = ((Reply (reserve_response res), es), (r', s'))"
    using accepted run by (simp add: reserve_route_def guardState_def run_with_policy[OF policy(1)] and_then_def)
  moreover have "decision res = shed \<longleftrightarrow> decision res \<noteq> admit" by (cases "decision res") auto
  ultimately show ?thesis
    using res by (intro exI[of _ res] exI[of _ "reserve_response res"])
      (cases "res_reason res"; cases "res_retryAfter res";
       auto simp: reserve_response_def STATUS_BY_REASON_def split: ShedReason.splits)
qed


text \<open>A gateway over the documented server and the table of two policies.\<close>

definition example_gateway :: "(policy_list, atom list, doc_server) gateway" where
  "example_gateway =
     \<lparr>gw_db = policy_list_db, gw_js = example_policy_js, gw_sha1 = (\<lambda>s. s), gw_client = server_client (\<lambda>s. s), gw_call = server_call,
      failure_admission = ''fail_closed'', gw_control = \<lparr>controlPlaneKey = Some ''s3cret'', server_env = ''production''\<rparr>,
      gw_date = string_of_int, reserve_schema = (\<lambda>b. None), commit_schema = (\<lambda>b. None), release_schema = (\<lambda>b. None),
      policy_schema = (\<lambda>b. None), policy_update_schema = (\<lambda>b. None)\<rparr>"

definition example_post :: "'b \<Rightarrow> 'b http_request" where
  "example_post b = \<lparr>rq_method = ''POST'', rq_headers = [], rq_params = [], rq_query = [], rq_body = b, rq_ip = None\<rparr>"

definition example_ask :: "AdmissionRequest" where
  "example_ask = \<lparr>ar_tenant = ''acme'', ar_model = ''m1'', ar_promptTokens = 100, ar_maxOutputTokens = 400, ar_sloTtftMs = None\<rparr>"

definition fresh_resolver :: "(policy_list, atom list) policy_resolver" where
  "fresh_resolver = (example_resolver True)\<lparr>loadedAt := 50000\<rparr>"

lemma fresh_resolver_resolves:
  "run_state (resolve policy_list_db example_policy_js 50001 50001 ''acme'' ''m1'') fresh_resolver
     = (DEFAULT_POLICY ''acme'' ''m1'' ''default'', fresh_resolver\<lparr>resolved := [(cache_key ''acme'' ''m1'', DEFAULT_POLICY ''acme'' ''m1'' ''default'')]\<rparr>)"
  by (simp add: resolve_def ensureLoaded_def needs_load_def ttlMs_def fresh_resolver_def example_resolver_def answer_from_set_def policy_for_def Let_def)

lemma reserve_status_tells_what_to_do_witness:
  "\<exists>(res :: AdmissionResult) r es w'. run_state (reserve_route example_gateway 50001 50001 50002 ''r1'' (example_post example_ask)) (fresh_resolver, empty_server) = ((Reply r, es), w')
    \<and> (http_status r = 200 \<longleftrightarrow> decision res = admit)"
proof -
  have server: "script_server (gw_call example_gateway) server_elapse fst (gw_sha1 example_gateway) (gw_client example_gateway) server_cached"
    using doc_script_server.script_server_axioms[of "\<lambda>s. s"] by (simp add: example_gateway_def)
  have policy: "run_state (resolve (gw_db example_gateway) (gw_js example_gateway) 50001 50001
      (ar_tenant (rq_body (example_post example_ask))) (ar_model (rq_body (example_post example_ask)))) (fst (fresh_resolver, empty_server))
     = (DEFAULT_POLICY ''acme'' ''m1'' ''default'', fresh_resolver\<lparr>resolved := [(cache_key ''acme'' ''m1'', DEFAULT_POLICY ''acme'' ''m1'' ''default'')]\<rparr>)"
    using fresh_resolver_resolves by (simp add: example_gateway_def example_post_def example_ask_def)
  have accepted: "reserve_schema example_gateway b = None" for b by (simp add: example_gateway_def)
  have stats: "service_times_positive (ledger_at n (fst (snd (fresh_resolver, empty_server))))" for n by (simp add: service_times_positive_def)
  have "valid_policy (DEFAULT_POLICY ''acme'' ''m1'' ''default'')" by (simp add: valid_policy_def DEFAULT_POLICY_def)
  note out = reserve_status_tells_what_to_do[where rid = "''r1''" and now = 50002, OF server accepted policy this stats]
  show ?thesis using out by blast
qed

section \<open>Commits are never failed open\<close>

lemma commit_disconnected:
  "disconnected client \<Longrightarrow> run_state (commit sha1 client call now request policy) s
     = ((Inl (RedisConnectionError ''Redis client not connected''), []), s)"
  by (simp add: commit_def Let_def and_then_def run_script_disconnected commitScript_def)

lemma commit_driver_error:
  assumes "run_state (getClient client) s = (Inr (), s)" "\<And>d prog. run_state (evalsha client d prog) s = (Inl (DriverError m c), s)"
    "\<not> isNoScriptError (DriverError m c)"
  shows "\<exists>s'. run_state (commit sha1 client call now request policy) s = ((Inl (DriverError m c), []), s')"
  using assms by (auto simp: commit_def Let_def and_then_def run_script_def evalWithReload_def commitScript_def split: prod.splits)

text \<open>
  C22: A commit is never failed open: one that cannot reach Redis is never answered with success. While the
  client is not connected it is answered 503 and nothing changes; but an error of the driver
  itself, whatever its message, is answered 500, although the API's documentation promises 503.
\<close>

theorem commit_is_never_failed_open:
  fixes w :: "('d, 're, 's) gateway_state"
  assumes accepted: "commit_schema gw (rq_body req) = None"
    and policy: "run_state (resolve (gw_db gw) (gw_js gw) t0 t1 (cr_tenant (rq_body req)) (cr_model (rq_body req))) (fst w) = (policy, r')"
  shows "(disconnected (gw_client gw) \<longrightarrow> (\<exists>outcome w'. run_state (commit_route gw t0 t1 now req) w = ((outcome, []), w')
      \<and> http_status (answered outcome) = 503 \<and> snd w' = snd w))
    \<and> (\<forall>m c. run_state (getClient (gw_client gw)) (snd w) = (Inr (), snd w)
        \<and> (\<forall>d prog. run_state (evalsha (gw_client gw) d prog) (snd w) = (Inl (DriverError m c), snd w)) \<and> \<not> isNoScriptError (DriverError m c)
      \<longrightarrow> (\<exists>outcome w'. run_state (commit_route gw t0 t1 now req) w = ((outcome, []), w') \<and> http_status (answered outcome) = 500))"
proof (intro conjI allI impI)
  assume "disconnected (gw_client gw)"
  note off = commit_disconnected[OF this]
  show "\<exists>outcome w'. run_state (commit_route gw t0 t1 now req) w = ((outcome, []), w')
      \<and> http_status (answered outcome) = 503 \<and> snd w' = snd w"
    using accepted by (simp add: commit_route_def forwarding_def run_with_policy[OF policy] and_then_def off same_error_def
        answered_def errorHandler_def json_def)
next
  fix m c
  assume *: "run_state (getClient (gw_client gw)) (snd w) = (Inr (), snd w)
        \<and> (\<forall>d prog. run_state (evalsha (gw_client gw) d prog) (snd w) = (Inl (DriverError m c), snd w)) \<and> \<not> isNoScriptError (DriverError m c)"
  obtain s' where "run_state (commit (gw_sha1 gw) (gw_client gw) (gw_call gw) now (rq_body req) policy) (snd w) = ((Inl (DriverError m c), []), s')"
    using commit_driver_error[of "gw_client gw" "snd w" m c] * by blast
  then show "\<exists>outcome w'. run_state (commit_route gw t0 t1 now req) w = ((outcome, []), w') \<and> http_status (answered outcome) = 500"
    using accepted by (simp add: commit_route_def forwarding_def run_with_policy[OF policy] and_then_def same_error_def
        answered_def errorHandler_def json_def)
qed

definition example_finish :: CommitRequest where
  "example_finish = \<lparr>cr_tenant = ''acme'', cr_model = ''m1'', cr_reservationId = ''r1'', cr_promptTokens = 100, cr_outputTokens = 50, cr_serviceMs = None\<rparr>"

lemma commit_is_never_failed_open_witness:
  "\<exists>outcome w'. run_state (commit_route (example_gateway\<lparr>gw_client := (server_client (\<lambda>s. s))\<lparr>evalsha := (\<lambda>d prog. js_throw (DriverError ''Connection is closed.'' None))\<rparr>\<rparr>)
       50001 50001 50002 (example_post example_finish)) (fresh_resolver, empty_server) = ((outcome, []), w') \<and> http_status (answered outcome) = 500"
proof -
  let ?gw = "example_gateway\<lparr>gw_client := (server_client (\<lambda>s. s))\<lparr>evalsha := (\<lambda>d prog. js_throw (DriverError ''Connection is closed.'' None))\<rparr>\<rparr>"
  have policy: "run_state (resolve (gw_db ?gw) (gw_js ?gw) 50001 50001
      (cr_tenant (rq_body (example_post example_finish))) (cr_model (rq_body (example_post example_finish)))) (fst (fresh_resolver, empty_server))
     = (DEFAULT_POLICY ''acme'' ''m1'' ''default'', fresh_resolver\<lparr>resolved := [(cache_key ''acme'' ''m1'', DEFAULT_POLICY ''acme'' ''m1'' ''default'')]\<rparr>)"
    using fresh_resolver_resolves by (simp add: example_gateway_def example_post_def example_finish_def)
  have accepted: "commit_schema ?gw b = None" for b by (simp add: example_gateway_def)
  have driver: "run_state (getClient (gw_client ?gw)) (snd (fresh_resolver, empty_server)) = (Inr (), snd (fresh_resolver, empty_server))
        \<and> (\<forall>d prog. run_state (evalsha (gw_client ?gw) d prog) (snd (fresh_resolver, empty_server))
             = (Inl (DriverError ''Connection is closed.'' None), snd (fresh_resolver, empty_server)))
        \<and> \<not> isNoScriptError (DriverError ''Connection is closed.'' None)"
    by (simp add: server_client_def isNoScriptError_def)
  show ?thesis
    by (rule commit_is_never_failed_open[OF accepted policy, of 50002, THEN conjunct2, rule_format, OF driver])
qed


section \<open>Who may change the policies, and when a change counts\<close>

definition writes :: "policy_call \<Rightarrow> bool" where
  "writes call \<longleftrightarrow> (case call of List_policies \<Rightarrow> False | Policy_cache \<Rightarrow> False | _ \<Rightarrow> True)"

text \<open>A handler that answers has invalidated the resolver.\<close>

definition invalidates :: "('d, 're, 's) gateway_state handler \<Rightarrow> bool" where
  "invalidates handler \<longleftrightarrow> (\<forall>w response es w'. run_state handler w = ((Inr response, es), w') \<longrightarrow>
     loadedAt (fst w') = 0 \<and> resolved (fst w') = [] \<and> ps_patterns (fst w') = ps_patterns (fst w))"

lemma run_on_policies [simp]:
  "run_state (on_policies m) w = (case run_state m (ps_db (fst w)) of (a, d) \<Rightarrow> (a, ((fst w)\<lparr>ps_db := d\<rparr>, snd w)))"
  by (simp add: on_policies_def split: prod.splits)

lemma run_written [simp]:
  "run_state (written response) w = (Inr response, ((fst w)\<lparr>loadedAt := 0, resolved := []\<rparr>, snd w))"
  by (simp add: written_def invalidate_def)

lemma invalidates_handlers:
  "invalidates (create_policy_handler gw b)" "invalidates (update_policy_handler gw pid b')" "invalidates (delete_policy_handler gw pid)"
  by (auto simp: invalidates_def create_policy_handler_def update_policy_handler_def delete_policy_handler_def
      split: prod.splits sum.splits option.splits if_splits)

lemma invalidates_forwarding:
  assumes "invalidates handler" "run_state (forwarding translate handler) w = ((Reply response, es), w')"
  shows "loadedAt (fst w') = 0 \<and> resolved (fst w') = [] \<and> ps_patterns (fst w') = ps_patterns (fst w)"
proof -
  obtain r fs w1 where h: "run_state handler w = ((r, fs), w1)" by (metis surj_pair)
  then have "r = Inr response" "w1 = w'"
    using assms(2) run_forwarding[OF h, of translate] by (auto split: sum.splits)
  then show ?thesis using assms(1) h unfolding invalidates_def by blast
qed

lemma validated_body_reply:
  "run_state (validated_body schema b handler) w = ((Reply response, es), w') \<Longrightarrow> run_state handler w = ((Reply response, es), w')"
  by (auto simp: validated_body_def validateRequest_def before_def split: option.splits)

lemma write_invalidates:
  assumes "writes call" "requireControlPlaneKey (gw_control gw) req = Next None"
    "run_state (policies_router gw now req call) w = ((Reply response, es), w')"
  shows "loadedAt (fst w') = 0 \<and> resolved (fst w') = [] \<and> ps_patterns (fst w') = ps_patterns (fst w)"
proof -
  have run: "run_state (policies_router gw now req call) w = run_state (case call of
          List_policies \<Rightarrow> forwarding same_error (list_policies_handler gw)
        | Create_policy b \<Rightarrow> validated_body (policy_schema gw) b
            (forwarding (conflict_or_same (''A policy already covers '' @ in_tenantPattern b @ '' / '' @ in_modelPattern b)) (create_policy_handler gw b))
        | Update_policy pid b \<Rightarrow> validated_body (policy_update_schema gw) b
            (forwarding (conflict_or_same ''Another policy already covers that tenant and model pattern'') (update_policy_handler gw pid b))
        | Delete_policy pid \<Rightarrow> forwarding same_error (delete_policy_handler gw pid)
        | Policy_cache \<Rightarrow> forwarding same_error (policy_cache_handler gw now)) w"
    by (simp add: policies_router_def assms(2) before_def)
  note run = assms(3)[unfolded run]
  show ?thesis
  proof (cases call)
    case (Create_policy b)
    then show ?thesis using run by (intro invalidates_forwarding[OF invalidates_handlers(1)]) (auto dest: validated_body_reply)
  next
    case (Update_policy pid b)
    then show ?thesis using run by (intro invalidates_forwarding[OF invalidates_handlers(2)]) (auto dest: validated_body_reply)
  next
    case (Delete_policy pid)
    then show ?thesis using run by (intro invalidates_forwarding[OF invalidates_handlers(3)]) simp
  qed (use assms(1) in \<open>simp_all add: writes_def\<close>)
qed

text \<open>
  A policy that was written is in force: after any authorised request that creates, changes or
  removes a policy and is answered, with no load of the policies in flight, the next resolution of
  any pair of names without a NUL reads the table and answers with the policy the table calls
  for as the write left it.
\<close>

theorem written_policies_are_in_force:
  assumes table: "policy_table (gw_db gw) policy_rows reachable" and ok: "remembers (gw_js gw) (fst w)"
    and key: "requireControlPlaneKey (gw_control gw) req = Next None" and call: "writes call"
    and run: "run_state (policies_router gw now req call) w = ((Reply response, es), w')"
    and up: "reachable (ps_db (fst w'))" and clock: "30000 \<le> later" and names: "no_NUL tenant" "no_NUL model"
  shows "\<exists>policy r'. run_state (resolve (gw_db gw) (gw_js gw) later loaded tenant model) (fst w') = (policy, r')
    \<and> governed_by (gw_js gw) (policy_rows (ps_db (fst w'))) tenant model policy"
proof -
  have after: "loadedAt (fst w') = 0" "resolved (fst w') = []" "ps_patterns (fst w') = ps_patterns (fst w)"
    using write_invalidates[OF call key run] by auto
  then have "remembers (gw_js gw) (fst w')" using ok by (simp add: remembers_def)
  then show ?thesis using resolve_reads[OF table up _ _ names] after(1) clock by simp
qed

lemma gateway_key: "requireControlPlaneKey (gw_control example_gateway) (example_call [(''x-api-key'', ''s3cret'')]) = Next None"
  using gate_cases[of "gw_control example_gateway" "example_call [(''x-api-key'', ''s3cret'')]"]
  by (simp add: example_gateway_def example_call_def)

lemma example_create:
  "\<exists>response r'. run_state (policies_router example_gateway 50002 (example_call [(''x-api-key'', ''s3cret'')]) (Create_policy (example_input\<lparr>in_tenantPattern := ''beta''\<rparr>)))
      (fresh_resolver, empty_server) = ((Reply response, []), (r', empty_server)) \<and> snd (ps_db r') \<and> length (fst (ps_db r')) = 3"
proof -
  have "insert_policy_values (example_input\<lparr>in_tenantPattern := ''beta''\<rparr>) = policy_values ''beta'' ''*'' 5000 600 16 64 120 mode_adaptive 125 100 True"
    by (simp add: insert_policy_values_def policy_values_def example_input_def DEFAULT_POLICY_def mode_value_def Let_def)
  then show ?thesis
    unfolding policies_router_def gateway_key policy_call.case
    by (simp add: before_def validated_body_def validateRequest_def example_gateway_def forwarding_def create_policy_handler_def create_policy_def
        policy_list_db_def insert_texts fresh_resolver_def example_resolver_def inserted_def policy_values_def example_policies_def row_of_def
        first_policy_def)
qed

lemma written_policies_are_in_force_witness:
  "\<exists>response w' policy r'. run_state (policies_router example_gateway 50002 (example_call [(''x-api-key'', ''s3cret'')]) (Create_policy (example_input\<lparr>in_tenantPattern := ''beta''\<rparr>)))
      (fresh_resolver, empty_server) = ((Reply response, []), w')
    \<and> run_state (resolve policy_list_db example_policy_js 50003 50003 ''beta'' ''m1'') (fst w') = (policy, r')
    \<and> governed_by example_policy_js (fst (ps_db (fst w'))) ''beta'' ''m1'' policy"
proof -
  obtain response r' where run: "run_state (policies_router example_gateway 50002 (example_call [(''x-api-key'', ''s3cret'')])
      (Create_policy (example_input\<lparr>in_tenantPattern := ''beta''\<rparr>))) (fresh_resolver, empty_server) = ((Reply response, []), (r', empty_server))"
    and up: "snd (ps_db (fst (r', empty_server)))" using example_create by auto
  have gw: "gw_db example_gateway = policy_list_db" "gw_js example_gateway = example_policy_js" by (simp_all add: example_gateway_def)
  have table: "policy_table (gw_db example_gateway) fst snd" using documented_policies.policy_table_axioms by (simp add: gw(1))
  have ok: "remembers (gw_js example_gateway) (fst (fresh_resolver, empty_server))"
    by (simp add: gw(2) remembers_def fresh_resolver_def example_resolver_def)
  have w: "writes (Create_policy b)" for b by (simp add: writes_def)
  have clock: "(30000 :: int) \<le> 50003" by simp
  show ?thesis
    using run written_policies_are_in_force[where loaded = 50003, OF table ok gateway_key w run up clock plain_names(3,2)] unfolding gw by blast
qed

text \<open>
  A stranger changes no policy: a request to any of the policies' routes without the configured key is
  refused with 401, records nothing, and leaves the policies, the resolver and the server as
  they were.
\<close>

theorem strangers_change_no_policy:
  assumes key: "controlPlaneKey (gw_control gw) = Some (k # ks)"
    and bearer: "map_of (rq_headers req) ''authorization'' \<noteq> Some (''Bearer '' @ k # ks)"
    and header: "map_of (rq_headers req) ''x-api-key'' \<noteq> Some (k # ks)"
  shows "\<exists>outcome. run_state (policies_router gw now req call) w = ((outcome, []), w) \<and> http_status (answered outcome) = 401"
proof -
  have "requireControlPlaneKey (gw_control gw) req \<noteq> Next None" "http_status (answered (requireControlPlaneKey (gw_control gw) req)) = 401"
    using gate_cases[of "gw_control gw" req] key bearer header by auto
  then show ?thesis by (simp add: policies_router_def before_def)
qed

lemma strangers_change_no_policy_witness:
  "\<exists>outcome. run_state (policies_router example_gateway 50002 (example_call [(''x-api-key'', ''guess'')]) (Delete_policy ''1'')) (fresh_resolver, empty_server)
      = ((outcome, []), (fresh_resolver, empty_server)) \<and> http_status (answered outcome) = 401"
  by (rule strangers_change_no_policy[of _ "CHR ''s''" "''3cret''"]) (simp_all add: example_gateway_def example_call_def)

end
