(* ===== verification/Rate_Limiter.thy ===== *)
theory Rate_Limiter
  imports Rule_Engine Algorithms Metrics
begin

text \<open>
  \<^verbatim>\<open>src/services/rate-limiter.service.ts\<close>: which limit applies to a request, and the check
  itself. The state is the rule engine next to the Redis side of the process; the clock is
  read once for the lookup of the rules and again by the algorithm.
\<close>

datatype limit_source = from_request | from_rule | from_default

record EffectiveLimit =
  eff_algorithm :: RateLimitAlgorithm
  eff_limit :: int
  eff_windowSeconds :: int
  eff_source :: limit_source
  eff_ruleId :: "string option"
  eff_ruleName :: "string option"

record RateLimitDecision =
  decided :: RateLimitCheckResult
  effective :: EffectiveLimit

record CheckOverrides =
  over_algorithm :: "RateLimitAlgorithm option"
  over_limit :: "int option"
  over_windowSeconds :: "int option"

record limiter_defaults =
  default_algorithm :: RateLimitAlgorithm
  default_limit :: int
  default_windowSeconds :: int

text \<open>\<^verbatim>\<open>a ?? b\<close>.\<close>

definition nullish :: "'a option \<Rightarrow> 'a \<Rightarrow> 'a" where
  "nullish x d = (case x of Some v \<Rightarrow> v | None \<Rightarrow> d)"

lemma nullish_simps [simp]: "nullish None d = d" "nullish (Some v) d = v"
  by (simp_all add: nullish_def)

definition limit_of_match ::
    "limiter_defaults \<Rightarrow> CheckOverrides \<Rightarrow> RuleMatchResult \<Rightarrow> ('s, EffectiveLimit) recorded" where
  "limit_of_match defaults overrides match =
     (case (matched match, matched_rule match) of
        (True, Some rule) \<Rightarrow>
          recording (recordRuleMatch (rule_id rule) (rule_name rule))
            \<lparr>eff_algorithm = nullish (over_algorithm overrides) (rule_algorithm rule),
             eff_limit = nullish (over_limit overrides) (rule_limit rule),
             eff_windowSeconds = nullish (over_windowSeconds overrides) (rule_windowSeconds rule),
             eff_source = from_rule, eff_ruleId = Some (rule_id rule), eff_ruleName = Some (rule_name rule)\<rparr>
      | _ \<Rightarrow>
          recording (recordRuleMatch ''none'' ''default'')
            \<lparr>eff_algorithm = nullish (over_algorithm overrides) (default_algorithm defaults),
             eff_limit = nullish (over_limit overrides) (default_limit defaults),
             eff_windowSeconds = nullish (over_windowSeconds overrides) (default_windowSeconds defaults),
             eff_source = from_default, eff_ruleId = None, eff_ruleName = None\<rparr>)"

definition resolveLimit ::
    "'d database \<Rightarrow> 're js_lib \<Rightarrow> limiter_defaults \<Rightarrow> int \<Rightarrow> RateLimitCheckRequest \<Rightarrow> CheckOverrides \<Rightarrow>
     (('d, 're) rule_engine, EffectiveLimit) recorded" where
  "resolveLimit db js defaults now request overrides =
     (case (over_algorithm overrides, over_limit overrides, over_windowSeconds overrides) of
        (Some algorithm, Some lmt, Some windowSeconds) \<Rightarrow>
          recording [] \<lparr>eff_algorithm = algorithm, eff_limit = lmt, eff_windowSeconds = windowSeconds,
            eff_source = from_request, eff_ruleId = None, eff_ruleName = None\<rparr>
      | _ \<Rightarrow>
          and_then (unrecorded (findMatchingRule db js now
              \<lparr>ctx_identifier = req_identifier request, ctx_endpoint = req_endpoint request,
               ctx_ip = req_ip request, ctx_metadata = req_metadata request\<rparr>))
            (limit_of_match defaults overrides))"

type_synonym ('d, 're, 's) limiter = "('d, 're) rule_engine \<times> 's process"

definition on_engine :: "('e, 'a) state \<Rightarrow> ('e \<times> 'p, 'a) state" where
  "on_engine m = zoom fst (\<lambda>e w. (e, snd w)) m"

definition on_process :: "('p, 'a) state \<Rightarrow> ('e \<times> 'p, 'a) state" where
  "on_process m = zoom snd (\<lambda>p w. (fst w, p)) m"

lemma run_on_engine [simp]: "run_state (on_engine m) w = (case run_state m (fst w) of (a, e) \<Rightarrow> (a, (e, snd w)))"
  by (simp add: on_engine_def)

lemma run_on_process [simp]: "run_state (on_process m) w = (case run_state m (snd w) of (a, p) \<Rightarrow> (a, (fst w, p)))"
  by (simp add: on_process_def)

definition throw_recorded :: "js_error \<Rightarrow> ('s, 'a) recorded" where
  "throw_recorded e = State_Monad.return (Inl e, [])"

lemma run_throw_recorded [simp]: "run_state (throw_recorded e) s = ((Inl e, []), s)"
  by (simp add: throw_recorded_def)

definition limiter_check ::
    "'d database \<Rightarrow> 're js_lib \<Rightarrow> limiter_defaults \<Rightarrow> (string \<Rightarrow> string) \<Rightarrow> ('s, script_reply) script_client \<Rightarrow> 's redis \<Rightarrow>
     int \<Rightarrow> int \<Rightarrow> nat \<Rightarrow> RateLimitCheckRequest \<Rightarrow> CheckOverrides \<Rightarrow> (('d, 're, 's) limiter, RateLimitDecision) recorded" where
  "limiter_check db js defaults sha1 client call looked now pid request overrides =
     and_then (on_engine (resolveLimit db js defaults looked request overrides)) (\<lambda>eff.
       on_error
         (case getAlgorithm sha1 client call now pid (eff_algorithm eff) of
            Inl e \<Rightarrow> throw_recorded e
          | Inr algorithm \<Rightarrow>
              and_then (unrecorded (on_process (alg_check algorithm (req_key request) (eff_limit eff) (eff_windowSeconds eff) 1)))
                (\<lambda>result. recording
                   (recordCheckLatency (algorithm_text (eff_algorithm eff)) @
                    recordRequest (algorithm_text (eff_algorithm eff)) (allowed result))
                   \<lparr>decided = result, effective = eff\<rparr>))
         (recordRedisError ''check''))"

definition limiter_reset ::
    "limiter_defaults \<Rightarrow> (string \<Rightarrow> string) \<Rightarrow> ('s, script_reply) script_client \<Rightarrow> 's redis \<Rightarrow> int \<Rightarrow> nat \<Rightarrow>
     key \<Rightarrow> RateLimitAlgorithm \<Rightarrow> int option \<Rightarrow> ('s process, unit) recorded" where
  "limiter_reset defaults sha1 client call now pid k algorithm windowSeconds =
     on_error
       (case getAlgorithm sha1 client call now pid algorithm of
          Inl e \<Rightarrow> throw_recorded e
        | Inr a \<Rightarrow> unrecorded (alg_reset a k (nullish windowSeconds (default_windowSeconds defaults))))
       (recordRedisError ''reset'')"

definition limiter_getStats ::
    "limiter_defaults \<Rightarrow> (string \<Rightarrow> string) \<Rightarrow> ('s, script_reply) script_client \<Rightarrow> 's redis \<Rightarrow> int \<Rightarrow> nat \<Rightarrow>
     key \<Rightarrow> RateLimitAlgorithm \<Rightarrow> int option \<Rightarrow> ('s process, LimiterStats option) recorded" where
  "limiter_getStats defaults sha1 client call now pid k algorithm windowSeconds =
     on_error
       (case getAlgorithm sha1 client call now pid algorithm of
          Inl e \<Rightarrow> throw_recorded e
        | Inr a \<Rightarrow> unrecorded (alg_getStats a k (nullish windowSeconds (default_windowSeconds defaults))))
       (recordRedisError ''getStats'')"

section \<open>Where a limit comes from\<close>

text \<open>
  What the documentation promises: the request's own numbers where it states them, then those of
  the rule that governs it, then the service's.
\<close>

definition context_of :: "RateLimitCheckRequest \<Rightarrow> RuleMatchContext" where
  "context_of request = \<lparr>ctx_identifier = req_identifier request, ctx_endpoint = req_endpoint request,
     ctx_ip = req_ip request, ctx_metadata = req_metadata request\<rparr>"

definition states_all :: "CheckOverrides \<Rightarrow> bool" where
  "states_all o1 \<longleftrightarrow> over_algorithm o1 \<noteq> None \<and> over_limit o1 \<noteq> None \<and> over_windowSeconds o1 \<noteq> None"

definition limit_under :: "limiter_defaults \<Rightarrow> CheckOverrides \<Rightarrow> RateLimitRule option \<Rightarrow> EffectiveLimit \<Rightarrow> bool" where
  "limit_under defaults o1 rule eff \<longleftrightarrow>
     eff_algorithm eff = nullish (over_algorithm o1) (case rule of Some r \<Rightarrow> rule_algorithm r | None \<Rightarrow> default_algorithm defaults)
     \<and> eff_limit eff = nullish (over_limit o1) (case rule of Some r \<Rightarrow> rule_limit r | None \<Rightarrow> default_limit defaults)
     \<and> eff_windowSeconds eff = nullish (over_windowSeconds o1) (case rule of Some r \<Rightarrow> rule_windowSeconds r | None \<Rightarrow> default_windowSeconds defaults)"

lemma resolveLimit_stated:
  "states_all overrides \<Longrightarrow> \<exists>eff. run_state (resolveLimit db js defaults now request overrides) st = ((Inr eff, []), st)
     \<and> eff_source eff = from_request \<and> eff_ruleName eff = None \<and> (\<forall>rule. limit_under defaults overrides rule eff)"
  by (auto simp: states_all_def resolveLimit_def limit_under_def)

lemma resolveLimit_looks_up:
  assumes "\<not> states_all overrides"
    and run: "run_state (findMatchingRule db js now (context_of request)) st = (Inr result, st')"
    and ok: "matched result = (matched_rule result \<noteq> None)"
  shows "\<exists>eff es. run_state (resolveLimit db js defaults now request overrides) st = ((Inr eff, es), st')
    \<and> eff_source eff = (if matched_rule result = None then from_default else from_rule)
    \<and> eff_ruleName eff = map_option rule_name (matched_rule result)
    \<and> limit_under defaults overrides (matched_rule result) eff
    \<and> es = (case matched_rule result of None \<Rightarrow> recordRuleMatch ''none'' ''default''
        | Some rule \<Rightarrow> recordRuleMatch (rule_id rule) (rule_name rule))"
proof -
  have look: "resolveLimit db js defaults now request overrides =
      and_then (unrecorded (findMatchingRule db js now (context_of request))) (limit_of_match defaults overrides)"
    using assms(1) unfolding resolveLimit_def context_of_def states_all_def by (auto split: option.splits)
  show ?thesis
    using ok run by (cases "matched_rule result")
      (auto simp: look and_then_def limit_of_match_def limit_under_def)
qed


lemma limiter_check_after_limit:
  fixes view :: "'s \<Rightarrow> keyspace"
  assumes server: "script_server call elapse view sha1 client cached"
    and limit: "run_state (resolveLimit db js defaults looked request overrides) (fst w) = ((Inr eff, es), e')"
  shows "eff_algorithm eff = LEAKY_BUCKET \<Longrightarrow>
      run_state (limiter_check db js defaults sha1 client call looked now pid request overrides) w
        = ((Inl (PlainError ''Unsupported algorithm: leaky_bucket''), es @ recordRedisError ''check''), (e', snd w))"
    and "eff_algorithm eff \<noteq> LEAKY_BUCKET \<Longrightarrow> \<exists>result p'.
      run_state (limiter_check db js defaults sha1 client call looked now pid request overrides) w
        = ((Inr \<lparr>decided = result, effective = eff\<rparr>, es @ recordCheckLatency (algorithm_text (eff_algorithm eff)) @
             recordRequest (algorithm_text (eff_algorithm eff)) (allowed result)), (e', p'))
      \<and> honest_answer (eff_limit eff) result"
proof -
  show "run_state (limiter_check db js defaults sha1 client call looked now pid request overrides) w
        = ((Inl (PlainError ''Unsupported algorithm: leaky_bucket''), es @ recordRedisError ''check''), (e', snd w))"
    if "eff_algorithm eff = LEAKY_BUCKET"
    using that limit by (simp add: limiter_check_def and_then_def on_error_def)
next
  assume "eff_algorithm eff \<noteq> LEAKY_BUCKET"
  then obtain a where a: "getAlgorithm sha1 client call now pid (eff_algorithm eff) = Inr a"
    using getAlgorithm_supported by blast
  obtain result p' where check: "run_state (alg_check a (req_key request) (eff_limit eff) (eff_windowSeconds eff) 1) (snd w) = (Inr result, p')"
    "honest_answer (eff_limit eff) result"
    using rate_limit_contract.answers[OF getAlgorithm_contract[OF server a]] by blast
  show "\<exists>result p'.
      run_state (limiter_check db js defaults sha1 client call looked now pid request overrides) w
        = ((Inr \<lparr>decided = result, effective = eff\<rparr>, es @ recordCheckLatency (algorithm_text (eff_algorithm eff)) @
             recordRequest (algorithm_text (eff_algorithm eff)) (allowed result)), (e', p'))
      \<and> honest_answer (eff_limit eff) result"
    using check limit by (simp add: limiter_check_def and_then_def on_error_def a)
qed

lemma governs_consistent: "governs js ctx tbl result \<Longrightarrow> matched result = (matched_rule result \<noteq> None)"
  by (auto simp: governs_def split: option.splits)

text \<open>The limit a request gets, over the table of rules.\<close>

definition limit_for ::
    "'re js_lib \<Rightarrow> limiter_defaults \<Rightarrow> RuleRow list \<Rightarrow> RateLimitCheckRequest \<Rightarrow> CheckOverrides \<Rightarrow> EffectiveLimit \<Rightarrow> bool" where
  "limit_for js defaults tbl request overrides eff \<longleftrightarrow>
     (if states_all overrides then eff_source eff = from_request \<and> eff_ruleName eff = None \<and> limit_under defaults overrides None eff
      else \<exists>result. governs js (context_of request) tbl result
             \<and> eff_source eff = (if matched_rule result = None then from_default else from_rule)
             \<and> eff_ruleName eff = map_option rule_name (matched_rule result)
             \<and> limit_under defaults overrides (matched_rule result) eff)"

lemma resolveLimit_limit_for:
  assumes table: "rule_table db rule_rows" and cache: "cache_ok (new_RegExp js) (re_patterns st)"
    and stale: "rulesCache st = [] \<or> CACHE_TTL \<le> now - cacheLastUpdated st"
  shows "\<exists>eff es st'. run_state (resolveLimit db js defaults now request overrides) st = ((Inr eff, es), st')
    \<and> limit_for js defaults (rule_rows (re_db st)) request overrides eff
    \<and> counted ''rate_limiter_redis_errors_total'' ls es = 0 \<and> counted ''rate_limiter_degraded_responses_total'' ls' es = 0"
proof (cases "states_all overrides")
  case True
  then show ?thesis using resolveLimit_stated[OF True, of db js defaults now request st] by (fastforce simp: limit_for_def)
next
  case False
  obtain result st' where look: "run_state (findMatchingRule db js now (context_of request)) st = (Inr result, st')"
      "governs js (context_of request) (rule_rows (re_db st)) result"
    using findMatchingRule_reads[OF table cache stale] by blast
  from resolveLimit_looks_up[OF False look(1) governs_consistent[OF look(2)], of defaults]
  obtain eff es where eff: "run_state (resolveLimit db js defaults now request overrides) st = ((Inr eff, es), st')"
      "eff_source eff = (if matched_rule result = None then from_default else from_rule)"
      "eff_ruleName eff = map_option rule_name (matched_rule result)"
      "limit_under defaults overrides (matched_rule result) eff"
      "es = (case matched_rule result of None \<Rightarrow> recordRuleMatch ''none'' ''default''
        | Some rule \<Rightarrow> recordRuleMatch (rule_id rule) (rule_name rule))" by blast
  have "limit_for js defaults (rule_rows (re_db st)) request overrides eff"
    using False look(2) eff(2-4) unfolding limit_for_def by (simp only: if_False) blast
  moreover have "counted ''rate_limiter_redis_errors_total'' ls es = 0 \<and> counted ''rate_limiter_degraded_responses_total'' ls' es = 0"
    by (simp add: eff(5) recordRuleMatch_def split: option.splits)
  ultimately show ?thesis using eff(1) by blast
qed


definition example_defaults :: limiter_defaults where
  "example_defaults = \<lparr>default_algorithm = TOKEN_BUCKET, default_limit = 1000, default_windowSeconds = 60\<rparr>"

definition example_check :: RateLimitCheckRequest where
  "example_check = \<lparr>req_key = ''k'', req_identifier = ''alice'', req_endpoint = None, req_ip = None, req_metadata = None\<rparr>"

definition no_overrides :: CheckOverrides where
  "no_overrides = \<lparr>over_algorithm = None, over_limit = None, over_windowSeconds = None\<rparr>"

abbreviation initial_server :: doc_server where "initial_server \<equiv> (Map.empty, [])"


end
