(* ===== verification/Rate_Limit_Routes.thy ===== *)
theory Rate_Limit_Routes
  imports Rate_Limiter Middleware
begin

text \<open>
  \<^verbatim>\<open>src/routes/rate-limit.routes.ts\<close>: checking, resetting and reading a limit over HTTP. The Joi
  schemas are parameters; a body is modelled after validation, with the types its schema
  names. A header that holds a character HTTP does not allow makes \<^verbatim>\<open>res.set\<close> throw.
\<close>

record ('d, 're, 's) deployment =
  dep_db :: "'d database"
  dep_js :: "'re js_lib"
  dep_defaults :: limiter_defaults
  dep_sha1 :: "string \<Rightarrow> string"
  dep_client :: "('s, script_reply) script_client"
  dep_call :: "'s redis"
  dep_pid :: nat
  toISOString :: "int \<Rightarrow> string"
  failure_rateLimit :: string

record check_body =
  cb_key :: string
  cb_identifier :: string
  cb_algorithm :: "RateLimitAlgorithm option"
  cb_limit :: "int option"
  cb_windowSeconds :: "int option"
  cb_endpoint :: "string option"
  cb_metadata :: "(string \<times> jsval) list option"

record key_body =
  kb_key :: string
  kb_algorithm :: RateLimitAlgorithm
  kb_windowSeconds :: "int option"

section \<open>Headers and bodies\<close>

definition valid_header_char :: "char \<Rightarrow> bool" where
  "valid_header_char c \<longleftrightarrow> (let n = of_char c :: nat in n = 9 \<or> 32 \<le> n \<and> n \<noteq> 127)"

definition valid_header_value :: "string \<Rightarrow> bool" where
  "valid_header_value v \<longleftrightarrow> list_all valid_header_char v"

definition js_int :: "int \<Rightarrow> jsval" where "js_int n = JNum (of_int n)"

definition set_headers :: "(string \<times> string) list \<Rightarrow> js_error + (string \<times> string) list" where
  "set_headers hs =
     (case filter (\<lambda>h. \<not> valid_header_value (snd h)) hs of
        [] \<Rightarrow> Inr hs
      | (name, _) # _ \<Rightarrow> Inl (DriverError (''Invalid character in header content '' @ name) (Some ''ERR_INVALID_CHAR'')))"

definition source_text :: "limit_source \<Rightarrow> string" where
  "source_text s = (case s of from_request \<Rightarrow> ''request'' | from_rule \<Rightarrow> ''rule'' | from_default \<Rightarrow> ''default'')"

definition effective_json :: "EffectiveLimit \<Rightarrow> jsval" where
  "effective_json eff = JObj
     ([(''algorithm'', JStr (algorithm_text (eff_algorithm eff))), (''limit'', js_int (eff_limit eff)),
       (''windowSeconds'', js_int (eff_windowSeconds eff)), (''source'', JStr (source_text (eff_source eff)))] @
      (case eff_ruleId eff of Some i \<Rightarrow> [(''ruleId'', JStr i)] | None \<Rightarrow> []) @
      (case eff_ruleName eff of Some n \<Rightarrow> [(''ruleName'', JStr n)] | None \<Rightarrow> []))"

text \<open>An optional number that is there and not zero.\<close>

definition told :: "int option \<Rightarrow> int option" where
  "told t = (case t of Some n \<Rightarrow> if n = 0 then None else Some n | None \<Rightarrow> None)"

definition check_headers :: "(int \<Rightarrow> string) \<Rightarrow> RateLimitDecision \<Rightarrow> (string \<times> string) list" where
  "check_headers show_date d =
     [(''X-RateLimit-Limit'', string_of_int (limit (decided d))),
      (''X-RateLimit-Remaining'', string_of_int (remaining (decided d))),
      (''X-RateLimit-Reset'', show_date (resetAt (decided d))),
      (''X-RateLimit-Policy'', (case eff_ruleName (effective d) of Some n \<Rightarrow> n | None \<Rightarrow> source_text (eff_source (effective d))))]"

definition check_response :: "(int \<Rightarrow> string) \<Rightarrow> RateLimitDecision \<Rightarrow> js_error + http_response" where
  "check_response show_date d =
     (case set_headers (check_headers show_date d) of
        Inl e \<Rightarrow> Inl e
      | Inr hs \<Rightarrow> Inr
          \<lparr>http_status = (if allowed (decided d) then 200 else 429),
           http_headers = hs @ (case told (retryAfter (decided d)) of
               Some t \<Rightarrow> if allowed (decided d) then [] else [(''Retry-After'', string_of_int t)] | None \<Rightarrow> []),
           http_body = Some (JObj
             ([(''allowed'', JBool (allowed (decided d))), (''limit'', js_int (limit (decided d))),
               (''remaining'', js_int (remaining (decided d))), (''resetAt'', js_int (resetAt (decided d)))] @
              (case told (retryAfter (decided d)) of Some t \<Rightarrow> [(''retryAfter'', js_int t)] | None \<Rightarrow> []) @
              [(''effective'', effective_json (effective d))]))\<rparr>)"

section \<open>The routes\<close>

text \<open>The answer while the limiter's state is away: allowed, with the caller's own limit.\<close>

definition open_check :: "check_body \<Rightarrow> (string \<times> jsval) list" where
  "open_check b = [(''allowed'', JBool True), (''limit'', (case cb_limit b of Some l \<Rightarrow> js_int l | None \<Rightarrow> JNull)),
     (''remaining'', JNull), (''resetAt'', JNull)]"

definition check_handler ::
    "('d, 're, 's) deployment \<Rightarrow> int \<Rightarrow> int \<Rightarrow> check_body http_request \<Rightarrow> ('d, 're, 's) limiter handler" where
  "check_handler dep looked now req =
     (let b = rq_body req
      in and_then
           (limiter_check (dep_db dep) (dep_js dep) (dep_defaults dep) (dep_sha1 dep) (dep_client dep) (dep_call dep)
              looked now (dep_pid dep)
              \<lparr>req_key = cb_key b, req_identifier = cb_identifier b, req_endpoint = cb_endpoint b, req_ip = rq_ip req,
               req_metadata = cb_metadata b\<rparr>
              \<lparr>over_algorithm = cb_algorithm b, over_limit = cb_limit b, over_windowSeconds = cb_windowSeconds b\<rparr>)
           (\<lambda>d. case check_response (toISOString dep) d of Inl e \<Rightarrow> throw_recorded e | Inr r \<Rightarrow> recording [] r))"

definition check_route ::
    "('d, 're, 's) deployment \<Rightarrow> (check_body \<Rightarrow> string list option) \<Rightarrow> int \<Rightarrow> int \<Rightarrow> check_body http_request \<Rightarrow>
     ('d, 're, 's) limiter served" where
  "check_route dep schema looked now req =
     before (validateRequest schema req)
       (guardState ''rateLimit'' (failure_rateLimit dep) (open_check (rq_body req)) (check_handler dep looked now req))"

definition reset_route ::
    "('d, 're, 's) deployment \<Rightarrow> (key_body \<Rightarrow> string list option) \<Rightarrow> int \<Rightarrow> key_body http_request \<Rightarrow> ('d, 're, 's) limiter served" where
  "reset_route dep schema now req =
     before (validateRequest schema req)
       (forwarding same_error
         (and_then (on_process (limiter_reset (dep_defaults dep) (dep_sha1 dep) (dep_client dep) (dep_call dep) now (dep_pid dep)
              (kb_key (rq_body req)) (kb_algorithm (rq_body req)) (kb_windowSeconds (rq_body req))))
            (\<lambda>_. recording [] (json 200 (JObj [(''success'', JBool True),
               (''message'', JStr (''Rate limit reset for key: '' @ kb_key (rq_body req)))])))))"

definition stats_route ::
    "('d, 're, 's) deployment \<Rightarrow> (key_body \<Rightarrow> string list option) \<Rightarrow> int \<Rightarrow> key_body http_request \<Rightarrow> ('d, 're, 's) limiter served" where
  "stats_route dep schema now req =
     before (validateRequest schema req)
       (forwarding same_error
         (and_then (on_process (limiter_getStats (dep_defaults dep) (dep_sha1 dep) (dep_client dep) (dep_call dep) now (dep_pid dep)
              (kb_key (rq_body req)) (kb_algorithm (rq_body req)) (kb_windowSeconds (rq_body req))))
            (\<lambda>found. case found of
               None \<Rightarrow> recording [] (json 404 (JObj [(''error'', JStr ''No stats found for this key'')]))
             | Some st \<Rightarrow> recording [] (json 200 (JObj
                 [(''key'', JStr (kb_key (rq_body req))), (''algorithm'', JStr (algorithm_text (kb_algorithm (rq_body req)))),
                  (''currentCount'', js_int (stat_count st)), (''resetAt'', js_int (stat_resetAt st))])))))"

section \<open>What a check answers\<close>

lemma string_of_int_valid: "valid_header_value (string_of_int i)"
proof -
  have "list_all valid_header_char (string_of_nat n)" for n
    using string_of_nat_digits[of n] by (auto simp: list_all_iff valid_header_char_def digit_char_def Let_def)
  then show ?thesis by (auto simp: valid_header_value_def string_of_int_def valid_header_char_def)
qed

lemma source_text_valid: "valid_header_value (source_text s)"
  by (cases s) (simp_all add: source_text_def valid_header_value_def valid_header_char_def)

definition shown_policy :: "EffectiveLimit \<Rightarrow> string" where
  "shown_policy eff = (case eff_ruleName eff of Some n \<Rightarrow> n | None \<Rightarrow> source_text (eff_source eff))"

lemma check_response_cases:
  assumes show_date: "\<And>t. valid_header_value (show_date t)" and honest: "honest_answer lmt (decided d)"
  shows "valid_header_value (shown_policy (effective d)) \<Longrightarrow> \<exists>r. check_response show_date d = Inr r
      \<and> map_of (http_headers r) ''X-RateLimit-Limit'' = Some (string_of_int lmt)
      \<and> map_of (http_headers r) ''X-RateLimit-Policy'' = Some (shown_policy (effective d))
      \<and> http_status r = (if allowed (decided d) then 200 else 429)
      \<and> map_of (http_headers r) ''Retry-After'' = (if allowed (decided d) then None else map_option string_of_int (retryAfter (decided d)))"
    and "\<not> valid_header_value (shown_policy (effective d)) \<Longrightarrow> \<exists>e. check_response show_date d = Inl e
      \<and> rate_limiter_error e = None \<and> \<not> isStateUnavailable e \<and> (\<nexists>m. e = SyntaxError m True)"
proof -
  assume valid: "valid_header_value (shown_policy (effective d))"
  then have "set_headers (check_headers show_date d) = Inr (check_headers show_date d)"
    using show_date by (simp add: set_headers_def check_headers_def string_of_int_valid shown_policy_def)
  then show "\<exists>r. check_response show_date d = Inr r
      \<and> map_of (http_headers r) ''X-RateLimit-Limit'' = Some (string_of_int lmt)
      \<and> map_of (http_headers r) ''X-RateLimit-Policy'' = Some (shown_policy (effective d))
      \<and> http_status r = (if allowed (decided d) then 200 else 429)
      \<and> map_of (http_headers r) ''Retry-After'' = (if allowed (decided d) then None else map_option string_of_int (retryAfter (decided d)))"
    using honest by (cases "retryAfter (decided d)")
      (auto simp: check_response_def check_headers_def honest_answer_def told_def shown_policy_def)
next
  assume "\<not> valid_header_value (shown_policy (effective d))"
  then have "set_headers (check_headers show_date d)
      = Inl (DriverError (''Invalid character in header content '' @ ''X-RateLimit-Policy'') (Some ''ERR_INVALID_CHAR''))"
    using show_date by (simp add: set_headers_def check_headers_def string_of_int_valid shown_policy_def)
  moreover have "\<not> isStateUnavailable (DriverError (''Invalid character in header content '' @ ''X-RateLimit-Policy'') (Some ''ERR_INVALID_CHAR''))"
    by code_simp
  ultimately show "\<exists>e. check_response show_date d = Inl e
      \<and> rate_limiter_error e = None \<and> \<not> isStateUnavailable e \<and> (\<nexists>m. e = SyntaxError m True)"
    by (simp add: check_response_def)
qed


definition request_of :: "check_body http_request \<Rightarrow> RateLimitCheckRequest" where
  "request_of req = \<lparr>req_key = cb_key (rq_body req), req_identifier = cb_identifier (rq_body req),
     req_endpoint = cb_endpoint (rq_body req), req_ip = rq_ip req, req_metadata = cb_metadata (rq_body req)\<rparr>"

definition overrides_of :: "check_body http_request \<Rightarrow> CheckOverrides" where
  "overrides_of req = \<lparr>over_algorithm = cb_algorithm (rq_body req), over_limit = cb_limit (rq_body req),
     over_windowSeconds = cb_windowSeconds (rq_body req)\<rparr>"

lemma leaky_error: "rate_limiter_error (PlainError m) = None"
  "\<not> isStateUnavailable (PlainError ''Unsupported algorithm: leaky_bucket'')"
  by (simp, code_simp)

lemma unknown_error_500: "rate_limiter_error e = None \<Longrightarrow> (\<nexists>m. e = SyntaxError m True) \<Longrightarrow> http_status (answered (Next (Some e))) = 500"
  by (cases e) (auto simp: answered_def errorHandler_def json_def)

lemma check_route_runs:
  assumes "schema (rq_body req) = None"
    and "run_state (check_handler dep looked now req) w = ((r, es), w')"
  shows "run_state (check_route dep schema looked now req) w =
     ((case r of Inr response \<Rightarrow> (Reply response, es)
       | Inl e \<Rightarrow> if isStateUnavailable e
           then (Reply (degraded_response (failure_rateLimit dep) (open_check (rq_body req))), es @ recordDegraded ''rateLimit'' (failure_rateLimit dep))
           else (Next (Some e), es)), w')"
  using run_guardState[OF assms(2)] assms(1) by (simp add: check_route_def before_def validateRequest_def)

text \<open>The headers and the status of a decision under a limit.\<close>

definition tells :: "EffectiveLimit \<Rightarrow> http_response \<Rightarrow> bool" where
  "tells eff r \<longleftrightarrow> map_of (http_headers r) ''X-RateLimit-Limit'' = Some (string_of_int (eff_limit eff))
     \<and> map_of (http_headers r) ''X-RateLimit-Policy'' = Some (shown_policy eff)
     \<and> (http_status r = 200 \<and> map_of (http_headers r) ''Retry-After'' = None
        \<or> http_status r = 429 \<and> (\<exists>t \<ge> 1. map_of (http_headers r) ''Retry-After'' = Some (string_of_int t)))"

text \<open>What the handler does once the limit is known.\<close>

lemma check_handler_after_limit:
  fixes view :: "'s \<Rightarrow> keyspace"
  assumes server: "script_server (dep_call dep) elapse view (dep_sha1 dep) (dep_client dep) cached"
    and found: "run_state (resolveLimit (dep_db dep) (dep_js dep) (dep_defaults dep) looked (request_of req) (overrides_of req)) (fst w)
        = ((Inr eff, es), e')"
    and dates: "\<And>t. valid_header_value (toISOString dep t)"
  shows "\<exists>out es' w'. run_state (check_handler dep looked now req) w = ((out, es'), w')
    \<and> (if eff_algorithm eff = LEAKY_BUCKET \<or> \<not> valid_header_value (shown_policy eff)
       then \<exists>e. out = Inl e \<and> rate_limiter_error e = None \<and> \<not> isStateUnavailable e \<and> (\<nexists>m. e = SyntaxError m True)
       else \<exists>r. out = Inr r \<and> tells eff r)"
proof -
  note after = limiter_check_after_limit[OF server found, of now "dep_pid dep"]
  have handler: "check_handler dep looked now req = and_then
      (limiter_check (dep_db dep) (dep_js dep) (dep_defaults dep) (dep_sha1 dep) (dep_client dep) (dep_call dep) looked now (dep_pid dep)
        (request_of req) (overrides_of req))
      (\<lambda>d. case check_response (toISOString dep) d of Inl e \<Rightarrow> throw_recorded e | Inr r \<Rightarrow> recording [] r)"
    by (simp add: check_handler_def request_of_def overrides_of_def Let_def)
  show ?thesis
  proof (cases "eff_algorithm eff = LEAKY_BUCKET")
    case True
    have "run_state (check_handler dep looked now req) w
        = ((Inl (PlainError ''Unsupported algorithm: leaky_bucket''), es @ recordRedisError ''check''), (e', snd w))"
      unfolding handler by (rule run_and_then(1)) (rule after(1)[OF True])
    then show ?thesis using True leaky_error by simp
  next
    case supported: False
    then obtain result es0 w0 where d: "run_state (limiter_check (dep_db dep) (dep_js dep) (dep_defaults dep) (dep_sha1 dep) (dep_client dep) (dep_call dep)
          looked now (dep_pid dep) (request_of req) (overrides_of req)) w = ((Inr \<lparr>decided = result, effective = eff\<rparr>, es0), w0)"
      and honest: "honest_answer (eff_limit eff) (decided \<lparr>decided = result, effective = eff\<rparr>)"
      using after(2) by auto
    note response = check_response_cases[where show_date = "toISOString dep", OF dates honest]
    show ?thesis
    proof (cases "valid_header_value (shown_policy eff)")
      case True
      then obtain r where r: "check_response (toISOString dep) \<lparr>decided = result, effective = eff\<rparr> = Inr r"
          "map_of (http_headers r) ''X-RateLimit-Limit'' = Some (string_of_int (eff_limit eff))"
          "map_of (http_headers r) ''X-RateLimit-Policy'' = Some (shown_policy eff)"
          "http_status r = (if allowed result then 200 else 429)"
          "map_of (http_headers r) ''Retry-After'' = (if allowed result then None else map_option string_of_int (retryAfter result))"
        using response(1) by auto
      have "tells eff r" using r(2-5) honest by (auto simp: tells_def honest_answer_def)
      then show ?thesis using supported True by (intro exI[of _ "Inr r"] exI[of _ es0] exI[of _ w0]) (simp add: handler and_then_def d r(1))
    next
      case False
      then obtain e where "check_response (toISOString dep) \<lparr>decided = result, effective = eff\<rparr> = Inl e" "rate_limiter_error e = None"
          "\<not> isStateUnavailable e" "\<nexists>m. e = SyntaxError m True"
        using response(2) by auto
      then show ?thesis using False by (intro exI[of _ "Inl e"] exI[of _ es0] exI[of _ w0]) (simp add: handler and_then_def d)
    qed
  qed
qed


definition example_deployment :: "(RuleRow list, atom list, doc_server) deployment" where
  "example_deployment =
     \<lparr>dep_db = table_db, dep_js = example_js, dep_defaults = example_defaults, dep_sha1 = (\<lambda>s. s),
      dep_client = server_client (\<lambda>s. s), dep_call = server_call, dep_pid = 7, toISOString = string_of_int,
      failure_rateLimit = ''fail_open''\<rparr>"

definition example_http :: "check_body http_request" where
  "example_http = \<lparr>rq_method = ''POST'', rq_headers = [], rq_params = [], rq_query = [],
     rq_body = \<lparr>cb_key = ''k'', cb_identifier = ''alice'', cb_algorithm = None, cb_limit = None, cb_windowSeconds = None,
       cb_endpoint = None, cb_metadata = None\<rparr>, rq_ip = Some ''10.0.0.7''\<rparr>"



section \<open>While Redis is away\<close>

lemma check_disconnected:
  assumes off: "disconnected client" and a: "getAlgorithm sha1 client call now pid type = Inr a"
  shows "\<exists>p'. run_state (alg_check a k lmt windowSeconds 1) p = (Inl (RedisConnectionError ''Redis client not connected''), p')"
proof -
  note run = run_script_disconnected[OF off]
  obtain tk sk where ks: "token_bucket_keys k = (tk, sk)" by (metis surj_pair)
  have n: "length [tk, sk] = numKeys (token_bucket :: ('a, script_reply) redis_script)"
    "length [k'] = numKeys (sliding_window :: ('a, script_reply) redis_script)"
    "length [k'] = numKeys (fixed_window :: ('a, script_reply) redis_script)" for k' :: key
    by (simp_all add: token_bucket_def sliding_window_def fixed_window_def)
  show ?thesis
    using a by (cases type; cases p)
      (auto simp: getAlgorithm_def registry_def TokenBucketAlgorithm_def SlidingWindowAlgorithm_def FixedWindowAlgorithm_def
        on_server_def token_bucket_check_def sliding_window_check_def fixed_window_check_def ks Let_def run[OF n(1)] run[OF n(2)] run[OF n(3)])
qed

text \<open>
  While Redis is away, a check is answered by the configured mode: under \<^verbatim>\<open>fail_open\<close> with 200 and
  \<^verbatim>\<open>allowed\<close>, the caller's own limit and no remaining count, and otherwise with 503; either way the
  answer is flagged as degraded, and counted both as an error of Redis and as a degraded answer.
\<close>

theorem outage_answers_by_mode:
  assumes table: "rule_table (dep_db dep) rule_rows" and cache: "cache_ok (new_RegExp (dep_js dep)) (re_patterns (fst w))"
    and stale: "rulesCache (fst w) = [] \<or> CACHE_TTL \<le> looked - cacheLastUpdated (fst w)"
    and off: "disconnected (dep_client dep)" and accepted: "schema (rq_body req) = None"
    and supported: "\<And>eff. limit_for (dep_js dep) (dep_defaults dep) (rule_rows (re_db (fst w))) (request_of req) (overrides_of req) eff \<Longrightarrow>
      eff_algorithm eff \<noteq> LEAKY_BUCKET"
  shows "\<exists>r es w'. run_state (check_route dep schema looked now req) w = ((Reply r, es), w')
    \<and> map_of (http_headers r) ''X-RateLimit-Degraded'' = Some (failure_rateLimit dep)
    \<and> (if failure_rateLimit dep = ''fail_open''
       then http_status r = 200 \<and> http_body r = Some (JObj (open_check (rq_body req) @ [(''degraded'', JStr ''fail_open'')]))
       else http_status r = 503)
    \<and> counted ''rate_limiter_redis_errors_total'' [(''operation'', ''check'')] es = 1
    \<and> counted ''rate_limiter_degraded_responses_total'' [(''surface'', ''rateLimit''), (''mode'', failure_rateLimit dep)] es = 1"
proof -
  let ?e = "RedisConnectionError ''Redis client not connected''"
  obtain eff es e' where eff: "run_state (resolveLimit (dep_db dep) (dep_js dep) (dep_defaults dep) looked (request_of req) (overrides_of req)) (fst w)
        = ((Inr eff, es), e')"
      "limit_for (dep_js dep) (dep_defaults dep) (rule_rows (re_db (fst w))) (request_of req) (overrides_of req) eff"
      "counted ''rate_limiter_redis_errors_total'' [(''operation'', ''check'')] es = 0"
      "counted ''rate_limiter_degraded_responses_total'' [(''surface'', ''rateLimit''), (''mode'', failure_rateLimit dep)] es = 0"
    using resolveLimit_limit_for[OF table cache stale, of "dep_defaults dep" "request_of req" "overrides_of req"] by blast
  obtain a where a: "getAlgorithm (dep_sha1 dep) (dep_client dep) (dep_call dep) now (dep_pid dep) (eff_algorithm eff) = Inr a"
    using getAlgorithm_supported[OF supported[OF eff(2)]] by blast
  obtain p' where check: "run_state (alg_check a (cb_key (rq_body req)) (eff_limit eff) (eff_windowSeconds eff) 1) (snd w) = (Inl ?e, p')"
    using check_disconnected[OF off a] by blast
  have handler: "run_state (check_handler dep looked now req) w = ((Inl ?e, es @ recordRedisError ''check''), (e', p'))"
    using check eff(1) a
    by (simp add: check_handler_def Let_def limiter_check_def and_then_def on_error_def request_of_def overrides_of_def)
  have "isStateUnavailable ?e" by (simp add: isStateUnavailable_def)
  then show ?thesis
    using check_route_runs[where schema = schema, OF accepted handler] eff(3,4)
    by (simp add: degraded_response_def recordRedisError_def recordDegraded_def)
qed

definition offline_deployment :: "(RuleRow list, atom list, doc_server) deployment" where
  "offline_deployment = example_deployment\<lparr>dep_client := (server_client (\<lambda>s. s))\<lparr>getClient := js_throw (RedisConnectionError ''Redis client not connected'')\<rparr>\<rparr>"

lemma outage_answers_by_mode_witness:
  "\<exists>r es w'. run_state (check_route offline_deployment (\<lambda>b. None) 5000 5001 example_http)
        (example_engine [], (initial_server, 0)) = ((Reply r, es), w') \<and> http_status r = 200
     \<and> map_of (http_headers r) ''X-RateLimit-Degraded'' = Some ''fail_open''"
proof -
  let ?w = "(example_engine [], (initial_server, 0 :: nat))"
  have hyps: "rule_table (dep_db offline_deployment) (\<lambda>d. d)" "cache_ok (new_RegExp (dep_js offline_deployment)) (re_patterns (fst ?w))"
    "rulesCache (fst ?w) = [] \<or> CACHE_TTL \<le> 5000 - cacheLastUpdated (fst ?w)"
    "disconnected (dep_client offline_deployment)"
    using documented_table.rule_table_axioms
    by (simp_all add: offline_deployment_def example_deployment_def example_engine_def disconnected_def)
  have "eff_algorithm eff \<noteq> LEAKY_BUCKET" if "limit_for (dep_js offline_deployment) (dep_defaults offline_deployment) [] (request_of example_http) (overrides_of example_http) eff" for eff
    using that by (auto simp: limit_for_def states_all_def overrides_of_def example_http_def limit_under_def governs_def
        offline_deployment_def example_deployment_def example_defaults_def split: option.splits)
  then have "\<And>eff. limit_for (dep_js offline_deployment) (dep_defaults offline_deployment) (re_db (fst ?w)) (request_of example_http) (overrides_of example_http) eff \<Longrightarrow>
      eff_algorithm eff \<noteq> LEAKY_BUCKET" by (simp add: example_engine_def)
  note out = outage_answers_by_mode[where now = 5001 and schema = "\<lambda>b. None" and req = example_http, OF hyps(1-4) refl this]
  have "failure_rateLimit offline_deployment = ''fail_open''" by (simp add: offline_deployment_def example_deployment_def)
  with out show ?thesis by (simp only: simp_thms if_True) blast
qed

end
