(* ===== verification/Rules_Routes.thy ===== *)
theory Rules_Routes
  imports Rule_Engine Middleware
begin

text \<open>
  \<^verbatim>\<open>src/routes/rules.routes.ts\<close>: the rules over HTTP, behind the key of the control plane. The
  state is the rule engine with its database. A query parameter has one value; times reach
  JSON through the parameter \<open>show_date\<close>.
\<close>

record 'd rules_env =
  rules_db :: "'d database"
  rules_control :: control_config
  show_date :: "int \<Rightarrow> string"
  create_schema :: "CreateRuleRequest \<Rightarrow> string list option"
  update_schema :: "UpdateRuleRequest \<Rightarrow> string list option"

definition on_rules :: "('d, 'a) state \<Rightarrow> (('d, 're) rule_engine, 'a) state" where
  "on_rules m = zoom re_db (\<lambda>d. re_db_update (\<lambda>_. d)) m"

lemma run_on_rules [simp]: "run_state (on_rules m) st = (case run_state m (re_db st) of (a, d) \<Rightarrow> (a, st\<lparr>re_db := d\<rparr>))"
  by (simp add: on_rules_def)

section \<open>Bodies\<close>

definition rule_json :: "(int \<Rightarrow> string) \<Rightarrow> RateLimitRule \<Rightarrow> jsval" where
  "rule_json date r = JObj
     [(''id'', JStr (rule_id r)), (''name'', JStr (rule_name r)), (''algorithm'', algorithm_value (rule_algorithm r)),
      (''limit'', JNum (of_int (rule_limit r))), (''windowSeconds'', JNum (of_int (rule_windowSeconds r))),
      (''dimension'', JObj ((''type'', dimension_value (dim_type (rule_dimension r))) #
         (case dim_pattern (rule_dimension r) of Some p \<Rightarrow> [(''pattern'', JStr p)] | None \<Rightarrow> []))),
      (''priority'', JNum (of_int (rule_priority r))), (''enabled'', JBool (rule_enabled r)),
      (''metadata'', JObj (AList.clearjunk (rule_metadata r))), (''createdAt'', JStr (date (rule_createdAt r))), (''updatedAt'', JStr (date (rule_updatedAt r)))]"

definition success :: "(string \<times> jsval) list \<Rightarrow> jsval" where
  "success fs = JObj ((''success'', JBool True) # fs)"

definition missing_rule :: "string \<Rightarrow> js_error" where
  "missing_rule rid = NotFoundError (''Rule not found: '' @ rid)"

definition nonempty :: "string option \<Rightarrow> string option" where
  "nonempty s = (case s of Some (c # cs) \<Rightarrow> Some (c # cs) | _ \<Rightarrow> None)"

definition list_options :: "(string \<times> string) list \<Rightarrow> rule_filter" where
  "list_options query =
     \<lparr>by_enabled = map_option (\<lambda>e. e = ''true'') (map_of query ''enabled''),
      by_dimensionType = nonempty (map_of query ''dimensionType''),
      page_limit = Option.bind (nonempty (map_of query ''limit'')) parse_int,
      page_offset = Option.bind (nonempty (map_of query ''offset'')) parse_int\<rparr>"

text \<open>\<^verbatim>\<open>a || b\<close> of numbers, where \<open>None\<close> is \<^verbatim>\<open>NaN\<close> or undefined; \<^verbatim>\<open>NaN\<close> is \<^verbatim>\<open>null\<close> in JSON.\<close>

definition number_json :: "int option \<Rightarrow> jsval" where
  "number_json n = (case n of Some i \<Rightarrow> JNum (of_int i) | None \<Rightarrow> JNull)"

definition or_else :: "int option \<Rightarrow> int option \<Rightarrow> int option" where
  "or_else n d = (case n of Some i \<Rightarrow> if i = 0 then d else Some i | None \<Rightarrow> d)"

section \<open>The routes\<close>

definition create_rule_handler ::
    "'d rules_env \<Rightarrow> string \<Rightarrow> CreateRuleRequest \<Rightarrow> (('d, 're) rule_engine) handler" where
  "create_rule_handler env randomUUID b =
     and_then (unrecorded (on_rules (create_rule (rules_db env) randomUUID b))) (\<lambda>rule.
       unrecorded (do {
         invalidateCache;
         js_return (json 201 (success [(''data'', rule_json (show_date env) rule)]))
       }))"

definition list_rules_handler :: "'d rules_env \<Rightarrow> (string \<times> string) list \<Rightarrow> (('d, 're) rule_engine) handler" where
  "list_rules_handler env query =
     (let options = list_options query in
      unrecorded
        (throwing (on_rules (find_all_rules (rules_db env) options)) (\<lambda>rules.
         throwing (on_rules (count_rules (rules_db env) (by_enabled options))) (\<lambda>total.
           js_return (json 200 (success
             [(''data'', JArr (map (rule_json (show_date env)) rules)),
              (''pagination'', JObj [(''total'', number_json total), (''limit'', number_json (or_else (page_limit options) total)),
                 (''offset'', number_json (or_else (page_offset options) (Some 0)))])]))))))"

definition get_rule_handler :: "'d rules_env \<Rightarrow> string \<Rightarrow> (('d, 're) rule_engine) handler" where
  "get_rule_handler env rid =
     unrecorded (throwing (on_rules (find_rule_by_id (rules_db env) rid)) (\<lambda>found. case found of
       None \<Rightarrow> js_throw (missing_rule rid)
     | Some rule \<Rightarrow> js_return (json 200 (success [(''data'', rule_json (show_date env) rule)]))))"

definition update_rule_handler :: "'d rules_env \<Rightarrow> string \<Rightarrow> UpdateRuleRequest \<Rightarrow> (('d, 're) rule_engine) handler" where
  "update_rule_handler env rid b =
     unrecorded (throwing (on_rules (update_rule (rules_db env) rid b)) (\<lambda>found. case found of
       None \<Rightarrow> js_throw (missing_rule rid)
     | Some rule \<Rightarrow> do {
         invalidateCache;
         js_return (json 200 (success [(''data'', rule_json (show_date env) rule)]))
       }))"

text \<open>Deleting, enabling and disabling: a statement that affects a row, or none.\<close>

definition affecting :: "('d, js_error + bool) state \<Rightarrow> string \<Rightarrow> string \<Rightarrow> (('d, 're) rule_engine) handler" where
  "affecting statement rid message =
     unrecorded (throwing (on_rules statement) (\<lambda>hit.
       if \<not> hit then js_throw (missing_rule rid)
       else do {
         invalidateCache;
         js_return (json 200 (success [(''message'', JStr (message @ rid))]))
       }))"

definition delete_rule_handler :: "'d rules_env \<Rightarrow> string \<Rightarrow> (('d, 're) rule_engine) handler" where
  "delete_rule_handler env rid = affecting (delete_rule (rules_db env) rid) rid ''Rule deleted: ''"

definition enable_rule_handler :: "'d rules_env \<Rightarrow> string \<Rightarrow> (('d, 're) rule_engine) handler" where
  "enable_rule_handler env rid = affecting (setEnabled (rules_db env) rid True) rid ''Rule enabled: ''"

definition disable_rule_handler :: "'d rules_env \<Rightarrow> string \<Rightarrow> (('d, 're) rule_engine) handler" where
  "disable_rule_handler env rid = affecting (setEnabled (rules_db env) rid False) rid ''Rule disabled: ''"

definition cache_stats_handler :: "'d rules_env \<Rightarrow> int \<Rightarrow> (('d, 're) rule_engine) handler" where
  "cache_stats_handler env now = State (\<lambda>st.
     ((Inr (json 200 (success [(''data'', JObj
         [(''cachedRules'', JNum (of_nat (cachedRules (getCacheStats now st)))),
          (''lastUpdated'', (case lastUpdated (getCacheStats now st) of Some t \<Rightarrow> JStr (show_date env t) | None \<Rightarrow> JNull)),
          (''isExpired'', JBool (isExpired (getCacheStats now st)))])])), []), st))"

definition cache_invalidate_handler :: "(('d, 're) rule_engine) handler" where
  "cache_invalidate_handler =
     unrecorded (do { invalidateCache; js_return (json 200 (success [(''message'', JStr ''Rule cache invalidated'')])) })"

datatype rules_call =
    Create_rule CreateRuleRequest | List_rules "(string \<times> string) list" | Get_rule string | Update_rule string UpdateRuleRequest
  | Delete_rule string | Enable_rule string | Disable_rule string | Cache_stats | Cache_invalidate

definition name_taken :: "string option \<Rightarrow> string" where
  "name_taken name = ''Rule with name '' @ [CHR 0x27] @ (case name of Some n \<Rightarrow> n | None \<Rightarrow> ''undefined'') @ [CHR 0x27] @ '' already exists''"

definition validated :: "('b \<Rightarrow> string list option) \<Rightarrow> 'b \<Rightarrow> 's served \<Rightarrow> 's served" where
  "validated schema b handler = before
     (validateRequest schema \<lparr>rq_method = [], rq_headers = [], rq_params = [], rq_query = [], rq_body = b, rq_ip = None\<rparr>) handler"

definition rules_router ::
    "'d rules_env \<Rightarrow> int \<Rightarrow> string \<Rightarrow> unit http_request \<Rightarrow> rules_call \<Rightarrow> (('d, 're) rule_engine) served" where
  "rules_router env now randomUUID req call =
     before (requireControlPlaneKey (rules_control env) req)
       (case call of
          Create_rule b \<Rightarrow> validated (create_schema env) b
            (forwarding (conflict_or_same (name_taken (Some (cr_name b)))) (create_rule_handler env randomUUID b))
        | List_rules query \<Rightarrow> forwarding same_error (list_rules_handler env query)
        | Get_rule rid \<Rightarrow> forwarding same_error (get_rule_handler env rid)
        | Update_rule rid b \<Rightarrow> validated (update_schema env) b
            (forwarding (conflict_or_same (name_taken (up_name b))) (update_rule_handler env rid b))
        | Delete_rule rid \<Rightarrow> forwarding same_error (delete_rule_handler env rid)
        | Enable_rule rid \<Rightarrow> forwarding same_error (enable_rule_handler env rid)
        | Disable_rule rid \<Rightarrow> forwarding same_error (disable_rule_handler env rid)
        | Cache_stats \<Rightarrow> forwarding same_error (cache_stats_handler env now)
        | Cache_invalidate \<Rightarrow> forwarding same_error cache_invalidate_handler)"

section \<open>Who may change the rules, and when a change counts\<close>

lemma before_passes [simp]: "before (Next None) handler = handler"
  by (simp add: before_def)

lemma before_stops: "outcome \<noteq> Next None \<Longrightarrow> run_state (before outcome handler) st = ((outcome, []), st)"
  by (simp add: before_def)

definition changes :: "rules_call \<Rightarrow> bool" where
  "changes call \<longleftrightarrow> (case call of List_rules _ \<Rightarrow> False | Get_rule _ \<Rightarrow> False | Cache_stats \<Rightarrow> False | _ \<Rightarrow> True)"

text \<open>A handler that answers has emptied the cache of rules; no handler touches the patterns.\<close>

definition settles :: "(('d, 're) rule_engine) handler \<Rightarrow> bool" where
  "settles handler \<longleftrightarrow> (\<forall>st r es st'. run_state handler st = ((r, es), st') \<longrightarrow>
     re_patterns st' = re_patterns st
     \<and> (\<forall>response. r = Inr response \<longrightarrow> rulesCache st' = [] \<and> http_status response < 300))"

lemma run_invalidateCache [simp]: "run_state invalidateCache st = ((), st\<lparr>rulesCache := [], cacheLastUpdated := 0\<rparr>)"
  by (simp add: invalidateCache_def)

lemma settles_affecting: "settles (affecting statement rid message)"
  by (auto simp: settles_def affecting_def json_def split: prod.splits sum.splits if_splits)

lemma settles_handlers:
  "settles (create_rule_handler env randomUUID b)" "settles (update_rule_handler env rid b')"
  "settles (delete_rule_handler env rid)" "settles (enable_rule_handler env rid)" "settles (disable_rule_handler env rid)"
  "settles cache_invalidate_handler"
  by (auto simp: settles_affecting delete_rule_handler_def enable_rule_handler_def disable_rule_handler_def)
    (auto simp: settles_def create_rule_handler_def update_rule_handler_def cache_invalidate_handler_def and_then_def json_def
      split: prod.splits sum.splits option.splits)

lemma settles_forwarding:
  assumes "settles handler" "run_state (forwarding translate handler) st = ((Reply response, es), st')"
  shows "re_patterns st' = re_patterns st \<and> rulesCache st' = [] \<and> http_status response < 300"
  using assms by (fastforce simp: settles_def forwarding_def split: prod.splits sum.splits)

lemma validated_reply:
  "run_state (validated schema b handler) st = ((Reply response, es), st') \<Longrightarrow> run_state handler st = ((Reply response, es), st')"
  by (auto simp: validated_def validateRequest_def before_def split: option.splits)

lemma change_settles:
  assumes "changes call" "requireControlPlaneKey (rules_control env) req = Next None"
    "run_state (rules_router env now randomUUID req call) st = ((Reply response, es), st')"
  shows "re_patterns st' = re_patterns st \<and> rulesCache st' = [] \<and> http_status response < 300"
proof -
  note run = assms(3)[unfolded rules_router_def assms(2) before_passes]
  show ?thesis
  proof (cases call)
    case (Create_rule b)
    then show ?thesis using run by (intro settles_forwarding[OF settles_handlers(1)]) (auto dest: validated_reply)
  next
    case (Update_rule rid b)
    then show ?thesis using run by (intro settles_forwarding[OF settles_handlers(2)]) (auto dest: validated_reply)
  next
    case (Delete_rule rid)
    then show ?thesis using run by (intro settles_forwarding[OF settles_handlers(3)]) simp
  next
    case (Enable_rule rid)
    then show ?thesis using run by (intro settles_forwarding[OF settles_handlers(4)]) simp
  next
    case (Disable_rule rid)
    then show ?thesis using run by (intro settles_forwarding[OF settles_handlers(5)]) simp
  next
    case Cache_invalidate
    then show ?thesis using run by (intro settles_forwarding[OF settles_handlers(6)]) simp
  qed (use assms(1) in \<open>simp_all add: changes_def\<close>)
qed


text \<open>A table that can switch its rules, and requests to it.\<close>

definition switch_db :: "RuleRow list database" where
  "switch_db = table_db\<lparr>query_nothing := (\<lambda>text vs. State (\<lambda>d.
     case vs of
       [JBool b, JStr i] \<Rightarrow>
         (Inr \<lparr>rows = [], rowCount = Some (int (length (filter (\<lambda>r. row_id r = i) d)))\<rparr>,
          map (\<lambda>r. if row_id r = i then r\<lparr>row_enabled := b\<rparr> else r) d)
     | _ \<Rightarrow> (Inl (PlainError text), d)))\<rparr>"

lemma switch_table: "rule_table switch_db (\<lambda>d. d)"
  using documented_table.rule_table_axioms by (simp add: rule_table_def switch_db_def)

definition example_rules_env :: "RuleRow list rules_env" where
  "example_rules_env = \<lparr>rules_db = switch_db, rules_control = \<lparr>controlPlaneKey = Some ''s3cret'', server_env = ''production''\<rparr>,
     show_date = string_of_int, create_schema = (\<lambda>b. None), update_schema = (\<lambda>b. None)\<rparr>"

definition example_engine_rules :: "(RuleRow list, atom list) rule_engine" where
  "example_engine_rules = \<lparr>re_db = [example_rule ''low'' GLOBAL None 1, example_rule ''high'' USER (Some ''al*'') 9], re_patterns = [],
     rulesCache = map mapRowToRule [example_rule ''high'' USER (Some ''al*'') 9, example_rule ''low'' GLOBAL None 1], cacheLastUpdated = 4000\<rparr>"

lemma example_key: "requireControlPlaneKey (rules_control example_rules_env) (example_call [(''x-api-key'', ''s3cret'')]) = Next None"
  using gate_cases[of "rules_control example_rules_env" "example_call [(''x-api-key'', ''s3cret'')]"]
  by (simp add: example_rules_env_def example_call_def)

lemma example_disable:
  "\<exists>response st'. run_state (rules_router example_rules_env 5000 [] (example_call [(''x-api-key'', ''s3cret'')]) (Disable_rule ''high'')) example_engine_rules
     = ((Reply response, []), st') \<and> re_db st' = [example_rule ''low'' GLOBAL None 1, (example_rule ''high'' USER (Some ''al*'') 9)\<lparr>row_enabled := False\<rparr>]"
  unfolding rules_router_def example_key before_passes rules_call.case
  by (simp add: forwarding_def disable_rule_handler_def affecting_def setEnabled_def example_rules_env_def
      switch_db_def example_engine_rules_def example_rule_def affected_def json_def)


text \<open>
  A stranger changes nothing: a request to any route of the rules without the configured key is
  refused with 401, records nothing, and leaves the rules, the cache and the database as they
  were, whatever it asks for.
\<close>

theorem strangers_change_no_rule:
  assumes key: "controlPlaneKey (rules_control env) = Some (k # ks)"
    and bearer: "map_of (rq_headers req) ''authorization'' \<noteq> Some (''Bearer '' @ k # ks)"
    and header: "map_of (rq_headers req) ''x-api-key'' \<noteq> Some (k # ks)"
  shows "\<exists>outcome. run_state (rules_router env now randomUUID req call) st = ((outcome, []), st) \<and> http_status (answered outcome) = 401"
proof -
  have "requireControlPlaneKey (rules_control env) req \<noteq> Next None" "http_status (answered (requireControlPlaneKey (rules_control env) req)) = 401"
    using gate_cases[of "rules_control env" req] key bearer header by auto
  then show ?thesis by (simp add: rules_router_def before_stops)
qed

lemma strangers_change_no_rule_witness:
  "\<exists>outcome. run_state (rules_router example_rules_env 5000 [] (example_call [(''authorization'', ''Bearer guess'')]) Cache_invalidate) example_engine_rules
      = ((outcome, []), example_engine_rules) \<and> http_status (answered outcome) = 401"
  by (rule strangers_change_no_rule[of _ "CHR ''s''" "''3cret''"]) (simp_all add: example_rules_env_def example_call_def)

text \<open>
  A change that cannot be made is told as the client's: a name that is taken is answered 409 with the
  name, and a rule that does not exist 404, for deleting, enabling and disabling alike; neither
  touches the cached rules.
\<close>

theorem refused_changes_are_told:
  assumes key: "requireControlPlaneKey (rules_control env) req = Next None" and accepted: "create_schema env b = None"
  shows "(\<forall>e d'. run_state (query_rules (rules_db env) insert_rule_text (insert_rule_values randomUUID b)) (re_db st) = (Inl e, d') \<and> isUniqueViolation e \<longrightarrow>
      (\<exists>outcome. run_state (rules_router env now randomUUID req (Create_rule b)) st = ((outcome, []), st\<lparr>re_db := d'\<rparr>)
        \<and> http_status (answered outcome) = 409 \<and> outcome = Next (Some (ConflictError (name_taken (Some (cr_name b)))))))
    \<and> (\<forall>call statement message d'. (call, statement, message) \<in>
          {(Delete_rule rid, delete_rule (rules_db env) rid, ''Rule deleted: ''), (Enable_rule rid, setEnabled (rules_db env) rid True, ''Rule enabled: ''),
           (Disable_rule rid, setEnabled (rules_db env) rid False, ''Rule disabled: '')}
        \<and> run_state statement (re_db st) = (Inr False, d') \<longrightarrow>
      (\<exists>outcome. run_state (rules_router env now randomUUID req call) st = ((outcome, []), st\<lparr>re_db := d'\<rparr>)
        \<and> http_status (answered outcome) = 404))"
proof (intro conjI allI impI)
  fix e d'
  assume "run_state (query_rules (rules_db env) insert_rule_text (insert_rule_values randomUUID b)) (re_db st) = (Inl e, d') \<and> isUniqueViolation e"
  then show "\<exists>outcome. run_state (rules_router env now randomUUID req (Create_rule b)) st = ((outcome, []), st\<lparr>re_db := d'\<rparr>)
        \<and> http_status (answered outcome) = 409 \<and> outcome = Next (Some (ConflictError (name_taken (Some (cr_name b)))))"
    by (simp add: rules_router_def key validated_def validateRequest_def accepted forwarding_def create_rule_handler_def and_then_def
        create_rule_def conflict_or_same_def answered_def errorHandler_def json_def)
next
  fix call statement message d'
  assume "(call, statement, message) \<in>
          {(Delete_rule rid, delete_rule (rules_db env) rid, ''Rule deleted: ''), (Enable_rule rid, setEnabled (rules_db env) rid True, ''Rule enabled: ''),
           (Disable_rule rid, setEnabled (rules_db env) rid False, ''Rule disabled: '')}
        \<and> run_state statement (re_db st) = (Inr False, d')"
  then show "\<exists>outcome. run_state (rules_router env now randomUUID req call) st = ((outcome, []), st\<lparr>re_db := d'\<rparr>)
        \<and> http_status (answered outcome) = 404"
    by (elim conjE insertE emptyE)
      (simp_all add: rules_router_def key forwarding_def delete_rule_handler_def enable_rule_handler_def disable_rule_handler_def
        affecting_def missing_rule_def same_error_def answered_def errorHandler_def json_def)
qed


lemma refused_changes_are_told_witness:
  "\<exists>outcome d'. run_state (rules_router example_rules_env 5000 [] (example_call [(''x-api-key'', ''s3cret'')]) (Disable_rule ''none'')) example_engine_rules
      = ((outcome, []), example_engine_rules\<lparr>re_db := d'\<rparr>) \<and> http_status (answered outcome) = 404"
proof -
  have accepted: "create_schema example_rules_env b = None" for b by (simp add: example_rules_env_def)
  obtain d' where "run_state (setEnabled (rules_db example_rules_env) ''none'' False) (re_db example_engine_rules) = (Inr False, d')"
    by (simp add: setEnabled_def example_rules_env_def switch_db_def example_engine_rules_def example_rule_def affected_def)
  then have call: "(Disable_rule ''none'', setEnabled (rules_db example_rules_env) ''none'' False, ''Rule disabled: '') \<in>
          {(Delete_rule ''none'', delete_rule (rules_db example_rules_env) ''none'', ''Rule deleted: ''),
           (Enable_rule ''none'', setEnabled (rules_db example_rules_env) ''none'' True, ''Rule enabled: ''),
           (Disable_rule ''none'', setEnabled (rules_db example_rules_env) ''none'' False, ''Rule disabled: '')}
        \<and> run_state (setEnabled (rules_db example_rules_env) ''none'' False) (re_db example_engine_rules) = (Inr False, d')"
    by simp
  note told = refused_changes_are_told[where randomUUID = "[]" and now = 5000 and rid = "''none''" and st = example_engine_rules,
      OF example_key accepted, THEN conjunct2, rule_format, OF call]
  then show ?thesis by (elim exE conjE) (intro exI conjI)
qed

end
