(* ===== verification/Metric_Series.thy ===== *)
theory Metric_Series
  imports Tables Admission_Routes Rate_Limit_Routes Rules_Routes
begin

text \<open>
  What the service records over HTTP. Every update of every handler fits the registry of
  \<^verbatim>\<open>src/services/metrics.service.ts\<close>, so that \<^verbatim>\<open>prom-client\<close> does not throw in the middle of an answer;
  and the series of the admission handlers are bounded by the policies configured, as the comment on
  \<^verbatim>\<open>recordAdmission\<close> asks for, whatever tenants and models arrive in the requests.
\<close>

section \<open>Handlers that record only updates of a kind\<close>

definition records_only :: "(metric_event \<Rightarrow> bool) \<Rightarrow> ('s, 'a \<times> metric_event list) state \<Rightarrow> bool" where
  "records_only P m \<longleftrightarrow> (\<forall>s. list_all P (snd (fst (run_state m s))))"

named_theorems records

lemma records_run: "records_only P m \<Longrightarrow> run_state m s = ((r, es), s') \<Longrightarrow> list_all P es"
  unfolding records_only_def by (metis fst_conv snd_conv)

lemma records_unrecorded [records]: "records_only P (unrecorded m)"
  by (simp add: records_only_def split: prod.splits)

lemma records_recording [records]: "list_all P es \<Longrightarrow> records_only P (recording es a)"
  by (simp add: records_only_def)

lemma records_returned [records]: "list_all P es \<Longrightarrow> records_only P (State_Monad.return (r, es))"
  by (simp add: records_only_def)

lemma records_throw [records]: "records_only P (throw_recorded e)"
  by (simp add: records_only_def)

lemma records_and_then [records]:
  "records_only P m \<Longrightarrow> (\<And>a. records_only P (f a)) \<Longrightarrow> records_only P (and_then m f)"
  unfolding records_only_def and_then_def
  by (auto split: prod.splits sum.splits) (metis fst_conv snd_conv)+

lemma records_on_error [records]: "records_only P m \<Longrightarrow> list_all P es \<Longrightarrow> records_only P (on_error m es)"
  unfolding records_only_def on_error_def
  by (auto split: prod.splits sum.splits) (metis fst_conv snd_conv)+

lemma records_zoomed [records]:
  "records_only P m \<Longrightarrow> records_only P (on_engine m)" "records_only P m' \<Longrightarrow> records_only P (on_process m')"
  "records_only P m'' \<Longrightarrow> records_only P (on_redis m'')"
  by (auto simp: records_only_def split: prod.splits) (metis fst_conv snd_conv)+

lemma records_with_policy [records]: "(\<And>policy. records_only P (f policy)) \<Longrightarrow> records_only P (with_policy gw t0 t1 tenant model f)"
  by (simp add: records_only_def with_policy_def split: prod.splits)

lemma records_before [records]: "records_only P m \<Longrightarrow> records_only P (before outcome m)"
  by (simp add: records_only_def before_def)

lemma records_forwarding [records]: "records_only P m \<Longrightarrow> records_only P (forwarding translate m)"
  unfolding records_only_def forwarding_def
  by (auto split: prod.splits sum.splits) (metis fst_conv snd_conv)+

lemma records_guardState [records]:
  "records_only P m \<Longrightarrow> list_all P (recordDegraded surface mode) \<Longrightarrow> records_only P (guardState surface mode open_body m)"
  unfolding records_only_def guardState_def
  by (auto split: prod.splits sum.splits) (metis fst_conv snd_conv)+

section \<open>What the handlers record\<close>

text \<open>A predicate on updates that every recorder the handlers call keeps; those of the request log are not among them.\<close>

locale handler_updates =
  fixes P :: "metric_event \<Rightarrow> bool"
  assumes limiter: "list_all P (recordRequest algorithm ok)" "list_all P (recordCheckLatency algorithm)"
      "list_all P (recordRedisError operation)" "list_all P (recordRuleMatch rid rname)"
    and admission: "list_all P (recordAdmission scope outcome)" "list_all P (recordReservation scope i j)"
      "list_all P (recordLeaseReclaim scope i)" "list_all P (recordLateCommit scope)" "list_all P (recordOverrun scope i)"
      "list_all P (recordSettled scope)"
    and degraded: "list_all P (recordDegraded surface mode)"
begin

lemma limiter_records:
  "records_only P (limiter_check db js defaults sha1 client call looked now pid request overrides)"
  "records_only P (limiter_reset defaults sha1 client call' now pid k algorithm windowSeconds)"
  "records_only P (limiter_getStats defaults sha1 client call'' now pid k algorithm windowSeconds)"
  by (auto simp: limiter_check_def limiter_reset_def limiter_getStats_def resolveLimit_def limit_of_match_def limiter
      intro!: records split: sum.splits option.splits bool.splits)

lemma admission_records:
  "records_only P (reserve sha1 client call now rid request policy)"
  "records_only P (commit sha1 client call now request' policy)"
  "records_only P (release sha1 client call now tenant model rid policy)"
  "records_only P (snapshot sha1 client call now tenant model policy)"
  by (auto simp: reserve_def commit_def release_def snapshot_def Let_def admission_metrics_def commit_metrics_def admission
      intro!: records split: llm_reply.splits)

lemma data_plane_records:
  "records_only P (check_route dep schema looked now check_req)" "records_only P (reset_route dep schema' now key_req)"
  "records_only P (stats_route dep schema' now key_req)" "records_only P (reserve_route gw t0 t1 now rid reserve_req)"
  "records_only P (commit_route gw t0 t1 now commit_req)" "records_only P (release_route gw t0 t1 now release_req)"
  "records_only P (state_route gw t0 t1 now state_req)"
  by (auto simp: check_route_def check_handler_def reset_route_def stats_route_def reserve_route_def commit_route_def
      release_route_def state_route_def Let_def limiter_records admission_records degraded
      intro!: records split: option.splits sum.splits prod.splits)

lemma control_plane_records:
  "records_only P (rules_router env now rid req call)" "records_only P (policies_router gw now req policy_call)"
  by (cases call; auto simp: rules_router_def validated_def create_rule_handler_def list_rules_handler_def get_rule_handler_def update_rule_handler_def
      delete_rule_handler_def enable_rule_handler_def disable_rule_handler_def affecting_def cache_stats_handler_def cache_invalidate_handler_def Let_def
      records_only_def[of P "State f" for f] intro!: records)
    (cases policy_call; auto simp: policies_router_def validated_body_def list_policies_handler_def create_policy_handler_def update_policy_handler_def
      delete_policy_handler_def policy_cache_handler_def Let_def records_only_def[of P "State f" for f] intro!: records)

end

interpretation fitting: handler_updates registered
  by unfold_locales (simp_all add: recorded_fit)

text \<open>
  Every update a handler records is of a series the registry declares, of its kind and with exactly
  its labels, in every state and on every path, errors of Redis and of the database included.
\<close>

theorem recorded_metrics_are_registered:
  "records_only registered (check_route dep schema looked now check_req)
   \<and> records_only registered (reset_route dep schema' now key_req)
   \<and> records_only registered (stats_route dep schema' now key_req)
   \<and> records_only registered (reserve_route gw t0 t1 now rid reserve_req)
   \<and> records_only registered (commit_route gw t0 t1 now commit_req)
   \<and> records_only registered (release_route gw t0 t1 now release_req)
   \<and> records_only registered (state_route gw t0 t1 now state_req)
   \<and> list_all registered (requestLogger meth route_path baseUrl response)"
  by (simp add: fitting.data_plane_records requestLogger_def Let_def recorded_fit)

section \<open>The series of the admission handlers\<close>

text \<open>A series of a counter: its name and its labels.\<close>

fun series_of :: "metric_event \<Rightarrow> string \<times> labels" where
  "series_of (Inc name ls v) = (name, ls)"
| "series_of (Observe name ls) = (name, ls)"
| "series_of (SetGauge name ls v) = (name, ls)"

definition admission_outcomes :: "string list" where
  "admission_outcomes = [''admit'', [], ''tpm_exhausted'', ''rpm_exhausted'', ''queue_full'', ''slo_infeasible'', ''unsatisfiable'']"

definition scope_series :: "string \<Rightarrow> (string \<times> labels) list" where
  "scope_series scope =
     map (\<lambda>outcome. (''llm_admission_decisions_total'', [(''scope'', scope), (''outcome'', outcome)])) admission_outcomes @
     map (\<lambda>name. (name, [(''scope'', scope)]))
       [''llm_lease_reclaims_total'', ''llm_tokens_reserved_total'', ''llm_tokens_worst_case_total'',
        ''llm_late_commits_total'', ''llm_overrun_tokens_total'', ''llm_reservations_settled_total'']"

text \<open>All series of a deployment with these policies: thirteen for each scope and one for degraded answers.\<close>

definition gateway_series :: "string \<Rightarrow> string list \<Rightarrow> (string \<times> labels) list" where
  "gateway_series mode scopes =
     (''rate_limiter_degraded_responses_total'', [(''surface'', ''admission''), (''mode'', mode)]) #
     concat (map scope_series (''default'' # scopes))"

lemma gateway_series_length: "length (gateway_series mode scopes) = 13 * (length scopes + 1) + 1"
  by (induction scopes) (simp_all add: gateway_series_def scope_series_def admission_outcomes_def)

text \<open>The calls of the data plane, each at its readings of the clock, and a run of them in turn.\<close>

datatype llm_call =
    Reserve_call int int int string "AdmissionRequest http_request"
  | Commit_call int int int "CommitRequest http_request"
  | Release_call int int int "(string \<times> string \<times> string) http_request"

definition serve_llm :: "('d, 're, 's) gateway \<Rightarrow> llm_call \<Rightarrow> ('d, 're, 's) gateway_state served" where
  "serve_llm gw call =
     (case call of
        Reserve_call t0 t1 now rid req \<Rightarrow> reserve_route gw t0 t1 now rid req
      | Commit_call t0 t1 now req \<Rightarrow> commit_route gw t0 t1 now req
      | Release_call t0 t1 now req \<Rightarrow> release_route gw t0 t1 now req)"

primrec serve_calls :: "('d, 're, 's) gateway \<Rightarrow> llm_call list \<Rightarrow> (('d, 're, 's) gateway_state, metric_event list) state" where
  "serve_calls gw [] = State_Monad.return []"
| "serve_calls gw (call # calls) = do {
     (outcome, es) \<leftarrow> serve_llm gw call;
     es' \<leftarrow> serve_calls gw calls;
     State_Monad.return (es @ es')
   }"

definition row_scope :: "PolicyRow \<Rightarrow> string" where
  "row_scope row = pr_tenant_pattern row @ ''|'' @ pr_model_pattern row"

definition of_gateway :: "string \<Rightarrow> string list \<Rightarrow> metric_event \<Rightarrow> bool" where
  "of_gateway mode scopes e \<longleftrightarrow> series_of e \<in> set (gateway_series mode scopes)"

lemma scope_series_of_gateway:
  "scope \<in> set (''default'' # scopes) \<Longrightarrow> series_of e \<in> set (scope_series scope) \<Longrightarrow> of_gateway mode scopes e"
  by (auto simp: of_gateway_def gateway_series_def)

lemma service_series:
  assumes "scope \<in> set (''default'' # scopes)" "pol_scope policy = scope"
  shows "list_all (of_gateway mode scopes) (admission_metrics policy estimate raw)"
    and "list_all (of_gateway mode scopes) (commit_metrics policy raw')"
proof -
  note one = scope_series_of_gateway[OF assms(1), of _ mode]
  show "list_all (of_gateway mode scopes) (admission_metrics policy estimate raw)"
    unfolding list_all_iff using assms(2)
    by (auto intro!: one simp: admission_metrics_def record_defs scope_series_def admission_outcomes_def reason_text_def
        split: if_splits option.splits ShedReason.splits)
  show "list_all (of_gateway mode scopes) (commit_metrics policy raw')"
    unfolding list_all_iff using assms(2)
    by (auto intro!: one simp: commit_metrics_def record_defs scope_series_def split: if_splits)
qed

lemma degraded_series: "list_all (of_gateway mode scopes) (recordDegraded ''admission'' mode)"
  by (simp add: recordDegraded_def of_gateway_def gateway_series_def)

lemma admission_handlers_series:
  assumes "pol_scope policy \<in> set (''default'' # scopes)"
  shows "records_only (of_gateway mode scopes) (reserve sha1 client call now rid request policy)"
    "records_only (of_gateway mode scopes) (commit sha1 client call now request' policy)"
    "records_only (of_gateway mode scopes) (release sha1 client call now tenant model rid policy)"
  by (auto simp: reserve_def commit_def release_def Let_def service_series[OF assms refl]
      intro!: records split: llm_reply.splits)

interpretation scoped_policies:
  kept_by_resolver "\<lambda>row. row_scope row \<in> set scopes" "\<lambda>p. sp_tenantPattern p @ ''|'' @ sp_modelPattern p \<in> set scopes"
    "\<lambda>policy. pol_scope policy \<in> set (''default'' # scopes)"
  for scopes
  by unfold_locales (auto simp: row_scope_def toPolicy_def DEFAULT_POLICY_def policy_for_def)

text \<open>A handler that, from a state the resolver can reach, records only series of the deployment and leads to such a state.\<close>

definition reachable :: "('d, 're, 's) gateway \<Rightarrow> ('d, 're, 's) gateway_state \<Rightarrow> bool" where
  "reachable gw w \<longleftrightarrow> (\<exists>loads. resolver_runs (gw_db gw) (gw_js gw) (fst w) loads)"

definition stays_bounded :: "('d, 're, 's) gateway \<Rightarrow> string list \<Rightarrow> (('d, 're, 's) gateway_state, 'a \<times> metric_event list) state \<Rightarrow> bool" where
  "stays_bounded gw scopes m \<longleftrightarrow> (\<forall>w r es w'. reachable gw w \<longrightarrow> run_state m w = ((r, es), w') \<longrightarrow>
     list_all (of_gateway (failure_admission gw) scopes) es \<and> reachable gw w')"

lemma stays_before: "stays_bounded gw scopes m \<Longrightarrow> stays_bounded gw scopes (before outcome m)"
  by (auto simp: stays_bounded_def before_def)

lemma stays_then:
  assumes m: "stays_bounded gw scopes m" and more: "\<And>r. list_all (of_gateway (failure_admission gw) scopes) (g r)"
    and m': "\<And>w r es w'. run_state m w = ((r, es), w') \<Longrightarrow> run_state m' w = ((f r, es @ g r), w')"
  shows "stays_bounded gw scopes m'"
  unfolding stays_bounded_def
proof (intro allI impI)
  fix w r es w' assume reach: "reachable gw w" and run: "run_state m' w = ((r, es), w')"
  obtain r0 es0 w0 where inner: "run_state m w = ((r0, es0), w0)" by (metis prod.exhaust)
  then have "list_all (of_gateway (failure_admission gw) scopes) es0 \<and> reachable gw w0"
    using m reach unfolding stays_bounded_def by blast
  then show "list_all (of_gateway (failure_admission gw) scopes) es \<and> reachable gw w'"
    using more[of r0] run m'[OF inner] by auto
qed

lemma stays_forwarding: "stays_bounded gw scopes m \<Longrightarrow> stays_bounded gw scopes (forwarding translate m)"
  by (erule stays_then[where g = "\<lambda>_. []"]) (simp_all add: run_forwarding)

lemma stays_guardState: "stays_bounded gw scopes m \<Longrightarrow> stays_bounded gw scopes (guardState ''admission'' (failure_admission gw) open_body m)"
  by (erule stays_then[where
        f = "\<lambda>r. case r of Inr response \<Rightarrow> Reply response
          | Inl e \<Rightarrow> if isStateUnavailable e then Reply (degraded_response (failure_admission gw) open_body) else Next (Some e)"
        and g = "\<lambda>r. case r of Inl e \<Rightarrow> if isStateUnavailable e then recordDegraded ''admission'' (failure_admission gw) else [] | _ \<Rightarrow> []"])
    (auto simp: run_guardState degraded_series split: sum.splits)

lemma stays_with_policy:
  assumes tbl: "table_rows (\<lambda>row. row_scope row \<in> set scopes) (gw_db gw)"
    and inner: "\<And>policy. pol_scope policy \<in> set (''default'' # scopes) \<Longrightarrow>
      records_only (of_gateway (failure_admission gw) scopes) (m policy)"
  shows "stays_bounded gw scopes (with_policy gw t0 t1 tenant model (\<lambda>policy. and_then (on_redis (m policy)) (\<lambda>result. recording [] (answer result))))"
  unfolding stays_bounded_def
proof (intro allI impI)
  fix w r es w'
  assume "reachable gw w"
    and run: "run_state (with_policy gw t0 t1 tenant model (\<lambda>policy. and_then (on_redis (m policy)) (\<lambda>result. recording [] (answer result)))) w = ((r, es), w')"
  then obtain policy st' loads' where policy: "run_state (resolve (gw_db gw) (gw_js gw) t0 t1 tenant model) (fst w) = (policy, st')"
    and scope: "pol_scope policy \<in> set (''default'' # scopes)" and runs: "resolver_runs (gw_db gw) (gw_js gw) st' loads'"
    using scoped_policies.resolve_kept[OF _ tbl] unfolding reachable_def by blast
  obtain out es0 s' where inner_run: "run_state (m policy) (snd w) = ((out, es0), s')" by (metis prod.exhaust)
  then have "list_all (of_gateway (failure_admission gw) scopes) es0" using records_run[OF inner[OF scope]] by blast
  moreover have "es = es0 \<and> fst w' = st'"
    using run by (auto simp: run_with_policy[OF policy] and_then_def inner_run split: sum.splits)
  ultimately show "list_all (of_gateway (failure_admission gw) scopes) es \<and> reachable gw w'"
    using runs by (auto simp: reachable_def)
qed

lemma serve_llm_stays:
  assumes "table_rows (\<lambda>row. row_scope row \<in> set scopes) (gw_db gw)"
  shows "stays_bounded gw scopes (serve_llm gw call)"
  by (cases call)
    (auto simp: serve_llm_def reserve_route_def commit_route_def release_route_def
      intro!: stays_before stays_forwarding stays_guardState stays_with_policy[OF assms] admission_handlers_series split: prod.splits)

lemma serve_calls_bounded:
  assumes tbl: "table_rows (\<lambda>row. row_scope row \<in> set scopes) (gw_db gw)"
    and reach: "reachable gw w"
  shows "list_all (of_gateway (failure_admission gw) scopes) (fst (run_state (serve_calls gw calls) w))"
  using reach
proof (induction calls arbitrary: w)
  case (Cons call calls)
  obtain r es w' where run: "run_state (serve_llm gw call) w = ((r, es), w')" by (metis prod.exhaust)
  have "list_all (of_gateway (failure_admission gw) scopes) es \<and> reachable gw w'"
    using serve_llm_stays[OF tbl] Cons.prems run unfolding stays_bounded_def by blast
  then show ?case using Cons.IH[of w'] by (cases "run_state (serve_calls gw calls) w'") (simp add: run)
qed simp


text \<open>A gateway over a table of two scopes, which a reservation at the end of the resolver's half minute reads.\<close>

definition two_scopes_db :: "policy_list database" where
  "two_scopes_db = policy_list_db\<lparr>query_policies := (\<lambda>q vs. State (\<lambda>d.
     (Inr \<lparr>rows = filter (\<lambda>r. row_scope r \<in> {''*|*'', ''acme|*''}) (sort_key (\<lambda>r. - pr_priority r) (filter pr_enabled (fst d))), rowCount = None\<rparr>, d)))\<rparr>"

definition two_scopes_gateway :: "(policy_list, atom list, doc_server) gateway" where
  "two_scopes_gateway = example_gateway\<lparr>gw_db := two_scopes_db\<rparr>"

definition two_calls :: "llm_call list" where
  "two_calls = [Reserve_call 90000 90001 90002 ''r1'' (example_post example_ask), Reserve_call 90003 90003 90004 ''r2'' (example_post (example_ask\<lparr>ar_tenant := ''beta''\<rparr>))]"


end
