(* ===== verification/Token_Conservation.thy ===== *)
theory Token_Conservation
  imports Admission_Protocol
begin

text \<open>
  The token budget of one tenant and model over any run of the protocol. The potential of a
  ledger is its balance, with what has accrued since it was written, and the tokens held by
  leases. A reserve moves tokens from the balance to a hold, a sweep moves them back, a commit
  takes out what was used: nothing creates tokens but time.
\<close>

section \<open>Sums of holds\<close>

definition hsum :: "(string \<times> rat) list \<Rightarrow> rat" where
  "hsum h = sum_list (map snd h)"

lemma hsum_nonneg: "\<forall>e \<in> set h. whole_hold (snd e) \<Longrightarrow> 0 \<le> hsum h"
  unfolding hsum_def by (intro sum_list_nonneg) (auto simp: whole_hold_def)

lemma hsum_update_fresh: "k \<notin> fst ` set h \<Longrightarrow> hsum (AList.update k v h) = hsum h + v"
  by (induction h) (auto simp: hsum_def)

lemma hsum_delete:
  "distinct (map fst h) \<Longrightarrow> map_of h k = Some v \<Longrightarrow> hsum h = v + hsum (filter (\<lambda>e. fst e \<noteq> k) h)"
proof (induction h)
  case (Cons e h)
  show ?case
  proof (cases "fst e = k")
    case True
    then have "k \<notin> fst ` set h" using Cons.prems(1) by auto
    then have "filter (\<lambda>e. fst e \<noteq> k) h = h" by (intro filter_True) auto
    then show ?thesis using True Cons.prems(2) by (cases e) (simp add: hsum_def)
  next
    case False
    then show ?thesis using Cons by (cases e) (simp add: hsum_def)
  qed
qed simp

lemma whole_hold_dbl: "whole_hold v \<Longrightarrow> dbl v = v"
  by (auto simp: whole_hold_def)

text \<open>What a sweep takes out of the table is exactly what it returns to the balance.\<close>

lemma reclaim_sum_exact:
  assumes "distinct (map fst h)" "\<forall>e \<in> set h. whole_hold (snd e)"
    and "t = of_int k" "0 \<le> k" "k + 2 ^ 31 * int (length ms) \<le> 2 ^ 53"
  shows "reclaim_sum h ms t + hsum (filter (\<lambda>e. fst e \<notin> set ms) h) = t + hsum h"
    and "0 \<le> reclaim_sum h ms t"
proof -
  have "reclaim_sum h ms t + hsum (filter (\<lambda>e. fst e \<notin> set ms) h) = t + hsum h \<and> 0 \<le> reclaim_sum h ms t"
    using assms
  proof (induction ms arbitrary: h t k)
    case Nil
    then show ?case by (simp add: hsum_def)
  next
    case (Cons m ms)
    let ?h = "filter (\<lambda>e. fst e \<noteq> m) h"
    have h: "distinct (map fst ?h)" "\<forall>e \<in> set ?h. whole_hold (snd e)"
      using Cons.prems(1,2) by (auto simp: distinct_map_filter)
    have split: "filter (\<lambda>e. fst e \<notin> set (m # ms)) h = filter (\<lambda>e. fst e \<notin> set ms) ?h"
      by (simp add: filter_filter_conj conj_commute)
    show ?case
    proof (cases "map_of h m")
      case None
      then have "?h = h" by (force simp: filter_id_conv map_of_eq_None_iff)
      then show ?thesis unfolding split
        using Cons.IH[OF h Cons.prems(3,4)] Cons.prems(5) None by (simp add: delete_filter)
    next
      case (Some v)
      then have "whole_hold v" using Cons.prems(2) map_of_SomeD by fastforce
      then obtain i where i: "v = of_int i" "0 \<le> i" "i \<le> 2 ^ 31" by (auto simp: whole_hold_def)
      have b: "k + i + 2 ^ 31 * int (length ms) \<le> 2 ^ 53" using Cons.prems(5) i(3) by simp
      then have "\<bar>k + i\<bar> \<le> 2 ^ 53" using Cons.prems(4) i(2) by simp
      then have add: "fadd t (dbl v) = of_int (k + i)"
        unfolding Cons.prems(3) using i by (simp del: of_int_add)
      have "reclaim_sum ?h ms (of_int (k + i)) + hsum (filter (\<lambda>e. fst e \<notin> set ms) ?h) = of_int (k + i) + hsum ?h
          \<and> 0 \<le> reclaim_sum ?h ms (of_int (k + i))"
        using Cons.prems(4) i(2) b by (intro Cons.IH[OF h refl]) auto
      moreover have "reclaim_sum h (m # ms) t = reclaim_sum ?h ms (of_int (k + i))"
        by (simp add: Some add delete_filter del: of_int_add)
      ultimately show ?thesis unfolding split
        using hsum_delete[OF Cons.prems(1) Some] Cons.prems(3) i(1) by simp
    qed
  qed
  then show "reclaim_sum h ms t + hsum (filter (\<lambda>e. fst e \<notin> set ms) h) = t + hsum h" "0 \<le> reclaim_sum h ms t"
    by auto
qed

section \<open>What accrues\<close>

abbreviation per_second :: "int \<Rightarrow> rat" where
  "per_second lmt \<equiv> fdiv (of_int lmt) 60"

definition accrued :: "int \<Rightarrow> int \<Rightarrow> int \<Rightarrow> rat" where
  "accrued lmt since now = of_int lmt / 60 * (of_int (now - since) / 1000) * (1 + 1 / 10 ^ 15)"

lemma accrued_add: "accrued lmt a b + accrued lmt b c = accrued lmt a c"
  by (simp add: accrued_def field_simps)

lemma accrued_nonneg: "0 \<le> lmt \<Longrightarrow> a \<le> b \<Longrightarrow> 0 \<le> accrued lmt a b"
  by (simp add: accrued_def)

text \<open>Two minutes refill twice the budget.\<close>

lemma accrued_two_minutes:
  assumes "0 \<le> lmt" "120000 \<le> b - a" shows "2 * of_int lmt \<le> accrued lmt a b"
proof -
  have "of_int 120000 \<le> (of_int (b - a) :: rat)" using assms(2) by (simp only: of_int_le_iff)
  then have t: "120 \<le> (of_int (b - a) / 1000 :: rat)" by simp
  have "2 * of_int lmt = of_int lmt / 60 * 120 * (1 :: rat)" by simp
  also have "\<dots> \<le> of_int lmt / 60 * (of_int (b - a) / 1000) * (1 + 1 / 10 ^ 15)"
    using assms(1) t by (intro mult_mono mult_left_mono) auto
  finally show ?thesis by (simp add: accrued_def)
qed

lemma level_upper:
  assumes clk: "clock_ok ts" "clock_ok now" "ts \<le> now" and l: "0 \<le> lmt" "lmt \<le> 2 ^ 31"
    and b: "- of_int lmt \<le> b" "b \<le> of_int lmt"
  shows "accrue (dbl b) (of_int ts) now (per_second lmt) (of_int lmt) \<le> b + accrued lmt ts now + of_int lmt * (3 * ulp53)"
    and "- of_int lmt \<le> accrue (dbl b) (of_int ts) now (per_second lmt) (of_int lmt)"
proof -
  let ?t = "of_int (now - ts) / 1000 :: rat" and ?r = "of_int lmt / 60 :: rat" and ?e = "elapsed_s now (of_int ts)"
  have t: "0 \<le> ?t" "0 \<le> ?r" "0 \<le> per_second lmt" using clk l by (auto intro: fdiv_nonneg)
  have e: "?e \<le> ?t * (1 + ulp53)" "0 \<le> ?e"
    unfolding elapsed_s_between[OF clk] by (rule dbl_le[OF t(1)], rule dbl_nonneg[OF t(1)])
  have r: "per_second lmt \<le> ?r * (1 + ulp53)" using t(2) by (intro fdiv_le) simp
  have "fmul ?e (per_second lmt) \<le> ?e * per_second lmt * (1 + ulp53)"
    unfolding fmul_def using e t by (intro dbl_le mult_nonneg_nonneg)
  also have "\<dots> \<le> ?t * (1 + ulp53) * (?r * (1 + ulp53)) * (1 + ulp53)"
    using e r t by (intro mult_right_mono mult_mono) auto
  also have "\<dots> = ?r * ?t * (1 + ulp53) ^ 3" by (simp add: power3_eq_cube)
  also have "\<dots> \<le> accrued lmt ts now"
    unfolding accrued_def using t by (intro mult_left_mono ulp53_cubed) auto
  finally have x: "fmul ?e (per_second lmt) \<le> accrued lmt ts now" .
  have x0: "0 \<le> fmul ?e (per_second lmt)" using e t by (intro fmul_nonneg) auto
  have m: "\<bar>lmt\<bar> \<le> 2 ^ 53" using l by simp
  have bl: "of_int (- lmt) \<le> dbl b" using b m by (intro int_le_dbl) auto
  have bu: "dbl b \<le> b + of_int lmt * ulp53" using b by (intro dbl_upto) auto
  have y: "- of_int lmt \<le> dbl b + fmul ?e (per_second lmt)" using bl x0 by simp
  show "- of_int lmt \<le> accrue (dbl b) (of_int ts) now (per_second lmt) (of_int lmt)"
    unfolding accrue_def fadd_def by (rule capped_ge[OF m l(1) y])
  have "accrue (dbl b) (of_int ts) now (per_second lmt) (of_int lmt)
      \<le> dbl b + fmul ?e (per_second lmt) + 2 * of_int lmt * ulp53"
    unfolding accrue_def fadd_def using l by (intro capped_le y) simp
  then show "accrue (dbl b) (of_int ts) now (per_second lmt) (of_int lmt) \<le> b + accrued lmt ts now + of_int lmt * (3 * ulp53)"
    using bu x by simp
qed

section \<open>The potential of a ledger\<close>

type_synonym budget_state = "keyspace \<times> int" \<comment> \<open>with the gateway's time of the last call\<close>

definition balance_potential :: "string \<Rightarrow> int \<Rightarrow> budget_state \<Rightarrow> rat" where
  "balance_potential n lmt st =
     (case str_at (fst st) (n @ '':tpm'') of
        None \<Rightarrow> of_int lmt
      | Some b \<Rightarrow> b + (case str_at (fst st) (n @ '':tpm:ts'') of
                        Some ts \<Rightarrow> accrued lmt \<lfloor>ts\<rfloor> (snd st) | None \<Rightarrow> 0))"

definition potential :: "string \<Rightarrow> int \<Rightarrow> budget_state \<Rightarrow> rat" where
  "potential n lmt st = balance_potential n lmt st + hsum (held (ledger_at n (fst st)))"

text \<open>
  The stored balance is within one minute's budget of zero on either side, and its keys live
  at least two minutes from the write.
\<close>

definition balance_ok :: "string \<Rightarrow> int \<Rightarrow> budget_state \<Rightarrow> bool" where
  "balance_ok n lmt st \<longleftrightarrow>
     (case str_at (fst st) (n @ '':tpm'') of
        None \<Rightarrow> True
      | Some b \<Rightarrow> - of_int lmt \<le> b \<and> b \<le> of_int lmt \<and>
          (\<exists>ts t. str_at (fst st) (n @ '':tpm:ts'') = Some (of_int ts) \<and> clock_ok ts \<and> ts \<le> snd st \<and>
             ttl_at (fst st) (n @ '':tpm'') = Some t \<and> ttl_at (fst st) (n @ '':tpm:ts'') = Some t \<and>
             120000 - (snd st - ts) \<le> t))"

definition budget_inv :: "string \<Rightarrow> int \<Rightarrow> int \<Rightarrow> budget_state \<Rightarrow> bool" where
  "budget_inv n cap lmt st \<longleftrightarrow>
     1 \<le> lmt \<and> lmt \<le> 2 ^ 31 \<and> clock_ok (snd st) \<and> lease_inv n cap (fst st) \<and> balance_ok n lmt st"

text \<open>Time passing, with the expiries it brings, never raises the potential above what accrues.\<close>

lemma balance_expire:
  assumes ok: "balance_ok n lmt (ks, prev)" and l: "0 \<le> lmt"
    and t: "prev \<le> now" "clock_ok now" "int d \<le> now - prev"
  shows "balance_ok n lmt (expire_after d ks, now)"
    and "balance_potential n lmt (expire_after d ks, now) \<le> balance_potential n lmt (ks, prev) + accrued lmt prev now"
proof -
  let ?b = "n @ '':tpm''" and ?s = "n @ '':tpm:ts''"
  have "balance_ok n lmt (expire_after d ks, now) \<and>
    balance_potential n lmt (expire_after d ks, now) \<le> balance_potential n lmt (ks, prev) + accrued lmt prev now"
  proof (cases "str_at ks ?b")
    case None
    then show ?thesis using accrued_nonneg[OF l t(1)]
      by (auto simp: balance_ok_def balance_potential_def split: option.splits)
  next
    case (Some b)
    then obtain ts u where ts: "str_at ks ?s = Some (of_int ts)" "clock_ok ts" "ts \<le> prev"
        "ttl_at ks ?b = Some u" "ttl_at ks ?s = Some u" "120000 - (prev - ts) \<le> u"
        and b: "- of_int lmt \<le> b" "b \<le> of_int lmt"
      using ok by (auto simp: balance_ok_def)
    have acc: "balance_potential n lmt (ks, prev) + accrued lmt prev now = b + accrued lmt ts now"
      using Some ts(1) accrued_add[of lmt ts prev now] by (simp add: balance_potential_def)
    show ?thesis
    proof (cases "u \<le> int d")
      case True
      then have "2 * of_int lmt \<le> accrued lmt ts now" using ts(6) t by (intro accrued_two_minutes l) auto
      then show ?thesis using True Some ts b acc
        by (simp add: balance_ok_def balance_potential_def)
    next
      case False
      then have "ttl_at (expire_after d ks) ?b = Some (u - int d)" "ttl_at (expire_after d ks) ?s = Some (u - int d)"
        using ts(4,5) by (auto simp: ttl_at_def expire_after_def split: option.splits)
      then show ?thesis using False Some ts b acc t
        by (simp add: balance_ok_def balance_potential_def)
    qed
  qed
  then show "balance_ok n lmt (expire_after d ks, now)"
    "balance_potential n lmt (expire_after d ks, now) \<le> balance_potential n lmt (ks, prev) + accrued lmt prev now"
    by auto
qed

text \<open>The level a call reads is within the limit, and above the potential by rounding only.\<close>

lemma level_found:
  assumes ok: "balance_ok n lmt (ks, now)" and l: "0 \<le> lmt" "lmt \<le> 2 ^ 31" and now: "clock_ok now"
  defines "lev \<equiv> level (tpm (ledger_at n ks)) (tpmTs (ledger_at n ks)) (of_int lmt) (per_second lmt) now"
  shows "lev \<le> balance_potential n lmt (ks, now) + of_int lmt * (3 * ulp53)"
    and "- of_int lmt \<le> lev" and "lev \<le> of_int lmt"
proof -
  have "lev \<le> balance_potential n lmt (ks, now) + of_int lmt * (3 * ulp53) \<and> - of_int lmt \<le> lev \<and> lev \<le> of_int lmt"
  proof (cases "str_at ks (n @ '':tpm'')")
    case None
    then show ?thesis using l by (simp add: lev_def level_def ledger_at_def balance_potential_def)
  next
    case (Some b)
    then obtain ts where ts: "str_at ks (n @ '':tpm:ts'') = Some (of_int ts)" "clock_ok ts" "ts \<le> now"
        and b: "- of_int lmt \<le> b" "b \<le> of_int lmt"
      using ok by (auto simp: balance_ok_def)
    have "lev = accrue (dbl b) (of_int ts) now (per_second lmt) (of_int lmt)"
      using Some ts(1,2) by (simp add: lev_def level_def ledger_at_def clock_ok_def)
    then show ?thesis using level_upper[OF ts(2) now ts(3) l b] Some ts(1)
      by (simp add: balance_potential_def accrue_le_capacity)
  qed
  then show "lev \<le> balance_potential n lmt (ks, now) + of_int lmt * (3 * ulp53)" "- of_int lmt \<le> lev" "lev \<le> of_int lmt"
    by auto
qed

section \<open>Each call\<close>

lemma stored_range:
  assumes x: "- of_int lmt \<le> x" "x \<le> of_int lmt" and l: "0 \<le> lmt" "lmt \<le> 2 ^ 31"
  shows "- of_int lmt \<le> tostring x" and "tostring x \<le> of_int lmt" and "tostring x \<le> x + of_int lmt * ulp14"
proof -
  have m: "\<bar>lmt\<bar> \<le> 10 ^ 14" using l by simp
  have "- x \<le> of_int lmt" using x by simp
  then have "tostring (- x) \<le> of_int lmt" using m by (rule tostring_le_int)
  then show "- of_int lmt \<le> tostring x" by (simp add: tostring_def)
  show "tostring x \<le> of_int lmt" by (rule tostring_le_int[OF x(2) m])
  show "tostring x \<le> x + of_int lmt * ulp14" using x by (intro tostring_upto) auto
qed

lemma length_sweep: "length (sweep now batch L) \<le> batch"
  by (simp add: sweep_def)

lemma tokens_found_bounds:
  assumes inv: "budget_inv n cap lmt (ks, now)" and a: "a_now a = now" "a_tpm_limit a = lmt"
      "a_tpm_rate a = per_second lmt" "a_reclaim_batch a \<le> 2 ^ 20"
  defines "L \<equiv> ledger_at n ks"
  shows "tokens_found a L + hsum (held (swept a L)) \<le> potential n lmt (ks, now) + of_int lmt * (5 * ulp53)"
    and "- of_int lmt \<le> tokens_found a L" and "tokens_found a L \<le> of_int lmt"
proof -
  let ?ids = "sweep (a_now a) (a_reclaim_batch a) L"
  let ?lev = "level (tpm L) (tpmTs L) (of_int lmt) (per_second lmt) now" and ?R = "reclaim_sum (held L) ?ids 0"
  have l: "0 \<le> lmt" "lmt \<le> 2 ^ 31" "clock_ok now" and ok: "balance_ok n lmt (ks, now)"
    and m: "distinct (map fst (held L))" "\<forall>e \<in> set (held L). whole_hold (snd e)"
    using inv by (auto simp: budget_inv_def lease_inv_def matched_def L_def)
  note lev = level_found[OF ok l, folded L_def]
  have "(2::int) ^ 31 * int (length ?ids) \<le> 2 ^ 31 * 2 ^ 20"
    using a(4) length_sweep[of "a_now a" "a_reclaim_batch a" L] by (intro mult_left_mono) auto
  then have small: "0 + 2 ^ 31 * int (length ?ids) \<le> (2::int) ^ 53" by simp
  note R = reclaim_sum_exact[OF m, of 0 0 ?ids, OF _ _ small]
  have y: "- of_int lmt \<le> ?lev + ?R" using lev(2) R(2) by simp
  have tf: "tokens_found a L = min (dbl (?lev + ?R)) (of_int lmt)"
    by (simp add: tokens_found_def a fadd_def)
  show "- of_int lmt \<le> tokens_found a L" unfolding tf using l by (intro capped_ge y) auto
  show "tokens_found a L \<le> of_int lmt" by (simp add: tf)
  have "tokens_found a L \<le> ?lev + ?R + 2 * of_int lmt * ulp53"
    unfolding tf using l(1) by (intro capped_le y) simp
  moreover have "held (swept a L) = filter (\<lambda>e. fst e \<notin> set ?ids) (held L)"
    by (simp add: swept_def without_def)
  ultimately show "tokens_found a L + hsum (held (swept a L)) \<le> potential n lmt (ks, now) + of_int lmt * (5 * ulp53)"
    using lev(1) R(1) by (simp add: potential_def L_def)
qed

text \<open>The balance an admission leaves, next to what is then held.\<close>

lemma admitted_balance:
  fixes lmt :: int
  assumes inv: "budget_inv n cap lmt (ks, now)" and a: "a_now a = now" "a_tpm_limit a = lmt"
      "a_tpm_rate a = per_second lmt" "a_reclaim_batch a \<le> 2 ^ 20" "0 \<le> a_reserve a"
      "a_rid a \<notin> fst ` set (held (ledger_at n ks))"
    and v: "verdict a (ledger_at n ks) = (reason, w)"
  defines "L \<equiv> ledger_at n ks"
  defines "x \<equiv> if reason = None then fsub (tokens_found a L) (of_int (a_reserve a)) else tokens_found a L"
  shows "- of_int lmt \<le> x" and "x \<le> of_int lmt"
    and "x + hsum (held (snd (ledger_admit a L))) \<le> tokens_found a L + hsum (held (swept a L)) + of_int lmt * ulp53"
proof -
  have l: "0 \<le> lmt" "lmt \<le> 2 ^ 31" using inv by (auto simp: budget_inv_def)
  note tf = tokens_found_bounds[OF inv a(1-4), folded L_def]
  note v = v[folded L_def]
  have "- of_int lmt \<le> x \<and> x \<le> of_int lmt \<and>
    x + hsum (held (snd (ledger_admit a L))) \<le> tokens_found a L + hsum (held (swept a L)) + of_int lmt * ulp53"
  proof (cases reason)
    case None
    let ?y = "tokens_found a L - of_int (a_reserve a)"
    have y: "0 \<le> ?y" "?y \<le> of_int lmt"
      using admission_verdict_admits(3)[OF v[unfolded verdict_def None]] tf(3) a(5) by auto
    have "0 \<le> dbl ?y" "dbl ?y \<le> of_int lmt" using y l by (auto intro!: dbl_nonneg dbl_le_int)
    moreover have "dbl ?y \<le> ?y + of_int lmt * ulp53" using y by (intro dbl_upto) auto
    moreover have "a_rid a \<notin> fst ` set (held (swept a L))"
      using a(6) held_without[of "sweep (a_now a) (a_reclaim_batch a) L" L] by (auto simp: swept_def L_def)
    then have "hsum (held (snd (ledger_admit a L))) = hsum (held (swept a L)) + of_int (a_reserve a)"
      by (simp add: ledger_admit_admits[OF v[unfolded None]] hsum_update_fresh)
    ultimately show ?thesis using None l(1) by (simp add: x_def fsub_def)
  next
    case (Some reason')
    have "held (snd (ledger_admit a L)) = held (swept a L)" by (simp add: ledger_admit_sheds[OF v[unfolded Some]])
    then show ?thesis using Some tf(2,3) l(1) by (simp add: x_def)
  qed
  then show "- of_int lmt \<le> x" "x \<le> of_int lmt"
    "x + hsum (held (snd (ledger_admit a L))) \<le> tokens_found a L + hsum (held (swept a L)) + of_int lmt * ulp53" by auto
qed

lemma admit_step:
  assumes inv: "budget_inv n cap lmt (ks, now)" and a: "a_now a = now" "a_tpm_limit a = lmt"
      "a_tpm_rate a = per_second lmt" "a_reclaim_batch a \<le> 2 ^ 20" "120 \<le> a_ttl a" "0 \<le> a_reserve a"
      "a_rid a \<notin> fst ` set (held (ledger_at n ks))"
    and run: "run_state (admit_script doc_call (keys_in n) a) ks = (r, ks')"
  shows "balance_ok n lmt (ks', now)"
    and "potential n lmt (ks', now) \<le> potential n lmt (ks, now) + of_int lmt * (6 * ulp53 + ulp14)"
proof -
  let ?L = "ledger_at n ks" and ?L' = "ledger_at n ks'"
  have l: "0 \<le> lmt" "lmt \<le> 2 ^ 31" "clock_ok now" using inv by (auto simp: budget_inv_def)
  have L': "?L' = snd (ledger_admit a ?L)" using admit_script_doc[of a n ks] a(5) run by auto
  note tf = tokens_found_bounds[OF inv a(1-4)]
  obtain reason w where v: "verdict a ?L = (reason, w)" by (cases "verdict a ?L")
  let ?x = "if reason = None then fsub (tokens_found a ?L) (of_int (a_reserve a)) else tokens_found a ?L"
  note x = admitted_balance[OF inv a(1-4,6,7) v, folded L']
  note st = stored_range[OF x(1,2) l(1,2)]
  have tpm: "str_at ks' (n @ '':tpm'') = Some (tostring ?x)" "str_at ks' (n @ '':tpm:ts'') = Some (of_int now)"
  proof -
    have "tpm ?L' = Some (tostring ?x)" "tpmTs ?L' = Some (tostring (of_int now))"
      unfolding L' using v by (cases reason; simp add: ledger_admit_admits ledger_admit_sheds a(1))+
    then show "str_at ks' (n @ '':tpm'') = Some (tostring ?x)" "str_at ks' (n @ '':tpm:ts'') = Some (of_int now)"
      using l(3) by (simp_all add: ledger_at_def clock_ok_def)
  qed
  have lives: "ttl_at ks' (n @ '':tpm'') = Some (1000 * a_ttl a)" "ttl_at ks' (n @ '':tpm:ts'') = Some (1000 * a_ttl a)"
    using admit_script_lives(1)[OF run] a(5) by auto
  show "balance_ok n lmt (ks', now)" using st tpm lives l(3) a(5) by (simp add: balance_ok_def)
  have "potential n lmt (ks', now) = tostring ?x + hsum (held ?L')"
    using tpm by (simp add: potential_def balance_potential_def accrued_def)
  then show "potential n lmt (ks', now) \<le> potential n lmt (ks, now) + of_int lmt * (6 * ulp53 + ulp14)"
    using st(3) x(3) tf(1) by (simp add: distrib_left)
qed

text \<open>What a commit does to the account: the hold it gives up, less what was used.\<close>

definition hold_of :: "ledger \<Rightarrow> string \<Rightarrow> rat" where
  "hold_of L rid = (case map_of (held L) rid of Some v \<Rightarrow> v | None \<Rightarrow> 0)"

lemma hold_of_whole:
  assumes "\<forall>e \<in> set (held L). whole_hold (snd e)"
  shows "whole_hold (hold_of L rid)"
  using assms map_of_SomeD[of "held L" rid] by (fastforce simp: hold_of_def whole_hold_def split: option.splits)

lemma hold_of_released:
  assumes "distinct (map fst (held L))"
  shows "hsum (held L) = hold_of L rid + hsum (held (if map_of (held L) rid = None then L else without [rid] L))"
  using hsum_delete[OF assms, of rid] by (auto simp: hold_of_def without_def split: option.splits)

definition debt_ok :: "int \<Rightarrow> commit_args \<Rightarrow> ledger \<Rightarrow> bool" where
  "debt_ok lmt c L \<longleftrightarrow> settled L (c_rid c) \<noteq> None \<or>
     - of_int lmt \<le> level (tpm L) (tpmTs L) (of_int lmt) (per_second lmt) (c_now c)
                    + hold_of L (c_rid c) - of_int (c_actual c)"

definition settle_charge :: "commit_args \<Rightarrow> ledger \<Rightarrow> rat" where
  "settle_charge c L = (if settled L (c_rid c) = None then of_int (c_actual c) else 0)"

text \<open>A hold is read, and what is left of it after the tokens used computed, without rounding.\<close>

lemma refund_exact:
  assumes whole: "\<forall>e \<in> set (held L). whole_hold (snd e)" and used: "0 \<le> used" "used \<le> 2 ^ 31"
  shows "fsub (hold_of L rid) (of_int used) = hold_of L rid - of_int used"
proof -
  obtain h where h: "hold_of L rid = of_int h" "0 \<le> h" "h \<le> 2 ^ 31"
    using hold_of_whole[OF whole, of rid] by (auto simp: whole_hold_def)
  have "\<bar>h - used\<bar> \<le> 2 ^ 31" using h(2,3) used by linarith
  then have "\<bar>h - used\<bar> \<le> 2 ^ 53" by (rule order_trans) simp
  then show ?thesis unfolding h(1) by simp
qed

lemma hold_read_exact:
  assumes whole: "\<forall>e \<in> set (held L). whole_hold (snd e)"
  shows "(case map_of (held L) rid of Some v \<Rightarrow> dbl v | None \<Rightarrow> 0) = hold_of L rid"
  using whole_hold_dbl[OF hold_of_whole[OF whole, of rid]] by (cases "map_of (held L) rid") (simp_all add: hold_of_def)

lemma commit_step:
  assumes inv: "budget_inv n cap lmt (ks, now)" and c: "c_now c = now" "c_tpm_limit c = lmt" "120 \<le> c_ttl c"
      "0 < c_idem_ttl c" "0 \<le> c_actual c" "c_actual c \<le> 2 ^ 31"
    and debt: "debt_ok lmt c (ledger_at n ks)"
    and run: "run_state (commit_script doc_call (keys_in n) (settled_in n (c_rid c)) c) ks = (r, ks')"
  shows "balance_ok n lmt (ks', now)"
    and "settle_charge c (ledger_at n ks) + potential n lmt (ks', now)
           \<le> potential n lmt (ks, now) + of_int lmt * (6 * ulp53 + ulp14)"
proof -
  let ?L = "ledger_at n ks" and ?L' = "ledger_at n ks'"
  have l: "0 \<le> lmt" "lmt \<le> 2 ^ 31" "clock_ok now" and ok: "balance_ok n lmt (ks, now)"
    and m: "distinct (map fst (held ?L))" "\<forall>e \<in> set (held ?L). whole_hold (snd e)"
    using inv by (auto simp: budget_inv_def lease_inv_def matched_def)
  have c0: "0 < c_ttl c" using c(3) by simp
  note doc = commit_script_doc[OF c0 c(4), of n ks, unfolded run]
  have pos: "0 \<le> of_int lmt * (6 * ulp53 + ulp14 :: rat)" using l(1) by simp
  have "balance_ok n lmt (ks', now) \<and> settle_charge c ?L + potential n lmt (ks', now)
           \<le> potential n lmt (ks, now) + of_int lmt * (6 * ulp53 + ulp14)"
  proof (cases "settled ?L (c_rid c)")
    case (Some r)
    then have "ks' = ks" using doc by auto
    then show ?thesis using Some ok pos by (simp add: settle_charge_def)
  next
    case None
    let ?h = "hold_of ?L (c_rid c)"
    let ?lev = "level (tpm ?L) (tpmTs ?L) (of_int lmt) (per_second lmt) now"
    let ?y = "?lev + (?h - of_int (c_actual c))"
    let ?x = "min (dbl ?y) (of_int lmt)"
    note lev = level_found[OF ok l]
    note refund = refund_exact[OF m(2) c(5,6)] and dblh = hold_read_exact[OF m(2), of "c_rid c"]
    have y: "- of_int lmt \<le> ?y" using debt None by (simp add: debt_ok_def c(1))
    have lm: "\<bar>lmt\<bar> \<le> 2 ^ 53" using l by simp
    have x: "- of_int lmt \<le> ?x" "?x \<le> of_int lmt" by (rule capped_ge[OF lm l(1) y]) simp
    have xu: "?x \<le> ?y + 2 * of_int lmt * ulp53" using l(1) by (intro capped_le y) simp
    note st = stored_range[OF x l(1,2)]
    have L': "?L' = snd (ledger_commit c ?L)" using doc by auto
    have "tpm ?L' = Some (tostring ?x)" "tpmTs ?L' = Some (tostring (of_int now))"
      unfolding L' by (simp_all add: ledger_commit_def None Let_def dblh refund c(1,2) fadd_def)
    then have tpm: "str_at ks' (n @ '':tpm'') = Some (tostring ?x)" "str_at ks' (n @ '':tpm:ts'') = Some (of_int now)"
      using l(3) by (simp_all add: ledger_at_def clock_ok_def)
    have lives: "ttl_at ks' (n @ '':tpm'') = Some (1000 * c_ttl c)" "ttl_at ks' (n @ '':tpm:ts'') = Some (1000 * c_ttl c)"
      using doc None by auto
    have "balance_ok n lmt (ks', now)" using st tpm lives l(3) c(3) by (simp add: balance_ok_def)
    moreover have "hsum (held ?L) = ?h + hsum (held ?L')"
    proof -
      have "held ?L' = held (if map_of (held ?L) (c_rid c) = None then ?L else without [c_rid c] ?L)"
        unfolding L' ledger_commit_held by (auto simp: None)
      then show ?thesis by (simp only: hold_of_released[OF m(1), of "c_rid c", symmetric])
    qed
    moreover have "potential n lmt (ks', now) = tostring ?x + hsum (held ?L')"
      using tpm by (simp add: potential_def balance_potential_def accrued_def)
    ultimately show ?thesis
      using st(3) xu lev(1) None l(1) by (simp add: settle_charge_def potential_def distrib_left)
  qed
  then show "balance_ok n lmt (ks', now)" "settle_charge c (ledger_at n ks) + potential n lmt (ks', now)
           \<le> potential n lmt (ks, now) + of_int lmt * (6 * ulp53 + ulp14)" by auto
qed

section \<open>Runs\<close>

text \<open>
  The calls of a run: made by the gateway from one policy at times that do not step back,
  with the server's clock no faster than the gateway's, and no commit that takes the
  balance more than a minute's budget below zero.
\<close>

definition budget_guard :: "string \<Rightarrow> int \<Rightarrow> int \<Rightarrow> timed_op \<Rightarrow> budget_state \<Rightarrow> bool" where
  "budget_guard n cap lmt e st \<longleftrightarrow>
     (case (e, st) of ((d, op), (ks, prev)) \<Rightarrow>
        lease_guard n cap e ks \<and> prev \<le> op_now op \<and> clock_ok (op_now op) \<and> int d \<le> op_now op - prev \<and>
        (case op of
           Admit a \<Rightarrow> a_tpm_limit a = lmt \<and> a_tpm_rate a = per_second lmt \<and>
             a_reclaim_batch a \<le> 2 ^ 20 \<and> 120 \<le> a_ttl a
         | Commit c \<Rightarrow> c_tpm_limit c = lmt \<and> 120 \<le> c_ttl c \<and> 0 \<le> c_actual c \<and> c_actual c \<le> 2 ^ 31 \<and>
             debt_ok lmt c (ledger_at n (expire_after d ks))))"

definition budget_step :: "string \<Rightarrow> timed_op \<Rightarrow> budget_state \<Rightarrow> budget_state" where
  "budget_step n e st = (llm_step n e (fst st), op_now (snd e))"

definition budget_charge :: "string \<Rightarrow> timed_op \<Rightarrow> budget_state \<Rightarrow> rat" where
  "budget_charge n e st =
     (case e of (d, op) \<Rightarrow> case op of
        Admit a \<Rightarrow> 0 | Commit c \<Rightarrow> settle_charge c (ledger_at n (expire_after d (fst st))))"

definition budget_gain :: "int \<Rightarrow> timed_op \<Rightarrow> budget_state \<Rightarrow> rat" where
  "budget_gain lmt e st = accrued lmt (snd st) (op_now (snd e)) + of_int lmt / 10 ^ 13"

lemma hsum_expire:
  assumes "lease_inv n cap ks"
  shows "hsum (held (ledger_at n (expire_after d ks))) \<le> hsum (held (ledger_at n ks))"
proof -
  have "0 \<le> hsum (held (ledger_at n ks))"
    using assms by (intro hsum_nonneg) (auto simp: lease_inv_def matched_def)
  moreover have "hsum [] = 0" by (simp add: hsum_def)
  ultimately show ?thesis using lease_inv_expire(2)[OF assms, of d] by auto
qed

lemma rounding_tiny: "0 \<le> lmt \<Longrightarrow> of_int lmt * (6 * ulp53 + ulp14) \<le> (of_int lmt / 10 ^ 13 :: rat)"
proof -
  assume "0 \<le> lmt"
  then have "of_int lmt * (6 * ulp53 + ulp14) \<le> of_int lmt * (1 / 10 ^ 13 :: rat)"
    by (intro mult_left_mono) auto
  then show ?thesis by (simp only: times_divide_eq_right mult_1_right)
qed

lemma budget_inv_step:
  assumes inv: "budget_inv n cap lmt st" and g: "budget_guard n cap lmt e st"
  shows "budget_inv n cap lmt (budget_step n e st)"
    and "budget_charge n e st + potential n lmt (budget_step n e st) \<le> potential n lmt st + budget_gain lmt e st"
proof -
  obtain ks prev d op where eq: "st = (ks, prev)" "e = (d, op)" by (metis surj_pair)
  let ?now = "op_now op" and ?ks = "expire_after d ks"
  have l: "1 \<le> lmt" "lmt \<le> 2 ^ 31" "lease_inv n cap ks" "balance_ok n lmt (ks, prev)"
    using inv by (auto simp: budget_inv_def eq)
  have l0: "0 \<le> lmt" using l(1) by simp
  have t: "prev \<le> ?now" "clock_ok ?now" "int d \<le> ?now - prev" and lg: "lease_guard n cap (d, op) ks"
    using g by (auto simp: budget_guard_def eq)
  note ex = balance_expire[OF l(4) l0 t]
  have inv0: "budget_inv n cap lmt (?ks, ?now)"
    using l t(2) ex(1) lease_inv_expire(1)[OF l(3)] by (simp add: budget_inv_def)
  note hs = hsum_expire[OF l(3), of d]
  have pot: "potential n lmt (?ks, ?now) \<le> potential n lmt (ks, prev) + accrued lmt prev ?now"
    using ex(2) hs by (simp add: potential_def)
  note tiny = rounding_tiny[OF l0]
  have lease: "lease_inv n cap (llm_step n (d, op) ks)" by (rule lease_inv_step[OF l(3) lg])
  have "balance_ok n lmt (llm_step n (d, op) ks, ?now) \<and>
    budget_charge n (d, op) (ks, prev) + potential n lmt (llm_step n (d, op) ks, ?now)
      \<le> potential n lmt (?ks, ?now) + of_int lmt * (6 * ulp53 + ulp14)"
  proof (cases op)
    case (Admit a)
    obtain r ks' where run: "run_state (admit_script doc_call (keys_in n) a) ?ks = (r, ks')" by (metis surj_pair)
    have "a_rid a \<notin> fst ` set (held (ledger_at n ?ks))"
      using lg held_expire[of n d ks] by (auto simp: Admit)
    then show ?thesis
      using admit_step[OF inv0[unfolded Admit] _ _ _ _ _ _ _ run] g
      by (simp add: Admit eq budget_guard_def budget_charge_def llm_step_def run)
  next
    case (Commit c)
    obtain r ks' where run: "run_state (commit_script doc_call (keys_in n) (settled_in n (c_rid c)) c) ?ks = (r, ks')"
      by (metis surj_pair)
    show ?thesis
      using commit_step[OF inv0[unfolded Commit] _ _ _ _ _ _ _ run] g
      by (simp add: Commit eq budget_guard_def budget_charge_def llm_step_def run)
  qed
  then show "budget_inv n cap lmt (budget_step n e st)"
    "budget_charge n e st + potential n lmt (budget_step n e st) \<le> potential n lmt st + budget_gain lmt e st"
    using l t(2) lease pot tiny by (auto simp: eq budget_step_def budget_inv_def budget_gain_def)
qed

interpretation budget: metered "budget_step n" "budget_guard n cap lmt" "budget_inv n cap lmt"
    "budget_charge n" "budget_gain lmt" "potential n lmt"
  for n :: string and cap lmt :: int
  by unfold_locales (auto intro: budget_inv_step)

fun settled_tokens :: "timed_op list \<Rightarrow> (admit_reply + commit_reply) list \<Rightarrow> int" where
  "settled_tokens ((d, Commit c) # es) (Inr r # rs) =
     (if com_status r = 3 then 0 else c_actual c) + settled_tokens es rs"
| "settled_tokens (e # es) (r # rs) = settled_tokens es rs"
| "settled_tokens _ _ = 0"

fun end_now :: "int \<Rightarrow> timed_op list \<Rightarrow> int" where
  "end_now prev [] = prev"
| "end_now prev (e # es) = end_now (op_now (snd e)) es"

lemma settled_tokens_charge:
  assumes "\<forall>e \<in> set es. op_ok cap (snd e)"
  shows "of_int (settled_tokens es (fst (run_state (protocol_run doc_call expire_after n es) ks)))
     = total_ops (budget_step n) (budget_charge n) es (ks, prev)"
  using assms
proof (induction es arbitrary: ks prev)
  case (Cons e es)
  obtain d op where e: "e = (d, op)" by (cases e)
  obtain r ks' where run: "run_state (op_script doc_call n op) (expire_after d ks) = (r, ks')" by (metis surj_pair)
  have step: "budget_step n e (ks, prev) = (ks', op_now op)" by (simp add: e budget_step_def llm_step_def run)
  obtain rs ks'' where rest: "run_state (protocol_run doc_call expire_after n es) ks' = (rs, ks'')" by (metis surj_pair)
  have IH: "of_int (settled_tokens es rs) = total_ops (budget_step n) (budget_charge n) es (ks', op_now op)"
    using Cons.IH[of ks' "op_now op"] Cons.prems by (simp add: rest)
  have "of_int (settled_tokens (e # es) (r # rs)) = budget_charge n e (ks, prev) + of_int (settled_tokens es rs)"
  proof (cases op)
    case (Admit a)
    then show ?thesis by (simp add: e budget_charge_def)
  next
    case (Commit c)
    let ?L = "ledger_at n (expire_after d ks)"
    have "r = Inr (fst (ledger_commit c ?L))"
      using commit_script_doc[of c n "expire_after d ks"] Cons.prems run by (auto simp: e Commit)
    then show ?thesis
      by (cases "settled ?L (c_rid c)")
         (simp_all add: e Commit budget_charge_def settle_charge_def ledger_commit_def Let_def)
  qed
  then show ?case using IH by (simp add: step) (simp add: e run rest)
qed simp

lemma total_budget_gain:
  "total_ops (budget_step n) (budget_gain lmt) es st
     = accrued lmt (snd st) (end_now (snd st) es) + of_nat (length es) * (of_int lmt / 10 ^ 13)"
proof (induction es arbitrary: st)
  case Nil
  show ?case by (simp add: accrued_def)
next
  case (Cons e es)
  show ?case using accrued_add[of lmt "snd st" "op_now (snd e)" "end_now (op_now (snd e)) es"]
    by (simp add: Cons.IH budget_gain_def[of lmt e st] budget_step_def[of n e st] distrib_right add_divide_distrib)
qed

lemma budget_run_end: "run_ops (budget_step n) es (ks, prev) = (run_ops (llm_step n) es ks, end_now prev es)"
  by (induction es arbitrary: ks prev) (auto simp: budget_step_def)



end
