(* ===== verification/Request_Schemas.thy ===== *)
theory Request_Schemas
  imports Tables Rules_Routes Admission_Routes Rate_Limit_Routes Token_Conservation
begin

text \<open>
  The schemas of the request bodies, as the routes declare them. Joi, which interprets them, is not part of
  the program: what the proofs use of it is that a body it accepts has the properties its documentation
  states for each type, with its conversions (a number may come as text, a number must be safe), the law
  of the locale \<open>validator\<close>. Only typed bodies, whose numbers are numbers, are encoded.
\<close>

section \<open>The schemas\<close>

datatype joi_type =
    Joi_string nat "nat option"
  | Joi_valid "string list"
  | Joi_uuid
  | Joi_integer "int option" "int option"
  | Joi_number rat rat
  | Joi_boolean
  | Joi_strings
  | Joi_object

text \<open>The keys of an object, each with its type and whether it is required, and the least number of keys.\<close>

type_synonym joi_schema = "(string \<times> joi_type \<times> bool) list \<times> nat"

definition identifier_schema :: joi_type where
  "identifier_schema = Joi_string 1 (Some 128)"

definition reserveSchema :: joi_schema where
  "reserveSchema =
     ([(''tenant'', identifier_schema, True), (''model'', identifier_schema, True),
       (''promptTokens'', Joi_integer (Some 0) (Some 10000000), True),
       (''maxOutputTokens'', Joi_integer (Some 1) (Some 10000000), True),
       (''sloTtftMs'', Joi_integer (Some 1) (Some 600000), False)], 0)"

definition commitSchema :: joi_schema where
  "commitSchema =
     ([(''tenant'', identifier_schema, True), (''model'', identifier_schema, True), (''reservationId'', Joi_uuid, True),
       (''promptTokens'', Joi_integer (Some 0) (Some 10000000), True),
       (''outputTokens'', Joi_integer (Some 0) (Some 10000000), True),
       (''serviceMs'', Joi_integer (Some 0) (Some 3600000), False)], 0)"

definition releaseSchema :: joi_schema where
  "releaseSchema =
     ([(''tenant'', identifier_schema, True), (''model'', identifier_schema, True), (''reservationId'', Joi_uuid, True)], 0)"

definition policySchema :: joi_schema where
  "policySchema =
     ([(''tenantPattern'', Joi_string 1 (Some 255), True), (''modelPattern'', Joi_string 1 (Some 255), True),
       (''tokensPerMinute'', Joi_integer (Some 1) None, False), (''requestsPerMinute'', Joi_integer (Some 1) None, False),
       (''maxConcurrency'', Joi_integer (Some 1) (Some 100000), False), (''maxQueueDepth'', Joi_integer (Some 0) (Some 1000000), False),
       (''leaseSeconds'', Joi_integer (Some 1) (Some 3600), False), (''reservationMode'', Joi_valid [''worst_case'', ''adaptive''], False),
       (''reservationSafetyFactor'', Joi_number 1 10, False), (''priority'', Joi_integer None None, False),
       (''enabled'', Joi_boolean, False)], 0)"

text \<open>\<^verbatim>\<open>schema.fork(keys, (s) => s.optional())\<close>.\<close>

definition fork_optional :: "string list \<Rightarrow> joi_schema \<Rightarrow> joi_schema" where
  "fork_optional ks schema = (map (\<lambda>(k, t, required). (k, t, required \<and> k \<notin> set ks)) (fst schema), snd schema)"

definition policyUpdateSchema :: joi_schema where
  "policyUpdateSchema = fork_optional [''tenantPattern'', ''modelPattern''] policySchema"

definition algorithm_names :: joi_type where
  "algorithm_names = Joi_valid (map algorithm_text [TOKEN_BUCKET, SLIDING_WINDOW, FIXED_WINDOW, LEAKY_BUCKET])"

definition dimension_names :: joi_type where
  "dimension_names = Joi_valid [''user'', ''ip'', ''endpoint'', ''global'', ''custom'']"

definition createRuleSchema :: joi_schema where
  "createRuleSchema =
     ([(''name'', Joi_string 3 (Some 255), True), (''description'', Joi_string 1 (Some 1000), False), (''algorithm'', algorithm_names, True),
       (''limit'', Joi_integer (Some 1) (Some 1000000), True), (''windowSeconds'', Joi_integer (Some 1) (Some 86400), True),
       (''dimensionType'', dimension_names, True), (''dimensionPattern'', Joi_string 1 (Some 500), False),
       (''priority'', Joi_integer (Some 0) (Some 1000), False), (''enabled'', Joi_boolean, False), (''tags'', Joi_strings, False)], 0)"

definition updateRuleSchema :: joi_schema where
  "updateRuleSchema =
     ([(''name'', Joi_string 3 (Some 255), False), (''description'', Joi_string 1 (Some 1000), False), (''algorithm'', algorithm_names, False),
       (''limit'', Joi_integer (Some 1) (Some 1000000), False), (''windowSeconds'', Joi_integer (Some 1) (Some 86400), False),
       (''dimensionType'', dimension_names, False), (''dimensionPattern'', Joi_string 1 (Some 500), False),
       (''priority'', Joi_integer (Some 0) (Some 1000), False), (''enabled'', Joi_boolean, False), (''tags'', Joi_strings, False)], 1)"

definition checkRateLimitSchema :: joi_schema where
  "checkRateLimitSchema =
     ([(''key'', Joi_string 1 (Some 256), True), (''identifier'', Joi_string 1 (Some 256), True), (''algorithm'', algorithm_names, False),
       (''limit'', Joi_integer (Some 1) (Some 1000000), False), (''windowSeconds'', Joi_integer (Some 1) (Some 86400), False),
       (''endpoint'', Joi_string 1 None, False), (''metadata'', Joi_object, False)], 0)"

definition resetRateLimitSchema :: joi_schema where
  "resetRateLimitSchema =
     ([(''key'', Joi_string 1 (Some 256), True), (''algorithm'', algorithm_names, True),
       (''windowSeconds'', Joi_integer (Some 1) (Some 86400), False)], 0)"

definition getStatsSchema :: joi_schema where
  "getStatsSchema =
     ([(''key'', Joi_string 1 (Some 256), True), (''algorithm'', algorithm_names, True),
       (''windowSeconds'', Joi_integer (Some 1) (Some 86400), False)], 0)"

section \<open>What an accepted body has\<close>

definition number_given :: "jsval \<Rightarrow> rat option" where
  "number_given v = (case v of JNum x \<Rightarrow> Some x | JStr s \<Rightarrow> to_number s | _ \<Rightarrow> None)"

definition safe_number :: "rat \<Rightarrow> bool" where
  "safe_number x \<longleftrightarrow> \<bar>x\<bar> < 2 ^ 53"

definition in_range :: "int option \<Rightarrow> int option \<Rightarrow> rat \<Rightarrow> bool" where
  "in_range lo hi x \<longleftrightarrow> (case lo of Some l \<Rightarrow> of_int l \<le> x | None \<Rightarrow> True) \<and> (case hi of Some h \<Rightarrow> x \<le> of_int h | None \<Rightarrow> True)"

fun has_type :: "joi_type \<Rightarrow> jsval \<Rightarrow> bool" where
  "has_type (Joi_string lo hi) v = (case v of JStr s \<Rightarrow> lo \<le> length s \<and> (case hi of Some h \<Rightarrow> length s \<le> h | None \<Rightarrow> True) | _ \<Rightarrow> False)"
| "has_type (Joi_valid names) v = (case v of JStr s \<Rightarrow> s \<in> set names | _ \<Rightarrow> False)"
| "has_type Joi_uuid v = (case v of JStr s \<Rightarrow> length (filter (\<lambda>c. hex_value c \<noteq> None) s) = 32 | _ \<Rightarrow> False)"
| "has_type (Joi_integer lo hi) v =
     (case number_given v of Some x \<Rightarrow> of_int \<lfloor>x\<rfloor> = x \<and> safe_number x \<and> in_range lo hi x | None \<Rightarrow> False)"
| "has_type (Joi_number lo hi) v = (case number_given v of Some x \<Rightarrow> lo \<le> x \<and> x \<le> hi | None \<Rightarrow> False)"
| "has_type Joi_boolean v = (case v of JBool b \<Rightarrow> True | JStr s \<Rightarrow> True | _ \<Rightarrow> False)"
| "has_type Joi_strings v = (case v of JArr vs \<Rightarrow> list_all (\<lambda>v. case v of JStr s \<Rightarrow> True | _ \<Rightarrow> False) vs | JStr s \<Rightarrow> True | _ \<Rightarrow> False)"
| "has_type Joi_object v = (case v of JObj fs \<Rightarrow> True | JStr s \<Rightarrow> True | _ \<Rightarrow> False)"

definition conforms :: "joi_schema \<Rightarrow> (string \<times> jsval) list \<Rightarrow> bool" where
  "conforms schema b \<longleftrightarrow>
     list_all (\<lambda>(k, t, required). case map_of b k of Some v \<Rightarrow> has_type t v | None \<Rightarrow> \<not> required) (fst schema)
     \<and> snd schema \<le> length b"

locale validator =
  fixes validate :: "joi_schema \<Rightarrow> (string \<times> jsval) list \<Rightarrow> string list option"
  assumes accepted_conforms: "validate schema b = None \<Longrightarrow> conforms schema b"
begin

lemma accepted_key:
  "validate schema b = None \<Longrightarrow> (k, t, required) \<in> set (fst schema) \<Longrightarrow> map_of b k = Some v \<Longrightarrow> has_type t v"
  using accepted_conforms[of schema b] by (fastforce simp: conforms_def list_all_iff)

end

definition check_object :: "joi_schema \<Rightarrow> (string \<times> jsval) list \<Rightarrow> string list option" where
  "check_object schema b = (if conforms schema b then None else Some [''invalid''])"

interpretation documented_validator: validator check_object
  by unfold_locales (simp add: check_object_def split: if_splits)

section \<open>Typed bodies\<close>

definition key_if :: "string \<Rightarrow> jsval option \<Rightarrow> (string \<times> jsval) list" where
  "key_if k v = (case v of Some x \<Rightarrow> [(k, x)] | None \<Rightarrow> [])"

lemma map_of_key_if: "map_of (key_if k v) k' = (if k' = k then v else None)"
  by (cases v) (simp_all add: key_if_def)

abbreviation whole_number :: "int option \<Rightarrow> jsval option" where
  "whole_number n \<equiv> map_option (\<lambda>i. JNum (of_int i)) n"

definition reserve_body :: "AdmissionRequest \<Rightarrow> (string \<times> jsval) list" where
  "reserve_body r =
     [(''tenant'', JStr (ar_tenant r)), (''model'', JStr (ar_model r)), (''promptTokens'', JNum (of_int (ar_promptTokens r))),
      (''maxOutputTokens'', JNum (of_int (ar_maxOutputTokens r)))] @ key_if ''sloTtftMs'' (whole_number (ar_sloTtftMs r)) @ []"

definition commit_body :: "CommitRequest \<Rightarrow> (string \<times> jsval) list" where
  "commit_body r =
     [(''tenant'', JStr (cr_tenant r)), (''model'', JStr (cr_model r)), (''reservationId'', JStr (cr_reservationId r)),
      (''promptTokens'', JNum (of_int (cr_promptTokens r))), (''outputTokens'', JNum (of_int (cr_outputTokens r)))]
     @ key_if ''serviceMs'' (whole_number (cr_serviceMs r)) @ []"

definition policy_body :: "CreatePolicyInput \<Rightarrow> (string \<times> jsval) list" where
  "policy_body p =
     [(''tenantPattern'', JStr (in_tenantPattern p)), (''modelPattern'', JStr (in_modelPattern p))]
     @ key_if ''tokensPerMinute'' (whole_number (in_tokensPerMinute p)) @ key_if ''requestsPerMinute'' (whole_number (in_requestsPerMinute p))
     @ key_if ''maxConcurrency'' (whole_number (in_maxConcurrency p)) @ key_if ''maxQueueDepth'' (whole_number (in_maxQueueDepth p))
     @ key_if ''leaseSeconds'' (whole_number (in_leaseSeconds p)) @ key_if ''reservationMode'' (map_option mode_value (in_reservationMode p))
     @ key_if ''reservationSafetyFactor'' (map_option JNum (in_reservationSafetyFactor p))
     @ key_if ''priority'' (whole_number (in_priority p)) @ key_if ''enabled'' (map_option JBool (in_enabled p)) @ []"

definition rule_body :: "CreateRuleRequest \<Rightarrow> (string \<times> jsval) list" where
  "rule_body r =
     [(''name'', JStr (cr_name r)), (''algorithm'', algorithm_value (cr_algorithm r)), (''limit'', JNum (of_int (cr_limit r))),
      (''windowSeconds'', JNum (of_int (cr_windowSeconds r))), (''dimensionType'', dimension_value (cr_dimensionType r))]
     @ key_if ''description'' (map_option JStr (cr_description r)) @ key_if ''dimensionPattern'' (map_option JStr (cr_dimensionPattern r))
     @ key_if ''priority'' (whole_number (cr_priority r)) @ key_if ''enabled'' (map_option JBool (cr_enabled r))
     @ key_if ''tags'' (map_option (\<lambda>ts. JArr (map JStr ts)) (cr_tags r)) @ []"

definition rule_update_body :: "UpdateRuleRequest \<Rightarrow> (string \<times> jsval) list" where
  "rule_update_body u =
     key_if ''name'' (map_option JStr (up_name u)) @ key_if ''description'' (map_option JStr (up_description u))
     @ key_if ''algorithm'' (map_option algorithm_value (up_algorithm u)) @ key_if ''limit'' (whole_number (up_limit u))
     @ key_if ''windowSeconds'' (whole_number (up_windowSeconds u)) @ key_if ''dimensionType'' (map_option dimension_value (up_dimensionType u))
     @ key_if ''dimensionPattern'' (map_option JStr (up_dimensionPattern u)) @ key_if ''priority'' (whole_number (up_priority u))
     @ key_if ''enabled'' (map_option JBool (up_enabled u)) @ key_if ''tags'' (map_option (\<lambda>ts. JArr (map JStr ts)) (up_tags u)) @ []"

text \<open>A key of an accepted body has its type.\<close>

lemma typed_key:
  assumes "validator validate" and "validate schema b = None" and "(k, t, required) \<in> set (fst schema)" and "map_of b k = Some v"
  shows "has_type t v"
  using validator.accepted_key assms by blast

lemma number_given_JNum [simp]: "number_given (JNum x) = Some x"
  by (simp add: number_given_def)

lemma in_range_of_int [simp]: "in_range lo hi (of_int i) \<longleftrightarrow>
    (case lo of Some l \<Rightarrow> l \<le> i | None \<Rightarrow> True) \<and> (case hi of Some h \<Rightarrow> i \<le> h | None \<Rightarrow> True)"
  by (cases lo; cases hi) (simp_all add: in_range_def)

lemma safe_number_of_int [simp]: "safe_number (of_int i) \<longleftrightarrow> \<bar>i\<bar> < 2 ^ 53"
  using of_int_less_iff[of "\<bar>i\<bar>" "2 ^ 53", where 'a = rat] by (simp add: safe_number_def)

lemma typed_text:
  assumes "validator validate" "validate schema b = None" "(k, Joi_string lo (Some hi), required) \<in> set (fst schema)"
    and "map_of b k = map_option JStr x"
  shows "\<forall>s. x = Some s \<longrightarrow> lo \<le> length s \<and> length s \<le> hi"
  using typed_key[OF assms(1-3)] assms(4) by (cases x) auto

lemma typed_whole:
  assumes "validator validate" "validate schema b = None" "(k, Joi_integer lo hi, required) \<in> set (fst schema)"
    and "map_of b k = whole_number x"
  shows "\<forall>n. x = Some n \<longrightarrow> \<bar>n\<bar> < 2 ^ 53 \<and> (case lo of Some l \<Rightarrow> l \<le> n | None \<Rightarrow> True) \<and> (case hi of Some h \<Rightarrow> n \<le> h | None \<Rightarrow> True)"
  using typed_key[OF assms(1-3)] assms(4) by (cases x) auto

section \<open>Accepted calls keep the contract of the ledger\<close>

lemma accepted_reserve:
  assumes "validator validate" "validate reserveSchema (reserve_body r) = None"
  shows "0 \<le> ar_promptTokens r \<and> ar_promptTokens r \<le> 10000000 \<and> 1 \<le> ar_maxOutputTokens r \<and> ar_maxOutputTokens r \<le> 10000000"
  using typed_key[OF assms, of "''promptTokens''" "Joi_integer (Some 0) (Some 10000000)" True]
    typed_key[OF assms, of "''maxOutputTokens''" "Joi_integer (Some 1) (Some 10000000)" True]
  by (simp add: reserveSchema_def reserve_body_def)

lemma accepted_commit:
  assumes "validator validate" "validate commitSchema (commit_body r) = None"
  shows "0 \<le> cr_promptTokens r \<and> cr_promptTokens r \<le> 10000000 \<and> 0 \<le> cr_outputTokens r \<and> cr_outputTokens r \<le> 10000000"
  using typed_key[OF assms, of "''promptTokens''" "Joi_integer (Some 0) (Some 10000000)" True]
    typed_key[OF assms, of "''outputTokens''" "Joi_integer (Some 0) (Some 10000000)" True]
  by (simp add: commitSchema_def commit_body_def)

lemma estimate_range:
  "0 \<le> p \<Longrightarrow> 1 \<le> m \<Longrightarrow> 1 \<le> reserveTokens (estimateReservation policy p m mean) \<and> reserveTokens (estimateReservation policy p m mean) \<le> p + m"
  by (auto simp: estimateReservation_def Let_def)


definition example_reserve :: AdmissionRequest where
  "example_reserve = \<lparr>ar_tenant = ''acme'', ar_model = ''gpt'', ar_promptTokens = 900, ar_maxOutputTokens = 4096, ar_sloTtftMs = Some 500\<rparr>"

definition example_settle :: CommitRequest where
  "example_settle = \<lparr>cr_tenant = ''acme'', cr_model = ''gpt'', cr_reservationId = ''00000000-0000-0000-0000-000000000000'',
     cr_promptTokens = 900, cr_outputTokens = 180, cr_serviceMs = None\<rparr>"


section \<open>Accepted rules fit the table\<close>

text \<open>The row that a create request asks for, the values a row binds, and the row an update leaves.\<close>

definition created_row :: "string \<Rightarrow> int \<Rightarrow> CreateRuleRequest \<Rightarrow> RuleRow" where
  "created_row i now r =
     \<lparr>row_id = i, row_name = cr_name r, row_description = nonempty (cr_description r), row_algorithm = cr_algorithm r,
      row_limit_value = cr_limit r, row_window_seconds = cr_windowSeconds r, row_dimension_type = cr_dimensionType r,
      row_dimension_pattern = nonempty (cr_dimensionPattern r), row_priority = or_number (cr_priority r) 100,
      row_enabled = or_default (cr_enabled r) True, row_tags = Some (or_default (cr_tags r) []), row_metadata = None,
      row_created_at = now, row_updated_at = now\<rparr>"

definition row_values :: "RuleRow \<Rightarrow> jsval list" where
  "row_values row =
     [JStr (row_id row), JStr (row_name row), (case row_description row of Some t \<Rightarrow> JStr t | None \<Rightarrow> JNull), algorithm_value (row_algorithm row),
      JNum (of_int (row_limit_value row)), JNum (of_int (row_window_seconds row)), dimension_value (row_dimension_type row),
      (case row_dimension_pattern row of Some t \<Rightarrow> JStr t | None \<Rightarrow> JNull), JNum (of_int (row_priority row)), JBool (row_enabled row),
      JArr (map JStr (or_default (row_tags row) []))]"

definition updated_row :: "UpdateRuleRequest \<Rightarrow> RuleRow \<Rightarrow> RuleRow" where
  "updated_row u row = row
     \<lparr>row_name := or_default (up_name u) (row_name row), row_algorithm := or_default (up_algorithm u) (row_algorithm row),
      row_limit_value := or_default (up_limit u) (row_limit_value row), row_window_seconds := or_default (up_windowSeconds u) (row_window_seconds row),
      row_dimension_type := or_default (up_dimensionType u) (row_dimension_type row), row_priority := or_default (up_priority u) (row_priority row),
      row_enabled := or_default (up_enabled u) (row_enabled row),
      row_description := (if up_description u = None then row_description row else up_description u),
      row_dimension_pattern := (if up_dimensionPattern u = None then row_dimension_pattern row else up_dimensionPattern u),
      row_tags := (if up_tags u = None then row_tags row else up_tags u)\<rparr>"

lemma created_row_values: "insert_rule_values i r = row_values (created_row i now r)"
  by (auto simp: insert_rule_values_def row_values_def created_row_def text_or_null_def nonempty_def or_default_def split: option.splits list.splits)

lemma rule_body_keys:
  "map_of (rule_body r) ''name'' = Some (JStr (cr_name r))" "map_of (rule_body r) ''limit'' = Some (JNum (of_int (cr_limit r)))"
  "map_of (rule_body r) ''windowSeconds'' = Some (JNum (of_int (cr_windowSeconds r)))"
  "map_of (rule_body r) ''dimensionPattern'' = map_option JStr (cr_dimensionPattern r)"
  "map_of (rule_body r) ''priority'' = whole_number (cr_priority r)"
  by (simp_all add: rule_body_def map_add_def map_of_key_if split: option.split)

lemma rule_update_body_keys:
  "map_of (rule_update_body u) ''name'' = map_option JStr (up_name u)" "map_of (rule_update_body u) ''limit'' = whole_number (up_limit u)"
  "map_of (rule_update_body u) ''windowSeconds'' = whole_number (up_windowSeconds u)"
  "map_of (rule_update_body u) ''dimensionPattern'' = map_option JStr (up_dimensionPattern u)"
  "map_of (rule_update_body u) ''priority'' = whole_number (up_priority u)"
  by (simp_all add: rule_update_body_def map_add_def map_of_key_if split: option.split)

lemma create_keys:
  "(''name'', Joi_string 3 (Some 255), True) \<in> set (fst createRuleSchema)"
  "(''limit'', Joi_integer (Some 1) (Some 1000000), True) \<in> set (fst createRuleSchema)"
  "(''windowSeconds'', Joi_integer (Some 1) (Some 86400), True) \<in> set (fst createRuleSchema)"
  "(''dimensionPattern'', Joi_string 1 (Some 500), False) \<in> set (fst createRuleSchema)"
  "(''priority'', Joi_integer (Some 0) (Some 1000), False) \<in> set (fst createRuleSchema)"
  by (simp_all add: createRuleSchema_def)

lemma update_keys:
  "(''name'', Joi_string 3 (Some 255), False) \<in> set (fst updateRuleSchema)"
  "(''limit'', Joi_integer (Some 1) (Some 1000000), False) \<in> set (fst updateRuleSchema)"
  "(''windowSeconds'', Joi_integer (Some 1) (Some 86400), False) \<in> set (fst updateRuleSchema)"
  "(''dimensionPattern'', Joi_string 1 (Some 500), False) \<in> set (fst updateRuleSchema)"
  "(''priority'', Joi_integer (Some 0) (Some 1000), False) \<in> set (fst updateRuleSchema)"
  by (simp_all add: updateRuleSchema_def)

text \<open>The bounds an accepted rule has, in the form the constraints need them.\<close>

lemma accepted_rule:
  assumes "validator validate" "validate createRuleSchema (rule_body r) = None"
  shows "length (cr_name r) \<le> 255 \<and> 1 \<le> cr_limit r \<and> cr_limit r \<le> 1000000 \<and> 1 \<le> cr_windowSeconds r \<and> cr_windowSeconds r \<le> 86400
    \<and> (\<forall>p. cr_dimensionPattern r = Some p \<longrightarrow> length p \<le> 500) \<and> (\<forall>n. cr_priority r = Some n \<longrightarrow> 0 \<le> n \<and> n \<le> 1000)"
  using typed_key[OF assms create_keys(1) rule_body_keys(1)] typed_key[OF assms create_keys(2) rule_body_keys(2)]
    typed_key[OF assms create_keys(3) rule_body_keys(3)] typed_text[OF assms create_keys(4) rule_body_keys(4)] typed_whole[OF assms create_keys(5) rule_body_keys(5)]
  by simp

lemma accepted_update:
  assumes "validator validate" "validate updateRuleSchema (rule_update_body u) = None"
  shows "(\<forall>n. up_name u = Some n \<longrightarrow> length n \<le> 255) \<and> (\<forall>n. up_limit u = Some n \<longrightarrow> 1 \<le> n \<and> n \<le> 1000000)
    \<and> (\<forall>n. up_windowSeconds u = Some n \<longrightarrow> 1 \<le> n \<and> n \<le> 86400) \<and> (\<forall>p. up_dimensionPattern u = Some p \<longrightarrow> length p \<le> 500)
    \<and> (\<forall>n. up_priority u = Some n \<longrightarrow> 0 \<le> n \<and> n \<le> 1000)"
  using typed_text[OF assms update_keys(1) rule_update_body_keys(1)] typed_whole[OF assms update_keys(2) rule_update_body_keys(2)]
    typed_whole[OF assms update_keys(3) rule_update_body_keys(3)] typed_text[OF assms update_keys(4) rule_update_body_keys(4)]
    typed_whole[OF assms update_keys(5) rule_update_body_keys(5)]
  by simp


definition example_rule_request :: CreateRuleRequest where
  "example_rule_request = \<lparr>cr_name = ''search'', cr_description = None, cr_algorithm = SLIDING_WINDOW, cr_limit = 30, cr_windowSeconds = 60,
     cr_dimensionType = ENDPOINT, cr_dimensionPattern = Some ''/search*'', cr_priority = Some 0, cr_enabled = None, cr_tags = Some [''web'']\<rparr>"

definition example_rule_update :: UpdateRuleRequest where
  "example_rule_update = \<lparr>up_name = None, up_description = None, up_algorithm = None, up_limit = Some 40, up_windowSeconds = None,
     up_dimensionType = None, up_dimensionPattern = None, up_priority = None, up_enabled = None, up_tags = None\<rparr>"


section \<open>Accepted policies\<close>

text \<open>The row that PostgreSQL makes of an insertion: \<^verbatim>\<open>NUMERIC(4,2)\<close> rounds the factor to hundredths.\<close>

definition stored_policy :: "string \<Rightarrow> CreatePolicyInput \<Rightarrow> PolicyRow" where
  "stored_policy i p =
     row_of i (in_tenantPattern p) (in_modelPattern p) (or_default (in_tokensPerMinute p) 100000) (or_default (in_requestsPerMinute p) 600)
       (or_default (in_maxConcurrency p) 16) (or_default (in_maxQueueDepth p) 64) (or_default (in_leaseSeconds p) 120)
       (row_mode_of (or_default (in_reservationMode p) worst_case)) (nat (round (or_default (in_reservationSafetyFactor p) (3 / 2) * 100)))
       (or_default (in_priority p) 100) (or_default (in_enabled p) True)"

lemma positive_bigint_text: "0 < n \<Longrightarrow> n < 2 ^ 63 \<Longrightarrow> positive_bigint (string_of_int n)"
  using string_of_nat_digits[of "nat n"] by (simp add: positive_bigint_def string_of_int_def list_all_iff digits_number_of_nat)

lemma factor_text_numeric: "100 \<le> h \<Longrightarrow> h < 10000 \<Longrightarrow> factor_text (numeric_text h)"
proof -
  assume h: "100 \<le> h" "h < 10000"
  have point: "\<not> digit_char CHR ''.''" by (simp add: digit_char_def)
  have "digit_char (char_of (48 + d))" if "d < 10" for d :: nat using that by (simp add: digit_char_def)
  then have two: "digit_char (char_of (48 + h mod 100 div 10))" "digit_char (char_of (48 + h mod 10))" by simp_all
  have "digits_number (string_of_nat (h div 100) @ [char_of (48 + h mod 100 div 10), char_of (48 + h mod 10)]) = int h"
    unfolding digits_number_append digits_number_of_nat hundredths_value
    using div_mult_mod_eq[of h 100] by (simp flip: of_nat_add of_nat_mult add: zdiv_int zmod_int)
  then show ?thesis using h two
    by (simp add: factor_text_def numeric_text_def takeWhile_digits dropWhile_digits point Let_def)
qed

lemma policy_body_keys:
  "map_of (policy_body p) ''tenantPattern'' = map_option JStr (Some (in_tenantPattern p))"
  "map_of (policy_body p) ''modelPattern'' = map_option JStr (Some (in_modelPattern p))"
  "map_of (policy_body p) ''tokensPerMinute'' = whole_number (in_tokensPerMinute p)"
  "map_of (policy_body p) ''requestsPerMinute'' = whole_number (in_requestsPerMinute p)"
  "map_of (policy_body p) ''maxConcurrency'' = whole_number (in_maxConcurrency p)"
  "map_of (policy_body p) ''maxQueueDepth'' = whole_number (in_maxQueueDepth p)"
  "map_of (policy_body p) ''leaseSeconds'' = whole_number (in_leaseSeconds p)"
  "map_of (policy_body p) ''reservationSafetyFactor'' = map_option JNum (in_reservationSafetyFactor p)"
  by (simp_all add: policy_body_def map_add_def map_of_key_if split: option.split)

lemma policy_keys:
  "(''tenantPattern'', Joi_string 1 (Some 255), True) \<in> set (fst policySchema)"
  "(''modelPattern'', Joi_string 1 (Some 255), True) \<in> set (fst policySchema)"
  "(''tokensPerMinute'', Joi_integer (Some 1) None, False) \<in> set (fst policySchema)"
  "(''requestsPerMinute'', Joi_integer (Some 1) None, False) \<in> set (fst policySchema)"
  "(''maxConcurrency'', Joi_integer (Some 1) (Some 100000), False) \<in> set (fst policySchema)"
  "(''maxQueueDepth'', Joi_integer (Some 0) (Some 1000000), False) \<in> set (fst policySchema)"
  "(''leaseSeconds'', Joi_integer (Some 1) (Some 3600), False) \<in> set (fst policySchema)"
  "(''reservationSafetyFactor'', Joi_number 1 10, False) \<in> set (fst policySchema)"
  by (simp_all add: policySchema_def)

definition policy_in_bounds :: "CreatePolicyInput \<Rightarrow> bool" where
  "policy_in_bounds p \<longleftrightarrow>
     length (in_tenantPattern p) \<le> 255 \<and> length (in_modelPattern p) \<le> 255
     \<and> 1 \<le> or_default (in_tokensPerMinute p) 100000 \<and> or_default (in_tokensPerMinute p) 100000 < 2 ^ 53
     \<and> 1 \<le> or_default (in_requestsPerMinute p) 600
     \<and> 1 \<le> or_default (in_maxConcurrency p) 16 \<and> or_default (in_maxConcurrency p) 16 \<le> 100000
     \<and> 0 \<le> or_default (in_maxQueueDepth p) 64 \<and> or_default (in_maxQueueDepth p) 64 \<le> 1000000
     \<and> 1 \<le> or_default (in_leaseSeconds p) 120 \<and> or_default (in_leaseSeconds p) 120 \<le> 3600
     \<and> 1 \<le> or_default (in_reservationSafetyFactor p) (3 / 2) \<and> or_default (in_reservationSafetyFactor p) (3 / 2) \<le> 10"

lemma or_default_all: "\<forall>n. x = Some n \<longrightarrow> P n \<Longrightarrow> P d \<Longrightarrow> P (or_default x d)"
  by (cases x) simp_all

lemma accepted_policy:
  assumes "validator validate" "validate policySchema (policy_body p) = None"
  shows "policy_in_bounds p"
proof -
  have factor: "\<forall>x. in_reservationSafetyFactor p = Some x \<longrightarrow> 1 \<le> x \<and> x \<le> 10"
    using typed_key[OF assms policy_keys(8)] policy_body_keys(8)[of p] by auto
  note whole = typed_whole[OF assms]
  show ?thesis
    unfolding policy_in_bounds_def
    using typed_text[OF assms policy_keys(1) policy_body_keys(1)] typed_text[OF assms policy_keys(2) policy_body_keys(2)]
      or_default_all[OF whole[OF policy_keys(3) policy_body_keys(3)], of 100000] or_default_all[OF whole[OF policy_keys(4) policy_body_keys(4)], of 600]
      or_default_all[OF whole[OF policy_keys(5) policy_body_keys(5)], of 16] or_default_all[OF whole[OF policy_keys(6) policy_body_keys(6)], of 64]
      or_default_all[OF whole[OF policy_keys(7) policy_body_keys(7)], of 120] or_default_all[OF factor, of "3 / 2"]
    by (simp add: abs_less_iff)
qed

lemma rounded_factor: "1 \<le> x \<Longrightarrow> x \<le> 10 \<Longrightarrow> 100 \<le> nat (round (x * 100)) \<and> nat (round (x * 100)) \<le> 1000" for x :: rat
  using round_mono[of 100 "x * 100"] round_mono[of "x * 100" 1000] by (simp add: le_nat_iff nat_le_iff)


definition example_policy_request :: "int \<Rightarrow> CreatePolicyInput" where
  "example_policy_request n = \<lparr>in_tenantPattern = ''acme*'', in_modelPattern = ''*'', in_tokensPerMinute = None, in_requestsPerMinute = Some n,
     in_maxConcurrency = Some 4, in_maxQueueDepth = None, in_leaseSeconds = None, in_reservationMode = Some adaptive,
     in_reservationSafetyFactor = Some (5 / 4), in_priority = None, in_enabled = None\<rparr>"


end
