(* ===== verification/Request_Bodies.thy ===== *)
theory Request_Bodies
  imports Request_Schemas
begin

text \<open>
  How the handlers of \<^verbatim>\<open>src/routes/\<close> read a body that passed its schema: the properties they take from
  \<^verbatim>\<open>req.body\<close>, at the types they take them for. A body that is accepted although a property has another
  type (a number sent as text, which Joi converts and the middleware throws away) has no reading here.
\<close>

section \<open>Reading\<close>

text \<open>The properties of a body, where they have the types the handlers take them for.\<close>

type_synonym object = "(string \<times> jsval) list"

fun as_text :: "jsval \<Rightarrow> string option" where
  "as_text (JStr s) = Some s"
| "as_text v = None"

fun as_whole :: "jsval \<Rightarrow> int option" where
  "as_whole (JNum x) = (if of_int \<lfloor>x\<rfloor> = x then Some \<lfloor>x\<rfloor> else None)"
| "as_whole v = None"

fun as_number :: "jsval \<Rightarrow> rat option" where
  "as_number (JNum x) = Some x"
| "as_number v = None"

fun as_bool :: "jsval \<Rightarrow> bool option" where
  "as_bool (JBool b) = Some b"
| "as_bool v = None"

fun as_object :: "jsval \<Rightarrow> object option" where
  "as_object (JObj fs) = Some fs"
| "as_object v = None"

fun as_texts :: "jsval \<Rightarrow> string list option" where
  "as_texts (JArr vs) = those (map as_text vs)"
| "as_texts v = None"

definition as_one_of :: "('a \<times> string) list \<Rightarrow> jsval \<Rightarrow> 'a option" where
  "as_one_of names v = Option.bind (as_text v) (\<lambda>s. map_of (map (\<lambda>(a, t). (t, a)) names) s)"

definition as_algorithm :: "jsval \<Rightarrow> RateLimitAlgorithm option" where
  "as_algorithm = as_one_of (map (\<lambda>a. (a, algorithm_text a)) [TOKEN_BUCKET, SLIDING_WINDOW, FIXED_WINDOW, LEAKY_BUCKET])"

definition as_dimension :: "jsval \<Rightarrow> DimensionType option" where
  "as_dimension = as_one_of [(USER, ''user''), (IP, ''ip''), (ENDPOINT, ''endpoint''), (GLOBAL, ''global''), (CUSTOM, ''custom'')]"

definition as_mode :: "jsval \<Rightarrow> ReservationMode option" where
  "as_mode = as_one_of [(worst_case, ''worst_case''), (adaptive, ''adaptive'')]"

definition required :: "(jsval \<Rightarrow> 'a option) \<Rightarrow> object \<Rightarrow> string \<Rightarrow> 'a option" where
  "required as b k = Option.bind (map_of b k) as"

definition optional :: "(jsval \<Rightarrow> 'a option) \<Rightarrow> object \<Rightarrow> string \<Rightarrow> 'a option option" where
  "optional as b k = (case map_of b k of None \<Rightarrow> Some None | Some v \<Rightarrow> map_option Some (as v))"

definition read_reserve :: "object \<Rightarrow> AdmissionRequest option" where
  "read_reserve b = do {
     tenant \<leftarrow> required as_text b ''tenant''; model \<leftarrow> required as_text b ''model'';
     promptTokens \<leftarrow> required as_whole b ''promptTokens''; maxOutputTokens \<leftarrow> required as_whole b ''maxOutputTokens'';
     sloTtftMs \<leftarrow> optional as_whole b ''sloTtftMs'';
     Some \<lparr>ar_tenant = tenant, ar_model = model, ar_promptTokens = promptTokens, ar_maxOutputTokens = maxOutputTokens, ar_sloTtftMs = sloTtftMs\<rparr>
   }"

definition read_commit :: "object \<Rightarrow> CommitRequest option" where
  "read_commit b = do {
     tenant \<leftarrow> required as_text b ''tenant''; model \<leftarrow> required as_text b ''model'';
     reservationId \<leftarrow> required as_text b ''reservationId''; promptTokens \<leftarrow> required as_whole b ''promptTokens'';
     outputTokens \<leftarrow> required as_whole b ''outputTokens''; serviceMs \<leftarrow> optional as_whole b ''serviceMs'';
     Some \<lparr>cr_tenant = tenant, cr_model = model, cr_reservationId = reservationId, cr_promptTokens = promptTokens,
           cr_outputTokens = outputTokens, cr_serviceMs = serviceMs\<rparr>
   }"

definition read_release :: "object \<Rightarrow> (string \<times> string \<times> string) option" where
  "read_release b = do {
     tenant \<leftarrow> required as_text b ''tenant''; model \<leftarrow> required as_text b ''model'';
     reservationId \<leftarrow> required as_text b ''reservationId'';
     Some (tenant, model, reservationId)
   }"

definition read_policy :: "object \<Rightarrow> CreatePolicyInput option" where
  "read_policy b = do {
     tenantPattern \<leftarrow> required as_text b ''tenantPattern''; modelPattern \<leftarrow> required as_text b ''modelPattern'';
     tokensPerMinute \<leftarrow> optional as_whole b ''tokensPerMinute''; requestsPerMinute \<leftarrow> optional as_whole b ''requestsPerMinute'';
     maxConcurrency \<leftarrow> optional as_whole b ''maxConcurrency''; maxQueueDepth \<leftarrow> optional as_whole b ''maxQueueDepth'';
     leaseSeconds \<leftarrow> optional as_whole b ''leaseSeconds''; reservationMode \<leftarrow> optional as_mode b ''reservationMode'';
     reservationSafetyFactor \<leftarrow> optional as_number b ''reservationSafetyFactor''; priority \<leftarrow> optional as_whole b ''priority'';
     enabled \<leftarrow> optional as_bool b ''enabled'';
     Some \<lparr>in_tenantPattern = tenantPattern, in_modelPattern = modelPattern, in_tokensPerMinute = tokensPerMinute,
           in_requestsPerMinute = requestsPerMinute, in_maxConcurrency = maxConcurrency, in_maxQueueDepth = maxQueueDepth,
           in_leaseSeconds = leaseSeconds, in_reservationMode = reservationMode, in_reservationSafetyFactor = reservationSafetyFactor,
           in_priority = priority, in_enabled = enabled\<rparr>
   }"

definition read_rule :: "object \<Rightarrow> CreateRuleRequest option" where
  "read_rule b = do {
     name \<leftarrow> required as_text b ''name''; description \<leftarrow> optional as_text b ''description'';
     algorithm \<leftarrow> required as_algorithm b ''algorithm''; lmt \<leftarrow> required as_whole b ''limit'';
     windowSeconds \<leftarrow> required as_whole b ''windowSeconds''; dimensionType \<leftarrow> required as_dimension b ''dimensionType'';
     dimensionPattern \<leftarrow> optional as_text b ''dimensionPattern''; priority \<leftarrow> optional as_whole b ''priority'';
     enabled \<leftarrow> optional as_bool b ''enabled''; tags \<leftarrow> optional as_texts b ''tags'';
     Some \<lparr>cr_name = name, cr_description = description, cr_algorithm = algorithm, cr_limit = lmt, cr_windowSeconds = windowSeconds,
           cr_dimensionType = dimensionType, cr_dimensionPattern = dimensionPattern, cr_priority = priority, cr_enabled = enabled, cr_tags = tags\<rparr>
   }"

definition read_rule_update :: "object \<Rightarrow> UpdateRuleRequest option" where
  "read_rule_update b = do {
     name \<leftarrow> optional as_text b ''name''; description \<leftarrow> optional as_text b ''description'';
     algorithm \<leftarrow> optional as_algorithm b ''algorithm''; lmt \<leftarrow> optional as_whole b ''limit'';
     windowSeconds \<leftarrow> optional as_whole b ''windowSeconds''; dimensionType \<leftarrow> optional as_dimension b ''dimensionType'';
     dimensionPattern \<leftarrow> optional as_text b ''dimensionPattern''; priority \<leftarrow> optional as_whole b ''priority'';
     enabled \<leftarrow> optional as_bool b ''enabled''; tags \<leftarrow> optional as_texts b ''tags'';
     Some \<lparr>up_name = name, up_description = description, up_algorithm = algorithm, up_limit = lmt, up_windowSeconds = windowSeconds,
           up_dimensionType = dimensionType, up_dimensionPattern = dimensionPattern, up_priority = priority, up_enabled = enabled, up_tags = tags\<rparr>
   }"

definition read_check :: "object \<Rightarrow> check_body option" where
  "read_check b = do {
     k \<leftarrow> required as_text b ''key''; identifier \<leftarrow> required as_text b ''identifier'';
     algorithm \<leftarrow> optional as_algorithm b ''algorithm''; lmt \<leftarrow> optional as_whole b ''limit'';
     windowSeconds \<leftarrow> optional as_whole b ''windowSeconds''; endpoint \<leftarrow> optional as_text b ''endpoint'';
     metadata \<leftarrow> optional as_object b ''metadata'';
     Some \<lparr>cb_key = k, cb_identifier = identifier, cb_algorithm = algorithm, cb_limit = lmt, cb_windowSeconds = windowSeconds,
           cb_endpoint = endpoint, cb_metadata = metadata\<rparr>
   }"

definition read_key :: "object \<Rightarrow> key_body option" where
  "read_key b = do {
     k \<leftarrow> required as_text b ''key''; algorithm \<leftarrow> required as_algorithm b ''algorithm'';
     windowSeconds \<leftarrow> optional as_whole b ''windowSeconds'';
     Some \<lparr>kb_key = k, kb_algorithm = algorithm, kb_windowSeconds = windowSeconds\<rparr>
   }"


section \<open>What is read is what was sent\<close>

definition check_object_of :: "check_body \<Rightarrow> object" where
  "check_object_of b =
     [(''key'', JStr (cb_key b)), (''identifier'', JStr (cb_identifier b))]
     @ key_if ''algorithm'' (map_option algorithm_value (cb_algorithm b)) @ key_if ''limit'' (whole_number (cb_limit b))
     @ key_if ''windowSeconds'' (whole_number (cb_windowSeconds b)) @ key_if ''endpoint'' (map_option JStr (cb_endpoint b))
     @ key_if ''metadata'' (map_option JObj (cb_metadata b)) @ []"

definition key_object_of :: "key_body \<Rightarrow> object" where
  "key_object_of b =
     [(''key'', JStr (kb_key b)), (''algorithm'', algorithm_value (kb_algorithm b))]
     @ key_if ''windowSeconds'' (whole_number (kb_windowSeconds b)) @ []"

definition release_object_of :: "string \<times> string \<times> string \<Rightarrow> object" where
  "release_object_of b = (case b of (tenant, model, reservationId) \<Rightarrow>
     [(''tenant'', JStr tenant), (''model'', JStr model), (''reservationId'', JStr reservationId)])"

lemma as_enumerations [simp]:
  "as_algorithm (algorithm_value a) = Some a" "as_dimension (dimension_value d) = Some d" "as_mode (mode_value m) = Some m"
proof -
  show "as_algorithm (algorithm_value a) = Some a"
    by (cases a) (simp_all add: as_algorithm_def as_one_of_def algorithm_value_def algorithm_text_def)
  show "as_dimension (dimension_value d) = Some d" by (cases d) (simp_all add: as_dimension_def as_one_of_def dimension_value_def)
  show "as_mode (mode_value m) = Some m" by (cases m) (simp_all add: as_mode_def as_one_of_def mode_value_def)
qed

lemma those_texts [simp]: "those (map (as_text \<circ> JStr) ts) = Some ts"
  by (induction ts) simp_all

lemma required_keys [simp]:
  "required as ((k, v) # b) k = as v" "k \<noteq> k' \<Longrightarrow> required as ((k', v) # b) k = required as b k"
  "k \<noteq> k' \<Longrightarrow> required as (key_if k' x @ b) k = required as b k"
  by (cases x; simp add: required_def key_if_def)+

lemma optional_keys [simp]:
  "k \<noteq> k' \<Longrightarrow> optional as ((k', v) # b) k = optional as b k" "optional as [] k = Some None"
  "k \<noteq> k' \<Longrightarrow> optional as (key_if k' x @ b) k = optional as b k" "k \<noteq> k' \<Longrightarrow> optional as (key_if k' x) k = Some None"
  by (cases x; simp add: optional_def key_if_def)+

lemma optional_hit [simp]:
  "(\<And>a. as (f a) = Some a) \<Longrightarrow> optional as b k = Some None \<Longrightarrow> optional as (key_if k (map_option f x) @ b) k = Some x"
  "(\<And>a. as (f a) = Some a) \<Longrightarrow> optional as (key_if k (map_option f x)) k = Some x"
  by (cases x; simp add: optional_def key_if_def)+

lemmas body_defs = read_reserve_def reserve_body_def read_commit_def commit_body_def read_release_def release_object_of_def
  read_policy_def policy_body_def read_rule_def rule_body_def read_rule_update_def rule_update_body_def
  read_check_def check_object_of_def read_key_def key_object_of_def

text \<open>
  A client that encodes a call as the documentation says has it read back as it was meant, whatever its
  optional parts: the bodies of reservations, settlements, releases, checks, resets and statistics, and of new
  and changed rules and policies.
\<close>

theorem bodies_read_back:
  "read_reserve (reserve_body r) = Some r" "read_commit (commit_body c) = Some c" "read_release (release_object_of l) = Some l"
  "read_policy (policy_body p) = Some p" "read_rule (rule_body n) = Some n" "read_rule_update (rule_update_body u) = Some u"
  "read_check (check_object_of k) = Some k" "read_key (key_object_of b) = Some b"
  by (simp_all add: body_defs split: prod.split)

end
