(* ===== verification/Logger.thy ===== *)
theory Logger
  imports Config
begin

text \<open>
  \<^verbatim>\<open>src/utils/logger.ts\<close>, and what \<^verbatim>\<open>src/middleware/request-logger.ts\<close>, \<^verbatim>\<open>src/middleware/error-handler.ts\<close> and
  \<^verbatim>\<open>src/middleware/degraded-mode.ts\<close> hand to it. Winston is a parameter: of it the model uses its documented
  order of levels, that a level it does not know lets nothing through, and that \<^verbatim>\<open>printf\<close> gets the painted
  level, the message and the rest of the entry.
\<close>

section \<open>JSON.stringify\<close>

definition hex_digit :: "nat \<Rightarrow> char" where
  "hex_digit d = (if d < 10 then char_of (48 + d) else char_of (87 + d))"

definition escape_char :: "char \<Rightarrow> string" where
  "escape_char c =
     (let n = of_char c :: nat in
      if c = CHR 0x22 then [CHR 0x5C, CHR 0x22] else if c = CHR 0x5C then [CHR 0x5C, CHR 0x5C]
      else if n = 8 then CHR 0x5C # ''b'' else if n = 9 then CHR 0x5C # ''t'' else if n = 10 then CHR 0x5C # ''n''
      else if n = 12 then CHR 0x5C # ''f'' else if n = 13 then CHR 0x5C # ''r''
      else if n < 32 then CHR 0x5C # ''u00'' @ [hex_digit (n div 16), hex_digit (n mod 16)]
      else [c])"

definition json_quoted :: "string \<Rightarrow> string" where
  "json_quoted s = CHR 0x22 # concat (map escape_char s) @ [CHR 0x22]"

text \<open>A property that is undefined is left out of an object, and \<^verbatim>\<open>null\<close> in an array.\<close>

fun json_text :: "(rat \<Rightarrow> string) \<Rightarrow> jsval \<Rightarrow> string option"
  and json_elements :: "(rat \<Rightarrow> string) \<Rightarrow> jsval list \<Rightarrow> string list"
  and json_members :: "(rat \<Rightarrow> string) \<Rightarrow> (string \<times> jsval) list \<Rightarrow> string list" where
  "json_text show_number JUndefined = None"
| "json_text show_number JNull = Some ''null''"
| "json_text show_number (JBool b) = Some (if b then ''true'' else ''false'')"
| "json_text show_number (JNum x) = Some (show_number x)"
| "json_text show_number (JStr s) = Some (json_quoted s)"
| "json_text show_number (JArr vs) = Some (''['' @ join '','' (json_elements show_number vs) @ '']'')"
| "json_text show_number (JObj fs) = Some (''{'' @ join '','' (json_members show_number fs) @ ''}'')"
| "json_elements show_number [] = []"
| "json_elements show_number (v # vs) =
     (case json_text show_number v of Some t \<Rightarrow> t | None \<Rightarrow> ''null'') # json_elements show_number vs"
| "json_members show_number [] = []"
| "json_members show_number ((k, v) # fs) =
     (case json_text show_number v of
        Some t \<Rightarrow> [json_quoted k @ '':'' @ t]
      | None \<Rightarrow> []) @ json_members show_number fs"

section \<open>The logger\<close>

datatype log_level = Log_error | Log_warn | Log_info | Log_debug

fun level_name :: "log_level \<Rightarrow> string" where
  "level_name Log_error = ''error''"
| "level_name Log_warn = ''warn''"
| "level_name Log_info = ''info''"
| "level_name Log_debug = ''debug''"

definition npm_levels :: "(string \<times> nat) list" where
  "npm_levels = [(''error'', 0), (''warn'', 1), (''info'', 2), (''http'', 3), (''verbose'', 4), (''debug'', 5), (''silly'', 6)]"

record logger =
  lg_level :: string
  lg_json :: bool
  lg_silent :: bool

definition createLogger :: "environment \<Rightarrow> RateLimiterConfig \<Rightarrow> logger" where
  "createLogger env config =
     \<lparr>lg_level = cfg_log_level config, lg_json = (cfg_log_format config = ''json''),
      lg_silent = (cfg_server_env config = ''test'' \<and> (env ''LOG_LEVEL'' = None \<or> env ''LOG_LEVEL'' = Some []))\<rparr>"

record log_entry =
  le_level :: log_level
  le_message :: string
  le_meta :: "(string \<times> jsval) list"

definition written_by :: "logger \<Rightarrow> log_entry \<Rightarrow> bool" where
  "written_by lg e \<longleftrightarrow> \<not> lg_silent lg
     \<and> (case (map_of npm_levels (lg_level lg), map_of npm_levels (level_name (le_level e))) of
          (Some most, Some n) \<Rightarrow> n \<le> most | _ \<Rightarrow> False)"

definition upper :: "string \<Rightarrow> string" where
  "upper s = map (\<lambda>c. if 97 \<le> (of_char c :: nat) \<and> (of_char c :: nat) \<le> 122 then char_of ((of_char c :: nat) - 32) else c) s"

text \<open>The line of the text format; \<open>paint\<close> is \<^verbatim>\<open>colorize()\<close>, which the console runs before the format.\<close>

definition printf_line :: "(rat \<Rightarrow> string) \<Rightarrow> string \<Rightarrow> string \<Rightarrow> string \<Rightarrow> (string \<times> jsval) list \<Rightarrow> string" where
  "printf_line show_number timestamp level message meta =
     timestamp @ '' ['' @ upper level @ '']: '' @ message @ '' '' @
     (if meta = [] then [] else the (json_text show_number (JObj meta)))"

definition console_text ::
    "(rat \<Rightarrow> string) \<Rightarrow> (log_level \<Rightarrow> string \<Rightarrow> string) \<Rightarrow> string \<Rightarrow> log_entry \<Rightarrow> string" where
  "console_text show_number paint timestamp e =
     printf_line show_number timestamp (paint (le_level e) (level_name (le_level e))) (le_message e) (le_meta e)"

section \<open>What the middleware logs\<close>

text \<open>\<^verbatim>\<open>SLOW_REQUEST_MS\<close>; \<open>None\<close> is \<^verbatim>\<open>NaN\<close>, which no duration reaches.\<close>

definition SLOW_REQUEST_MS :: "environment \<Rightarrow> rat option" where
  "SLOW_REQUEST_MS env = to_number (case env ''SLOW_REQUEST_LOG_MS'' of Some s \<Rightarrow> s | None \<Rightarrow> ''250'')"

definition rounded :: "rat \<Rightarrow> int" where "rounded x = \<lfloor>x + 1 / 2\<rfloor>"

definition request_meta :: "string \<Rightarrow> string \<Rightarrow> int \<Rightarrow> rat \<Rightarrow> (string \<times> jsval) list" where
  "request_meta meth path status durationMs =
     [(''method'', JStr meth), (''path'', JStr path), (''statusCode'', JNum (of_int status)),
      (''durationMs'', JNum (of_int (rounded durationMs)))]"

definition request_entry :: "rat option \<Rightarrow> string \<Rightarrow> string \<Rightarrow> int \<Rightarrow> rat \<Rightarrow> log_entry" where
  "request_entry slow meth path status durationMs =
     (if 500 \<le> status
      then \<lparr>le_level = Log_error, le_message = ''Request failed'', le_meta = request_meta meth path status durationMs\<rparr>
      else if (case slow of Some ms \<Rightarrow> ms \<le> durationMs | None \<Rightarrow> False)
      then \<lparr>le_level = Log_warn, le_message = ''Slow request'', le_meta = request_meta meth path status durationMs\<rparr>
      else \<lparr>le_level = Log_debug, le_message = ''Request'', le_meta = request_meta meth path status durationMs\<rparr>)"

text \<open>What the error handler logs of an error; \<open>stack\<close> is \<^verbatim>\<open>err.stack\<close>.\<close>

definition error_entry :: "(js_error \<Rightarrow> string) \<Rightarrow> string \<Rightarrow> string \<Rightarrow> js_error \<Rightarrow> log_entry" where
  "error_entry stack meth path e =
     (case rate_limiter_error e of
        Some (status, code) \<Rightarrow>
          \<lparr>le_level = Log_debug, le_message = ''Request rejected'',
           le_meta = [(''code'', (case code of Some c \<Rightarrow> JStr c | None \<Rightarrow> JUndefined)), (''status'', JNum (of_int status)),
             (''path'', JStr path), (''method'', JStr meth)]\<rparr>
      | None \<Rightarrow>
          (case e of
             SyntaxError _ True \<Rightarrow> \<lparr>le_level = Log_debug, le_message = ''Malformed request body'',
               le_meta = [(''path'', JStr path), (''method'', JStr meth)]\<rparr>
           | _ \<Rightarrow> \<lparr>le_level = Log_error, le_message = ''Unhandled error'',
               le_meta = [(''error'', JStr (err_message e)), (''stack'', JStr (stack e)), (''path'', JStr path), (''method'', JStr meth)]\<rparr>))"

definition degraded_entry :: "string \<Rightarrow> string \<Rightarrow> string \<Rightarrow> js_error \<Rightarrow> log_entry" where
  "degraded_entry surface mode path e =
     \<lparr>le_level = Log_error, le_message = ''Limiter state unavailable; applying configured failure mode'',
      le_meta = [(''surface'', JStr surface), (''mode'', JStr mode), (''path'', JStr path), (''error'', JStr (err_message e))]\<rparr>"

text \<open>What the two middlewares that see every request log of one.\<close>

definition request_entries :: "(js_error \<Rightarrow> string) \<Rightarrow> rat option \<Rightarrow> string \<Rightarrow> string \<Rightarrow> http_outcome \<Rightarrow> rat \<Rightarrow> log_entry list" where
  "request_entries stack slow meth path outcome durationMs =
     (case outcome of Next (Some e) \<Rightarrow> [error_entry stack meth path e] | _ \<Rightarrow> []) @
     [request_entry slow meth path (http_status (answered outcome)) durationMs]"

section \<open>A line is one line\<close>

definition one_line :: "string \<Rightarrow> bool" where
  "one_line s \<longleftrightarrow> list_all (\<lambda>c. (of_char c :: nat) \<noteq> 10 \<and> (of_char c :: nat) \<noteq> 13) s"

lemma one_line_append [simp]: "one_line (s @ t) \<longleftrightarrow> one_line s \<and> one_line t"
  by (simp add: one_line_def)

lemma one_line_Nil [simp]: "one_line []"
  by (simp add: one_line_def)

lemma one_line_Cons: "one_line (c # s) \<longleftrightarrow> (of_char c :: nat) \<noteq> 10 \<and> (of_char c :: nat) \<noteq> 13 \<and> one_line s"
  by (simp add: one_line_def)

lemma hex_digit_line: "d < 16 \<Longrightarrow> (of_char (hex_digit d) :: nat) \<noteq> 10 \<and> (of_char (hex_digit d) :: nat) \<noteq> 13"
  by (simp add: hex_digit_def)

lemma escaped_one_line: "one_line (escape_char c)"
  using hex_digit_line[of "of_char c div 16"] hex_digit_line[of "of_char c mod 16"]
  by (auto simp: escape_char_def one_line_Cons Let_def)

lemma quoted_one_line: "one_line (json_quoted s)"
proof -
  have "one_line (concat (map escape_char s))" by (induction s) (simp_all add: escaped_one_line)
  then show ?thesis by (simp add: json_quoted_def one_line_Cons)
qed

lemma join_one_line: "one_line sep \<Longrightarrow> list_all one_line ts \<Longrightarrow> one_line (join sep ts)"
  by (induction sep ts rule: join.induct) simp_all

lemma json_one_line:
  "(\<forall>x. one_line (show_number x)) \<longrightarrow> (\<forall>t. json_text show_number v = Some t \<longrightarrow> one_line t)"
  "(\<forall>x. one_line (show_number x)) \<longrightarrow> list_all one_line (json_elements show_number vs)"
  "(\<forall>x. one_line (show_number x)) \<longrightarrow> list_all one_line (json_members show_number fs)"
  by (induction show_number v and show_number vs and show_number fs rule: json_text_json_elements_json_members.induct)
    (auto simp: quoted_one_line join_one_line one_line_Cons split: option.splits)

lemma upper_one_line: "one_line s \<Longrightarrow> one_line (upper s)"
  by (auto simp: one_line_def upper_def list_all_iff)

lemma entry_messages:
  "one_line (le_message (request_entry slow meth path status ms))" "one_line (le_message (error_entry stack meth path e))"
  "one_line (le_message (degraded_entry surface mode path e))"
proof -
  show "one_line (le_message (request_entry slow meth path status ms))" by (simp add: request_entry_def one_line_Cons)
  show "one_line (le_message (error_entry stack meth path e))"
    by (cases e) (auto simp: error_entry_def one_line_Cons split: bool.splits)
  show "one_line (le_message (degraded_entry surface mode path e))" by (simp add: degraded_entry_def one_line_Cons)
qed

text \<open>
  A caller cannot forge a line of the log: whatever the method and the path of a request and whatever message and
  stack an error carries, each entry is written as one line, as all of it but the constant message passes
  through \<^verbatim>\<open>JSON.stringify\<close>.
\<close>

theorem log_lines_cannot_be_forged:
  assumes numbers: "\<forall>x. one_line (show_number x)" and stamp: "one_line timestamp" and paint: "\<forall>l s. one_line s \<longrightarrow> one_line (paint l s)"
    and e: "e \<in> set (request_entries stack slow meth path outcome ms) \<or> e = degraded_entry surface mode path err"
  shows "one_line (console_text show_number paint timestamp e)"
proof -
  have "one_line (le_message e)"
    using e entry_messages by (auto simp: request_entries_def split: http_outcome.splits option.splits)
  moreover have "one_line (level_name (le_level e))" by (cases "le_level e") (simp_all add: one_line_Cons)
  moreover have "one_line (the (json_text show_number (JObj (le_meta e))))" using json_one_line(1)[of show_number "JObj (le_meta e)"] numbers by simp
  ultimately show ?thesis
    using stamp paint by (simp add: console_text_def printf_line_def upper_one_line one_line_Cons)
qed

lemma default_logger:
  assumes config: "load_config env = Inr config" and level: "env ''LOG_LEVEL'' = None" and env: "cfg_server_env config \<noteq> ''test''"
  shows "written_by (createLogger env config) e \<longleftrightarrow> le_level e \<noteq> Log_debug"
proof -
  have "cfg_log_level config = ''info''"
    using config level by (auto simp: load_config_def env_or_def split: sum.splits)
  then show ?thesis using env by (cases "le_level e") (simp_all add: written_by_def createLogger_def npm_levels_def)
qed

text \<open>
  By default, with no \<^verbatim>\<open>LOG_LEVEL\<close> and outside the tests, a request leaves a line exactly where it was answered 500
  or more or took at least a quarter of a second, and one more where an error that is not of the program's
  own classes was passed on.
\<close>

theorem routine_requests_are_silent:
  assumes config: "load_config env = Inr config" and level: "env ''LOG_LEVEL'' = None" and env: "cfg_server_env config \<noteq> ''test''"
    and slow: "env ''SLOW_REQUEST_LOG_MS'' = None"
  shows "map le_message (filter (written_by (createLogger env config)) (request_entries stack (SLOW_REQUEST_MS env) meth path outcome ms)) =
    (case outcome of Next (Some e) \<Rightarrow> if rate_limiter_error e = None \<and> (\<nexists>m. e = SyntaxError m True) then [''Unhandled error''] else [] | _ \<Rightarrow> []) @
    (if 500 \<le> http_status (answered outcome) then [''Request failed''] else if 250 \<le> ms then [''Slow request''] else [])"
proof -
  have number: "to_number ''250'' = Some 250" by code_simp
  have entry: "map le_message (filter (written_by (createLogger env config)) [error_entry stack meth path e])
      = (if rate_limiter_error e = None \<and> (\<nexists>m. e = SyntaxError m True) then [''Unhandled error''] else [])" for e
    by (cases e) (auto simp: default_logger[OF config level env] error_entry_def split: bool.splits)
  show ?thesis
    using entry by (auto simp: request_entries_def default_logger[OF config level env] request_entry_def SLOW_REQUEST_MS_def slow number
        split: http_outcome.splits option.splits)
qed

text \<open>
  A level that winston does not know silences everything; and the painted level of the text format is no longer what
  the painter wrote, as it is put in capitals with its escape codes.
\<close>

lemma unknown_level_silences: "lg_level lg = ''verbos'' \<Longrightarrow> \<not> written_by lg e"
  by (simp add: written_by_def npm_levels_def)

lemma capital_escape_codes: "upper (CHR 0x1B # ''[31merror'' @ CHR 0x1B # ''[39m'') = CHR 0x1B # ''[31MERROR'' @ CHR 0x1B # ''[39M''"
  by code_simp

end
