(* ===== verification/Server.thy ===== *)
theory Server
  imports Application Process Metric_Series Request_Bodies Logger
begin

text \<open>
  The whole service behind its port: \<^verbatim>\<open>createApp()\<close> of \<^verbatim>\<open>src/app.ts\<close> with every router it mounts. A request passes
  the log of requests, the body parser, the dispatch, the gate of the control plane, the schema and the
  handler; what comes out is one answer, the updates of the metrics and the entries of the log. The body
  parser is Express's: what it makes of the body, an object or an error, comes with the request.
\<close>

section \<open>The state of the process\<close>

text \<open>
  The engine of rules and the resolver of policies share the database and the compiled patterns, which the model keeps
  with the engine; the limiters and the admission service share the Redis server.
\<close>

record ('d, 're, 's) service =
  sv_engine :: "('d, 're) rule_engine"
  sv_resolver :: "('d, 're) policy_resolver"
  sv_running :: "'s running"

definition resolver_part :: "('d, 're, 's) service \<Rightarrow> ('d, 're) policy_resolver" where
  "resolver_part sv = (sv_resolver sv)\<lparr>ps_db := re_db (sv_engine sv), ps_patterns := re_patterns (sv_engine sv)\<rparr>"

definition put_scripts :: "'s process \<Rightarrow> ('d, 're, 's) service \<Rightarrow> ('d, 're, 's) service" where
  "put_scripts p sv = sv\<lparr>sv_running := (sv_running sv)\<lparr>run_scripts := p\<rparr>\<rparr>"

definition on_limiter :: "(('d, 're, 's) limiter, 'a) state \<Rightarrow> (('d, 're, 's) service, 'a) state" where
  "on_limiter = zoom (\<lambda>sv. (sv_engine sv, run_scripts (sv_running sv))) (\<lambda>w sv. put_scripts (snd w) (sv\<lparr>sv_engine := fst w\<rparr>))"

definition on_gateway :: "(('d, 're, 's) gateway_state, 'a) state \<Rightarrow> (('d, 're, 's) service, 'a) state" where
  "on_gateway = zoom (\<lambda>sv. (resolver_part sv, fst (run_scripts (sv_running sv))))
     (\<lambda>w sv. put_scripts (snd w, snd (run_scripts (sv_running sv)))
        (sv\<lparr>sv_resolver := fst w, sv_engine := (sv_engine sv)\<lparr>re_db := ps_db (fst w), re_patterns := ps_patterns (fst w)\<rparr>\<rparr>))"

definition on_rule_engine :: "(('d, 're) rule_engine, 'a) state \<Rightarrow> (('d, 're, 's) service, 'a) state" where
  "on_rule_engine = zoom sv_engine (\<lambda>e sv. sv\<lparr>sv_engine := e\<rparr>)"

definition on_running :: "('s running, 'a) state \<Rightarrow> (('d, 're, 's) service, 'a) state" where
  "on_running = zoom sv_running (\<lambda>r sv. sv\<lparr>sv_running := r\<rparr>)"

section \<open>What the process is made of, and a request\<close>

record ('d, 're, 's) app_env =
  app_db :: "'d database"
  app_js :: "'re js_lib"
  app_sha1 :: "string \<Rightarrow> string"
  app_rate :: "('s, script_reply) script_client"
  app_llm :: "('s, llm_reply) script_client"
  app_call :: "'s redis"
  app_pid :: nat
  app_defaults :: limiter_defaults
  app_config :: RateLimiterConfig
  app_slow_ms :: "rat option"
  app_version :: string
  app_date :: "int \<Rightarrow> string"
  app_validate :: "joi_schema \<Rightarrow> object \<Rightarrow> string list option"
  app_metrics :: "string \<times> (js_error + string)"
  app_stack :: "js_error \<Rightarrow> string"

text \<open>A request and what happens while it is served: the readings of the clock, the id drawn, the answers of the probes.\<close>

record incoming =
  in_method :: string
  in_path :: string
  in_headers :: "(string \<times> string) list"
  in_query :: "(string \<times> string) list"
  in_ip :: "string option"
  in_body :: "js_error + object"
  at_first :: int
  at_second :: int
  at_now :: int
  drawn_id :: string
  ping_answers :: bool
  probe_answers :: "js_error + unit"
  took_ms :: rat

definition app_control :: "('d, 're, 's) app_env \<Rightarrow> control_config" where
  "app_control env = control_of (app_config env)"

definition with_body :: "incoming \<Rightarrow> 'b \<Rightarrow> 'b http_request" where
  "with_body req b = \<lparr>rq_method = in_method req, rq_headers = in_headers req, rq_params = [], rq_query = in_query req, rq_body = b, rq_ip = in_ip req\<rparr>"

text \<open>The parts as the routers take them. The body is validated before it is read, so their own schemas pass what was read.\<close>

definition limits_of :: "('d, 're, 's) app_env \<Rightarrow> ('d, 're, 's) deployment" where
  "limits_of env = \<lparr>dep_db = app_db env, dep_js = app_js env, dep_defaults = app_defaults env, dep_sha1 = app_sha1 env,
     dep_client = app_rate env, dep_call = app_call env, dep_pid = app_pid env, toISOString = app_date env,
     failure_rateLimit = cfg_failure_rateLimit (app_config env)\<rparr>"

definition gateway_of :: "('d, 're, 's) app_env \<Rightarrow> ('d, 're, 's) gateway" where
  "gateway_of env = \<lparr>gw_db = app_db env, gw_js = app_js env, gw_sha1 = app_sha1 env, gw_client = app_llm env, gw_call = app_call env,
     failure_admission = cfg_failure_admission (app_config env), gw_control = app_control env, gw_date = app_date env,
     reserve_schema = (\<lambda>_. None), commit_schema = (\<lambda>_. None), release_schema = (\<lambda>_. None), policy_schema = (\<lambda>_. None),
     policy_update_schema = (\<lambda>_. None)\<rparr>"

definition rules_of :: "('d, 're, 's) app_env \<Rightarrow> 'd rules_env" where
  "rules_of env = \<lparr>rules_db = app_db env, rules_control = app_control env, show_date = app_date env,
     create_schema = (\<lambda>_. None), update_schema = (\<lambda>_. None)\<rparr>"

section \<open>The endpoints\<close>

text \<open>A route with a schema: an error, or the handler on what the body reads as; a body that cannot be read is left out.\<close>

definition checked :: "('d, 're, 's) app_env \<Rightarrow> joi_schema \<Rightarrow> (object \<Rightarrow> 'b option) \<Rightarrow> object \<Rightarrow> ('b \<Rightarrow> 'w served) \<Rightarrow> 'w served option" where
  "checked env schema reading b route =
     (case app_validate env schema b of
        Some details \<Rightarrow> Some (State_Monad.return (Next (Some (ValidationError (join_messages details))), []))
      | None \<Rightarrow> map_option route (reading b))"

definition answers_with :: "('w, http_response) state \<Rightarrow> 'w served" where
  "answers_with m = do { r \<leftarrow> m; State_Monad.return (Reply r, []) }"

definition id_of :: "(string \<times> string) list \<Rightarrow> string" where
  "id_of ps = (case map_of ps ''id'' of Some i \<Rightarrow> i | None \<Rightarrow> [])"

definition limit_endpoint :: "('d, 're, 's) app_env \<Rightarrow> incoming \<Rightarrow> object \<Rightarrow> endpoint \<Rightarrow> ('d, 're, 's) limiter served option" where
  "limit_endpoint env req b e =
     (let dep = limits_of env in
      case e of
        Check_rate_limit \<Rightarrow> checked env checkRateLimitSchema read_check b (\<lambda>b. check_route dep (\<lambda>_. None) (at_first req) (at_now req) (with_body req b))
      | Reset_key \<Rightarrow> checked env resetRateLimitSchema read_key b (\<lambda>b. reset_route dep (\<lambda>_. None) (at_now req) (with_body req b))
      | Key_stats \<Rightarrow> checked env getStatsSchema read_key b (\<lambda>b. stats_route dep (\<lambda>_. None) (at_now req) (with_body req b))
      | _ \<Rightarrow> None)"

definition rules_endpoint ::
    "('d, 're, 's) app_env \<Rightarrow> incoming \<Rightarrow> object \<Rightarrow> (string \<times> string) list \<Rightarrow> endpoint \<Rightarrow> (('d, 're) rule_engine) served option" where
  "rules_endpoint env req b ps e =
     (let route = rules_router (rules_of env) (at_now req) (drawn_id req) (with_body req ()); rid = id_of ps in
      case e of
        Rules_create \<Rightarrow> checked env createRuleSchema read_rule b (\<lambda>b. route (Create_rule b))
      | Rules_list \<Rightarrow> Some (route (List_rules (in_query req)))
      | Rules_get \<Rightarrow> Some (route (Get_rule rid))
      | Rules_update \<Rightarrow> checked env updateRuleSchema read_rule_update b (\<lambda>b. route (Update_rule rid b))
      | Rules_delete \<Rightarrow> Some (route (Delete_rule rid))
      | Rules_enable \<Rightarrow> Some (route (Enable_rule rid))
      | Rules_disable \<Rightarrow> Some (route (Disable_rule rid))
      | Rules_cache_stats \<Rightarrow> Some (route Cache_stats)
      | Rules_cache_invalidate \<Rightarrow> Some (route Cache_invalidate)
      | _ \<Rightarrow> None)"

definition llm_endpoint ::
    "('d, 're, 's) app_env \<Rightarrow> incoming \<Rightarrow> object \<Rightarrow> (string \<times> string) list \<Rightarrow> endpoint \<Rightarrow> ('d, 're, 's) gateway_state served option" where
  "llm_endpoint env req b ps e =
     (let gw = gateway_of env; t0 = at_first req; t1 = at_second req; now = at_now req;
          policies = policies_router gw now (with_body req ()); pid = id_of ps in
      case e of
        Llm_reserve \<Rightarrow> checked env reserveSchema read_reserve b (\<lambda>b. reserve_route gw t0 t1 now (drawn_id req) (with_body req b))
      | Llm_commit \<Rightarrow> checked env commitSchema read_commit b (\<lambda>b. commit_route gw t0 t1 now (with_body req b))
      | Llm_release \<Rightarrow> checked env releaseSchema read_release b (\<lambda>b. release_route gw t0 t1 now (with_body req b))
      | Llm_state \<Rightarrow> Some (state_route gw t0 t1 now (with_body req ()))
      | Policies_list \<Rightarrow> Some (policies List_policies)
      | Policies_create \<Rightarrow> checked env policySchema read_policy b (\<lambda>b. policies (Create_policy b))
      | Policies_update \<Rightarrow> checked env policyUpdateSchema Some b (\<lambda>b. policies (Update_policy pid b))
      | Policies_delete \<Rightarrow> Some (policies (Delete_policy pid))
      | Policies_cache \<Rightarrow> Some (policies Policy_cache)
      | _ \<Rightarrow> None)"

definition process_endpoint :: "('d, 're, 's) app_env \<Rightarrow> incoming \<Rightarrow> endpoint \<Rightarrow> ('s running) served option" where
  "process_endpoint env req e =
     (case e of
        Health \<Rightarrow> Some (answers_with (health_route (app_date env) (app_version env) (at_now req) (ping_answers req) (probe_answers req)))
      | Health_ready \<Rightarrow> Some (State (\<lambda>st. ((Reply (ready_route (ping_answers req) st), []), st)))
      | Health_live \<Rightarrow> Some (State_Monad.return (Reply live_route, []))
      | Metrics_text \<Rightarrow> Some (State_Monad.return (Reply (metrics_route (fst (app_metrics env)) (snd (app_metrics env))), []))
      | Banner \<Rightarrow> Some (State_Monad.return (Reply (banner (app_version env)), []))
      | _ \<Rightarrow> None)"

definition serve_endpoint ::
    "('d, 're, 's) app_env \<Rightarrow> incoming \<Rightarrow> object \<Rightarrow> (string \<times> string) list \<Rightarrow> endpoint \<Rightarrow> ('d, 're, 's) service served option" where
  "serve_endpoint env req b ps e =
     (if e \<in> {Check_rate_limit, Reset_key, Key_stats} then map_option on_limiter (limit_endpoint env req b e)
      else if e \<in> {Rules_create, Rules_list, Rules_get, Rules_update, Rules_delete, Rules_enable, Rules_disable, Rules_cache_stats, Rules_cache_invalidate}
      then map_option on_rule_engine (rules_endpoint env req b ps e)
      else if e \<in> {Health, Health_ready, Health_live, Metrics_text, Banner} then map_option on_running (process_endpoint env req e)
      else map_option on_gateway (llm_endpoint env req b ps e))"

section \<open>A request from end to end\<close>

definition app_gate :: "('d, 're, 's) app_env \<Rightarrow> incoming \<Rightarrow> http_outcome" where
  "app_gate env req = requireControlPlaneKey (app_control env) (with_body req ())"

text \<open>Where a request goes: a body that the parser refuses goes nowhere, as the parser stands before the routers.\<close>

definition goes_to :: "('d, 're, 's) app_env \<Rightarrow> incoming \<Rightarrow> dispatched" where
  "goes_to env req =
     (case in_body req of
        Inl e \<Rightarrow> Unrouted
      | Inr b \<Rightarrow> dispatch (app_gate env req) (in_method req) (path_segments (in_path req)))"

definition outcome_of :: "('d, 're, 's) app_env \<Rightarrow> incoming \<Rightarrow> ('d, 're, 's) service served option" where
  "outcome_of env req =
     (case in_body req of
        Inl e \<Rightarrow> Some (State_Monad.return (Next (Some e), []))
      | Inr b \<Rightarrow>
          (case goes_to env req of
             Stopped outcome base \<Rightarrow> Some (State_Monad.return (outcome, []))
           | Unrouted \<Rightarrow> Some (State_Monad.return (Next None, []))
           | Routed e ps template \<Rightarrow> serve_endpoint env req b ps e))"

text \<open>The answer, the updates of the metrics and the entries of the log, those of the finished response last.\<close>

definition createApp ::
    "('d, 're, 's) app_env \<Rightarrow> incoming \<Rightarrow> (('d, 're, 's) service, http_response \<times> metric_event list \<times> log_entry list) state option" where
  "createApp env req = map_option (\<lambda>m. do {
       (outcome, es) \<leftarrow> m;
       let response = answered outcome;
       let (route_path, baseUrl) = seen_by_log (goes_to env req);
       State_Monad.return
         (response, es @ requestLogger (in_method req) route_path baseUrl response,
          request_entries (app_stack env) (app_slow_ms env) (in_method req) (in_path req) outcome (took_ms req))
     }) (outcome_of env req)"

section \<open>One answer, counted once\<close>

lemma records_zoom [records]: "records_only P m \<Longrightarrow> records_only P (zoom get put m)"
  unfolding records_only_def by (auto split: prod.splits) (metis fst_conv snd_conv)

lemma records_answers_with [records]: "records_only P (answers_with m)"
  by (simp add: answers_with_def records_only_def split: prod.splits)

lemma checked_records:
  "checked env schema reading b route = Some m \<Longrightarrow> (\<And>x. records_only P (route x)) \<Longrightarrow> records_only P m"
  by (auto simp: checked_def intro!: records split: option.splits)

context handler_updates
begin

lemma limit_endpoint_records: "limit_endpoint env req b e = Some m \<Longrightarrow> records_only P m"
  by (cases e) (auto simp: limit_endpoint_def Let_def data_plane_records intro: checked_records)

lemma rules_endpoint_records: "rules_endpoint env req b ps e = Some m \<Longrightarrow> records_only P m"
  by (cases e) (auto simp: rules_endpoint_def Let_def control_plane_records intro: checked_records)

lemma llm_endpoint_records: "llm_endpoint env req b ps e = Some m \<Longrightarrow> records_only P m"
  by (cases e) (auto simp: llm_endpoint_def Let_def data_plane_records control_plane_records intro: checked_records)

lemma process_endpoint_records: "process_endpoint env req e = Some m \<Longrightarrow> records_only P m"
  by (cases e) (auto simp: process_endpoint_def records_only_def[of P "State f" for f] intro!: records)

lemma outcome_records: "outcome_of env req = Some m \<Longrightarrow> records_only P m"
  by (auto simp: outcome_of_def serve_endpoint_def on_limiter_def on_rule_engine_def on_running_def on_gateway_def
      limit_endpoint_records rules_endpoint_records llm_endpoint_records process_endpoint_records
      intro!: records split: sum.splits dispatched.splits if_splits)

end

definition counts_request :: "metric_event \<Rightarrow> bool" where
  "counts_request e \<longleftrightarrow> fst (series_of e) = ''rate_limiter_api_requests_total''"

interpretation uncounted: handler_updates "\<lambda>e. \<not> counts_request e"
  by unfold_locales (simp_all add: record_defs counts_request_def)

lemma createApp_run:
  assumes "createApp env req = Some m" "run_state m st = ((response, es, logs), st')"
  shows "\<exists>inner outcome es0. outcome_of env req = Some inner \<and> run_state inner st = ((outcome, es0), st') \<and> response = answered outcome
    \<and> es = es0 @ requestLogger (in_method req) (fst (seen_by_log (goes_to env req))) (snd (seen_by_log (goes_to env req))) response
    \<and> logs = request_entries (app_stack env) (app_slow_ms env) (in_method req) (in_path req) outcome (took_ms req)"
proof -
  obtain inner where inner: "outcome_of env req = Some inner" using assms(1) by (auto simp: createApp_def)
  obtain outcome es0 st0 where run: "run_state inner st = ((outcome, es0), st0)" by (metis prod.exhaust)
  show ?thesis
    using assms inner run by (auto simp: createApp_def Let_def split_beta)
qed


text \<open>An application over the documented server and a table of rules, with a key for the control plane; and a request without one.\<close>

definition example_app :: "(RuleRow list, atom list, doc_server) app_env" where
  "example_app =
     \<lparr>app_db = table_db, app_js = example_js, app_sha1 = (\<lambda>s. s), app_rate = server_client (\<lambda>s. s), app_llm = server_client (\<lambda>s. s),
      app_call = server_call, app_pid = 7, app_defaults = example_defaults,
      app_config = projr (load_config (map_of [(''CONTROL_PLANE_API_KEY'', ''s3cret'')])), app_slow_ms = None, app_version = ''1.0.0'',
      app_date = string_of_int, app_validate = (\<lambda>_ _. None), app_metrics = (''text/plain'', Inr []), app_stack = (\<lambda>_. [])\<rparr>"

definition example_incoming :: "string \<Rightarrow> string \<Rightarrow> js_error + object \<Rightarrow> incoming" where
  "example_incoming meth path b =
     \<lparr>in_method = meth, in_path = path, in_headers = [], in_query = [(''tenant'', ''acme''), (''model'', ''m1'')], in_ip = Some ''10.0.0.7'',
      in_body = b, at_first = 50001, at_second = 50001, at_now = 50002, drawn_id = ''r1'', ping_answers = True, probe_answers = Inr (),
      took_ms = 3\<rparr>"

lemma example_gate: "app_gate example_app (example_incoming meth path b)
    = Reply (json 401 (error_body ''UNAUTHORIZED'' ''Valid control plane credentials required''))"
  by (simp add: app_gate_def app_control_def control_of_def example_app_def load_config_def parseClusterNodes_def
      requireControlPlaneKey_def with_body_def example_incoming_def Let_def)

definition refused_body :: js_error where
  "refused_body = SyntaxError ''Unexpected end of JSON input'' True"


section \<open>Without the key nothing of the tables changes\<close>

text \<open>What a computation leaves as it was.\<close>

definition preserves :: "('s \<Rightarrow> 'v) \<Rightarrow> ('s, 'a) state \<Rightarrow> bool" where
  "preserves f m \<longleftrightarrow> (\<forall>s. f (snd (run_state m s)) = f s)"

named_theorems preserving

lemma preserves_run: "preserves f m \<Longrightarrow> run_state m s = (r, s') \<Longrightarrow> f s' = f s"
  unfolding preserves_def by (metis snd_conv)

lemma preserves_return [preserving]: "preserves f (State_Monad.return x)"
  by (simp add: preserves_def)

lemma preserves_bind [preserving]: "preserves f m \<Longrightarrow> (\<And>x. preserves f (g x)) \<Longrightarrow> preserves f (State_Monad.bind m g)"
  by (simp add: preserves_def split_beta)

lemma preserves_throwing [preserving]: "preserves f m \<Longrightarrow> (\<And>x. preserves f (g x)) \<Longrightarrow> preserves f (throwing m g)"
  unfolding throwing_def by (auto intro!: preserving split: sum.split)

lemma preserves_js [preserving]: "preserves f (js_return a)" "preserves f (js_throw e)"
  by (simp_all add: preserves_def)

lemma preserves_recorded [preserving]:
  "preserves f m \<Longrightarrow> preserves f (unrecorded m)" "preserves f (recording es a)" "preserves f (throw_recorded e)"
  "preserves f m' \<Longrightarrow> (\<And>a. preserves f (g a)) \<Longrightarrow> preserves f (and_then m' g)"
  "preserves f m'' \<Longrightarrow> preserves f (on_error m'' es)"
  unfolding unrecorded_def recording_def throw_recorded_def and_then_def on_error_def
  by (auto intro!: preserving split: prod.split sum.split)

lemma preserves_served [preserving]:
  "preserves f m \<Longrightarrow> preserves f (guardState surface mode open_body m)" "preserves f m \<Longrightarrow> preserves f (forwarding translate m)"
  "preserves f m' \<Longrightarrow> preserves f (before outcome m')" "preserves f n \<Longrightarrow> preserves f (answers_with n)"
  unfolding guardState_def forwarding_def before_def answers_with_def
  by (auto intro!: preserving split: prod.split sum.split)

lemma preserves_zoom: "preserves g m \<Longrightarrow> (\<And>t s. g t = g (get s) \<Longrightarrow> f (put t s) = f s) \<Longrightarrow> preserves f (zoom get put m)"
  by (auto simp: preserves_def split_beta)

text \<open>
  The two statements of the data plane only read: what \<open>tables\<close> shows of the database is the same after them.
\<close>

definition only_reads :: "('d \<Rightarrow> 't) \<Rightarrow> 'd database \<Rightarrow> bool" where
  "only_reads tables db \<longleftrightarrow>
     preserves tables (query_rules db enabled_rules_text []) \<and> preserves tables (query_policies db enabled_policies_text [])"


lemma preserves_if [preserving]: "preserves f m \<Longrightarrow> preserves f m' \<Longrightarrow> preserves f (if b then m else m')"
  by simp

lemma preserves_outside: "(\<And>t s. f (put t s) = f s) \<Longrightarrow> preserves f (zoom get put m)"
  by (simp add: preserves_def split_beta)

lemma preserves_on_engine: "preserves f m \<Longrightarrow> preserves (\<lambda>w. f (fst w)) (on_engine m)"
  unfolding on_engine_def by (rule preserves_zoom) auto

lemma preserves_on_resolver: "preserves f m \<Longrightarrow> preserves (\<lambda>w. f (fst w)) (on_resolver m)"
  unfolding on_resolver_def by (rule preserves_zoom) auto

lemma preserves_beside [preserving]: "preserves (\<lambda>w. f (fst w)) (on_process m)" "preserves (\<lambda>w. f (fst w)) (on_redis m)"
  unfolding on_process_def on_redis_def by (rule preserves_outside; simp)+

lemma resolveLimit_reads:
  assumes "only_reads tables db"
  shows "preserves (\<lambda>e. tables (re_db e)) (resolveLimit db js defaults now request overrides)"
proof -
  have read: "preserves tables (findEnabledRulesByPriority db)"
    using assms unfolding findEnabledRulesByPriority_def only_reads_def by (auto intro!: preserving)
  have "preserves (\<lambda>e. tables (re_db e)) (getEnabledRules db now)"
    unfolding preserves_def getEnabledRules_def using preserves_run[OF read] by (auto split: prod.split sum.split)
  then have "preserves (\<lambda>e. tables (re_db e)) (findMatchingRule db js now ctx)" for ctx
    unfolding findMatchingRule_def by (intro preserving) (auto intro!: preserves_outside)
  then show ?thesis
    unfolding resolveLimit_def limit_of_match_def by (auto intro!: preserving split: option.split bool.split)
qed

lemma resolve_only_reads:
  assumes "only_reads tables db"
  shows "preserves (\<lambda>r. tables (ps_db r)) (resolve db js now later tenant model)"
proof -
  have "preserves tables (findEnabledByPriority db)"
    using assms unfolding findEnabledByPriority_def only_reads_def by (auto intro!: preserving)
  then have load: "preserves (\<lambda>r. tables (ps_db r)) (load_begins db)"
    unfolding load_begins_def by (rule preserves_zoom) simp
  have "preserves (\<lambda>r. tables (ps_db r)) (ensureLoaded db now later)"
    unfolding preserves_def ensureLoaded_def load_ends_def using preserves_run[OF load] by (auto split: prod.split sum.split)
  then show ?thesis
    unfolding resolve_def by (intro preserving) (auto simp: preserves_def answer_from_set_def Let_def split: option.split prod.split)
qed

text \<open>The endpoints outside of the control plane.\<close>

lemma checked_preserves:
  "checked env schema reading b route = Some m \<Longrightarrow> (\<And>x. preserves f (route x)) \<Longrightarrow> preserves f m"
  by (auto simp: checked_def intro!: preserving split: option.splits)

lemma limit_endpoint_reads:
  assumes "only_reads tables (app_db env)" "limit_endpoint env req b e = Some m"
  shows "preserves (\<lambda>w. tables (re_db (fst w))) m"
proof -
  have db: "dep_db (limits_of env) = app_db env" by (simp add: limits_of_def)
  note look = preserves_on_engine[OF resolveLimit_reads[OF assms(1)]]
  have check: "preserves (\<lambda>w. tables (re_db (fst w))) (check_route (limits_of env) schema looked now r)" for schema looked now r
    unfolding check_route_def check_handler_def limiter_check_def db Let_def
    by (auto intro!: preserving look preserves_beside split: sum.split)
  have reset: "preserves (\<lambda>w. tables (re_db (fst w))) (reset_route (limits_of env) schema now r)" for schema now r
    unfolding reset_route_def by (auto intro!: preserving preserves_beside)
  have seen: "preserves (\<lambda>w. tables (re_db (fst w))) (stats_route (limits_of env) schema now r)" for schema now r
    unfolding stats_route_def by (auto intro!: preserving preserves_beside split: option.split)
  show ?thesis
    using assms(2) by (cases e) (auto simp: limit_endpoint_def Let_def check reset seen intro: checked_preserves)
qed

lemma llm_endpoint_reads:
  assumes "only_reads tables (app_db env)" "llm_endpoint env req b ps e = Some m" "\<not> control_plane e"
  shows "preserves (\<lambda>w. tables (ps_db (fst w))) m"
proof -
  have db: "gw_db (gateway_of env) = app_db env" by (simp add: gateway_of_def)
  have policy: "preserves (\<lambda>w. tables (ps_db (fst w))) (with_policy (gateway_of env) t0 t1 tenant model f)"
    if "\<And>p. preserves (\<lambda>w. tables (ps_db (fst w))) (f p)" for t0 t1 tenant model f
    unfolding with_policy_def db by (intro preserving preserves_on_resolver resolve_only_reads assms(1) that)
  have r: "preserves (\<lambda>w. tables (ps_db (fst w))) (reserve_route (gateway_of env) t0 t1 now rid r)" for t0 t1 now rid r
    unfolding reserve_route_def by (intro preserving policy)
  have c: "preserves (\<lambda>w. tables (ps_db (fst w))) (commit_route (gateway_of env) t0 t1 now r)" for t0 t1 now r
    unfolding commit_route_def by (intro preserving policy)
  have l: "preserves (\<lambda>w. tables (ps_db (fst w))) (release_route (gateway_of env) t0 t1 now r)" for t0 t1 now r
    unfolding release_route_def by (auto intro!: preserving policy split: prod.split)
  have s: "preserves (\<lambda>w. tables (ps_db (fst w))) (state_route (gateway_of env) t0 t1 now r)" for t0 t1 now r
    unfolding state_route_def Let_def by (intro preserving policy)
  show ?thesis
    using assms(2,3) by (cases e) (auto simp: llm_endpoint_def control_plane_def Let_def r c l s intro: checked_preserves)
qed

lemma serve_endpoint_reads:
  assumes "only_reads tables (app_db env)" "serve_endpoint env req b ps e = Some m" "\<not> control_plane e"
  shows "preserves (\<lambda>sv. tables (re_db (sv_engine sv))) m"
proof -
  have limiter: "preserves (\<lambda>sv. tables (re_db (sv_engine sv))) (on_limiter n)" if "preserves (\<lambda>w. tables (re_db (fst w))) n" for n
    unfolding on_limiter_def by (rule preserves_zoom[OF that]) (simp add: put_scripts_def)
  have gateway: "preserves (\<lambda>sv. tables (re_db (sv_engine sv))) (on_gateway n)" if "preserves (\<lambda>w. tables (ps_db (fst w))) n" for n
    unfolding on_gateway_def by (rule preserves_zoom[OF that]) (simp add: put_scripts_def resolver_part_def)
  have running: "preserves (\<lambda>sv. tables (re_db (sv_engine sv))) (on_running n)" for n
    unfolding on_running_def by (rule preserves_outside) simp
  have limits: "limit_endpoint env req b e' = Some n \<Longrightarrow> preserves (\<lambda>sv. tables (re_db (sv_engine sv))) (on_limiter n)" for e' n
    by (rule limiter[OF limit_endpoint_reads[OF assms(1)]])
  have llm: "llm_endpoint env req b ps e = Some n \<Longrightarrow> preserves (\<lambda>sv. tables (re_db (sv_engine sv))) (on_gateway n)" for n
    by (rule gateway[OF llm_endpoint_reads[OF assms(1) _ assms(3)]])
  show ?thesis
    using assms(2,3) unfolding serve_endpoint_def by (auto simp: control_plane_def running dest: limits llm split: if_splits)
qed

lemma goes_past_the_gate:
  assumes "goes_to env req = Routed e ps template" "app_gate env req \<noteq> Next None"
  shows "\<not> control_plane e"
proof
  assume control: "control_plane e"
  let ?ss = "path_segments (in_path req)"
  have routed: "dispatch (app_gate env req) (in_method req) ?ss = Routed e ps template"
    using assms(1) by (auto simp: goes_to_def split: sum.splits)
  then have "dispatch (Next None) (in_method req) ?ss = Routed e ps template" unfolding dispatch_def by (rule dispatch_past_gate)
  then obtain m full where "(m, full, e, template) \<in> set route_table" "method_matches m (in_method req)" "match_all full ?ss = Some ps"
    using routed_in_table by blast
  from control_plane_stopped[OF this control assms(2)] routed show False by simp
qed

lemma stranger_reads:
  assumes "only_reads tables (app_db env)" "app_gate env req \<noteq> Next None" "createApp env req = Some m"
  shows "preserves (\<lambda>sv. tables (re_db (sv_engine sv))) m"
proof -
  obtain inner where inner: "outcome_of env req = Some inner" using assms(3) by (auto simp: createApp_def)
  have "preserves (\<lambda>sv. tables (re_db (sv_engine sv))) inner"
    using inner serve_endpoint_reads[OF assms(1)] goes_past_the_gate[OF _ assms(2)]
    by (auto simp: outcome_of_def intro: preserving split: sum.splits dispatched.splits)
  then show ?thesis
    using assms(3) inner unfolding createApp_def Let_def
    by (auto intro!: preserving split: prod.split)
qed

text \<open>A run of requests, as long as the model reads their bodies.\<close>

fun serve_all :: "('d, 're, 's) app_env \<Rightarrow> incoming list \<Rightarrow> ('d, 're, 's) service \<Rightarrow> ('d, 're, 's) service option" where
  "serve_all env [] sv = Some sv"
| "serve_all env (req # reqs) sv = Option.bind (createApp env req) (\<lambda>m. serve_all env reqs (snd (run_state m sv)))"

text \<open>
  C38: A stranger, whose requests the gate does not pass, changes no rule and no policy, whatever the requests are, in
  whatever spelling and order: all that reaches the database from them are the two statements that load the
  enabled rules and the enabled policies.
\<close>

theorem strangers_change_nothing:
  assumes reads: "only_reads tables (app_db env)" and strangers: "\<forall>req \<in> set reqs. app_gate env req \<noteq> Next None"
    and run: "serve_all env reqs sv = Some sv'"
  shows "tables (re_db (sv_engine sv')) = tables (re_db (sv_engine sv))"
  using strangers run
proof (induction reqs arbitrary: sv)
  case (Cons req reqs)
  then obtain m where m: "createApp env req = Some m" "serve_all env reqs (snd (run_state m sv)) = Some sv'"
    by (auto simp: bind_eq_Some_conv)
  have "preserves (\<lambda>sv. tables (re_db (sv_engine sv))) m" using stranger_reads[OF reads _ m(1)] Cons.prems(1) by simp
  then show ?case using Cons.IH[OF _ m(2)] Cons.prems(1) by (simp add: preserves_def)
qed simp

lemma example_requests_served:
  "\<exists>sv'. serve_all example_app [example_incoming ''DELETE'' ''/API/v1/rules/r1'' (Inr []), example_incoming ''POST'' ''/api/v1/llm/policies/'' (Inr []),
     example_incoming ''GET'' ''/api/v1/llm/state'' (Inr [])] sv = Some sv'"
proof -
  let ?stop = "Reply (json 401 (error_body ''UNAUTHORIZED'' ''Valid control plane credentials required''))"
  have goes: "dispatch ?stop ''DELETE'' (path_segments ''/API/v1/rules/r1'') = Stopped ?stop ''/API/v1/rules''"
    "dispatch ?stop ''POST'' (path_segments ''/api/v1/llm/policies/'') = Stopped ?stop ''/api/v1/llm/policies''"
    "dispatch ?stop ''GET'' (path_segments ''/api/v1/llm/state'') = Routed Llm_state [] ''/state''"
    by code_simp+
  have made: "in_body (example_incoming meth path b) = b" "in_method (example_incoming meth path b) = meth" "in_path (example_incoming meth path b) = path"
    for meth path b by (simp_all add: example_incoming_def)
  have created: "\<exists>m. createApp example_app (example_incoming meth path (Inr b)) = Some m"
    if "dispatch ?stop meth (path_segments path) = d" "(case d of Routed e ps t \<Rightarrow> e = Llm_state | _ \<Rightarrow> True)" for meth path b d
    using that by (auto simp: createApp_def outcome_of_def goes_to_def example_gate serve_endpoint_def llm_endpoint_def Let_def made
        split: dispatched.splits)
  obtain m1 m2 m3 where ms: "createApp example_app (example_incoming ''DELETE'' ''/API/v1/rules/r1'' (Inr [])) = Some m1"
      "createApp example_app (example_incoming ''POST'' ''/api/v1/llm/policies/'' (Inr [])) = Some m2"
      "createApp example_app (example_incoming ''GET'' ''/api/v1/llm/state'' (Inr [])) = Some m3"
    using created[OF goes(1)] created[OF goes(2)] created[OF goes(3)] by fastforce
  show ?thesis unfolding serve_all.simps ms by simp
qed

theorem strangers_change_nothing_witness:
  "\<forall>sv. \<exists>sv'. serve_all example_app [example_incoming ''DELETE'' ''/API/v1/rules/r1'' (Inr []), example_incoming ''POST'' ''/api/v1/llm/policies/'' (Inr []),
       example_incoming ''GET'' ''/api/v1/llm/state'' (Inr [])] sv = Some sv'
     \<and> re_db (sv_engine sv') = re_db (sv_engine sv)"
proof
  fix sv :: "(RuleRow list, atom list, doc_server) service"
  let ?reqs = "[example_incoming ''DELETE'' ''/API/v1/rules/r1'' (Inr []), example_incoming ''POST'' ''/api/v1/llm/policies/'' (Inr []),
      example_incoming ''GET'' ''/api/v1/llm/state'' (Inr [])]"
  have reads: "only_reads (\<lambda>d. d) (app_db example_app)" by (simp add: only_reads_def preserves_def example_app_def table_db_def js_throw_def)
  have gates: "\<forall>req \<in> set ?reqs. app_gate example_app req \<noteq> Next None" by (simp add: example_gate)
  obtain sv' where run: "serve_all example_app ?reqs sv = Some sv'" using example_requests_served by blast
  show "\<exists>sv'. serve_all example_app ?reqs sv = Some sv' \<and> re_db (sv_engine sv') = re_db (sv_engine sv)"
    using run strangers_change_nothing[OF reads gates run] by blast
qed

end
