(* ===== verification/Isolation.thy ===== *)
theory Isolation
  imports Admission_Service Algorithms
begin

text \<open>
  Who shares state in Redis with whom. Everything the program keeps there belongs to an owner: the
  budget of a tenant and a model (\<^verbatim>\<open>ns\<close>, \<^verbatim>\<open>keys\<close> and \<^verbatim>\<open>settledKey\<close> of \<^verbatim>\<open>src/llm/admission.service.ts\<close>), or what
  one algorithm keeps under one key (\<^verbatim>\<open>src/algorithms/\<close>). Owners have no key in common, and what an
  owner is answered does not depend on what anyone else does. Which keys a cluster keeps together
  is decided by their hash tags.
\<close>

section \<open>Programs that see and change only some keys\<close>

definition agree :: "key set \<Rightarrow> keyspace \<Rightarrow> keyspace \<Rightarrow> bool" where
  "agree K a b \<longleftrightarrow> (\<forall>k \<in> K. a k = b k)"

text \<open>
  \<open>inside view K m\<close>: \<open>m\<close> changes no key outside \<open>K\<close>, and from states that agree on \<open>K\<close> it answers the
  same and leaves states that agree on \<open>K\<close>.
\<close>

definition inside :: "('s \<Rightarrow> keyspace) \<Rightarrow> key set \<Rightarrow> ('s, 'a) state \<Rightarrow> bool" where
  "inside view K m \<longleftrightarrow>
     (\<forall>s k. k \<notin> K \<longrightarrow> view (snd (run_state m s)) k = view s k)
     \<and> (\<forall>s t. agree K (view s) (view t) \<longrightarrow>
          fst (run_state m s) = fst (run_state m t) \<and> agree K (view (snd (run_state m s))) (view (snd (run_state m t))))"

named_theorems inside_intros \<open>a program built from parts that stay inside a set of keys stays inside it\<close>

lemma insideI:
  assumes "\<And>s k. k \<notin> K \<Longrightarrow> view (snd (run_state m s)) k = view s k"
    and "\<And>s t. agree K (view s) (view t) \<Longrightarrow> fst (run_state m s) = fst (run_state m t)"
    and "\<And>s t. agree K (view s) (view t) \<Longrightarrow> agree K (view (snd (run_state m s))) (view (snd (run_state m t)))"
  shows "inside view K m"
  unfolding inside_def using assms by blast

lemma inside_outer: "inside view K m \<Longrightarrow> k \<notin> K \<Longrightarrow> view (snd (run_state m s)) k = view s k"
  by (simp add: inside_def)

lemma inside_same:
  "inside view K m \<Longrightarrow> agree K (view s) (view t) \<Longrightarrow> fst (run_state m s) = fst (run_state m t)"
  "inside view K m \<Longrightarrow> agree K (view s) (view t) \<Longrightarrow> agree K (view (snd (run_state m s))) (view (snd (run_state m t)))"
  by (simp_all add: inside_def)

lemma inside_return [inside_intros]: "inside view K (State_Monad.return x)"
  by (simp add: inside_def)

lemma inside_bind [inside_intros]:
  assumes m: "inside view K m" and f: "\<And>x. inside view K (f x)"
  shows "inside view K (State_Monad.bind m f)"
proof (rule insideI)
  fix s k assume "k \<notin> K"
  then show "view (snd (run_state (State_Monad.bind m f) s)) k = view s k"
    using inside_outer[OF m] inside_outer[OF f] by (simp add: split_beta)
next
  fix s t assume start: "agree K (view s) (view t)"
  note mid = inside_same[OF m start]
  show "fst (run_state (State_Monad.bind m f) s) = fst (run_state (State_Monad.bind m f) t)"
    using inside_same(1)[OF f mid(2)] mid(1) by (simp add: split_beta)
  show "agree K (view (snd (run_state (State_Monad.bind m f) s))) (view (snd (run_state (State_Monad.bind m f) t)))"
    using inside_same(2)[OF f mid(2)] mid(1) by (simp add: split_beta)
qed

lemma inside_if [inside_intros]:
  "(b \<Longrightarrow> inside view K m) \<Longrightarrow> (\<not> b \<Longrightarrow> inside view K n) \<Longrightarrow> inside view K (if b then m else n)"
  by simp

lemma inside_let [inside_intros]: "(\<And>x. inside view K (f x)) \<Longrightarrow> inside view K (let x = e in f x)"
  by simp

lemma inside_prod [inside_intros]: "(\<And>a b. inside view K (f a b)) \<Longrightarrow> inside view K (case p of (a, b) \<Rightarrow> f a b)"
  by (cases p) simp

lemma inside_option [inside_intros]:
  "inside view K m \<Longrightarrow> (\<And>a. inside view K (f a)) \<Longrightarrow> inside view K (case x of None \<Rightarrow> m | Some a \<Rightarrow> f a)"
  by (cases x) auto

lemma inside_sum [inside_intros]:
  "(\<And>e. inside view K (f e)) \<Longrightarrow> (\<And>a. inside view K (g a)) \<Longrightarrow> inside view K (case x of Inl e \<Rightarrow> f e | Inr a \<Rightarrow> g a)"
  by (cases x) auto

lemma inside_llm_reply [inside_intros]:
  "(\<And>a. inside view K (f a)) \<Longrightarrow> (\<And>c. inside view K (g c)) \<Longrightarrow> (\<And>n. inside view K (h n)) \<Longrightarrow>
     inside view K (case r of AdmitReply a \<Rightarrow> f a | CommitReply c \<Rightarrow> g c | SnapshotReply n \<Rightarrow> h n)"
  by (cases r) auto

lemma inside_throwing [inside_intros]:
  "inside view K m \<Longrightarrow> (\<And>a. inside view K (f a)) \<Longrightarrow> inside view K (throwing m f)"
  unfolding throwing_def by (intro inside_intros)

lemma inside_js [inside_intros]: "inside view K (js_return a)" "inside view K (js_throw e)"
  unfolding js_return_def js_throw_def by (rule inside_return)+

lemma inside_recorded [inside_intros]:
  "inside view K m \<Longrightarrow> inside view K (unrecorded m)" "inside view K (recording es a)"
  "inside view K m' \<Longrightarrow> (\<And>a. inside view K (f a)) \<Longrightarrow> inside view K (and_then m' f)"
  unfolding unrecorded_def recording_def and_then_def by (intro inside_intros; assumption)+

lemma inside_mono: "inside view K m \<Longrightarrow> K \<subseteq> K' \<Longrightarrow> inside view K' m"
proof (rule insideI)
  assume m: "inside view K m" and sub: "K \<subseteq> K'"
  show "view (snd (run_state m s)) k = view s k" if "k \<notin> K'" for s k
    using inside_outer[OF m] that sub by blast
  fix s t assume on: "agree K' (view s) (view t)"
  then have "agree K (view s) (view t)" using sub by (auto simp: agree_def)
  note same = inside_same[OF m this]
  show "fst (run_state m s) = fst (run_state m t)" by (rule same(1))
  show "agree K' (view (snd (run_state m s))) (view (snd (run_state m t)))"
    unfolding agree_def
  proof
    fix k assume k: "k \<in> K'"
    show "view (snd (run_state m s)) k = view (snd (run_state m t)) k"
    proof (cases "k \<in> K")
      case True
      then show ?thesis using same(2) by (simp add: agree_def)
    next
      case False
      then show ?thesis using inside_outer[OF m False] on k by (simp add: agree_def)
    qed
  qed
qed

text \<open>A command sees and changes the keys it names.\<close>

fun cmd_keys :: "redis_cmd \<Rightarrow> key set" where
  "cmd_keys (GET k) = {k}"
| "cmd_keys (SET k v ex) = {k}"
| "cmd_keys (INCR k) = {k}"
| "cmd_keys (DEL ks) = set ks"
| "cmd_keys (PEXPIRE k ms) = {k}"
| "cmd_keys (EXPIRE k s) = {k}"
| "cmd_keys (ZADD k sc m) = {k}"
| "cmd_keys (ZREM k m) = {k}"
| "cmd_keys (ZREMRANGEBYSCORE k lo hi) = {k}"
| "cmd_keys (ZCARD k) = {k}"
| "cmd_keys (ZCOUNT k hi) = {k}"
| "cmd_keys (ZRANGE k i j) = {k}"
| "cmd_keys (ZRANGEBYSCORE k hi n) = {k}"
| "cmd_keys (HGET k f) = {k}"
| "cmd_keys (HSET k f v) = {k}"
| "cmd_keys (HDEL k f) = {k}"
| "cmd_keys (TTL k) = {k}"
| "cmd_keys (PTTL k) = {k}"

lemma cmd_writes_keys: "cmd_writes c \<subseteq> cmd_keys c"
  by (cases c) auto

lemma redis_doc_local:
  assumes on: "agree K a b" and keys: "cmd_keys c \<subseteq> K"
  shows "fst (redis_doc c a) = fst (redis_doc c b) \<and> agree K (snd (redis_doc c a)) (snd (redis_doc c b))"
proof (cases c)
  case (DEL ks)
  have "a k = b k" if "k \<in> set ks" for k using on keys that by (auto simp: agree_def DEL)
  then have "filter (\<lambda>k. a k \<noteq> None) (remdups ks) = filter (\<lambda>k. b k \<noteq> None) (remdups ks)"
    by (intro filter_cong) auto
  then show ?thesis using on by (simp add: DEL agree_def)
qed (use on keys in \<open>simp_all add: agree_def str_at_def zset_at_def hash_at_def ttl_at_def put_zset_def put_hash_def put_ttl_def Let_def
       split: option.split\<close>)

lemma inside_call:
  assumes server: "redis_server call elapse view" and keys: "cmd_keys c \<subseteq> K"
  shows "inside view K (call c)"
proof -
  have run: "fst (run_state (call c) s) = fst (redis_doc c (view s))" "view (snd (run_state (call c) s)) = snd (redis_doc c (view s))" for s
    using redis_server.call_documented[OF server, of c s] by (cases "run_state (call c) s"; simp)+
  show ?thesis
    unfolding inside_def run
    using redis_doc_local[OF _ keys] redis_doc_frame[of _ c] cmd_writes_keys[of c] keys by blast
qed

lemma inside_script:
  assumes server: "script_server call elapse view sha1 client cached"
    and keys: "length ks = numKeys script" and sim: "simulates view prog prog'" and prog: "inside id K prog'"
  shows "inside view K (run_script sha1 client script ks prog)"
proof -
  have run: "fst (run_state (run_script sha1 client script ks prog) s) = Inr (fst (run_state prog' (view s)))"
    "view (snd (run_state (run_script sha1 client script ks prog) s)) = snd (run_state prog' (view s))" for s
    using script_server.run_script_runs[OF server sim keys, of s] by auto
  show ?thesis
    unfolding inside_def run using prog by (auto simp: inside_def)
qed

lemma inside_getClient:
  "script_server call elapse view sha1 client cached \<Longrightarrow> inside view K (getClient client)"
  using script_server.connected by (fastforce simp: inside_def)


section \<open>Owners and their keys\<close>

text \<open>A budget is named by the joined names of its tenant and model, as \<^verbatim>\<open>ns\<close> joins them.\<close>

datatype owner = Budget string | Counter RateLimitAlgorithm key

definition budget_of :: "string \<Rightarrow> string \<Rightarrow> owner" where
  "budget_of tenant model = Budget (tenant @ ''|'' @ model)"

text \<open>An id that does not close the namespace: every UUID is one.\<close>

definition plain_id :: "string \<Rightarrow> bool" where
  "plain_id rid \<longleftrightarrow> \<not> str_includes rid ''}:''"

definition budget_suffixes :: "string list" where
  "budget_suffixes = ['':tpm'', '':tpm:ts'', '':rpm'', '':rpm:ts'', '':leases'', '':res'', '':stats'']"

fun owned :: "owner \<Rightarrow> key set" where
  "owned (Budget x) =
     (\<lambda>s. ''llm:{'' @ x @ ''}'' @ s) ` (set budget_suffixes \<union> (\<lambda>rid. '':settled:'' @ rid) ` {rid. plain_id rid})"
| "owned (Counter a k) =
     (case a of
        TOKEN_BUCKET \<Rightarrow> {fst (token_bucket_keys k), snd (token_bucket_keys k)}
      | SLIDING_WINDOW \<Rightarrow> {sliding_window_key k}
      | FIXED_WINDOW \<Rightarrow> range (fixed_window_key k)
      | LEAKY_BUCKET \<Rightarrow> {})"

lemma keys_owned:
  "k_tpm (keys t m) \<in> owned (budget_of t m)" "k_tpmTs (keys t m) \<in> owned (budget_of t m)" "k_rpm (keys t m) \<in> owned (budget_of t m)"
  "k_rpmTs (keys t m) \<in> owned (budget_of t m)" "k_leases (keys t m) \<in> owned (budget_of t m)"
  "k_reservations (keys t m) \<in> owned (budget_of t m)" "k_stats (keys t m) \<in> owned (budget_of t m)"
  "plain_id rid \<Longrightarrow> settledKey t m rid \<in> owned (budget_of t m)"
  by (auto simp: keys_def keys_in_def ns_def budget_of_def budget_suffixes_def settledKey_def settled_in_def)

text \<open>No suffix of a budget's key closes the namespace, and so the namespace can be read back from the key.\<close>

definition suffix_ok :: "string \<Rightarrow> bool" where
  "suffix_ok s \<longleftrightarrow> starts_with s '':'' \<and> \<not> str_includes s ''}:''"

lemma settled_suffix_ok: "plain_id rid \<Longrightarrow> suffix_ok ('':settled:'' @ rid)"
  by (simp add: suffix_ok_def plain_id_def)

lemma budget_suffix_ok: "s \<in> set budget_suffixes \<union> (\<lambda>rid. '':settled:'' @ rid) ` {rid. plain_id rid} \<Longrightarrow> suffix_ok s"
  using settled_suffix_ok by (auto simp: budget_suffixes_def suffix_ok_def)

lemma namespace_read_back:
  assumes "x @ ''}'' @ s = y @ ''}'' @ t" "suffix_ok s" "suffix_ok t" shows "x = y \<and> s = t"
proof -
  have longer: False if eq: "x = y @ c # us" "c # us @ ''}'' @ s = ''}'' @ t" and ok: "suffix_ok s" "suffix_ok t"
    for x y c us and s t :: string
  proof -
    obtain s' where "s = '':'' @ s'" using ok(1) by (auto simp: suffix_ok_def starts_with_iff)
    then have "t = us @ ''}:'' @ s'" using eq(2) by simp
    then show False using ok(2) unfolding suffix_ok_def includes_iff by blast
  qed
  from assms(1) obtain us where "x = y @ us \<and> us @ ''}'' @ s = ''}'' @ t \<or> x @ us = y \<and> ''}'' @ s = us @ ''}'' @ t"
    unfolding append_eq_append_conv2 by blast
  then show ?thesis
    using longer[of x y _ _ s t] longer[of y x _ _ t s] assms(2,3) by (cases us) auto
qed

lemma last_separator: "u @ c # v = u' @ c # v' \<Longrightarrow> c \<notin> set v \<Longrightarrow> c \<notin> set v' \<Longrightarrow> u = u'"
proof -
  assume eq: "u @ c # v = u' @ c # v'" and c: "c \<notin> set v" "c \<notin> set v'"
  from eq obtain us where "u = u' @ us \<and> us @ c # v = c # v' \<or> u @ us = u' \<and> c # v = us @ c # v'"
    unfolding append_eq_append_conv2 by blast
  then show ?thesis using c by (cases us) auto
qed

lemma no_colon_in_index: "CHR '':'' \<notin> set (string_of_int i)"
proof -
  have "CHR '':'' \<notin> set (string_of_nat n)" for n using string_of_nat_digits[of n] by (auto simp: digit_char_def)
  then show ?thesis by (simp add: string_of_int_def)
qed

lemma tokens_or_timestamp [simp]: "x @ '':tokens'' \<noteq> y @ '':timestamp''" "y @ '':timestamp'' \<noteq> x @ '':tokens''"
  using arg_cong[of "x @ '':tokens''" "y @ '':timestamp''" last] by auto

text \<open>No key has two owners.\<close>

lemma owned_disjoint: "k \<in> owned a \<Longrightarrow> k \<in> owned b \<Longrightarrow> a = b"
proof -
  assume a: "k \<in> owned a" and b: "k \<in> owned b"
  have budget: "x = y" if "k \<in> owned (Budget x)" "k \<in> owned (Budget y)" for x y
    using that namespace_read_back[of x _ y] budget_suffix_ok by (auto simp del: Un_iff)
  have mixed: False if "k \<in> owned (Budget x)" "k \<in> owned (Counter al k')" for x al k'
    using that by (cases al) (auto simp: token_bucket_keys_def sliding_window_key_def fixed_window_key_def)
  have counters: "al = al' \<and> c = c'" if "k \<in> owned (Counter al c)" "k \<in> owned (Counter al' c')" for al al' c c'
    using that last_separator[of c "CHR '':''" _ c', OF _ no_colon_in_index no_colon_in_index]
    by (cases al; cases al') (auto simp: token_bucket_keys_def sliding_window_key_def fixed_window_key_def)
  show ?thesis using a b budget mixed counters by (cases a; cases b) blast+
qed


section \<open>Every operation stays inside the keys of its owner\<close>

lemmas doc_inside = inside_call[OF keyspace_server.redis_server_axioms]

lemma refill_inside [inside_intros]: "bk \<in> K \<Longrightarrow> tk \<in> K \<Longrightarrow> inside id K (refill doc_call bk tk c r now)"
  unfolding refill_def by (intro inside_intros doc_inside) auto

lemma reclaim_loop_inside [inside_intros]:
  "lk \<in> K \<Longrightarrow> rk \<in> K \<Longrightarrow> inside id K (reclaim_loop doc_call lk rk ms t i)"
proof (induction ms arbitrary: t i)
  case (Cons m ms)
  then show ?case unfolding reclaim_loop.simps by (intro inside_intros doc_inside) auto
qed (simp add: inside_intros)

lemma admit_script_inside: "inside id (owned (budget_of t m)) (admit_script doc_call (keys t m) a)"
  unfolding admit_script_def take_hold_def persist_def
  by (intro inside_intros doc_inside) (simp_all add: keys_owned)

lemma calibrate_inside [inside_intros]: "sk \<in> K \<Longrightarrow> inside id K (calibrate doc_call sk a)"
  unfolding calibrate_def update_ewma_def by (intro inside_intros doc_inside) auto

lemma commit_script_inside: "plain_id rid \<Longrightarrow> inside id (owned (budget_of t m)) (commit_script doc_call (keys t m) (settledKey t m rid) a)"
  unfolding commit_script_def drop_hold_def Let_def
  by (intro inside_intros doc_inside) (simp_all add: keys_owned)

lemma snapshot_script_inside:
  "inside id (owned (budget_of t m)) (snapshot_script doc_call (keys t m) now tlim tr rlim rr d)"
  unfolding snapshot_script_def by (intro inside_intros doc_inside) (simp_all add: keys_owned)

lemma wrapped_script_inside:
  assumes server: "script_server call elapse view sha1 client cached" and keys: "length ks = numKeys script"
    and sim: "simulates view prog prog'" and prog: "inside id K prog'"
  shows "inside view K (run_script sha1 client script ks (do { raw \<leftarrow> prog; State_Monad.return (wrap raw) }))"
  by (rule inside_script[OF server keys, where prog' = "do { raw \<leftarrow> prog'; State_Monad.return (wrap raw) }"]) (intro sim_intros inside_intros sim prog)+

lemma llm_script_inside:
  assumes server: "script_server call elapse view sha1 client cached" and keys: "length ks = numKeys script"
  shows "inside view (owned (budget_of t m)) (run_script sha1 client script ks (do { raw \<leftarrow> admit_script call (keys t m) a; State_Monad.return (wrap raw) }))"
    and "plain_id rid \<Longrightarrow> inside view (owned (budget_of t m))
      (run_script sha1 client script ks (do { raw \<leftarrow> commit_script call (keys t m) (settledKey t m rid) c; State_Monad.return (wrap' raw) }))"
    and "inside view (owned (budget_of t m))
      (run_script sha1 client script ks (do { raw \<leftarrow> snapshot_script call (keys t m) now tlim tr rlim rr d; State_Monad.return (wrap'' raw) }))"
  by (rule wrapped_script_inside[OF server keys]; (rule admit_script_inside commit_script_inside snapshot_script_inside
      admit_script_sim commit_script_sim snapshot_script_sim script_server.axioms(1)[OF server] | assumption)+)+

lemma reserve_inside:
  assumes server: "script_server call elapse view sha1 client cached"
  shows "inside view (owned (budget_of (ar_tenant r) (ar_model r))) (reserve sha1 client call now rid r policy)"
  unfolding reserve_def Let_def observedOutputTokens_def
  by (intro inside_intros llm_script_inside[OF server] inside_getClient[OF server] inside_call[OF script_server.axioms(1)[OF server]])
    (simp_all add: admitScript_def keys_owned)

lemma commit_inside:
  assumes server: "script_server call elapse view sha1 client cached" and rid: "plain_id (cr_reservationId r)"
  shows "inside view (owned (budget_of (cr_tenant r) (cr_model r))) (commit sha1 client call now r policy)"
  unfolding commit_def Let_def by (intro inside_intros llm_script_inside[OF server] rid) (simp add: commitScript_def)

lemma release_inside:
  assumes server: "script_server call elapse view sha1 client cached" and rid: "plain_id rid"
  shows "inside view (owned (budget_of t m)) (release sha1 client call now t m rid policy)"
  unfolding release_def
  using commit_inside[OF server, of "\<lparr>cr_tenant = t, cr_model = m, cr_reservationId = rid, cr_promptTokens = 0, cr_outputTokens = 0, cr_serviceMs = None\<rparr>"] rid
  by simp

lemma snapshot_inside:
  assumes server: "script_server call elapse view sha1 client cached"
  shows "inside view (owned (budget_of t m)) (snapshot sha1 client call now t m policy)"
  unfolding snapshot_def Let_def by (intro inside_intros llm_script_inside[OF server]) (simp add: snapshotScript_def)

text \<open>
  \<^verbatim>\<open>RESET_SCRIPT\<close> of \<^verbatim>\<open>src/scripts/lua-scripts.ts\<close> deletes its keys one after the other and adds the replies up: it
  is the one command \<^verbatim>\<open>DEL\<close> on all of them. The algorithms' \<^verbatim>\<open>reset\<close> sends that command and not the script.
\<close>

fun delete_each :: "'s redis \<Rightarrow> key list \<Rightarrow> int \<Rightarrow> ('s, int) state" where
  "delete_each call [] deleted = State_Monad.return deleted"
| "delete_each call (k # ks) deleted = do { n \<leftarrow> call (DEL [k]); delete_each call ks (deleted + count_of n) }"

definition reset_script :: "'s redis \<Rightarrow> key list \<Rightarrow> ('s, int) state" where
  "reset_script call ks = delete_each call ks 0"

lemma delete_each_inside [inside_intros]: "set ks \<subseteq> K \<Longrightarrow> inside id K (delete_each doc_call ks deleted)"
proof (induction ks arbitrary: deleted)
  case (Cons k ks)
  then show ?case unfolding delete_each.simps by (intro inside_intros doc_inside) auto
qed (simp add: inside_intros)

lemma delete_each_runs:
  "run_state (delete_each doc_call ks deleted) st
     = (deleted + int (card {k \<in> set ks. st k \<noteq> None}), \<lambda>k. if k \<in> set ks then None else st k)"
proof (induction ks arbitrary: deleted st)
  case (Cons k ks)
  let ?st = "st(k := None)"
  have "{x \<in> set (k # ks). st x \<noteq> None} = (if st k = None then {} else {k}) \<union> {x \<in> set ks. ?st x \<noteq> None}" by auto
  then have "int (card {x \<in> set (k # ks). st x \<noteq> None}) = (if st k = None then 0 else 1) + int (card {x \<in> set ks. ?st x \<noteq> None})"
    by (simp add: card_insert_if)
  moreover have "(\<lambda>x. if x \<in> {k} then None else st x) = ?st" by auto
  ultimately show ?case by (auto simp: Cons fun_eq_iff)
qed simp

lemma reset_script_is_del:
  "run_state (reset_script doc_call ks) st = (count_of (fst (redis_doc (DEL ks) st)), snd (redis_doc (DEL ks) st))"
proof -
  have "card (set (filter (\<lambda>k. st k \<noteq> None) (remdups ks))) = length (filter (\<lambda>k. st k \<noteq> None) (remdups ks))"
    by (rule distinct_card) simp
  then have "card {k \<in> set ks. st k \<noteq> None} = length (filter (\<lambda>k. st k \<noteq> None) (remdups ks))"
    by (simp only: set_filter set_remdups)
  then show ?thesis by (simp only: reset_script_def delete_each_runs redis_doc.simps count_of_Count fst_conv snd_conv) simp
qed

lemma algorithm_scripts_inside:
  "tk \<in> K \<Longrightarrow> sk \<in> K \<Longrightarrow> inside id K (token_bucket_script doc_call tk sk capacity rate now requested ttl)"
  "k \<in> K \<Longrightarrow> inside id K (sliding_window_script doc_call k now w m mem)"
  "k \<in> K \<Longrightarrow> inside id K (fixed_window_script doc_call k m w now)"
  unfolding token_bucket_script_def sliding_window_script_def fixed_window_script_def Let_def
  by (intro inside_intros doc_inside; simp)+


lemma algorithm_script_inside:
  assumes server: "script_server call elapse view sha1 client cached" and keys: "length ks = numKeys script"
  shows "tk \<in> K \<Longrightarrow> sk \<in> K \<Longrightarrow> inside view K (run_script sha1 client script ks (token_bucket_script call tk sk capacity rate now requested ttl))"
    and "k \<in> K \<Longrightarrow> inside view K (run_script sha1 client script ks (sliding_window_script call k now w m mem))"
    and "k \<in> K \<Longrightarrow> inside view K (run_script sha1 client script ks (fixed_window_script call k m w now))"
  by (rule inside_script[OF server keys]; (rule algorithm_scripts_inside token_bucket_script_sim sliding_window_script_sim fixed_window_script_sim
      script_server.axioms(1)[OF server] | assumption)+)+

lemma token_bucket_inside:
  assumes server: "script_server call elapse view sha1 client cached"
  shows "inside view (owned (Counter TOKEN_BUCKET k)) (token_bucket_check sha1 client call now k lmt w cost)"
    and "inside view (owned (Counter TOKEN_BUCKET k)) (token_bucket_reset client call k)"
    and "inside view (owned (Counter TOKEN_BUCKET k)) (token_bucket_getStats client call now k)"
  unfolding token_bucket_check_def token_bucket_reset_def token_bucket_getStats_def Let_def token_bucket_keys_def prod.case
  by (intro inside_intros algorithm_script_inside[OF server] inside_getClient[OF server] inside_call[OF script_server.axioms(1)[OF server]];
      simp add: token_bucket_def token_bucket_keys_def)+

lemma fixed_window_inside:
  assumes server: "script_server call elapse view sha1 client cached"
  shows "inside view (owned (Counter FIXED_WINDOW k)) (fixed_window_check sha1 client call now k lmt w cost)"
    and "inside view (owned (Counter FIXED_WINDOW k)) (fixed_window_reset client call now k w)"
    and "inside view (owned (Counter FIXED_WINDOW k)) (fixed_window_getStats client call now k w)"
  unfolding fixed_window_check_def fixed_window_reset_def fixed_window_getStats_def Let_def
  by (intro inside_intros algorithm_script_inside[OF server] inside_getClient[OF server] inside_call[OF script_server.axioms(1)[OF server]];
      simp add: fixed_window_def)+


lemma sliding_window_inside:
  assumes server: "script_server call elapse view sha1 client cached"
  shows "inside view (owned (Counter SLIDING_WINDOW k)) (sliding_window_check sha1 client call now pid sequence k lmt w cost)"
    and "inside view (owned (Counter SLIDING_WINDOW k)) (sliding_window_reset client call k)"
    and "inside view (owned (Counter SLIDING_WINDOW k)) (sliding_window_getStats client call now k)"
  unfolding sliding_window_check_def sliding_window_reset_def sliding_window_getStats_def Let_def
  by (intro inside_intros algorithm_script_inside[OF server] inside_getClient[OF server] inside_call[OF script_server.axioms(1)[OF server]];
      simp add: sliding_window_def)+

section \<open>Separated owners do not interfere\<close>

text \<open>The answers of the steps of a list, one after the other.\<close>

primrec run_all :: "('o \<Rightarrow> ('s, 'a) state) \<Rightarrow> 'o list \<Rightarrow> ('s, 'a list) state" where
  "run_all step [] = State_Monad.return []"
| "run_all step (op # ops) = do { a \<leftarrow> step op; as \<leftarrow> run_all step ops; State_Monad.return (a # as) }"

text \<open>
  Steps of owners over one store. A step changes only the keys of its owner; those of an observed owner
  also see only these; and a step of nobody (time) treats each key by itself.
\<close>

locale separated =
  fixes step :: "'o \<Rightarrow> ('s, 'a) state" and owner_of :: "'o \<Rightarrow> 'w option" and proper :: "'o \<Rightarrow> bool"
    and view :: "'s \<Rightarrow> keyspace" and keys_of :: "'w \<Rightarrow> key set" and observed :: 'w
  assumes others: "proper op \<Longrightarrow> owner_of op = Some w \<Longrightarrow> k \<notin> keys_of w \<Longrightarrow> view (snd (run_state (step op) s)) k = view s k"
    and own: "proper op \<Longrightarrow> owner_of op = Some observed \<or> owner_of op = None \<Longrightarrow> agree (keys_of observed) (view s) (view t) \<Longrightarrow>
      fst (run_state (step op) s) = fst (run_state (step op) t)
      \<and> agree (keys_of observed) (view (snd (run_state (step op) s))) (view (snd (run_state (step op) t)))"
    and apart: "k \<in> keys_of w \<Longrightarrow> k \<in> keys_of w' \<Longrightarrow> w = w'"
begin

definition mine :: "'o \<Rightarrow> bool" where
  "mine op \<longleftrightarrow> owner_of op = Some observed \<or> owner_of op = None"

lemma strangers_change_nothing_mine:
  "proper op \<Longrightarrow> \<not> mine op \<Longrightarrow> agree (keys_of observed) (view (snd (run_state (step op) s))) (view s)"
  using others[of op _ _ s] apart unfolding mine_def agree_def by (metis option.exhaust)

lemma noninterference:
  "list_all proper ops \<Longrightarrow> agree (keys_of observed) (view s) (view t) \<Longrightarrow>
     map snd (filter (mine \<circ> fst) (zip ops (fst (run_state (run_all step ops) s)))) = fst (run_state (run_all step (filter mine ops)) t)
     \<and> agree (keys_of observed) (view (snd (run_state (run_all step ops) s))) (view (snd (run_state (run_all step (filter mine ops)) t)))"
proof (induction ops arbitrary: s t)
  case (Cons op ops)
  have p: "proper op" "list_all proper ops" using Cons.prems(1) by simp_all
  show ?case
  proof (cases "mine op")
    case True
    note now = own[OF p(1) True[unfolded mine_def] Cons.prems(2)]
    show ?thesis using True now Cons.IH[OF p(2) conjunct2[OF now]] by (simp add: split_beta)
  next
    case False
    have "agree (keys_of observed) (view (snd (run_state (step op) s))) (view t)"
      using strangers_change_nothing_mine[OF p(1) False, of s] Cons.prems(2) by (simp add: agree_def)
    then show ?thesis using False Cons.IH[OF p(2)] by (simp add: split_beta)
  qed
qed simp

end


section \<open>The traffic of a gateway\<close>

text \<open>
  The calls that reach the limiters and the admission service, each with the clock it reads, the policy that
  was resolved for it and the id it draws, and the passing of time on the server.
\<close>

datatype traffic =
    Reserving AdmissionPolicy int string AdmissionRequest
  | Settling AdmissionPolicy int CommitRequest
  | Releasing AdmissionPolicy int string string string
  | Reading AdmissionPolicy int string string
  | Checking RateLimitAlgorithm int key int int
  | Resetting RateLimitAlgorithm int key int
  | Asking RateLimitAlgorithm int key int
  | Passing nat

datatype traffic_answer =
    Admission "(js_error + AdmissionResult) \<times> metric_event list"
  | Settlement "(js_error + CommitResult) \<times> metric_event list"
  | Snapshot "(js_error + AdmissionSnapshot) \<times> metric_event list"
  | Verdict "js_error + RateLimitCheckResult"
  | Dropped "js_error + unit"
  | Figures "js_error + LimiterStats option"
  | Silence

record 's backend =
  be_sha1 :: "string \<Rightarrow> string"
  be_llm :: "('s, llm_reply) script_client"
  be_rate :: "('s, script_reply) script_client"
  be_call :: "'s redis"
  be_elapse :: "nat \<Rightarrow> 's \<Rightarrow> 's"
  be_pid :: nat

definition answering :: "('a \<Rightarrow> 'b) \<Rightarrow> ('s, 'a) state \<Rightarrow> ('s, 'b) state" where
  "answering wrap m = do { a \<leftarrow> m; State_Monad.return (wrap a) }"

definition with_algorithm ::
    "'s backend \<Rightarrow> int \<Rightarrow> RateLimitAlgorithm \<Rightarrow> ('s rate_limit_algorithm \<Rightarrow> ('s process, js_error + 'a) state) \<Rightarrow> ('s process, js_error + 'a) state" where
  "with_algorithm be now a f =
     (case getAlgorithm (be_sha1 be) (be_rate be) (be_call be) now (be_pid be) a of Inl e \<Rightarrow> js_throw e | Inr algorithm \<Rightarrow> f algorithm)"

definition serve_traffic :: "'s backend \<Rightarrow> traffic \<Rightarrow> ('s process, traffic_answer) state" where
  "serve_traffic be t =
     (case t of
        Reserving policy now rid r \<Rightarrow> answering Admission (on_server (reserve (be_sha1 be) (be_llm be) (be_call be) now rid r policy))
      | Settling policy now r \<Rightarrow> answering Settlement (on_server (commit (be_sha1 be) (be_llm be) (be_call be) now r policy))
      | Releasing policy now tenant model rid \<Rightarrow>
          answering Settlement (on_server (release (be_sha1 be) (be_llm be) (be_call be) now tenant model rid policy))
      | Reading policy now tenant model \<Rightarrow>
          answering Snapshot (on_server (snapshot (be_sha1 be) (be_llm be) (be_call be) now tenant model policy))
      | Checking a now k lmt w \<Rightarrow> answering Verdict (with_algorithm be now a (\<lambda>algorithm. alg_check algorithm k lmt w 1))
      | Resetting a now k w \<Rightarrow> answering Dropped (with_algorithm be now a (\<lambda>algorithm. alg_reset algorithm k w))
      | Asking a now k w \<Rightarrow> answering Figures (with_algorithm be now a (\<lambda>algorithm. alg_getStats algorithm k w))
      | Passing d \<Rightarrow> State (\<lambda>(s, sequence). (Silence, (be_elapse be d s, sequence))))"

fun traffic_owner :: "traffic \<Rightarrow> owner option" where
  "traffic_owner (Reserving policy now rid r) = Some (budget_of (ar_tenant r) (ar_model r))"
| "traffic_owner (Settling policy now r) = Some (budget_of (cr_tenant r) (cr_model r))"
| "traffic_owner (Releasing policy now tenant model rid) = Some (budget_of tenant model)"
| "traffic_owner (Reading policy now tenant model) = Some (budget_of tenant model)"
| "traffic_owner (Checking a now k lmt w) = Some (Counter a k)"
| "traffic_owner (Resetting a now k w) = Some (Counter a k)"
| "traffic_owner (Asking a now k w) = Some (Counter a k)"
| "traffic_owner (Passing d) = None"

fun proper_ids :: "traffic \<Rightarrow> bool" where
  "proper_ids (Settling policy now r) = plain_id (cr_reservationId r)"
| "proper_ids (Releasing policy now tenant model rid) = plain_id rid"
| "proper_ids t = True"

definition sliding_owner :: "owner \<Rightarrow> bool" where
  "sliding_owner w \<longleftrightarrow> (case w of Counter SLIDING_WINDOW k \<Rightarrow> True | _ \<Rightarrow> False)"

lemma inside_on_server: "inside view K m \<Longrightarrow> inside (view \<circ> fst) K (on_server m)"
  by (auto simp: inside_def on_server_def split_beta)

lemma inside_answering: "inside view K m \<Longrightarrow> inside view K (answering wrap m)"
  unfolding answering_def by (intro inside_intros)

lemma getAlgorithm_cases:
  "getAlgorithm sha1 client call now pid TOKEN_BUCKET = Inr (TokenBucketAlgorithm sha1 client call now)"
  "getAlgorithm sha1 client call now pid SLIDING_WINDOW = Inr (SlidingWindowAlgorithm sha1 client call now pid)"
  "getAlgorithm sha1 client call now pid FIXED_WINDOW = Inr (FixedWindowAlgorithm sha1 client call now)"
  "\<exists>e. getAlgorithm sha1 client call now pid LEAKY_BUCKET = Inl e"
  by (simp_all add: getAlgorithm_def registry_def)


definition two_clients :: "'s backend \<Rightarrow> ('s \<Rightarrow> keyspace) \<Rightarrow> (string \<Rightarrow> 's \<Rightarrow> bool) \<Rightarrow> bool" where
  "two_clients be view cached \<longleftrightarrow>
     script_server (be_call be) (be_elapse be) view (be_sha1 be) (be_llm be) cached
     \<and> script_server (be_call be) (be_elapse be) view (be_sha1 be) (be_rate be) cached"

lemma limiter_calls_inside:
  assumes server: "script_server (be_call be) (be_elapse be) view (be_sha1 be) (be_rate be) cached" and a: "a \<noteq> SLIDING_WINDOW"
  shows "inside (view \<circ> fst) (owned (Counter a k)) (serve_traffic be (Checking a now k lmt w))"
    and "inside (view \<circ> fst) (owned (Counter a k)) (serve_traffic be (Resetting a now k w))"
    and "inside (view \<circ> fst) (owned (Counter a k)) (serve_traffic be (Asking a now k w))"
  using a token_bucket_inside[OF server, of k] fixed_window_inside[OF server, of k] getAlgorithm_cases(4)[of "be_sha1 be" "be_rate be" "be_call be" now "be_pid be"]
  by (cases a; auto simp: serve_traffic_def with_algorithm_def getAlgorithm_cases TokenBucketAlgorithm_def FixedWindowAlgorithm_def
      simp del: owned.simps intro!: inside_answering inside_on_server inside_js)+

lemma sliding_calls_outer:
  assumes server: "script_server (be_call be) (be_elapse be) view (be_sha1 be) (be_rate be) cached"
    and t: "t \<in> {Checking SLIDING_WINDOW now k lmt w, Resetting SLIDING_WINDOW now k w, Asking SLIDING_WINDOW now k w}"
    and key: "key \<notin> owned (Counter SLIDING_WINDOW k)"
  shows "view (fst (snd (run_state (serve_traffic be t) p))) key = view (fst p) key"
  using t key inside_outer[OF sliding_window_inside(1)[OF server, of k now "be_pid be" "snd p" lmt w 1] key, of "fst p"]
    inside_outer[OF sliding_window_inside(2)[OF server, of k] key, of "fst p"]
    inside_outer[OF sliding_window_inside(3)[OF server, of k now] key, of "fst p"]
  by (auto simp: serve_traffic_def answering_def with_algorithm_def getAlgorithm_cases SlidingWindowAlgorithm_def on_server_def split_beta
      simp del: owned.simps)

lemma admission_calls_inside:
  assumes server: "script_server (be_call be) (be_elapse be) view (be_sha1 be) (be_llm be) cached"
    and t: "traffic_owner t = Some (Budget x)" and ids: "proper_ids t"
  shows "inside (view \<circ> fst) (owned (Budget x)) (serve_traffic be t)"
  using t ids reserve_inside[OF server] commit_inside[OF server] release_inside[OF server] snapshot_inside[OF server]
  by (cases t) (auto simp: serve_traffic_def budget_of_def simp del: owned.simps intro!: inside_answering inside_on_server)

lemma traffic_outer:
  assumes be: "two_clients be view cached" and ids: "proper_ids t" and own: "traffic_owner t = Some w" and key: "key \<notin> owned w"
  shows "(view \<circ> fst) (snd (run_state (serve_traffic be t) p)) key = (view \<circ> fst) p key"
proof (cases w)
  case (Budget x)
  show ?thesis
    using inside_outer[OF admission_calls_inside[OF _ own[unfolded Budget] ids] key[unfolded Budget]] be unfolding two_clients_def by blast
next
  case (Counter a k)
  have server: "script_server (be_call be) (be_elapse be) view (be_sha1 be) (be_rate be) cached" using be by (simp add: two_clients_def)
  obtain now lmt v where t: "t = Checking a now k lmt v \<or> t = Resetting a now k v \<or> t = Asking a now k v"
    using own Counter by (cases t) (auto simp: budget_of_def)
  show ?thesis
  proof (cases "a = SLIDING_WINDOW")
    case True
    then show ?thesis using sliding_calls_outer[OF server, of t now k lmt v key p] t key Counter by auto
  next
    case False
    then show ?thesis using inside_outer[OF limiter_calls_inside(1)[OF server False, of k now lmt v]]
      inside_outer[OF limiter_calls_inside(2)[OF server False, of k now v]] inside_outer[OF limiter_calls_inside(3)[OF server False, of k now v]]
      t key Counter by blast
  qed
qed

lemma traffic_own:
  assumes be: "two_clients be view cached" and ids: "proper_ids t" and own: "traffic_owner t = Some w \<or> traffic_owner t = None"
    and w: "\<not> sliding_owner w" and on: "agree (owned w) ((view \<circ> fst) p) ((view \<circ> fst) q)"
  shows "fst (run_state (serve_traffic be t) p) = fst (run_state (serve_traffic be t) q)
    \<and> agree (owned w) ((view \<circ> fst) (snd (run_state (serve_traffic be t) p))) ((view \<circ> fst) (snd (run_state (serve_traffic be t) q)))"
proof (cases "traffic_owner t")
  case None
  then obtain d where t: "t = Passing d" by (cases t) auto
  have "view (be_elapse be d s) = expire_after d (view s)" for s
    using be unfolding two_clients_def script_server_def redis_server_def by blast
  then show ?thesis using on by (simp add: t serve_traffic_def agree_def expire_after_def split_beta)
next
  case (Some w')
  then have mine: "traffic_owner t = Some w" using own by simp
  have "inside (view \<circ> fst) (owned w) (serve_traffic be t)"
  proof (cases w)
    case (Budget x)
    then show ?thesis using admission_calls_inside[OF _ mine[unfolded Budget] ids] be unfolding two_clients_def by blast
  next
    case (Counter a k)
    then have "a \<noteq> SLIDING_WINDOW" using w by (auto simp: sliding_owner_def)
    then show ?thesis using limiter_calls_inside[of be view cached a k] be mine Counter
      by (cases t) (auto simp: two_clients_def budget_of_def simp del: owned.simps)
  qed
  from inside_same[OF this on] show ?thesis by blast
qed


interpretation gateway_traffic:
  separated "serve_traffic be" traffic_owner "\<lambda>t. proper_ids t \<and> two_clients be view cached \<and> \<not> sliding_owner w" "view \<circ> fst" owned w
  for be :: "'s backend" and view cached w
proof unfold_locales
  fix t w' k and s :: "'s process"
  assume "proper_ids t \<and> two_clients be view cached \<and> \<not> sliding_owner w" "traffic_owner t = Some w'" "k \<notin> owned w'"
  then show "(view \<circ> fst) (snd (run_state (serve_traffic be t) s)) k = (view \<circ> fst) s k"
    using traffic_outer by blast
next
  fix t and p q :: "'s process"
  assume t: "proper_ids t \<and> two_clients be view cached \<and> \<not> sliding_owner w" "traffic_owner t = Some w \<or> traffic_owner t = None"
    and on: "agree (owned w) ((view \<circ> fst) p) ((view \<circ> fst) q)"
  show "fst (run_state (serve_traffic be t) p) = fst (run_state (serve_traffic be t) q)
      \<and> agree (owned w) ((view \<circ> fst) (snd (run_state (serve_traffic be t) p))) ((view \<circ> fst) (snd (run_state (serve_traffic be t) q)))"
    using traffic_own[OF _ _ t(2) _ on] t(1) by blast
qed (rule owned_disjoint)

definition concerns :: "owner \<Rightarrow> traffic \<Rightarrow> bool" where
  "concerns w t \<longleftrightarrow> traffic_owner t = Some w \<or> traffic_owner t = None"

lemma joined_names: "CHR ''|'' \<notin> set t \<Longrightarrow> CHR ''|'' \<notin> set t' \<Longrightarrow> t @ CHR ''|'' # m = t' @ CHR ''|'' # m' \<longleftrightarrow> t = t' \<and> m = m'"
proof (induction t arbitrary: t')
  case Nil
  then show ?case by (cases t') auto
next
  case (Cons c t)
  then show ?case by (cases t') auto
qed

text \<open>
  C12: What an owner is answered is its own affair. Over any server that keeps the contracts, and any
  interleaving of reservations, settlements, releases, snapshots, checks, resets and statistics of
  all tenants and keys with the passing of time, the answers to the calls of one budget, token
  bucket or fixed window are the answers it would have had if no one else had called. Two budgets are
  the same one exactly where the joined names of tenant and model are: for tenants without a bar in
  their name, where both names are, but otherwise two tenants can share one, their keys and all.
\<close>

theorem owners_do_not_interfere:
  assumes be: "two_clients be view cached" and w: "\<not> sliding_owner w" and ids: "list_all proper_ids ts"
  shows "map snd (filter (concerns w \<circ> fst) (zip ts (fst (run_state (run_all (serve_traffic be) ts) p))))
      = fst (run_state (run_all (serve_traffic be) (filter (concerns w) ts)) p)
    \<and> (budget_of tenant model = budget_of tenant' model' \<longleftrightarrow> keys tenant model = keys tenant' model')
    \<and> (CHR ''|'' \<notin> set tenant \<and> CHR ''|'' \<notin> set tenant' \<longrightarrow>
        (budget_of tenant model = budget_of tenant' model' \<longleftrightarrow> tenant = tenant' \<and> model = model'))"
proof (intro conjI)
  have mine: "gateway_traffic.mine w = concerns w" by (rule ext) (simp add: gateway_traffic.mine_def concerns_def)
  have "list_all (\<lambda>t. proper_ids t \<and> two_clients be view cached \<and> \<not> sliding_owner w) ts"
    using be w ids by (simp add: list_all_iff)
  from conjunct1[OF gateway_traffic.noninterference[OF this, of p p]]
  show "map snd (filter (concerns w \<circ> fst) (zip ts (fst (run_state (run_all (serve_traffic be) ts) p))))
      = fst (run_state (run_all (serve_traffic be) (filter (concerns w) ts)) p)"
    unfolding mine by (simp add: agree_def)
  show "budget_of tenant model = budget_of tenant' model' \<longleftrightarrow> keys tenant model = keys tenant' model'"
    by (simp add: budget_of_def keys_def keys_in_def ns_def)
  show "CHR ''|'' \<notin> set tenant \<and> CHR ''|'' \<notin> set tenant' \<longrightarrow>
      (budget_of tenant model = budget_of tenant' model' \<longleftrightarrow> tenant = tenant' \<and> model = model')"
    by (simp add: budget_of_def joined_names)
qed

text \<open>Two pairs that the schema accepts and that share one budget.\<close>

lemma bars_share_a_budget: "keys ''acme|eu'' ''gpt'' = keys ''acme'' ''eu|gpt''"
  by (simp add: keys_def ns_def)


definition example_backend :: "doc_server backend" where
  "example_backend = \<lparr>be_sha1 = id, be_llm = server_client id, be_rate = server_client id, be_call = server_call,
     be_elapse = server_elapse, be_pid = 7\<rparr>"

definition example_traffic :: "traffic list" where
  "example_traffic =
     [Reserving example_policy 1000 ''r1'' example_request, Checking TOKEN_BUCKET 1000 ''u'' 10 60,
      Reserving example_policy 1001 ''r2'' (example_request\<lparr>ar_tenant := ''beta''\<rparr>), Passing 5, Reading example_policy 1006 ''acme'' ''m'']"

theorem owners_do_not_interfere_witness:
  "map snd (filter (concerns (budget_of ''acme'' ''m'') \<circ> fst)
       (zip example_traffic (fst (run_state (run_all (serve_traffic example_backend) example_traffic) (empty_server, 0)))))
     = fst (run_state (run_all (serve_traffic example_backend)
         [Reserving example_policy 1000 ''r1'' example_request, Passing 5, Reading example_policy 1006 ''acme'' ''m'']) (empty_server, 0))
   \<and> budget_of ''acme'' ''m'' \<noteq> budget_of ''beta'' ''m''"
proof -
  have be: "two_clients example_backend fst server_cached"
    unfolding two_clients_def example_backend_def by (simp add: doc_script_server.script_server_axioms)
  have w: "\<not> sliding_owner (budget_of ''acme'' ''m'')" by (simp add: sliding_owner_def budget_of_def)
  have ids: "list_all proper_ids example_traffic" by (simp add: example_traffic_def)
  have mine: "filter (concerns (budget_of ''acme'' ''m'')) example_traffic
      = [Reserving example_policy 1000 ''r1'' example_request, Passing 5, Reading example_policy 1006 ''acme'' ''m'']"
    by (simp add: example_traffic_def concerns_def budget_of_def example_request_def)
  show ?thesis
    using conjunct1[OF owners_do_not_interfere[OF be w ids, of "(empty_server, 0)" "''acme''" "''m''" "''beta''" "''m''"]] unfolding mine
    by (simp add: budget_of_def del: run_all.simps)
qed

section \<open>Slots of a cluster\<close>

text \<open>
  The part of a key that a cluster hashes: what stands between the first opening brace and the first closing
  one after it, where there is something, and else the whole key. Keys with the same tag are in
  the same slot; a script or a command with keys of several slots is refused.
\<close>

definition hash_tag :: "key \<Rightarrow> string" where
  "hash_tag k =
     (case dropWhile (\<lambda>c. c \<noteq> CHR ''{'') k of
        [] \<Rightarrow> k
      | brace # rest \<Rightarrow> (let tag = takeWhile (\<lambda>c. c \<noteq> CHR ''}'') rest in if tag = [] \<or> CHR ''}'' \<notin> set rest then k else tag))"

definition one_tag :: "key list \<Rightarrow> bool" where
  "one_tag ks \<longleftrightarrow> (\<forall>k \<in> set ks. \<forall>k' \<in> set ks. hash_tag k = hash_tag k')"

text \<open>The keys that the calls of the service and of the algorithms send together.\<close>

definition admission_keys :: "string \<Rightarrow> string \<Rightarrow> string \<Rightarrow> key list" where
  "admission_keys tenant model rid =
     (let k = keys tenant model
      in [k_tpm k, k_tpmTs k, k_rpm k, k_rpmTs k, k_leases k, k_reservations k, k_stats k, settledKey tenant model rid])"

definition tagged :: "key \<Rightarrow> bool" where
  "tagged k \<longleftrightarrow> hash_tag k \<noteq> k"

lemma hash_tag_ns:
  "hash_tag (ns t m @ s) = (let tag = takeWhile (\<lambda>c. c \<noteq> CHR ''}'') (t @ ''|'' @ m) in if tag = [] then ns t m @ s else tag)"
proof -
  have "dropWhile (\<lambda>c. c \<noteq> CHR ''{'') (ns t m @ s) = CHR ''{'' # (t @ ''|'' @ m) @ CHR ''}'' # s" by (simp add: ns_def)
  moreover have "takeWhile (\<lambda>c. c \<noteq> CHR ''}'') (x @ CHR ''}'' # s) = takeWhile (\<lambda>c. c \<noteq> CHR ''}'') x" for x :: string
    by (induction x) auto
  ultimately show ?thesis unfolding hash_tag_def by (simp del: append_assoc)
qed

lemma namespace_tag: "takeWhile (\<lambda>c. c \<noteq> CHR ''}'') (t @ ''|'' @ m) = [] \<longleftrightarrow> t \<noteq> [] \<and> hd t = CHR ''}''"
  by (cases t) auto

lemma plain_prefix_tag:
  assumes "CHR ''{'' \<notin> set u" "CHR ''{'' \<notin> set v" "CHR ''}'' \<notin> set v"
  shows "hash_tag (u @ k @ v) = (if tagged k then hash_tag k else u @ k @ v)"
proof -
  have skip: "dropWhile (\<lambda>c. c \<noteq> CHR ''{'') (u @ x) = dropWhile (\<lambda>c. c \<noteq> CHR ''{'') x" for x
    using assms(1) by (induction u) auto
  show ?thesis
  proof (cases "dropWhile (\<lambda>c. c \<noteq> CHR ''{'') k")
    case Nil
    then have "CHR ''{'' \<notin> set k" by (auto simp: dropWhile_eq_Nil_conv)
    then have kv: "dropWhile (\<lambda>c. c \<noteq> CHR ''{'') (k @ v) = []" using assms(2) by (auto simp: dropWhile_eq_Nil_conv)
    show ?thesis unfolding hash_tag_def skip tagged_def Nil kv by simp
  next
    case (Cons c rest)
    then have kv: "dropWhile (\<lambda>c. c \<noteq> CHR ''{'') (k @ v) = c # rest @ v"
      by (metis append_Cons dropWhile_append1 dropWhile_eq_Nil_conv list.distinct(1))
    moreover have "takeWhile (\<lambda>c. c \<noteq> CHR ''}'') (rest @ v) = takeWhile (\<lambda>c. c \<noteq> CHR ''}'') rest" if "CHR ''}'' \<in> set rest"
      using that by (simp add: takeWhile_append1)
    moreover have "takeWhile (\<lambda>c. c \<noteq> CHR ''}'') rest \<noteq> k"
    proof -
      have "length (takeWhile (\<lambda>c. c \<noteq> CHR ''}'') rest) \<le> length rest" by (rule length_takeWhile_le)
      moreover have "length (c # rest) \<le> length k" unfolding Cons[symmetric] by (rule length_dropWhile_le)
      ultimately show ?thesis by auto
    qed
    ultimately show ?thesis using Cons assms(3) by (auto simp: hash_tag_def skip tagged_def Let_def)
  qed
qed


text \<open>The hash tags of the keys of an admission call, and of the counters.\<close>

lemma admission_tags:
  "one_tag (admission_keys t m rid) \<longleftrightarrow> t = [] \<or> hd t \<noteq> CHR ''}''"
proof -
  let ?tag = "takeWhile (\<lambda>c. c \<noteq> CHR ''}'') (t @ ''|'' @ m)"
  have tags: "map hash_tag (admission_keys t m rid) = (if ?tag = [] then admission_keys t m rid else replicate 8 ?tag)"
    by (simp add: admission_keys_def keys_def keys_in_def settledKey_def settled_in_def hash_tag_ns Let_def numeral_eq_Suc)
  have one: "one_tag ks \<longleftrightarrow> (\<forall>a \<in> set (map hash_tag ks). \<forall>b \<in> set (map hash_tag ks). a = b)" for ks
    by (simp add: one_tag_def)
  have "\<not> (\<forall>a \<in> set (admission_keys t m rid). \<forall>b \<in> set (admission_keys t m rid). a = b)"
    by (simp add: admission_keys_def keys_def keys_in_def Let_def)
  then show ?thesis unfolding one tags using namespace_tag[of t m] by auto
qed

lemma counter_tags:
  "one_tag [fst (token_bucket_keys k), snd (token_bucket_keys k)] \<longleftrightarrow> tagged k"
  "i \<noteq> j \<Longrightarrow> 0 \<le> i \<Longrightarrow> 0 \<le> j \<Longrightarrow> one_tag [fixed_window_key k i, fixed_window_key k j] \<longleftrightarrow> tagged k"
proof -
  have digits: "CHR ''{'' \<notin> set (string_of_int n) \<and> CHR ''}'' \<notin> set (string_of_int n)" for n
    using string_of_nat_digits[of "nat n"] string_of_nat_digits[of "nat (- n)"] by (auto simp: string_of_int_def digit_char_def)
  note tag = plain_prefix_tag[where k = k]
  show "one_tag [fst (token_bucket_keys k), snd (token_bucket_keys k)] \<longleftrightarrow> tagged k"
    using tag[of "''rate_limit:token_bucket:''" "'':tokens''"] tag[of "''rate_limit:token_bucket:''" "'':timestamp''"]
    by (auto simp: one_tag_def token_bucket_keys_def)
  show "one_tag [fixed_window_key k i, fixed_window_key k j] \<longleftrightarrow> tagged k" if "i \<noteq> j" "0 \<le> i" "0 \<le> j"
    using tag[of "''rate_limit:fixed_window:''" "'':'' @ string_of_int i"] tag[of "''rate_limit:fixed_window:''" "'':'' @ string_of_int j"]
      fixed_window_key_inj[of i j k] that digits
    by (auto simp: one_tag_def fixed_window_key_def)
qed

text \<open>
  C35: Where a cluster keeps the keys of a call. All keys of a tenant and a model have one hash tag exactly where the
  tenant does not start with a closing brace, which empties the tag. The two keys of a token bucket
  have one only where the caller's key brings its own tag, and so have the two windows that a reset of a
  fixed window deletes: with any other key a cluster refuses the checks of the default algorithm.
\<close>

theorem slots_of_a_call:
  "(one_tag (admission_keys tenant model rid) \<longleftrightarrow> tenant = [] \<or> hd tenant \<noteq> CHR ''}'')
   \<and> (one_tag [fst (token_bucket_keys k), snd (token_bucket_keys k)] \<longleftrightarrow> tagged k)
   \<and> (1 \<le> windowIndex now w \<longrightarrow>
        (one_tag [fixed_window_key k (windowIndex now w), fixed_window_key k (windowIndex now w - 1)] \<longleftrightarrow> tagged k))"
  using admission_tags[of tenant model rid] counter_tags(1)[of k] counter_tags(2)[of "windowIndex now w" "windowIndex now w - 1" k] by simp

theorem slots_of_a_call_witness:
  "one_tag (admission_keys ''acme'' ''gpt'' ''r1'') \<and> \<not> one_tag (admission_keys ''}'' ''gpt'' ''r1'')
   \<and> \<not> one_tag [fst (token_bucket_keys ''user-1''), snd (token_bucket_keys ''user-1'')]
   \<and> one_tag [fixed_window_key ''{u}'' (windowIndex 120000 60), fixed_window_key ''{u}'' (windowIndex 120000 60 - 1)]"
proof -
  have index: "windowIndex 120000 60 = 2" by (subst windowIndex_div) (simp_all add: clock_ok_def)
  have tags: "\<not> tagged ''user-1''" "tagged ''{u}''" by (simp_all add: tagged_def hash_tag_def)
  show ?thesis
    using slots_of_a_call[of "''acme''" "''gpt''" "''r1''" "''user-1''" 0 60]
      slots_of_a_call[of "''}''" "''gpt''" "''r1''" "''{u}''" 120000 60] tags
    by (simp add: index)
qed

end
