(* ===== verification/Rule_Statements.thy ===== *)
theory Rule_Statements
  imports Rules_Routes Request_Bodies
begin

text \<open>
  The table of rules under the statements of \<^verbatim>\<open>src/repositories/rule.repository.ts\<close>: what PostgreSQL does with each
  text and its parameters, under the constraints, the triggers and the cascade of
  \<^verbatim>\<open>src/database/schema.ts\<close>. The statements are read from their text as PostgreSQL reads it, word by word; PostgreSQL
  itself is the locale \<open>sql_database\<close>. How it reads a UUID is a parameter; the code of a violated \<^verbatim>\<open>CHECK\<close>
  stands for every refused value, as the program tells only duplicates apart.
\<close>

section \<open>Tables with statistics\<close>

record hit_row =
  hit_id :: string
  hit_rule_id :: string
  hit_count :: int
  hit_blocked_count :: int
  hit_last_hit_at :: "int option"
  hit_period_start :: int
  hit_period_end :: int
  hit_created_at :: int
  hit_updated_at :: int

record stored = tables +
  t_hits :: "hit_row list"

text \<open>The trigger function, at the time of the transaction, for the rows of either table.\<close>

definition update_updated_at_column :: "int \<Rightarrow> RuleRow \<Rightarrow> RuleRow" where
  "update_updated_at_column now row = row\<lparr>row_updated_at := now\<rparr>"

definition update_hit_updated_at :: "int \<Rightarrow> hit_row \<Rightarrow> hit_row" where
  "update_hit_updated_at now row = row\<lparr>hit_updated_at := now\<rparr>"

text \<open>The constraints across rows: names and ids are unique, and a statistic belongs to a rule.\<close>

definition rules_ok :: "RuleRow list \<Rightarrow> bool" where
  "rules_ok rs \<longleftrightarrow> list_all rule_row_ok rs \<and> distinct (map row_id rs) \<and> distinct (map row_name rs)"

definition hits_ok :: "RuleRow list \<Rightarrow> hit_row list \<Rightarrow> bool" where
  "hits_ok rs hs \<longleftrightarrow> distinct (map hit_id hs) \<and> hit_rule_id ` set hs \<subseteq> row_id ` set rs"

definition stored_ok :: "stored \<Rightarrow> bool" where
  "stored_ok t \<longleftrightarrow> rules_ok (t_rules t) \<and> hits_ok (t_rules t) (t_hits t)"

section \<open>Reading a statement\<close>

definition sql_words :: "string \<Rightarrow> string list" where
  "sql_words s = split_at (CHR '' '') s"

definition read_placeholder :: "string \<Rightarrow> nat option" where
  "read_placeholder w = (case w of [] \<Rightarrow> None | c # ds \<Rightarrow>
     if c = CHR ''$'' \<and> ds \<noteq> [] \<and> list_all digit_char ds then Some (nat (digits_number ds)) else None)"

text \<open>Assignments \<^verbatim>\<open>column = $n\<close>, a comma at the end of each but the last, and what follows them.\<close>

fun read_assignments :: "string list \<Rightarrow> ((string \<times> nat) list \<times> string list) option" where
  "read_assignments (col # eq # w # ws) =
     (if eq \<noteq> ''='' \<or> w = [] then None
      else if last w = CHR '','' then
        (case (read_placeholder (butlast w), read_assignments ws) of
           (Some n, Some (later, rest)) \<Rightarrow> Some ((col, n) # later, rest) | _ \<Rightarrow> None)
      else map_option (\<lambda>n. ([(col, n)], ws)) (read_placeholder w))"
| "read_assignments ws = None"

datatype rule_change = Insert_rule "(string \<times> nat) list" | Update_rule_by_id "(string \<times> nat) list" nat | Delete_rule_by_id nat

text \<open>The columns and the placeholders of an insertion, without the brackets and commas.\<close>

definition bare :: "string \<Rightarrow> string" where
  "bare w = filter (\<lambda>c. c \<notin> set ''(,)'') w"

definition read_insert :: "string list \<Rightarrow> (string \<times> nat) list option" where
  "read_insert ws =
     (let inside = map bare (takeWhile (\<lambda>w. w \<noteq> ''RETURNING'') ws);
          cols = filter (\<lambda>w. w \<noteq> []) (takeWhile (\<lambda>w. w \<noteq> ''VALUES'') inside);
          params = those (map read_placeholder (filter (\<lambda>w. w \<noteq> []) (drop 1 (dropWhile (\<lambda>w. w \<noteq> ''VALUES'') inside))))
      in case params of Some ps \<Rightarrow> if length ps = length cols then Some (zip cols ps) else None | None \<Rightarrow> None)"

definition read_change :: "string \<Rightarrow> rule_change option" where
  "read_change s =
     (case sql_words s of
        [] \<Rightarrow> None
      | verb # ws \<Rightarrow>
          if verb = ''INSERT'' \<and> take 2 ws = [''INTO'', ''rate_limit_rules''] then map_option Insert_rule (read_insert (drop 2 ws))
          else if verb = ''UPDATE'' \<and> take 2 ws = [''rate_limit_rules'', ''SET''] then
            (case read_assignments (drop 2 ws) of
               Some (sets, rest) \<Rightarrow>
                 if take 3 rest = [''WHERE'', ''id'', ''=''] \<and> drop 4 rest \<in> {[], [''RETURNING'', ''*'']}
                 then map_option (Update_rule_by_id sets) (read_placeholder (hd (drop 3 rest @ [[]]))) else None
             | None \<Rightarrow> None)
          else if verb = ''DELETE'' \<and> take 5 ws = [''FROM'', ''rate_limit_rules'', ''WHERE'', ''id'', ''=''] \<and> drop 6 ws = []
          then map_option Delete_rule_by_id (read_placeholder (hd (drop 5 ws @ [[]])))
          else None)"

section \<open>What a statement does\<close>

definition bad_value :: js_error where
  "bad_value = DriverError ''refused by the database'' (Some ''23514'')"

definition bad_uuid :: js_error where
  "bad_uuid = DriverError ''invalid input syntax for type uuid'' (Some ''22P02'')"

definition duplicate_key :: js_error where
  "duplicate_key = DriverError ''duplicate key value violates unique constraint'' (Some ''23505'')"

definition parameter :: "jsval list \<Rightarrow> nat \<Rightarrow> jsval" where
  "parameter vs n = (if 0 < n \<and> n \<le> length vs then vs ! (n - 1) else JNull)"

text \<open>One column set to a value, where the value has the type of the column.\<close>

text \<open>\<^verbatim>\<open>null\<close> where the column takes it.\<close>

definition nullable :: "(jsval \<Rightarrow> 'a option) \<Rightarrow> jsval \<Rightarrow> 'a option option" where
  "nullable as v = (if v = JNull then Some None else map_option Some (as v))"

definition set_to :: "('a \<Rightarrow> RuleRow \<Rightarrow> RuleRow) \<Rightarrow> 'a option \<Rightarrow> RuleRow \<Rightarrow> js_error + RuleRow" where
  "set_to put a row = (case a of None \<Rightarrow> Inl bad_value | Some x \<Rightarrow> Inr (put x row))"

definition set_column :: "(string \<Rightarrow> string option) \<Rightarrow> string \<Rightarrow> jsval \<Rightarrow> RuleRow \<Rightarrow> js_error + RuleRow" where
  "set_column uuid_in col v row =
     (if col = ''id'' then (case Option.bind (as_text v) uuid_in of None \<Rightarrow> Inl bad_uuid | Some i \<Rightarrow> Inr (row\<lparr>row_id := i\<rparr>))
      else if col = ''name'' then set_to (\<lambda>a. row_name_update (\<lambda>_. a)) (as_text v) row
      else if col = ''description'' then set_to (\<lambda>a. row_description_update (\<lambda>_. a)) (nullable as_text v) row
      else if col = ''algorithm'' then set_to (\<lambda>a. row_algorithm_update (\<lambda>_. a)) (as_algorithm v) row
      else if col = ''limit_value'' then set_to (\<lambda>a. row_limit_value_update (\<lambda>_. a)) (as_whole v) row
      else if col = ''window_seconds'' then set_to (\<lambda>a. row_window_seconds_update (\<lambda>_. a)) (as_whole v) row
      else if col = ''dimension_type'' then set_to (\<lambda>a. row_dimension_type_update (\<lambda>_. a)) (as_dimension v) row
      else if col = ''dimension_pattern'' then set_to (\<lambda>a. row_dimension_pattern_update (\<lambda>_. a)) (nullable as_text v) row
      else if col = ''priority'' then set_to (\<lambda>a. row_priority_update (\<lambda>_. a)) (as_whole v) row
      else if col = ''enabled'' then set_to (\<lambda>a. row_enabled_update (\<lambda>_. a)) (as_bool v) row
      else if col = ''tags'' then set_to (\<lambda>a. row_tags_update (\<lambda>_. a)) (nullable as_texts v) row
      else Inl bad_value)"

fun set_columns :: "(string \<Rightarrow> string option) \<Rightarrow> (string \<times> jsval) list \<Rightarrow> RuleRow \<Rightarrow> js_error + RuleRow" where
  "set_columns uuid_in [] row = Inr row"
| "set_columns uuid_in ((col, v) # sets) row =
     (case set_column uuid_in col v row of Inl e \<Rightarrow> Inl e | Inr row' \<Rightarrow> set_columns uuid_in sets row')"

definition bound :: "jsval list \<Rightarrow> (string \<times> nat) list \<Rightarrow> (string \<times> jsval) list" where
  "bound vs sets = map (\<lambda>(col, n). (col, parameter vs n)) sets"

text \<open>The row an insertion starts from: the defaults of the columns; those without one have to be assigned.\<close>

definition default_row :: "string \<Rightarrow> int \<Rightarrow> RuleRow" where
  "default_row uuid now =
     \<lparr>row_id = uuid, row_name = [], row_description = None, row_algorithm = TOKEN_BUCKET, row_limit_value = 0, row_window_seconds = 0,
      row_dimension_type = GLOBAL, row_dimension_pattern = None, row_priority = 100, row_enabled = True, row_tags = None,
      row_metadata = None, row_created_at = now, row_updated_at = now\<rparr>"

definition columns_without_default :: "string list" where
  "columns_without_default = [''name'', ''algorithm'', ''limit_value'', ''window_seconds'', ''dimension_type'']"

text \<open>The rows after a statement, or the constraint that refuses them: the values first, then the keys.\<close>

definition admitted_rows :: "RuleRow list \<Rightarrow> js_error + RuleRow list" where
  "admitted_rows rs =
     (if \<not> list_all rule_row_ok rs then Inl bad_value
      else if \<not> distinct (map row_id rs) \<or> \<not> distinct (map row_name rs) then Inl duplicate_key else Inr rs)"

definition run_insert ::
    "(string \<Rightarrow> string option) \<Rightarrow> string \<Rightarrow> int \<Rightarrow> (string \<times> jsval) list \<Rightarrow> stored \<Rightarrow> (js_error + RuleRow list) \<times> stored" where
  "run_insert uuid_in uuid now sets t =
     (if \<not> set columns_without_default \<subseteq> fst ` set sets then (Inl bad_value, t)
      else case set_columns uuid_in sets (default_row uuid now) of
        Inl e \<Rightarrow> (Inl e, t)
      | Inr row \<Rightarrow> (case admitted_rows (t_rules t @ [row]) of
          Inl e \<Rightarrow> (Inl e, t) | Inr rs \<Rightarrow> (Inr [row], t\<lparr>t_rules := rs\<rparr>)))"

text \<open>An update sets the columns of the row with the id, and the trigger its time; a deletion takes the statistics along.\<close>

definition run_update ::
    "(string \<Rightarrow> string option) \<Rightarrow> int \<Rightarrow> (string \<times> jsval) list \<Rightarrow> jsval \<Rightarrow> stored \<Rightarrow> (js_error + RuleRow list) \<times> stored" where
  "run_update uuid_in now sets rid t =
     (case Option.bind (as_text rid) uuid_in of
        None \<Rightarrow> (Inl bad_uuid, t)
      | Some i \<Rightarrow> (case find (\<lambda>row. row_id row = i) (t_rules t) of
          None \<Rightarrow> (Inr [], t)
        | Some row \<Rightarrow> (case set_columns uuid_in sets row of
            Inl e \<Rightarrow> (Inl e, t)
          | Inr row' \<Rightarrow> (let new = update_updated_at_column now row' in
              case admitted_rows (map (\<lambda>r. if row_id r = i then new else r) (t_rules t)) of
                Inl e \<Rightarrow> (Inl e, t) | Inr rs \<Rightarrow> (Inr [new], t\<lparr>t_rules := rs\<rparr>)))))"

definition run_delete :: "(string \<Rightarrow> string option) \<Rightarrow> jsval \<Rightarrow> stored \<Rightarrow> (js_error + RuleRow list) \<times> stored" where
  "run_delete uuid_in rid t =
     (case Option.bind (as_text rid) uuid_in of
        None \<Rightarrow> (Inl bad_uuid, t)
      | Some i \<Rightarrow> (Inr (filter (\<lambda>row. row_id row = i) (t_rules t)),
          t\<lparr>t_rules := filter (\<lambda>row. row_id row \<noteq> i) (t_rules t), t_hits := filter (\<lambda>h. hit_rule_id h \<noteq> i) (t_hits t)\<rparr>))"

definition run_change ::
    "(string \<Rightarrow> string option) \<Rightarrow> string \<Rightarrow> int \<Rightarrow> rule_change \<Rightarrow> jsval list \<Rightarrow> stored \<Rightarrow> (js_error + RuleRow list) \<times> stored" where
  "run_change uuid_in uuid now change vs t =
     (case change of
        Insert_rule sets \<Rightarrow> run_insert uuid_in uuid now (bound vs sets) t
      | Update_rule_by_id sets n \<Rightarrow> run_update uuid_in now (bound vs sets) (parameter vs n) t
      | Delete_rule_by_id n \<Rightarrow> run_delete uuid_in (parameter vs n) t)"

section \<open>No statement breaks a constraint\<close>

lemma admitted_rows_ok: "admitted_rows rs = Inr rs' \<Longrightarrow> rs' = rs \<and> rules_ok rs"
  by (auto simp: admitted_rows_def rules_ok_def split: if_splits)

lemma set_column_keeps_id: "set_column uuid_in col v row = Inr row' \<Longrightarrow> col \<noteq> ''id'' \<Longrightarrow> row_id row' = row_id row"
  by (auto simp: set_column_def set_to_def split: if_splits option.splits)

text \<open>
  Whatever statement runs, with whatever values, the rows keep their constraints: names and ids stay unique,
  and no statistic outlives its rule, as a deletion takes the statistics along and no update of the
  program sets an id.
\<close>

lemma set_columns_keep_id: "set_columns uuid_in sets row = Inr row' \<Longrightarrow> ''id'' \<notin> fst ` set sets \<Longrightarrow> row_id row' = row_id row"
proof (induction sets arbitrary: row)
  case (Cons s sets)
  obtain col v where s: "s = (col, v)" by (cases s)
  obtain row1 where one: "set_column uuid_in col v row = Inr row1" "set_columns uuid_in sets row1 = Inr row'"
    using Cons.prems(1) by (auto simp: s split: sum.splits)
  have "row_id row' = row_id row1" using Cons.IH[OF one(2)] Cons.prems(2) by simp
  then show ?case using set_column_keeps_id[OF one(1)] Cons.prems(2) by (auto simp: s)
qed simp

lemma bound_columns: "fst ` set (bound vs sets) = fst ` set sets"
  by (force simp: bound_def)

definition leaves_ids :: "rule_change \<Rightarrow> bool" where
  "leaves_ids change \<longleftrightarrow> (case change of Update_rule_by_id sets n \<Rightarrow> ''id'' \<notin> fst ` set sets | _ \<Rightarrow> True)"

lemma hits_cascade: "hits_ok rs hs \<Longrightarrow> hits_ok (filter (\<lambda>row. row_id row \<noteq> i) rs) (filter (\<lambda>h. hit_rule_id h \<noteq> i) hs)"
proof -
  assume ok: "hits_ok rs hs"
  have "hit_rule_id h \<in> row_id ` set (filter (\<lambda>row. row_id row \<noteq> i) rs)" if "h \<in> set hs" "hit_rule_id h \<noteq> i" for h
  proof -
    obtain row where "row \<in> set rs" "hit_rule_id h = row_id row" using ok \<open>h \<in> set hs\<close> by (auto simp: hits_ok_def)
    then show ?thesis using that(2) by auto
  qed
  then show ?thesis using ok by (auto simp: hits_ok_def distinct_map_filter)
qed

lemma run_insert_cases:
  assumes "run_insert uuid_in uuid now sets t = (result, t')"
  shows "t' = t \<or> (\<exists>row. t' = t\<lparr>t_rules := t_rules t @ [row]\<rparr> \<and> rules_ok (t_rules t @ [row]))"
proof (cases "t' = t")
  case False
  then obtain row rs where "admitted_rows (t_rules t @ [row]) = Inr rs" "t' = t\<lparr>t_rules := rs\<rparr>"
    using assms unfolding run_insert_def
    by (cases "set columns_without_default \<subseteq> fst ` set sets"; cases "set_columns uuid_in sets (default_row uuid now)";
        cases "admitted_rows (t_rules t @ [projr (set_columns uuid_in sets (default_row uuid now))])") simp_all
  then show ?thesis using admitted_rows_ok by blast
qed simp

lemma run_change_keeps_constraints:
  assumes ok: "stored_ok t" and ids: "leaves_ids change" and run: "run_change uuid_in uuid now change vs t = (result, t')"
  shows "stored_ok t'"
proof (cases change)
  case (Insert_rule sets)
  then have "run_insert uuid_in uuid now (bound vs sets) t = (result, t')" using run by (simp add: run_change_def)
  from run_insert_cases[OF this] show ?thesis
  proof (elim disjE exE conjE)
    fix row assume "t' = t\<lparr>t_rules := t_rules t @ [row]\<rparr>" "rules_ok (t_rules t @ [row])"
    then show ?thesis using ok by (auto simp: stored_ok_def hits_ok_def)
  qed (use ok in simp)
next
  case (Update_rule_by_id sets n)
  show ?thesis
  proof (cases "t' = t")
    case False
    obtain i row row' rs where found: "find (\<lambda>row. row_id row = i) (t_rules t) = Some row" "set_columns uuid_in (bound vs sets) row = Inr row'"
        "admitted_rows (map (\<lambda>r. if row_id r = i then update_updated_at_column now row' else r) (t_rules t)) = Inr rs" "t' = t\<lparr>t_rules := rs\<rparr>"
      using run False by (auto simp: Update_rule_by_id run_change_def run_update_def Let_def split: option.splits sum.splits)
    have same: "row_id (update_updated_at_column now row') = i"
      using set_columns_keep_id[OF found(2)] ids found(1)
      by (auto simp: Update_rule_by_id leaves_ids_def bound_columns update_updated_at_column_def find_Some_iff)
    have "map row_id (map (\<lambda>r. if row_id r = i then update_updated_at_column now row' else r) (t_rules t)) = map row_id (t_rules t)"
      using same by simp
    then have "row_id ` set rs = row_id ` set (t_rules t)" using admitted_rows_ok[OF found(3)] by (metis list.set_map)
    then show ?thesis using ok admitted_rows_ok[OF found(3)] by (simp add: stored_ok_def hits_ok_def found(4))
  qed (use ok in simp)
next
  case (Delete_rule_by_id n)
  then show ?thesis using ok run
    by (auto simp: run_change_def run_delete_def stored_ok_def rules_ok_def hits_cascade list_all_iff distinct_map_filter split: option.splits)
qed


section \<open>The texts of the repository\<close>

lemma sql_word: "CHR '' '' \<notin> set w \<Longrightarrow> sql_words (w @ CHR '' '' # s) = w # sql_words s" "CHR '' '' \<notin> set w \<Longrightarrow> sql_words w = [w]"
  "sql_words (CHR ''='' # CHR '' '' # s) = ''='' # sql_words s"
  by (simp_all add: sql_words_def split_at_append split_at_plain)

lemma placeholder_chars: "c \<in> set (placeholder n) \<Longrightarrow> c = CHR ''$'' \<or> digit_char c"
  using string_of_nat_digits[of n] by (auto simp: placeholder_def)

lemma placeholder_plain: "CHR '' '' \<notin> set (placeholder n)" "CHR '','' \<notin> set (placeholder n)" "placeholder n \<noteq> []" "last (placeholder n) \<noteq> CHR '',''"
proof -
  show plain: "CHR '' '' \<notin> set (placeholder n)" "CHR '','' \<notin> set (placeholder n)" by (auto dest!: placeholder_chars simp: digit_char_def)
  show "placeholder n \<noteq> []" by (simp add: placeholder_def)
  then show "last (placeholder n) \<noteq> CHR '',''" using last_in_set[of "placeholder n"] plain(2) by metis
qed

lemma read_placeholder_back [simp]: "read_placeholder (placeholder n) = Some n"
  using string_of_nat_digits[of n] by (simp add: read_placeholder_def placeholder_def list_all_iff digits_number_of_nat)

text \<open>The words of numbered assignments, and the assignments read back from them.\<close>

fun assignment_words :: "nat \<Rightarrow> (string \<times> 'v) list \<Rightarrow> string list" where
  "assignment_words i [] = []"
| "assignment_words i [(col, v)] = [col, ''='', placeholder i]"
| "assignment_words i ((col, v) # f # fs) = col # ''='' # (placeholder i @ '','') # assignment_words (Suc i) (f # fs)"

definition plain_columns :: "(string \<times> 'v) list \<Rightarrow> bool" where
  "plain_columns fs \<longleftrightarrow> (\<forall>(col, v) \<in> set fs. CHR '' '' \<notin> set col)"

lemma words_numbered:
  "fs \<noteq> [] \<Longrightarrow> plain_columns fs \<Longrightarrow> sql_words (join '', '' (numbered i fs) @ CHR '' '' # s) = assignment_words i fs @ sql_words s"
proof (induction i fs rule: assignment_words.induct)
  case (2 i col v)
  then show ?case using placeholder_plain[of i] by (simp add: plain_columns_def sql_word)
next
  case (3 i col v f fs)
  obtain c w where f: "f = (c, w)" by (cases f)
  have "CHR '' '' \<notin> set (placeholder i @ '','')" using placeholder_plain[of i] by simp
  from sql_word(1)[OF this] show ?case using 3 by (simp add: f plain_columns_def sql_word)
qed simp

lemma read_assignments_back:
  "fs \<noteq> [] \<Longrightarrow> read_assignments (assignment_words i fs @ rest) = Some (map (\<lambda>(n, (col, v)). (col, n)) (enumerate i fs), rest)"
proof (induction i fs rule: assignment_words.induct)
  case (2 i col v)
  then show ?case using placeholder_plain[of i] by simp
next
  case (3 i col v f fs)
  then show ?case by (simp add: butlast_append)
qed simp

lemma read_update_text:
  assumes "fs \<noteq> []" "plain_columns fs"
  shows "read_change (update_rule_text (numbered 1 fs) n) = Some (Update_rule_by_id (map (\<lambda>(n, (col, v)). (col, n)) (enumerate 1 fs)) n)"
proof -
  have tail: "sql_words (''WHERE id = '' @ placeholder n @ '' RETURNING *'') = [''WHERE'', ''id'', ''='', placeholder n, ''RETURNING'', ''*'']"
    using placeholder_plain(1)[of n] sql_word(1)[of "''WHERE''" "''id = '' @ placeholder n @ '' RETURNING *''"]
      sql_word(1)[of "''id''" "''= '' @ placeholder n @ '' RETURNING *''"] sql_word(1)[of "''=''" "placeholder n @ '' RETURNING *''"]
      sql_word(1)[of "placeholder n" "''RETURNING *''"] sql_word(1)[of "''RETURNING''" "''*''"] sql_word(2)[of "''*''"] by simp
  have "sql_words (update_rule_text (numbered 1 fs) n)
      = [''UPDATE'', ''rate_limit_rules'', ''SET''] @ assignment_words 1 fs @ [''WHERE'', ''id'', ''='', placeholder n, ''RETURNING'', ''*'']"
    using sql_word(1)[of "''UPDATE''"] sql_word(1)[of "''rate_limit_rules''"] sql_word(1)[of "''SET''"] words_numbered[OF assms] tail
    by (simp add: update_rule_text_def)
  then show ?thesis using assms by (simp add: read_change_def read_assignments_back)
qed


lemma bound_enumerated:
  "bound (pre @ map snd fs @ rest) (map (\<lambda>(n, (col, v)). (col, n)) (enumerate (Suc (length pre)) fs)) = fs"
proof (induction fs arbitrary: pre)
  case (Cons f fs)
  obtain col v where f: "f = (col, v)" by (cases f)
  have "parameter (pre @ v # map snd fs @ rest) (Suc (length pre)) = v" by (simp add: parameter_def)
  then show ?case using Cons.IH[of "pre @ [v]"] by (simp add: f bound_def)
qed (simp add: bound_def)

lemma set_columns_append:
  "set_columns uuid_in (xs @ ys) row = (case set_columns uuid_in xs row of Inl e \<Rightarrow> Inl e | Inr row' \<Rightarrow> set_columns uuid_in ys row')"
  by (induction xs arbitrary: row) (auto split: sum.splits)

text \<open>What each assignment of an update does.\<close>

lemma set_present_one:
  "set_columns uuid_in (present col (map_option f x)) row = (case x of None \<Rightarrow> Inr row | Some a \<Rightarrow> set_column uuid_in col (f a) row)"
  by (auto simp: present_def split: option.splits sum.splits)

lemma set_present:
  "set_columns uuid_in (present ''name'' (map_option JStr n)) row = Inr (row\<lparr>row_name := or_default n (row_name row)\<rparr>)"
  "set_columns uuid_in (present ''description'' (map_option JStr d)) row = Inr (row\<lparr>row_description := (if d = None then row_description row else d)\<rparr>)"
  "set_columns uuid_in (present ''algorithm'' (map_option algorithm_value a)) row = Inr (row\<lparr>row_algorithm := or_default a (row_algorithm row)\<rparr>)"
  "set_columns uuid_in (present ''limit_value'' (map_option (JNum \<circ> of_int) l)) row = Inr (row\<lparr>row_limit_value := or_default l (row_limit_value row)\<rparr>)"
  "set_columns uuid_in (present ''window_seconds'' (map_option (JNum \<circ> of_int) w)) row = Inr (row\<lparr>row_window_seconds := or_default w (row_window_seconds row)\<rparr>)"
  "set_columns uuid_in (present ''dimension_type'' (map_option dimension_value t)) row = Inr (row\<lparr>row_dimension_type := or_default t (row_dimension_type row)\<rparr>)"
  "set_columns uuid_in (present ''dimension_pattern'' (map_option JStr p)) row
     = Inr (row\<lparr>row_dimension_pattern := (if p = None then row_dimension_pattern row else p)\<rparr>)"
  "set_columns uuid_in (present ''priority'' (map_option (JNum \<circ> of_int) i)) row = Inr (row\<lparr>row_priority := or_default i (row_priority row)\<rparr>)"
  "set_columns uuid_in (present ''enabled'' (map_option JBool e)) row = Inr (row\<lparr>row_enabled := or_default e (row_enabled row)\<rparr>)"
  "set_columns uuid_in (present ''tags'' (map_option (JArr \<circ> map JStr) ts)) row = Inr (row\<lparr>row_tags := (if ts = None then row_tags row else ts)\<rparr>)"
  by (simp_all add: set_present_one set_column_def set_to_def nullable_def or_default_def split: option.split)

lemma set_present_fields: "set_columns uuid_in (present_fields u) row = Inr (updated_row u row)"
  by (simp add: present_fields_def set_columns_append set_present updated_row_def)

lemma present_fields_plain: "plain_columns (present_fields u)"
  by (auto simp: plain_columns_def present_fields_def present_def split: option.splits)


definition insert_columns :: "(string \<times> nat) list" where
  "insert_columns = [(''id'', 1), (''name'', 2), (''description'', 3), (''algorithm'', 4), (''limit_value'', 5),
     (''window_seconds'', 6), (''dimension_type'', 7), (''dimension_pattern'', 8), (''priority'', 9), (''enabled'', 10), (''tags'', 11)]"

lemma read_fixed_texts:
  "read_change ''DELETE FROM rate_limit_rules WHERE id = $1'' = Some (Delete_rule_by_id 1)"
  "read_change ''UPDATE rate_limit_rules SET enabled = $1 WHERE id = $2'' = Some (Update_rule_by_id [(''enabled'', 1)] 2)"
  "read_change insert_rule_text = Some (Insert_rule insert_columns)"
  by code_simp+

section \<open>Reading the rows\<close>

text \<open>A condition compares a column with a parameter; \<^verbatim>\<open>1=1\<close> and \<^verbatim>\<open>enabled = true\<close> are written out.\<close>

datatype condition = Always | Is_enabled | Column_is string nat

record rule_select =
  sel_where :: "condition list"
  sel_ordered :: bool
  sel_limit :: "nat option"
  sel_offset :: "nat option"

fun read_conditions :: "string list \<Rightarrow> (condition list \<times> string list) option" where
  "read_conditions (w # ws) =
     (if w = ''1=1'' then
        (case ws of [] \<Rightarrow> Some ([Always], [])
         | a # rest \<Rightarrow> if a = ''AND'' then map_option (\<lambda>(cs, r). (Always # cs, r)) (read_conditions rest) else Some ([Always], ws))
      else case ws of
        eq # v # rest \<Rightarrow>
          (if eq \<noteq> ''='' then None
           else case (if w = ''enabled'' \<and> v = ''true'' then Some Is_enabled else map_option (Column_is w) (read_placeholder v)) of
             None \<Rightarrow> None
           | Some c \<Rightarrow> (case rest of [] \<Rightarrow> Some ([c], [])
               | a # rest' \<Rightarrow> if a = ''AND'' then map_option (\<lambda>(cs, r). (c # cs, r)) (read_conditions rest') else Some ([c], rest)))
      | _ \<Rightarrow> None)"
| "read_conditions [] = None"

text \<open>An optional clause: its keyword and a parameter.\<close>

definition read_clause :: "string \<Rightarrow> string list \<Rightarrow> nat option \<times> string list" where
  "read_clause keyword ws = (case ws of k # v # rest \<Rightarrow> if k = keyword then (read_placeholder v, rest) else (None, ws) | _ \<Rightarrow> (None, ws))"

definition priority_order :: "string list" where
  "priority_order = [''ORDER'', ''BY'', ''priority'', ''DESC,'', ''created_at'', ''DESC'']"

definition read_select :: "string \<Rightarrow> rule_select option" where
  "read_select s =
     (let ws = sql_words s in
      if take 5 ws \<noteq> [''SELECT'', ''*'', ''FROM'', ''rate_limit_rules'', ''WHERE''] then None
      else case read_conditions (drop 5 ws) of
        None \<Rightarrow> None
      | Some (cs, ws) \<Rightarrow>
          (let ordered = (take 6 ws = priority_order); ws = (if ordered then drop 6 ws else ws);
               (most, ws) = read_clause ''LIMIT'' ws; (start, ws) = read_clause ''OFFSET'' ws
           in if ws = [] then Some \<lparr>sel_where = cs, sel_ordered = ordered, sel_limit = most, sel_offset = start\<rparr> else None))"

definition read_count :: "string \<Rightarrow> condition list option" where
  "read_count s =
     (let ws = sql_words s in
      if take 5 ws \<noteq> [''SELECT'', ''COUNT(*)'', ''as'', ''count'', ''FROM''] \<or> take 1 (drop 5 ws) \<noteq> [''rate_limit_rules''] then None
      else if drop 6 ws = [] then Some []
      else if take 1 (drop 6 ws) = [''WHERE''] then
        (case read_conditions (drop 7 ws) of Some (cs, []) \<Rightarrow> Some cs | _ \<Rightarrow> None) else None)"

text \<open>Whether a row meets a condition; \<open>None\<close> where the parameter cannot be compared with the column.\<close>

definition meets :: "(string \<Rightarrow> string option) \<Rightarrow> jsval list \<Rightarrow> condition \<Rightarrow> (RuleRow \<Rightarrow> bool) option" where
  "meets uuid_in vs c =
     (case c of
        Always \<Rightarrow> Some (\<lambda>row. True)
      | Is_enabled \<Rightarrow> Some row_enabled
      | Column_is col n \<Rightarrow>
          if col = ''id'' then map_option (\<lambda>i row. row_id row = i) (Option.bind (as_text (parameter vs n)) uuid_in)
          else if col = ''name'' then map_option (\<lambda>s row. row_name row = s) (as_text (parameter vs n))
          else if col = ''dimension_type'' then map_option (\<lambda>s row. dimension_value (row_dimension_type row) = JStr s) (as_text (parameter vs n))
          else if col = ''enabled'' then map_option (\<lambda>b row. row_enabled row = b) (as_bool (parameter vs n))
          else None)"

definition meets_all :: "(string \<Rightarrow> string option) \<Rightarrow> jsval list \<Rightarrow> condition list \<Rightarrow> (RuleRow \<Rightarrow> bool) option" where
  "meets_all uuid_in vs cs = map_option (\<lambda>ps row. \<forall>p \<in> set ps. p row) (those (map (meets uuid_in vs) cs))"

definition page_number :: "jsval list \<Rightarrow> nat option \<Rightarrow> int option" where
  "page_number vs n = Option.bind n (\<lambda>n. as_whole (parameter vs n))"

definition page :: "int option \<Rightarrow> int option \<Rightarrow> 'a list \<Rightarrow> 'a list" where
  "page most start xs = (case most of None \<Rightarrow> (\<lambda>ys. ys) | Some l \<Rightarrow> take (nat l)) (drop (nat (or_default start 0)) xs)"

text \<open>
  What PostgreSQL does with the statements of the repository, as documented. The rows of a selection come
  in some order that its \<^verbatim>\<open>ORDER BY\<close> allows; a page with a negative bound is refused.
\<close>

definition answer_of :: "js_error + RuleRow list \<Rightarrow> js_error + RuleRow query_result" where
  "answer_of result = (case result of Inl e \<Rightarrow> Inl e | Inr rs \<Rightarrow> Inr \<lparr>rows = rs, rowCount = Some (int (length rs))\<rparr>)"

definition counted_answer :: "js_error + RuleRow list \<Rightarrow> js_error + unit query_result" where
  "counted_answer result = (case result of Inl e \<Rightarrow> Inl e | Inr rs \<Rightarrow> Inr \<lparr>rows = [], rowCount = Some (int (length rs))\<rparr>)"

definition selection :: "(string \<Rightarrow> string option) \<Rightarrow> rule_select \<Rightarrow> jsval list \<Rightarrow> RuleRow list \<Rightarrow> js_error + RuleRow list \<Rightarrow> bool" where
  "selection uuid_in q vs rs answer \<longleftrightarrow>
     (case meets_all uuid_in vs (sel_where q) of
        None \<Rightarrow> \<exists>e. answer = Inl e \<and> e \<in> {bad_uuid, bad_value}
      | Some P \<Rightarrow>
          if \<exists>n \<in> {page_number vs (sel_limit q), page_number vs (sel_offset q)}. \<exists>i < 0. n = Some i then answer = Inl bad_value
          else \<exists>full. mset full = mset (filter P rs) \<and> (sel_ordered q \<longrightarrow> sorted_wrt outranks full)
            \<and> answer = Inr (page (page_number vs (sel_limit q)) (page_number vs (sel_offset q)) full))"

locale sql_database =
  fixes uuid_in :: "string \<Rightarrow> string option" and uuid :: string and now :: int and view :: "'d \<Rightarrow> stored" and db :: "'d database"
  assumes changes_and_returns: "read_change s = Some change \<Longrightarrow> run_change uuid_in uuid now change vs (view d) = (result, t') \<Longrightarrow>
      \<exists>d'. run_state (query_rules db s vs) d = (answer_of result, d') \<and> view d' = t'"
    and changes_and_counts: "read_change s = Some change \<Longrightarrow> run_change uuid_in uuid now change vs (view d) = (result, t') \<Longrightarrow>
      \<exists>d'. run_state (query_nothing db s vs) d = (counted_answer result, d') \<and> view d' = t'"
    and selects: "read_select s = Some q \<Longrightarrow> \<exists>answer d'. run_state (query_rules db s vs) d = (answer_of answer, d') \<and> view d' = view d
      \<and> selection uuid_in q vs (t_rules (view d)) answer"
    and tallies: "read_count s = Some cs \<Longrightarrow> meets_all uuid_in vs cs = Some P \<Longrightarrow>
      \<exists>d'. run_state (query_counts db s vs) d = (Inr \<lparr>rows = [string_of_nat (length (filter P (t_rules (view d))))], rowCount = Some 1\<rparr>, d') \<and> view d' = view d"

lemma read_selections:
  "read_select enabled_rules_text = Some \<lparr>sel_where = [Is_enabled], sel_ordered = True, sel_limit = None, sel_offset = None\<rparr>"
  "read_select ''SELECT * FROM rate_limit_rules WHERE id = $1'' = Some \<lparr>sel_where = [Column_is ''id'' 1], sel_ordered = False, sel_limit = None, sel_offset = None\<rparr>"
  "read_select ''SELECT * FROM rate_limit_rules WHERE name = $1'' = Some \<lparr>sel_where = [Column_is ''name'' 1], sel_ordered = False, sel_limit = None, sel_offset = None\<rparr>"
  "read_count ''SELECT COUNT(*) as count FROM rate_limit_rules'' = Some []"
  "read_count ''SELECT COUNT(*) as count FROM rate_limit_rules WHERE enabled = $1'' = Some [Column_is ''enabled'' 1]"
  by code_simp+

text \<open>The engine's statement keeps its contract.\<close>

sublocale sql_database \<subseteq> rule_table db "\<lambda>d. t_rules (view d)"
proof unfold_locales
  fix d
  obtain answer d' where run: "run_state (query_rules db enabled_rules_text []) d = (answer_of answer, d')" "view d' = view d"
    "selection uuid_in \<lparr>sel_where = [Is_enabled], sel_ordered = True, sel_limit = None, sel_offset = None\<rparr> [] (t_rules (view d)) answer"
    using selects[OF read_selections(1)] by blast
  then obtain full where "mset full = mset (filter row_enabled (t_rules (view d)))" "sorted_wrt outranks full" "answer = Inr full"
    by (auto simp: selection_def meets_all_def meets_def page_number_def page_def or_default_def)
  then show "\<exists>rs n d'. run_state (query_rules db enabled_rules_text []) d = (Inr \<lparr>rows = rs, rowCount = n\<rparr>, d')
      \<and> t_rules (view d') = t_rules (view d) \<and> enabled_in_order (t_rules (view d)) rs"
    using run(1,2) by (auto simp: answer_of_def enabled_in_order_def)
qed

end
