(* ===== verification/Rule_Store.thy ===== *)
theory Rule_Store
  imports Rule_Statements
begin

text \<open>
  The routes of \<^verbatim>\<open>src/routes/rules.routes.ts\<close> over a database that runs the statements of the repository: they refine a
  table of rules with its statistics.
\<close>

section \<open>What the routes promise\<close>

definition rule_with :: "string \<Rightarrow> stored \<Rightarrow> RuleRow option" where
  "rule_with i t = find (\<lambda>row. row_id row = i) (t_rules t)"

definition replaced :: "string \<Rightarrow> (RuleRow \<Rightarrow> RuleRow) \<Rightarrow> RuleRow list \<Rightarrow> RuleRow list" where
  "replaced i f rs = map (\<lambda>row. if row_id row = i then f row else row) rs"

text \<open>A change of the rule with an id: the status of the answer and the tables after it.\<close>

definition edited :: "(string \<Rightarrow> string option) \<Rightarrow> string \<Rightarrow> (RuleRow \<Rightarrow> RuleRow) \<Rightarrow> stored \<Rightarrow> int \<times> stored" where
  "edited uuid_in rid f t =
     (case uuid_in rid of
        None \<Rightarrow> (500, t)
      | Some i \<Rightarrow> (case rule_with i t of
          None \<Rightarrow> (404, t)
        | Some row \<Rightarrow>
            if \<exists>other \<in> set (t_rules t). row_id other \<noteq> i \<and> row_name other = row_name (f row) then (409, t)
            else (200, t\<lparr>t_rules := replaced i f (t_rules t)\<rparr>)))"

definition removed :: "(string \<Rightarrow> string option) \<Rightarrow> string \<Rightarrow> stored \<Rightarrow> int \<times> stored" where
  "removed uuid_in rid t =
     (case uuid_in rid of
        None \<Rightarrow> (500, t)
      | Some i \<Rightarrow> (case rule_with i t of
          None \<Rightarrow> (404, t)
        | Some row \<Rightarrow> (200, t\<lparr>t_rules := filter (\<lambda>row. row_id row \<noteq> i) (t_rules t), t_hits := filter (\<lambda>h. hit_rule_id h \<noteq> i) (t_hits t)\<rparr>)))"

text \<open>Bounds of a page that PostgreSQL refuses.\<close>

definition page_refused :: "rule_filter \<Rightarrow> bool" where
  "page_refused options \<longleftrightarrow> (\<exists>n \<in> {page_limit options, page_offset options}. \<exists>i < 0. n = Some i)"

definition promised :: "(string \<Rightarrow> string option) \<Rightarrow> string \<Rightarrow> int \<Rightarrow> rules_call \<Rightarrow> stored \<Rightarrow> int \<times> stored" where
  "promised uuid_in drawn now call t =
     (case call of
        Create_rule b \<Rightarrow>
          if cr_name b \<in> row_name ` set (t_rules t) then (409, t) else (201, t\<lparr>t_rules := t_rules t @ [created_row drawn now b]\<rparr>)
      | Get_rule rid \<Rightarrow> (case uuid_in rid of None \<Rightarrow> (500, t) | Some i \<Rightarrow> if rule_with i t = None then (404, t) else (200, t))
      | Update_rule rid u \<Rightarrow>
          if present_fields u = []
          then (case uuid_in rid of None \<Rightarrow> (500, t) | Some i \<Rightarrow> if rule_with i t = None then (404, t) else (200, t))
          else edited uuid_in rid (\<lambda>row. update_updated_at_column now (updated_row u row)) t
      | Enable_rule rid \<Rightarrow> edited uuid_in rid (\<lambda>row. update_updated_at_column now (row\<lparr>row_enabled := True\<rparr>)) t
      | Disable_rule rid \<Rightarrow> edited uuid_in rid (\<lambda>row. update_updated_at_column now (row\<lparr>row_enabled := False\<rparr>)) t
      | Delete_rule rid \<Rightarrow> removed uuid_in rid t
      | List_rules query \<Rightarrow> (if page_refused (list_options query) then 500 else 200, t)
      | _ \<Rightarrow> (200, t))"

lemma edited_names:
  assumes ok: "rules_ok rs" and row: "row \<in> set rs" "row_id row = i" and same: "row_id new = i"
  shows "distinct (map row_id (map (\<lambda>r. if row_id r = i then new else r) rs))"
    and "distinct (map row_name (map (\<lambda>r. if row_id r = i then new else r) rs)) \<longleftrightarrow> (\<nexists>other. other \<in> set rs \<and> row_id other \<noteq> i \<and> row_name other = row_name new)"
proof -
  have ids: "map row_id (map (\<lambda>r. if row_id r = i then new else r) rs) = map row_id rs" using same by simp
  then show "distinct (map row_id (map (\<lambda>r. if row_id r = i then new else r) rs))" using ok by (simp only: rules_ok_def)
  obtain as bs where rs: "rs = as @ row # bs" using row(1) by (meson split_list)
  have others: "\<forall>r \<in> set as \<union> set bs. row_id r \<noteq> i"
  proof -
    have "i \<notin> row_id ` set as \<union> row_id ` set bs" using ok row(2) by (simp add: rules_ok_def rs)
    then show ?thesis by blast
  qed
  then have "map (\<lambda>r. if row_id r = i then new else r) as = as" "map (\<lambda>r. if row_id r = i then new else r) bs = bs"
    by (auto intro!: map_idI)
  then have names: "map row_name (map (\<lambda>r. if row_id r = i then new else r) rs) = map row_name as @ row_name new # map row_name bs"
    using row(2) by (simp add: rs)
  have "distinct (map row_name as @ map row_name bs)" using ok by (auto simp: rules_ok_def rs)
  then have "distinct (map row_name as @ row_name new # map row_name bs) \<longleftrightarrow> row_name new \<notin> row_name ` (set as \<union> set bs)"
    by (auto simp: image_Un)
  also have "\<dots> \<longleftrightarrow> (\<nexists>other. other \<in> set rs \<and> row_id other \<noteq> i \<and> row_name other = row_name new)"
  proof -
    have "set as \<union> set bs = {other \<in> set rs. row_id other \<noteq> i}" using others row(2) unfolding rs by auto
    then have "row_name ` (set as \<union> set bs) = row_name ` {other \<in> set rs. row_id other \<noteq> i}" by (rule arg_cong)
    then show ?thesis by (simp only:) (auto simp: image_iff)
  qed
  finally show "distinct (map row_name (map (\<lambda>r. if row_id r = i then new else r) rs)) \<longleftrightarrow> (\<nexists>other. other \<in> set rs \<and> row_id other \<noteq> i \<and> row_name other = row_name new)"
    unfolding names .
qed

lemma run_update_edited:
  assumes ok: "stored_ok t" and sets: "\<And>row. set_columns uuid_in sets row = Inr (f row)"
    and f: "\<And>row. row_id (f row) = row_id row" "\<And>row. rule_row_ok row \<Longrightarrow> rule_row_ok (f row)"
  shows "run_update uuid_in now sets (JStr rid) t =
     (case uuid_in rid of None \<Rightarrow> (Inl bad_uuid, t)
      | Some i \<Rightarrow> (case rule_with i t of None \<Rightarrow> (Inr [], t)
        | Some row \<Rightarrow> if \<exists>other \<in> set (t_rules t). row_id other \<noteq> i \<and> row_name other = row_name (f row) then (Inl duplicate_key, t)
            else (Inr [update_updated_at_column now (f row)], t\<lparr>t_rules := replaced i (\<lambda>row. update_updated_at_column now (f row)) (t_rules t)\<rparr>)))"
proof (cases "uuid_in rid")
  case (Some i)
  show ?thesis
  proof (cases "rule_with i t")
    case None
    then show ?thesis using Some by (simp add: run_update_def rule_with_def)
  next
    case (Some row)
    let ?new = "update_updated_at_column now (f row)" and ?rs = "t_rules t"
    have row: "row \<in> set ?rs" "row_id row = i" using Some by (auto simp: rule_with_def find_Some_iff)
    have rules: "rules_ok ?rs" using ok by (simp add: stored_ok_def)
    have new: "row_id ?new = i" "row_name ?new = row_name (f row)" by (simp_all add: update_updated_at_column_def f(1) row(2))
    have "rule_row_ok row" using rules row(1) by (simp add: rules_ok_def list_all_iff)
    then have "rule_row_ok ?new" using f(2) by (simp add: update_updated_at_column_def rule_row_ok_def)
    then have all: "list_all rule_row_ok (map (\<lambda>r. if row_id r = i then ?new else r) ?rs)" using rules by (auto simp: rules_ok_def list_all_iff)
    have same: "map (\<lambda>r. if row_id r = i then ?new else r) ?rs = replaced i (\<lambda>row. update_updated_at_column now (f row)) ?rs"
    proof -
      have "r = row" if "r \<in> set ?rs" "row_id r = i" for r
        using that row rules unfolding rules_ok_def by (metis distinct_map inj_onD)
      then show ?thesis by (auto simp: replaced_def)
    qed
    note names = edited_names[OF rules row new(1)]
    show ?thesis
      using Some names(1) all
      by (simp add: run_update_def \<open>uuid_in rid = Some i\<close> rule_with_def sets Let_def admitted_rows_def names(2) new(2) same[symmetric] del: map_map) auto
  qed
qed (simp add: run_update_def)

lemma set_created:
  assumes "uuid_in rid = Some rid"
  shows "set_columns uuid_in (bound (insert_rule_values rid b) insert_columns) (default_row uuid now)
     = Inr (created_row rid now b)"
  using assms
  by (simp add: insert_columns_def bound_def insert_rule_values_def parameter_def set_column_def set_to_def nullable_def text_or_null_def default_row_def created_row_def
      nonempty_def or_default_def split: option.split list.split)

lemma run_insert_created:
  assumes ok: "stored_ok t" and rid: "uuid_in rid = Some rid" "rid \<notin> row_id ` set (t_rules t)" and fits: "rule_row_ok (created_row rid now b)"
  shows "run_change uuid_in uuid now (Insert_rule insert_columns) (insert_rule_values rid b) t
     = (if cr_name b \<in> row_name ` set (t_rules t) then (Inl duplicate_key, t)
        else (Inr [created_row rid now b], t\<lparr>t_rules := t_rules t @ [created_row rid now b]\<rparr>))"
proof -
  have assigned: "set columns_without_default \<subseteq> fst ` set (bound (insert_rule_values rid b) insert_columns)"
    by (simp add: bound_columns columns_without_default_def insert_columns_def)
  have "list_all rule_row_ok (t_rules t)" "distinct (map row_id (t_rules t))" "distinct (map row_name (t_rules t))"
    using ok by (simp_all add: stored_ok_def rules_ok_def)
  moreover have "row_id (created_row rid now b) = rid" "row_name (created_row rid now b) = cr_name b" by (simp_all add: created_row_def)
  ultimately have "admitted_rows (t_rules t @ [created_row rid now b])
      = (if cr_name b \<in> row_name ` set (t_rules t) then Inl duplicate_key else Inr (t_rules t @ [created_row rid now b]))"
    using rid(2) fits by (simp add: admitted_rows_def)
  then show ?thesis
    unfolding run_change_def run_insert_def rule_change.case set_created[of uuid_in rid b uuid now, OF rid(1)] using assigned by simp
qed

lemma error_statuses:
  "http_status (answered (Next (Some bad_uuid))) = 500" "http_status (answered (Next (Some bad_value))) = 500"
  "http_status (answered (Next (Some (ConflictError m)))) = 409" "http_status (answered (Next (Some (missing_rule rid)))) = 404"
  "\<not> isUniqueViolation bad_uuid" "\<not> isUniqueViolation bad_value" "isUniqueViolation duplicate_key" "\<not> isUniqueViolation (missing_rule rid)"
  by (simp_all add: answered_def errorHandler_def json_def bad_uuid_def bad_value_def duplicate_key_def missing_rule_def isUniqueViolation_def PG_UNIQUE_VIOLATION_def)

lemma selection_by_id:
  "selection uuid_in \<lparr>sel_where = [Column_is ''id'' 1], sel_ordered = False, sel_limit = None, sel_offset = None\<rparr> [JStr rid] rs answer \<longleftrightarrow>
     (case uuid_in rid of
        None \<Rightarrow> \<exists>e. answer = Inl e \<and> e \<in> {bad_uuid, bad_value}
      | Some i \<Rightarrow> \<exists>full. mset full = mset (filter (\<lambda>row. row_id row = i) rs) \<and> answer = Inr full)"
  by (cases "uuid_in rid") (simp_all add: selection_def meets_all_def meets_def parameter_def page_number_def page_def or_default_def)

context sql_database
begin

lemma find_by_id:
  "uuid_in rid = None \<Longrightarrow> \<exists>e d'. run_state (find_rule_by_id db rid) d = (Inl e, d') \<and> e \<in> {bad_uuid, bad_value} \<and> view d' = view d"
  "uuid_in rid = Some i \<Longrightarrow> \<exists>found d'. run_state (find_rule_by_id db rid) d = (Inr found, d') \<and> view d' = view d
     \<and> (found = None \<longleftrightarrow> rule_with i (view d) = None)"
proof -
  obtain answer d' where run: "run_state (query_rules db ''SELECT * FROM rate_limit_rules WHERE id = $1'' [JStr rid]) d = (answer_of answer, d')" "view d' = view d"
    "selection uuid_in \<lparr>sel_where = [Column_is ''id'' 1], sel_ordered = False, sel_limit = None, sel_offset = None\<rparr> [JStr rid] (t_rules (view d)) answer"
    using selects[OF read_selections(2)] by blast
  show "\<exists>e d'. run_state (find_rule_by_id db rid) d = (Inl e, d') \<and> e \<in> {bad_uuid, bad_value} \<and> view d' = view d" if "uuid_in rid = None"
    using run that unfolding selection_by_id by (auto simp: find_rule_by_id_def answer_of_def)
  show "\<exists>found d'. run_state (find_rule_by_id db rid) d = (Inr found, d') \<and> view d' = view d \<and> (found = None \<longleftrightarrow> rule_with i (view d) = None)"
    if "uuid_in rid = Some i"
  proof -
    have "\<exists>full. mset full = mset (filter (\<lambda>row. row_id row = i) (t_rules (view d))) \<and> answer = Inr full"
      by (rule run(3)[unfolded selection_by_id that option.case])
    then obtain full where full: "mset full = mset (filter (\<lambda>row. row_id row = i) (t_rules (view d)))" "answer = Inr full"
      by (elim exE conjE)
    have "full = [] \<longleftrightarrow> rule_with i (view d) = None"
      using arg_cong[OF full(1), of set_mset] by (auto simp: rule_with_def find_None_iff simp flip: set_empty)
    then show ?thesis using run(1,2) full(2) by (auto simp: find_rule_by_id_def answer_of_def first_rule_def split: list.split)
  qed
qed

lemma changed_rules:
  assumes "read_change s = Some change" "run_change uuid_in uuid now change vs (view d) = (result, t')"
  shows "\<exists>d'. run_state (throwing (query_rules db s vs) (\<lambda>result. js_return (first_rule result))) d
      = (case result of Inl e \<Rightarrow> Inl e | Inr rs \<Rightarrow> Inr (case rs of [] \<Rightarrow> None | row # _ \<Rightarrow> Some (mapRowToRule row)), d') \<and> view d' = t'"
    and "\<exists>d'. run_state (throwing (query_nothing db s vs) (\<lambda>result. js_return (affected result))) d
      = (case result of Inl e \<Rightarrow> Inl e | Inr rs \<Rightarrow> Inr (rs \<noteq> []), d') \<and> view d' = t'"
  using changes_and_returns[OF assms] changes_and_counts[OF assms]
  by (auto simp: answer_of_def counted_answer_def first_rule_def affected_def split: sum.splits list.splits)

lemma created:
  assumes "stored_ok (view d)" "uuid_in rid = Some rid" "rid \<notin> row_id ` set (t_rules (view d))" "rule_row_ok (created_row rid now b)"
  shows "\<exists>d'. run_state (create_rule db rid b) d
      = (if cr_name b \<in> row_name ` set (t_rules (view d)) then Inl duplicate_key else Inr (mapRowToRule (created_row rid now b)), d')
    \<and> view d' = (if cr_name b \<in> row_name ` set (t_rules (view d)) then view d
        else (view d)\<lparr>t_rules := t_rules (view d) @ [created_row rid now b]\<rparr>)"
proof -
  show ?thesis
  proof (cases "cr_name b \<in> row_name ` set (t_rules (view d))")
    case True
    obtain d' where "run_state (query_rules db insert_rule_text (insert_rule_values rid b)) d = (answer_of (Inl duplicate_key), d')" "view d' = view d"
      using changes_and_returns[OF read_fixed_texts(3), of "insert_rule_values rid b" d] run_insert_created[of "view d" uuid_in rid now b uuid, OF assms] True by fastforce
    then show ?thesis using True by (simp add: create_rule_def answer_of_def)
  next
    case False
    obtain d' where "run_state (query_rules db insert_rule_text (insert_rule_values rid b)) d = (answer_of (Inr [created_row rid now b]), d')"
        "view d' = (view d)\<lparr>t_rules := t_rules (view d) @ [created_row rid now b]\<rparr>"
      using changes_and_returns[OF read_fixed_texts(3), of "insert_rule_values rid b" d] run_insert_created[of "view d" uuid_in rid now b uuid, OF assms] False by fastforce
    then show ?thesis using False by (simp add: create_rule_def answer_of_def first_rule_def)
  qed
qed

text \<open>A change of one row that returns it.\<close>

lemma edits:
  assumes reads: "read_change s = Some (Update_rule_by_id sets n)" and given: "bound vs sets = assigned" "parameter vs n = JStr rid"
    and ok: "stored_ok (view d)" and sets: "\<And>row. set_columns uuid_in assigned row = Inr (f row)"
    and f: "\<And>row. row_id (f row) = row_id row" "\<And>row. rule_row_ok row \<Longrightarrow> rule_row_ok (f row)"
  shows "\<exists>r d'. run_state (throwing (query_rules db s vs) (\<lambda>result. js_return (first_rule result))) d = (r, d')
      \<and> (http_status (answered (Next (Some (case r of Inl e \<Rightarrow> conflict_or_same m e | Inr found \<Rightarrow> missing_rule rid)))),
          (\<exists>rule. r = Inr (Some rule)), view d')
        = (case edited uuid_in rid (\<lambda>row. update_updated_at_column now (f row)) (view d) of
             (status, t) \<Rightarrow> (if status = 200 then 404 else status, status = 200, t))"
proof -
  let ?g = "\<lambda>row. update_updated_at_column now (f row)"
  obtain result t' where run: "run_update uuid_in now assigned (JStr rid) (view d) = (result, t')" by (cases "run_update uuid_in now assigned (JStr rid) (view d)")
  then have change: "run_change uuid_in uuid now (Update_rule_by_id sets n) vs (view d) = (result, t')" by (simp add: run_change_def given)
  have name: "row_name (?g row) = row_name (f row)" for row by (simp add: update_updated_at_column_def)
  have table: "(http_status (answered (Next (Some (case result of Inl e \<Rightarrow> conflict_or_same m e | Inr found \<Rightarrow> missing_rule rid)))),
      (\<exists>row rest. result = Inr (row # rest)), t')
    = (case edited uuid_in rid ?g (view d) of (status, t) \<Rightarrow> (if status = 200 then 404 else status, status = 200, t))"
    using run_update_edited[OF ok sets f, of now rid] run
    by (auto simp: edited_def name conflict_or_same_def error_statuses split: option.splits if_splits)
  obtain d1 where "run_state (throwing (query_rules db s vs) (\<lambda>result. js_return (first_rule result))) d
      = (case result of Inl e \<Rightarrow> Inl e | Inr rs \<Rightarrow> Inr (case rs of [] \<Rightarrow> None | row # _ \<Rightarrow> Some (mapRowToRule row)), d1)" "view d1 = t'"
    using changed_rules(1)[OF reads change] by blast
  then show "\<exists>r d'. run_state (throwing (query_rules db s vs) (\<lambda>result. js_return (first_rule result))) d = (r, d')
      \<and> (http_status (answered (Next (Some (case r of Inl e \<Rightarrow> conflict_or_same m e | Inr found \<Rightarrow> missing_rule rid)))),
          (\<exists>rule. r = Inr (Some rule)), view d')
        = (case edited uuid_in rid ?g (view d) of (status, t) \<Rightarrow> (if status = 200 then 404 else status, status = 200, t))"
    unfolding table[symmetric] by (cases result) (auto split: list.split)
qed

end


section \<open>The routes keep the promise\<close>

text \<open>What the values of a call have to satisfy: its row meets the constraints, and a drawn id is new.\<close>

definition fits :: "(string \<Rightarrow> string option) \<Rightarrow> string \<Rightarrow> int \<Rightarrow> rules_call \<Rightarrow> stored \<Rightarrow> bool" where
  "fits uuid_in drawn now call t \<longleftrightarrow>
     (case call of
        Create_rule b \<Rightarrow> uuid_in drawn = Some drawn \<and> drawn \<notin> row_id ` set (t_rules t) \<and> rule_row_ok (created_row drawn now b)
      | Update_rule rid u \<Rightarrow> \<forall>row. rule_row_ok row \<longrightarrow> rule_row_ok (updated_row u row)
      | _ \<Rightarrow> True)"

definition lists :: "rules_call \<Rightarrow> bool" where
  "lists call \<longleftrightarrow> (case call of List_rules query \<Rightarrow> True | _ \<Rightarrow> False)"

lemma row_ok_enabled: "rule_row_ok (row\<lparr>row_enabled := b\<rparr>) = rule_row_ok row"
  by (simp add: rule_row_ok_def)

lemma set_enabled: "set_columns uuid_in [(''enabled'', JBool b)] row = Inr (row\<lparr>row_enabled := b\<rparr>)"
  by (simp add: set_column_def set_to_def)

lemma updated_id: "row_id (updated_row u row) = row_id row"
  by (simp add: updated_row_def)

context sql_database
begin

lemma affecting_keeps:
  assumes reads: "read_change s = Some (Update_rule_by_id sets n)" and given: "bound vs sets = [(''enabled'', JBool b)]" "parameter vs n = JStr rid"
    and ok: "stored_ok (view (re_db st))"
  shows "\<exists>outcome es st'. run_state (forwarding same_error (affecting (throwing (query_nothing db s vs) (\<lambda>result. js_return (affected result))) rid message)) st
      = ((outcome, es), st')
    \<and> (http_status (answered outcome), view (re_db st')) = edited uuid_in rid (\<lambda>row. update_updated_at_column now (row\<lparr>row_enabled := b\<rparr>)) (view (re_db st))"
proof -
  let ?t = "view (re_db st)"
  obtain result t' where run: "run_update uuid_in now [(''enabled'', JBool b)] (JStr rid) ?t = (result, t')"
    by (cases "run_update uuid_in now [(''enabled'', JBool b)] (JStr rid) ?t")
  then have change: "run_change uuid_in uuid now (Update_rule_by_id sets n) vs ?t = (result, t')" by (simp add: run_change_def given)
  have clear: "\<not> (\<exists>other \<in> set (t_rules ?t). row_id other \<noteq> i \<and> row_name other = row_name row)" if "rule_with i ?t = Some row" for i row
  proof -
    have row: "row \<in> set (t_rules ?t)" "row_id row = i" using that by (auto simp: rule_with_def find_Some_iff)
    have "inj_on row_name (set (t_rules ?t))" using ok by (simp add: stored_ok_def rules_ok_def distinct_map)
    then show ?thesis using row by (metis inj_onD)
  qed
  have ran: "run_update uuid_in now [(''enabled'', JBool b)] (JStr rid) ?t
      = (case uuid_in rid of None \<Rightarrow> (Inl bad_uuid, ?t)
         | Some i \<Rightarrow> (case rule_with i ?t of None \<Rightarrow> (Inr [], ?t)
           | Some row \<Rightarrow> (Inr [update_updated_at_column now (row\<lparr>row_enabled := b\<rparr>)],
               ?t\<lparr>t_rules := replaced i (\<lambda>row. update_updated_at_column now (row\<lparr>row_enabled := b\<rparr>)) (t_rules ?t)\<rparr>)))"
    by (cases "uuid_in rid"; cases "rule_with (the (uuid_in rid)) ?t")
      (simp_all add: run_update_edited[OF ok set_enabled] row_ok_enabled clear del: not_ex bex_simps)
  obtain d2 where replied: "run_state (throwing (query_nothing db s vs) (\<lambda>result. js_return (affected result))) (re_db st)
      = (case result of Inl e \<Rightarrow> Inl e | Inr rs \<Rightarrow> Inr (rs \<noteq> []), d2)" "view d2 = t'"
    using changed_rules(2)[OF reads change] by blast
  have plain: "row_name (update_updated_at_column now (row\<lparr>row_enabled := b\<rparr>)) = row_name row" for row by (simp add: update_updated_at_column_def)
  show ?thesis
    using run replied ran
    by (cases "uuid_in rid"; cases "rule_with (the (uuid_in rid)) ?t")
      (auto simp: forwarding_def affecting_def same_error_def edited_def plain error_statuses answered_def[of "Reply r" for r] json_def dest: clear)
qed

lemma get_keeps:
  assumes missing: "\<And>found. answer_to found = (case found of None \<Rightarrow> js_throw (missing_rule rid) | Some rule \<Rightarrow> respond rule)"
    and respond: "\<And>rule st. \<exists>response st'. run_state (respond rule) st = (Inr response, st') \<and> http_status response = 200 \<and> re_db st' = re_db st"
    and same: "\<And>e. \<not> isUniqueViolation e \<Longrightarrow> translate e = e"
  shows "\<exists>outcome es st'. run_state (forwarding translate (unrecorded (throwing (on_rules (find_rule_by_id db rid)) answer_to))) st = ((outcome, es), st')
    \<and> (http_status (answered outcome), view (re_db st'))
      = (case uuid_in rid of None \<Rightarrow> (500, view (re_db st)) | Some i \<Rightarrow> if rule_with i (view (re_db st)) = None then (404, view (re_db st)) else (200, view (re_db st)))"
proof (cases "uuid_in rid")
  case None
  obtain e d' where e: "run_state (find_rule_by_id db rid) (re_db st) = (Inl e, d')" "e \<in> {bad_uuid, bad_value}" "view d' = view (re_db st)"
    using find_by_id(1)[OF None] by blast
  then have "translate e = e" "http_status (answered (Next (Some e))) = 500" using same error_statuses by auto
  then show ?thesis using None e by (simp add: forwarding_def)
next
  case (Some i)
  obtain found d' where found: "run_state (find_rule_by_id db rid) (re_db st) = (Inr found, d')" "view d' = view (re_db st)"
    "found = None \<longleftrightarrow> rule_with i (view (re_db st)) = None"
    using find_by_id(2)[OF Some] by blast
  show ?thesis
  proof (cases found)
    case None
    then show ?thesis using Some found same error_statuses by (simp add: forwarding_def missing)
  next
    case (Some rule)
    obtain response st' where "run_state (respond rule) (st\<lparr>re_db := d'\<rparr>) = (Inr response, st')" "http_status response = 200" "re_db st' = d'"
      using respond[of rule "st\<lparr>re_db := d'\<rparr>"] by auto
    then show ?thesis using \<open>uuid_in rid = Some i\<close> found Some by (simp add: forwarding_def missing answered_def)
  qed
qed

lemma update_keeps:
  assumes ok: "stored_ok (view (re_db st))" and some: "present_fields u \<noteq> []" and bounds: "\<And>row. rule_row_ok row \<Longrightarrow> rule_row_ok (updated_row u row)"
    and env: "rules_db env = db"
  shows "\<exists>outcome es st'. run_state (forwarding (conflict_or_same m) (update_rule_handler env rid u)) st = ((outcome, es), st')
    \<and> (http_status (answered outcome), view (re_db st')) = edited uuid_in rid (\<lambda>row. update_updated_at_column now (updated_row u row)) (view (re_db st))"
proof -
  let ?fs = "present_fields u"
  let ?s = "update_rule_text (numbered 1 ?fs) (length ?fs + 1)" and ?vs = "map snd ?fs @ [JStr rid]"
  have given: "bound ?vs (map (\<lambda>(n, (col, v)). (col, n)) (enumerate 1 ?fs)) = ?fs" "parameter ?vs (length ?fs + 1) = JStr rid"
    using bound_enumerated[of "[]" ?fs "[JStr rid]"] by (simp_all add: parameter_def nth_append)
  have stated: "update_rule db rid u = throwing (query_rules db ?s ?vs) (\<lambda>result. js_return (first_rule result))"
    using some by (simp add: update_rule_def rule_updates_present)
  obtain r d' where run: "run_state (update_rule db rid u) (re_db st) = (r, d')"
    "(http_status (answered (Next (Some (case r of Inl e \<Rightarrow> conflict_or_same m e | Inr found \<Rightarrow> missing_rule rid)))), (\<exists>rule. r = Inr (Some rule)), view d')
        = (case edited uuid_in rid (\<lambda>row. update_updated_at_column now (updated_row u row)) (view (re_db st)) of
             (status, t) \<Rightarrow> (if status = 200 then 404 else status, status = 200, t))"
    unfolding stated using edits[OF read_update_text[OF some present_fields_plain] given ok set_present_fields updated_id bounds, of m] by blast
  have same: "conflict_or_same m (missing_rule rid) = missing_rule rid" by (simp add: conflict_or_same_def error_statuses)
  show ?thesis
    using run
    by (auto simp: forwarding_def update_rule_handler_def env same answered_def[of "Reply x" for x] json_def split: sum.splits prod.splits option.splits if_splits)
qed

lemma create_keeps:
  assumes ok: "stored_ok (view (re_db st))" and drawn: "uuid_in rid = Some rid" "rid \<notin> row_id ` set (t_rules (view (re_db st)))"
    and bounds: "rule_row_ok (created_row rid now b)" and env: "rules_db env = db"
  shows "\<exists>outcome es st'. run_state (forwarding (conflict_or_same m) (create_rule_handler env rid b)) st = ((outcome, es), st')
    \<and> (http_status (answered outcome), view (re_db st')) = promised uuid_in rid now (Create_rule b) (view (re_db st))"
proof -
  obtain d' where run: "run_state (create_rule db rid b) (re_db st)
      = (if cr_name b \<in> row_name ` set (t_rules (view (re_db st))) then Inl duplicate_key else Inr (mapRowToRule (created_row rid now b)), d')"
    "view d' = (if cr_name b \<in> row_name ` set (t_rules (view (re_db st))) then view (re_db st)
        else (view (re_db st))\<lparr>t_rules := t_rules (view (re_db st)) @ [created_row rid now b]\<rparr>)"
    using created[OF ok drawn bounds] by blast
  show ?thesis
  proof (cases "cr_name b \<in> row_name ` set (t_rules (view (re_db st)))")
    case True
    then show ?thesis using run
      by (simp add: forwarding_def create_rule_handler_def env and_then_def promised_def conflict_or_same_def error_statuses)
  next
    case False
    then show ?thesis using run
      by (simp add: forwarding_def create_rule_handler_def env and_then_def promised_def answered_def json_def)
  qed
qed

lemma delete_keeps:
  assumes ok: "stored_ok (view (re_db st))" and env: "rules_db env = db"
  shows "\<exists>outcome es st'. run_state (forwarding same_error (delete_rule_handler env rid)) st = ((outcome, es), st')
    \<and> (http_status (answered outcome), view (re_db st')) = removed uuid_in rid (view (re_db st))"
proof -
  let ?t = "view (re_db st)"
  obtain result t' where change: "run_change uuid_in uuid now (Delete_rule_by_id 1) [JStr rid] ?t = (result, t')"
    by (cases "run_change uuid_in uuid now (Delete_rule_by_id 1) [JStr rid] ?t")
  obtain d2 where replied: "run_state (delete_rule db rid) (re_db st) = (case result of Inl e \<Rightarrow> Inl e | Inr rs \<Rightarrow> Inr (rs \<noteq> []), d2)" "view d2 = t'"
    unfolding delete_rule_def using changed_rules(2)[OF read_fixed_texts(1) change] by blast
  show ?thesis
  proof (cases "uuid_in rid")
    case None
    then show ?thesis using change replied
      by (auto simp: run_change_def run_delete_def parameter_def forwarding_def delete_rule_handler_def affecting_def env same_error_def removed_def error_statuses)
  next
    case (Some i)
    then have result: "result = Inr (filter (\<lambda>row. row_id row = i) (t_rules ?t))"
      "t' = ?t\<lparr>t_rules := filter (\<lambda>row. row_id row \<noteq> i) (t_rules ?t), t_hits := filter (\<lambda>h. hit_rule_id h \<noteq> i) (t_hits ?t)\<rparr>"
      using change by (simp_all add: run_change_def run_delete_def parameter_def)
    show ?thesis
    proof (cases "rule_with i ?t")
      case None
      then have none: "\<forall>row \<in> set (t_rules ?t). row_id row \<noteq> i" by (auto simp: rule_with_def find_None_iff)
      then have "\<forall>h \<in> set (t_hits ?t). hit_rule_id h \<noteq> i" using ok by (fastforce simp: stored_ok_def hits_ok_def)
      then have "t' = ?t" using none by (simp add: result(2) filter_id_conv[THEN iffD2])
      then show ?thesis using Some None none replied
        by (simp add: forwarding_def delete_rule_handler_def affecting_def env same_error_def removed_def error_statuses result(1))
    next
      case (Some row)
      then have "row \<in> set (filter (\<lambda>row. row_id row = i) (t_rules ?t))" by (auto simp: rule_with_def find_Some_iff)
      then have "filter (\<lambda>row. row_id row = i) (t_rules ?t) \<noteq> []" by (metis list.set(1) empty_iff)
      then show ?thesis using \<open>uuid_in rid = Some i\<close> Some replied
        by (simp add: forwarding_def delete_rule_handler_def affecting_def env same_error_def removed_def result answered_def json_def)
    qed
  qed
qed

end

section \<open>Listing\<close>

text \<open>The rows a listing asks for, and its bounds; a bound of 0 is no bound.\<close>

definition asked :: "rule_filter \<Rightarrow> RuleRow \<Rightarrow> bool" where
  "asked options row \<longleftrightarrow>
     (case by_enabled options of Some b \<Rightarrow> row_enabled row = b | None \<Rightarrow> True)
     \<and> (case by_dimensionType options of Some d \<Rightarrow> d = [] \<or> dimension_value (row_dimension_type row) = JStr d | None \<Rightarrow> True)"

definition page_bound :: "int option \<Rightarrow> int option" where
  "page_bound n = (if n = Some 0 then None else n)"

text \<open>The text of a listing depends only on which filters there are.\<close>

definition shape :: "bool \<Rightarrow> bool \<Rightarrow> bool \<Rightarrow> bool \<Rightarrow> rule_filter" where
  "shape e d l p = \<lparr>by_enabled = (if e then Some True else None), by_dimensionType = (if d then Some ''user'' else None),
     page_limit = (if l then Some 1 else None), page_offset = (if p then Some 1 else None)\<rparr>"

definition shape_of :: "rule_filter \<Rightarrow> rule_filter" where
  "shape_of options = shape (by_enabled options \<noteq> None) (by_dimensionType options \<notin> {None, Some []})
     (page_bound (page_limit options) \<noteq> None) (page_bound (page_offset options) \<noteq> None)"

definition listed_values :: "rule_filter \<Rightarrow> jsval list" where
  "listed_values options =
     map snd (present ''enabled'' (map_option JBool (by_enabled options))
       @ present ''type'' (if by_dimensionType options = Some [] then None else map_option JStr (by_dimensionType options))
       @ present ''limit'' (map_option (JNum \<circ> of_int) (page_bound (page_limit options)))
       @ present ''offset'' (map_option (JNum \<circ> of_int) (page_bound (page_offset options))))"

lemma find_all_text:
  "fst (find_all_statement options) = fst (find_all_statement (shape_of options))"
  "fst (snd (find_all_statement options)) = listed_values options"
  by (cases "by_enabled options"; cases "by_dimensionType options"; cases "page_limit options"; cases "page_offset options";
      simp add: find_all_statement_def add_clause_def shape_of_def shape_def listed_values_def present_def page_bound_def)+

definition shaped_select :: "bool \<Rightarrow> bool \<Rightarrow> bool \<Rightarrow> bool \<Rightarrow> rule_select" where
  "shaped_select e d l p =
     (let k = (if e then 1 else 0); m = k + (if d then 1 else 0); n = m + (if l then 1 else 0) in
      \<lparr>sel_where = Always # (if e then [Column_is ''enabled'' 1] else []) @ (if d then [Column_is ''dimension_type'' (k + 1)] else []),
       sel_ordered = True, sel_limit = (if l then Some (m + 1) else None), sel_offset = (if p then Some (n + 1) else None)\<rparr>)"

lemma read_shapes: "read_select (fst (find_all_statement (shape e d l p))) = Some (shaped_select e d l p)"
  by (cases e rule: bool.exhaust; cases d rule: bool.exhaust; cases l rule: bool.exhaust; cases p rule: bool.exhaust; hypsubst; code_simp)

lemma parameters_listed:
  "by_enabled options = Some b \<Longrightarrow> parameter (listed_values options) 1 = JBool b"
  by (simp add: parameter_def listed_values_def present_def)

lemma selection_listed:
  "selection uuid_in (shaped_select (by_enabled options \<noteq> None) (by_dimensionType options \<notin> {None, Some []})
       (page_bound (page_limit options) \<noteq> None) (page_bound (page_offset options) \<noteq> None)) (listed_values options) rs answer
   \<longleftrightarrow> (if page_refused options then answer = Inl bad_value
      else \<exists>full. mset full = mset (filter (asked options) rs) \<and> sorted_wrt outranks full
        \<and> answer = Inr (page (page_bound (page_limit options)) (page_bound (page_offset options)) full))"
proof -
  let ?q = "shaped_select (by_enabled options \<noteq> None) (by_dimensionType options \<notin> {None, Some []})
       (page_bound (page_limit options) \<noteq> None) (page_bound (page_offset options) \<noteq> None)"
  let ?vs = "listed_values options"
  have conditions: "meets_all uuid_in ?vs (sel_where ?q) = Some (asked options)"
    by (cases "by_enabled options"; cases "by_dimensionType options"; cases "the (by_dimensionType options) = []")
      (simp_all add: shaped_select_def Let_def meets_all_def meets_def listed_values_def present_def parameter_def asked_def[abs_def])
  have bounds: "page_number ?vs (sel_limit ?q) = page_bound (page_limit options)" "page_number ?vs (sel_offset ?q) = page_bound (page_offset options)"
    by (cases "by_enabled options"; cases "by_dimensionType options"; cases "the (by_dimensionType options) = []";
        cases "page_bound (page_limit options)"; cases "page_bound (page_offset options)";
        simp add: shaped_select_def Let_def page_number_def listed_values_def present_def parameter_def)+
  have ordered: "sel_ordered ?q" by (simp add: shaped_select_def Let_def)
  have refused: "(\<exists>n \<in> {page_bound (page_limit options), page_bound (page_offset options)}. \<exists>i < 0. n = Some i) \<longleftrightarrow> page_refused options"
    by (auto simp: page_refused_def page_bound_def split: if_splits)
  show ?thesis unfolding selection_def conditions bounds option.case refused using ordered by simp
qed

lemma parse_count_of_nat: "parse_count (string_of_nat n) = Some (int n)"
proof -
  have whole: "takeWhile digit_char (string_of_nat n) = string_of_nat n" using string_of_nat_digits by (simp add: takeWhile_eq_all_conv)
  show ?thesis unfolding parse_count_def whole by (simp add: digits_number_of_nat)
qed

text \<open>How many rules a listing says there are: those of the \<^verbatim>\<open>enabled\<close> filter, whatever the dimension.\<close>

definition told_total :: "rule_filter \<Rightarrow> RuleRow list \<Rightarrow> int" where
  "told_total options rs = int (length (filter (\<lambda>row. case by_enabled options of Some b \<Rightarrow> row_enabled row = b | None \<Rightarrow> True) rs))"

context sql_database
begin

lemma finds_all:
  "\<exists>r d'. run_state (find_all_rules db options) d = (r, d') \<and> view d' = view d
     \<and> (if page_refused options then r = Inl bad_value
        else \<exists>full. mset full = mset (filter (asked options) (t_rules (view d))) \<and> sorted_wrt outranks full
          \<and> r = Inr (map mapRowToRule (page (page_bound (page_limit options)) (page_bound (page_offset options)) full)))"
proof -
  obtain n where statement: "find_all_statement options = (fst (find_all_statement (shape_of options)), listed_values options, n)"
    using find_all_text[of options] by (metis prod.collapse)
  obtain answer d' where run: "run_state (query_rules db (fst (find_all_statement (shape_of options))) (listed_values options)) d = (answer_of answer, d')"
      "view d' = view d"
    "selection uuid_in (shaped_select (by_enabled options \<noteq> None) (by_dimensionType options \<notin> {None, Some []})
       (page_bound (page_limit options) \<noteq> None) (page_bound (page_offset options) \<noteq> None)) (listed_values options) (t_rules (view d)) answer"
    unfolding shape_of_def using selects[OF read_shapes] by blast
  then show ?thesis unfolding selection_listed by (auto simp: find_all_rules_def statement answer_of_def split: if_splits)
qed

lemma counts:
  "\<exists>d'. run_state (count_rules db (by_enabled options)) d = (Inr (Some (told_total options (t_rules (view d)))), d') \<and> view d' = view d"
proof (cases "by_enabled options")
  case None
  have "meets_all uuid_in [] [] = Some (\<lambda>row. True)" by (simp add: meets_all_def)
  from tallies[OF read_selections(4) this, of d] show ?thesis using None by (auto simp: count_rules_def told_total_def parse_count_of_nat)
next
  case (Some b)
  have "meets_all uuid_in [JBool b] [Column_is ''enabled'' 1] = Some (\<lambda>row. row_enabled row = b)" by (simp add: meets_all_def meets_def parameter_def)
  from tallies[OF read_selections(5) this, of d] show ?thesis using Some by (auto simp: count_rules_def told_total_def parse_count_of_nat)
qed

lemma list_keeps:
  assumes env: "rules_db env = db"
  shows "\<exists>outcome es st'. run_state (forwarding same_error (list_rules_handler env query)) st = ((outcome, es), st')
    \<and> (http_status (answered outcome), view (re_db st')) = promised uuid_in drawn now (List_rules query) (view (re_db st))"
proof -
  let ?o = "list_options query"
  obtain r d1 where listed: "run_state (find_all_rules db ?o) (re_db st) = (r, d1)" "view d1 = view (re_db st)"
    "if page_refused ?o then r = Inl bad_value else \<exists>rules. r = Inr rules"
    using finds_all[of ?o "re_db st"] by (auto split: if_splits)
  obtain d2 where counted: "run_state (count_rules db (by_enabled ?o)) d1 = (Inr (Some (told_total ?o (t_rules (view d1)))), d2)" "view d2 = view d1"
    using counts by blast
  show ?thesis
    using listed counted
    by (cases "page_refused ?o")
      (auto simp: forwarding_def list_rules_handler_def env Let_def promised_def same_error_def error_statuses answered_def[of "Reply x" for x] json_def)
qed

end

lemma edited_ok:
  assumes ok: "stored_ok t" and f: "\<And>row. row_id (f row) = row_id row" "\<And>row. rule_row_ok row \<Longrightarrow> rule_row_ok (f row)"
  shows "stored_ok (snd (edited uuid_in rid f t))"
proof (cases "snd (edited uuid_in rid f t) = t")
  case False
  then obtain i row where found: "rule_with i t = Some row" "snd (edited uuid_in rid f t) = t\<lparr>t_rules := replaced i f (t_rules t)\<rparr>"
      "\<nexists>other. other \<in> set (t_rules t) \<and> row_id other \<noteq> i \<and> row_name other = row_name (f row)"
    by (auto simp: edited_def split: option.splits if_splits)
  have row: "row \<in> set (t_rules t)" "row_id row = i" using found(1) by (auto simp: rule_with_def find_Some_iff)
  have rules: "rules_ok (t_rules t)" using ok by (simp add: stored_ok_def)
  have new: "row_id (f row) = i" by (simp add: f row(2))
  have same: "replaced i f (t_rules t) = map (\<lambda>r. if row_id r = i then f row else r) (t_rules t)"
  proof -
    have "r = row" if "r \<in> set (t_rules t)" "row_id r = i" for r
      using that row rules unfolding rules_ok_def by (metis distinct_map inj_onD)
    then show ?thesis by (auto simp: replaced_def)
  qed
  have "list_all rule_row_ok (replaced i f (t_rules t))" using rules f(2) by (auto simp: replaced_def rules_ok_def list_all_iff)
  then have "rules_ok (replaced i f (t_rules t))"
    using edited_names[OF rules row new] found(3) by (simp only: rules_ok_def same) blast
  moreover have "row_id ` set (replaced i f (t_rules t)) = row_id ` set (t_rules t)"
  proof -
    have "map row_id (replaced i f (t_rules t)) = map row_id (t_rules t)" by (simp add: replaced_def f(1))
    then show ?thesis by (metis list.set_map)
  qed
  ultimately show ?thesis using ok by (simp add: found(2) stored_ok_def hits_ok_def)
qed (use ok in simp)

lemma promised_ok:
  assumes ok: "stored_ok t" and fit: "fits uuid_in drawn now call t"
  shows "stored_ok (snd (promised uuid_in drawn now call t))"
proof -
  have created: "stored_ok (t\<lparr>t_rules := t_rules t @ [created_row drawn now b]\<rparr>)"
    if "call = Create_rule b" "cr_name b \<notin> row_name ` set (t_rules t)" for b
    using ok fit that by (auto simp: fits_def stored_ok_def rules_ok_def hits_ok_def created_row_def)
  have updated: "stored_ok (snd (edited uuid_in rid (\<lambda>row. update_updated_at_column now (updated_row u row)) t))" if "call = Update_rule rid u" for rid u
    using fit that by (intro edited_ok[OF ok]) (auto simp: fits_def update_updated_at_column_def updated_id rule_row_ok_def)
  have enabled: "stored_ok (snd (edited uuid_in rid (\<lambda>row. update_updated_at_column now (row\<lparr>row_enabled := b\<rparr>)) t))" for rid b
    by (intro edited_ok[OF ok]) (auto simp: update_updated_at_column_def rule_row_ok_def)
  have "rules_ok (filter (\<lambda>row. row_id row \<noteq> i) (t_rules t))" for i
    using ok by (auto simp: stored_ok_def rules_ok_def list_all_iff distinct_map_filter)
  then have gone: "stored_ok (snd (removed uuid_in rid t))" for rid
    using ok hits_cascade by (auto simp: removed_def stored_ok_def split: option.splits)
  show ?thesis
    by (cases call) (auto simp: promised_def ok created updated enabled gone split: option.splits)
qed

section \<open>A database that runs the statements\<close>

definition select_rows :: "(string \<Rightarrow> string option) \<Rightarrow> rule_select \<Rightarrow> jsval list \<Rightarrow> RuleRow list \<Rightarrow> js_error + RuleRow list" where
  "select_rows uuid_in q vs rs =
     (case meets_all uuid_in vs (sel_where q) of
        None \<Rightarrow> Inl bad_value
      | Some P \<Rightarrow>
          if \<exists>n \<in> {page_number vs (sel_limit q), page_number vs (sel_offset q)}. \<exists>i < 0. n = Some i then Inl bad_value
          else Inr (page (page_number vs (sel_limit q)) (page_number vs (sel_offset q))
            (sort_key (\<lambda>r. (- row_priority r, - row_created_at r)) (filter P rs))))"

definition rules_sql :: "(string \<Rightarrow> string option) \<Rightarrow> string \<Rightarrow> int \<Rightarrow> stored database" where
  "rules_sql uuid_in uuid now =
     \<lparr>query_rules = (\<lambda>s vs. State (\<lambda>t. case read_change s of
          Some change \<Rightarrow> (case run_change uuid_in uuid now change vs t of (result, t') \<Rightarrow> (answer_of result, t'))
        | None \<Rightarrow> (case read_select s of Some q \<Rightarrow> (answer_of (select_rows uuid_in q vs (t_rules t)), t) | None \<Rightarrow> (Inl (PlainError s), t)))),
      query_policies = (\<lambda>s vs. js_throw (PlainError s)),
      query_counts = (\<lambda>s vs. State (\<lambda>t. case Option.bind (read_count s) (meets_all uuid_in vs) of
          Some P \<Rightarrow> (Inr \<lparr>rows = [string_of_nat (length (filter P (t_rules t)))], rowCount = Some 1\<rparr>, t) | None \<Rightarrow> (Inl (PlainError s), t))),
      query_nothing = (\<lambda>s vs. State (\<lambda>t. case read_change s of
          Some change \<Rightarrow> (case run_change uuid_in uuid now change vs t of (result, t') \<Rightarrow> (counted_answer result, t'))
        | None \<Rightarrow> (Inl (PlainError s), t)))\<rparr>"

lemma select_is_no_change: "read_select s = Some q \<Longrightarrow> read_change s = None"
  by (auto simp: read_select_def read_change_def Let_def split: if_splits list.splits)

lemma sorted_outranks: "sorted_wrt outranks (sort_key (\<lambda>r. (- row_priority r, - row_created_at r)) rs)"
proof -
  have "sorted_wrt (\<lambda>r r'. (- row_priority r, - row_created_at r) \<le> (- row_priority r', - row_created_at r'))
      (sort_key (\<lambda>r. (- row_priority r, - row_created_at r)) rs)"
    using sorted_sort_key[of "\<lambda>r. (- row_priority r, - row_created_at r)" rs] by (simp add: sorted_map)
  then show ?thesis by (rule sorted_wrt_mono_rel[rotated]) (auto simp: outranks_def less_eq_prod_def)
qed

lemma select_rows_selects: "selection uuid_in q vs rs (select_rows uuid_in q vs rs)"
proof (cases "meets_all uuid_in vs (sel_where q)")
  case (Some P)
  let ?full = "sort_key (\<lambda>r. (- row_priority r, - row_created_at r)) (filter P rs)"
  show ?thesis
  proof (cases "\<exists>n \<in> {page_number vs (sel_limit q), page_number vs (sel_offset q)}. \<exists>i < 0. n = Some i")
    case False
    have "mset ?full = mset (filter P rs)" by simp
    then show ?thesis unfolding selection_def select_rows_def Some option.case if_not_P[OF False]
      using sorted_outranks by (intro exI[of _ ?full]) simp
  next
    case True
    show ?thesis unfolding selection_def select_rows_def Some option.case if_P[OF True] ..
  qed
qed (simp add: selection_def select_rows_def)

interpretation documented_sql: sql_database uuid_in uuid now "\<lambda>t. t" "rules_sql uuid_in uuid now" for uuid_in uuid now
proof unfold_locales
  show "read_select s = Some q \<Longrightarrow> \<exists>answer d'. run_state (query_rules (rules_sql uuid_in uuid now) s vs) d = (answer_of answer, d') \<and> d' = d
      \<and> selection uuid_in q vs (t_rules d) answer" for s q vs d
    using select_rows_selects by (auto simp: rules_sql_def select_is_no_change)
qed (auto simp: rules_sql_def)

section \<open>The refinement\<close>

lemma routes_keep_the_promise:
  assumes sql: "sql_database uuid_in uuid now view db" and env: "rules_db env = db"
    and gate: "requireControlPlaneKey (rules_control env) req = Next None"
    and accepted: "\<And>b. create_schema env b = None" "\<And>u. update_schema env u = None"
    and ok: "stored_ok (view (re_db st))" and fit: "fits uuid_in drawn now call (view (re_db st))"
  shows "\<exists>outcome es st'. run_state (rules_router env looked drawn req call) st = ((outcome, es), st')
    \<and> (http_status (answered outcome), view (re_db st')) = promised uuid_in drawn now call (view (re_db st))"
proof -
  have passes: "validated (\<lambda>b. None) b handler = handler" for b and handler :: "(('a, 'b) rule_engine) served"
    by (simp add: validated_def validateRequest_def)
  have schemas: "create_schema env = (\<lambda>b. None)" "update_schema env = (\<lambda>u. None)" using accepted by auto
  note routes = rules_router_def gate before_passes schemas passes
  show ?thesis
  proof (cases call)
    case (Create_rule b)
    then have "uuid_in drawn = Some drawn" "drawn \<notin> row_id ` set (t_rules (view (re_db st)))" "rule_row_ok (created_row drawn now b)"
      using fit by (simp_all add: fits_def)
    from sql_database.create_keeps[OF sql ok this env] show ?thesis unfolding routes Create_rule rules_call.case .
  next
    case (List_rules query)
    show ?thesis unfolding routes List_rules rules_call.case by (rule sql_database.list_keeps[OF sql env])
  next
    case (Get_rule rid)
    show ?thesis
      unfolding routes Get_rule rules_call.case get_rule_handler_def env promised_def
      by (rule sql_database.get_keeps[OF sql]) (auto simp: same_error_def json_def split: option.split)
  next
    case (Update_rule rid u)
    show ?thesis
    proof (cases "present_fields u = []")
      case True
      then have find: "update_rule db rid u = find_rule_by_id db rid" by (simp add: update_rule_def rule_updates_present)
      show ?thesis
        unfolding routes Update_rule rules_call.case update_rule_handler_def env promised_def if_P[OF True] find
        by (rule sql_database.get_keeps[OF sql]) (auto simp: conflict_or_same_def json_def split: option.split)
    next
      case False
      show ?thesis
        unfolding routes Update_rule rules_call.case promised_def if_not_P[OF False]
        using fit by (intro sql_database.update_keeps[OF sql ok False _ env]) (simp add: fits_def Update_rule)
    qed
  next
    case (Delete_rule rid)
    show ?thesis unfolding routes Delete_rule rules_call.case promised_def by (rule sql_database.delete_keeps[OF sql ok env])
  next
    case (Enable_rule rid)
    show ?thesis
      unfolding routes Enable_rule rules_call.case promised_def enable_rule_handler_def setEnabled_def env
      by (rule sql_database.affecting_keeps[OF sql read_fixed_texts(2) _ _ ok]) (simp_all add: bound_def parameter_def)
  next
    case (Disable_rule rid)
    show ?thesis
      unfolding routes Disable_rule rules_call.case promised_def disable_rule_handler_def setEnabled_def env
      by (rule sql_database.affecting_keeps[OF sql read_fixed_texts(2) _ _ ok]) (simp_all add: bound_def parameter_def)
  next
    case Cache_stats
    show ?thesis unfolding routes Cache_stats rules_call.case promised_def
      by (simp add: forwarding_def cache_stats_handler_def answered_def json_def)
  next
    case Cache_invalidate
    show ?thesis unfolding routes Cache_invalidate rules_call.case promised_def
      by (simp add: forwarding_def cache_invalidate_handler_def answered_def json_def)
  qed
qed


definition two_rules :: stored where
  "two_rules = \<lparr>t_rules = [example_rule ''r1'' USER (Some ''al*'') 9, example_rule ''r2'' GLOBAL None 1], t_policies = [],
     t_hits = [\<lparr>hit_id = ''h1'', hit_rule_id = ''r1'', hit_count = 3, hit_blocked_count = 1, hit_last_hit_at = None, hit_period_start = 0,
       hit_period_end = 60, hit_created_at = 0, hit_updated_at = 0\<rparr>]\<rparr>"

definition example_rules :: "stored rules_env" where
  "example_rules = \<lparr>rules_db = rules_sql Some ''r9'' 700, rules_control = \<lparr>controlPlaneKey = None, server_env = ''development''\<rparr>,
     show_date = string_of_int, create_schema = (\<lambda>_. None), update_schema = (\<lambda>_. None)\<rparr>"


end
