(* ===== verification/Schema.thy ===== *)
theory Schema
  imports Rule_Statements
begin

text \<open>
  The statements of \<^verbatim>\<open>src/database/schema.ts\<close>, one by one in their order: what each adds to the catalog of the database or
  takes from it, and when PostgreSQL refuses it. The rows they insert are those of \<open>Tables\<close>; the constraints
  of the columns on values are \<open>rule_row_ok\<close> and \<open>policy_row_ok\<close> there, the triggers and the cascade are in
  \<open>Rule_Statements\<close>.
\<close>

section \<open>The catalog\<close>

text \<open>A column: its name, its type, whether it is \<^verbatim>\<open>NOT NULL\<close> (as a primary key is) and its default.\<close>

datatype column = Col string string bool "string option"

fun column_name :: "column \<Rightarrow> string" where
  "column_name (Col n t r d) = n"

fun has_to_be_set :: "column \<Rightarrow> bool" where
  "has_to_be_set (Col n t r d) = (r \<and> d = None)"

datatype ddl =
    CreateTable string "column list" "string option" \<comment> \<open>the table its foreign key references\<close>
  | CreateIndex string string "string list"
  | CreateFunction string
  | DropTrigger string string
  | CreateTrigger string string string
  | InsertRows string "string list"
  | DropTable string
  | DropFunction string

record catalog =
  cat_tables :: "(string \<times> column list \<times> string option) list"
  cat_indexes :: "(string \<times> string) list"
  cat_functions :: "string list"
  cat_triggers :: "(string \<times> string \<times> string) list"

definition empty_catalog :: catalog where
  "empty_catalog = \<lparr>cat_tables = [], cat_indexes = [], cat_functions = [], cat_triggers = []\<rparr>"

definition table_exists :: "string \<Rightarrow> catalog \<Rightarrow> bool" where
  "table_exists t c \<longleftrightarrow> t \<in> fst ` set (cat_tables c)"

definition columns_of :: "string \<Rightarrow> catalog \<Rightarrow> string list" where
  "columns_of t c = (case map_of (cat_tables c) t of Some (cols, _) \<Rightarrow> map column_name cols | None \<Rightarrow> [])"

text \<open>
  One statement, or \<open>None\<close> where it is refused: a missing table, function or column, a trigger that is there
  already, an object that others depend on. \<^verbatim>\<open>IF NOT EXISTS\<close>, \<^verbatim>\<open>IF EXISTS\<close> and \<^verbatim>\<open>OR REPLACE\<close> pass over what is there, or is not.
\<close>

fun run_ddl :: "ddl \<Rightarrow> catalog \<Rightarrow> catalog option" where
  "run_ddl (CreateTable t cols refs) c =
     (if table_exists t c then Some c
      else if (case refs of None \<Rightarrow> False | Some r \<Rightarrow> \<not> table_exists r c) then None
      else Some (c\<lparr>cat_tables := cat_tables c @ [(t, cols, refs)]\<rparr>))"
| "run_ddl (CreateIndex i t cols) c =
     (if \<not> set cols \<subseteq> set (columns_of t c) \<or> \<not> table_exists t c then None
      else if i \<in> fst ` set (cat_indexes c) then Some c
      else Some (c\<lparr>cat_indexes := cat_indexes c @ [(i, t)]\<rparr>))"
| "run_ddl (CreateFunction f) c = Some (if f \<in> set (cat_functions c) then c else c\<lparr>cat_functions := cat_functions c @ [f]\<rparr>)"
| "run_ddl (DropTrigger n t) c = Some (c\<lparr>cat_triggers := filter (\<lambda>(m, s, f). \<not> (m = n \<and> s = t)) (cat_triggers c)\<rparr>)"
| "run_ddl (CreateTrigger n t f) c =
     (if \<not> table_exists t c \<or> f \<notin> set (cat_functions c) \<or> (n, t) \<in> (\<lambda>(m, s, g). (m, s)) ` set (cat_triggers c) then None
      else Some (c\<lparr>cat_triggers := cat_triggers c @ [(n, t, f)]\<rparr>))"
| "run_ddl (InsertRows t cols) c = (if table_exists t c \<and> set cols \<subseteq> set (columns_of t c) then Some c else None)"
| "run_ddl (DropTable t) c =
     (if \<not> table_exists t c then Some c
      else if \<exists>s \<in> set (cat_tables c). fst s \<noteq> t \<and> snd (snd s) = Some t then None
      else Some (c\<lparr>cat_tables := filter (\<lambda>s. fst s \<noteq> t) (cat_tables c), cat_indexes := filter (\<lambda>(i, s). s \<noteq> t) (cat_indexes c),
                   cat_triggers := filter (\<lambda>(m, s, f). s \<noteq> t) (cat_triggers c)\<rparr>))"
| "run_ddl (DropFunction f) c =
     (if \<exists>(m, s, g) \<in> set (cat_triggers c). g = f then None else Some (c\<lparr>cat_functions := removeAll f (cat_functions c)\<rparr>))"

fun run_ddls :: "ddl list \<Rightarrow> catalog \<Rightarrow> catalog option" where
  "run_ddls [] c = Some c"
| "run_ddls (s # ss) c = Option.bind (run_ddl s c) (run_ddls ss)"

section \<open>The scripts\<close>

definition timestamps :: "column list" where
  "timestamps = [Col ''created_at'' ''TIMESTAMP WITH TIME ZONE'' True (Some ''NOW()''), Col ''updated_at'' ''TIMESTAMP WITH TIME ZONE'' True (Some ''NOW()'')]"

definition rate_limit_rules :: "ddl list" where
  "rate_limit_rules =
     [CreateTable ''rate_limit_rules''
       ([Col ''id'' ''UUID'' True (Some ''gen_random_uuid()''), Col ''name'' ''VARCHAR(255)'' True None, Col ''description'' ''TEXT'' False None,
         Col ''algorithm'' ''VARCHAR(50)'' True None, Col ''limit_value'' ''INTEGER'' True None, Col ''window_seconds'' ''INTEGER'' True None,
         Col ''dimension_type'' ''VARCHAR(50)'' True None, Col ''dimension_pattern'' ''VARCHAR(500)'' False None,
         Col ''priority'' ''INTEGER'' True (Some ''100''), Col ''enabled'' ''BOOLEAN'' True (Some ''true''), Col ''tags'' ''TEXT[]'' False None,
         Col ''metadata'' ''JSONB'' False None] @ timestamps) None,
      CreateIndex ''idx_rules_enabled'' ''rate_limit_rules'' [''enabled''], CreateIndex ''idx_rules_priority'' ''rate_limit_rules'' [''priority''],
      CreateIndex ''idx_rules_dimension_type'' ''rate_limit_rules'' [''dimension_type''],
      CreateIndex ''idx_rules_created_at'' ''rate_limit_rules'' [''created_at''], CreateIndex ''idx_rules_tags'' ''rate_limit_rules'' [''tags'']]"

definition rule_hit_stats :: "ddl list" where
  "rule_hit_stats =
     [CreateTable ''rule_hit_stats''
       ([Col ''id'' ''UUID'' True (Some ''gen_random_uuid()''), Col ''rule_id'' ''UUID'' True None, Col ''hit_count'' ''BIGINT'' True (Some ''0''),
         Col ''blocked_count'' ''BIGINT'' True (Some ''0''), Col ''last_hit_at'' ''TIMESTAMP WITH TIME ZONE'' False None,
         Col ''period_start'' ''TIMESTAMP WITH TIME ZONE'' True None, Col ''period_end'' ''TIMESTAMP WITH TIME ZONE'' True None] @ timestamps)
       (Some ''rate_limit_rules''),
      CreateIndex ''idx_stats_rule_id'' ''rule_hit_stats'' [''rule_id''],
      CreateIndex ''idx_stats_period'' ''rule_hit_stats'' [''period_start'', ''period_end'']]"

definition update_triggers :: "ddl list" where
  "update_triggers =
     [CreateFunction ''update_updated_at_column'',
      DropTrigger ''update_rate_limit_rules_updated_at'' ''rate_limit_rules'',
      CreateTrigger ''update_rate_limit_rules_updated_at'' ''rate_limit_rules'' ''update_updated_at_column'',
      DropTrigger ''update_rule_hit_stats_updated_at'' ''rule_hit_stats'',
      CreateTrigger ''update_rule_hit_stats_updated_at'' ''rule_hit_stats'' ''update_updated_at_column'']"

definition llm_admission_policies :: "ddl list" where
  "llm_admission_policies =
     [CreateTable ''llm_admission_policies''
       ([Col ''id'' ''UUID'' True (Some ''gen_random_uuid()''), Col ''tenant_pattern'' ''VARCHAR(255)'' True None,
         Col ''model_pattern'' ''VARCHAR(255)'' True None, Col ''tokens_per_minute'' ''BIGINT'' True None,
         Col ''requests_per_minute'' ''INTEGER'' True None, Col ''max_concurrency'' ''INTEGER'' True (Some ''16''),
         Col ''max_queue_depth'' ''INTEGER'' True (Some ''64''), Col ''lease_seconds'' ''INTEGER'' True (Some ''120''),
         Col ''reservation_mode'' ''VARCHAR(20)'' True (Some ''worst_case''),
         Col ''reservation_safety_factor'' ''NUMERIC(4,2)'' True (Some ''1.50''), Col ''priority'' ''INTEGER'' True (Some ''100''),
         Col ''enabled'' ''BOOLEAN'' True (Some ''true'')] @ timestamps) None,
      CreateIndex ''idx_policies_lookup'' ''llm_admission_policies'' [''priority'', ''created_at'', ''enabled''],
      DropTrigger ''update_llm_admission_policies_updated_at'' ''llm_admission_policies'',
      CreateTrigger ''update_llm_admission_policies_updated_at'' ''llm_admission_policies'' ''update_updated_at_column'']"

definition seed_rows :: "ddl list" where
  "seed_rows =
     [InsertRows ''llm_admission_policies'' [''tenant_pattern'', ''model_pattern'', ''tokens_per_minute'', ''requests_per_minute'',
        ''max_concurrency'', ''max_queue_depth'', ''priority''],
      InsertRows ''rate_limit_rules'' [''name'', ''description'', ''algorithm'', ''limit_value'', ''window_seconds'', ''dimension_type'', ''priority'', ''enabled'']]"

definition CREATE_TABLES_SQL :: "ddl list" where
  "CREATE_TABLES_SQL = rate_limit_rules @ rule_hit_stats @ update_triggers @ llm_admission_policies @ seed_rows"

definition DROP_TABLES_SQL :: "ddl list" where
  "DROP_TABLES_SQL =
     [DropTrigger ''update_llm_admission_policies_updated_at'' ''llm_admission_policies'', DropTable ''llm_admission_policies'',
      DropTrigger ''update_rule_hit_stats_updated_at'' ''rule_hit_stats'', DropTrigger ''update_rate_limit_rules_updated_at'' ''rate_limit_rules'',
      DropFunction ''update_updated_at_column'', DropTable ''rule_hit_stats'', DropTable ''rate_limit_rules'']"

section \<open>The scripts never stick\<close>

definition full_catalog :: catalog where
  "full_catalog = the (run_ddls CREATE_TABLES_SQL empty_catalog)"

lemma scripts_run:
  "run_ddls CREATE_TABLES_SQL empty_catalog = Some full_catalog" "run_ddls CREATE_TABLES_SQL full_catalog = Some full_catalog"
  "run_ddls DROP_TABLES_SQL full_catalog = Some empty_catalog" "run_ddls DROP_TABLES_SQL empty_catalog = Some empty_catalog"
  by code_simp+

text \<open>The scripts of the commands of \<^verbatim>\<open>src/scripts/migrate.ts\<close>.\<close>

datatype migrate_command = Up | Down | Reset

fun scripts_of :: "migrate_command \<Rightarrow> ddl list" where
  "scripts_of Up = CREATE_TABLES_SQL"
| "scripts_of Down = DROP_TABLES_SQL"
| "scripts_of Reset = DROP_TABLES_SQL @ CREATE_TABLES_SQL"

lemma run_ddls_append: "run_ddls (xs @ ys) c = Option.bind (run_ddls xs c) (run_ddls ys)"
  by (induction xs arbitrary: c) (simp_all split: Option.bind_split)

text \<open>
  Whatever migrations are run on an empty database, one after the other, no statement of theirs is refused:
  the tables are dropped before those they refer to and the function after its triggers, and nothing is
  created twice; at the end the schema is all there, or all gone after a last \<^verbatim>\<open>down\<close>.
\<close>

theorem migrations_never_stick:
  "run_ddls (concat (map scripts_of commands)) empty_catalog
     = Some (if commands = [] \<or> last commands = Down then empty_catalog else full_catalog)"
proof (induction commands rule: rev_induct)
  case (snoc command commands)
  have step: "run_ddls (scripts_of command) c = Some (if command = Down then empty_catalog else full_catalog)" if "c \<in> {empty_catalog, full_catalog}" for c
    using that scripts_run by (cases command) (auto simp: run_ddls_append)
  show ?case using snoc step by (auto simp: run_ddls_append)
qed simp

section \<open>The statements fit the schema\<close>

definition schema_columns :: "string \<Rightarrow> column list" where
  "schema_columns t = (case map_of (cat_tables full_catalog) t of Some (cols, _) \<Rightarrow> cols | None \<Rightarrow> [])"

definition insert_policy_columns :: "string list" where
  "insert_policy_columns = [''tenant_pattern'', ''model_pattern'', ''tokens_per_minute'', ''requests_per_minute'', ''max_concurrency'', ''max_queue_depth'',
     ''lease_seconds'', ''reservation_mode'', ''reservation_safety_factor'', ''priority'', ''enabled'']"

lemma insert_policy_text_columns:
  "insert_policy_text = ''INSERT INTO llm_admission_policies ('' @ join '', '' insert_policy_columns @ '') VALUES ('' @ join '', '' (map placeholder [1..<12]) @ '') RETURNING *''"
  by code_simp

lemma columns_exist:
  "list_all (\<lambda>col. col \<in> set (map column_name (schema_columns ''rate_limit_rules''))) (map fst insert_columns)"
  "list_all (\<lambda>col. col \<in> set (map column_name (schema_columns ''llm_admission_policies''))) (insert_policy_columns @ map snd COLUMN)"
  "list_all (\<lambda>c. has_to_be_set c \<longrightarrow> column_name c \<in> set (map fst insert_columns)) (schema_columns ''rate_limit_rules'')"
  "list_all (\<lambda>c. has_to_be_set c \<longrightarrow> column_name c \<in> set insert_policy_columns) (schema_columns ''llm_admission_policies'')"
  "map column_name (filter has_to_be_set (schema_columns ''rate_limit_rules'')) = columns_without_default"
  by code_simp+

lemma updates_fit_the_schema: "fst ` set (present_fields u) \<subseteq> set (map column_name (schema_columns ''rate_limit_rules''))"
proof -
  have "fst ` set (present_fields u) \<subseteq> set (map fst insert_columns)"
    by (auto simp: present_fields_def present_def insert_columns_def split: option.splits)
  also have "\<dots> \<subseteq> set (map column_name (schema_columns ''rate_limit_rules''))"
    using columns_exist(1) by (auto simp: list_all_iff)
  finally show ?thesis .
qed

end
