(* ===== verification/Bench_Stats.thy ===== *)
theory Bench_Stats
  imports Database "HOL-Library.Word" "HOL-Library.Multiset"
begin

text \<open>
  The library of the benchmarks: \<^verbatim>\<open>bench/lib/stats.ts\<close>, which records latencies and prints tables, and
  \<^verbatim>\<open>bench/lib/workload.ts\<close>, the generator of synthetic traffic. A number that may be \<^verbatim>\<open>NaN\<close> is an option.
  Of \<^verbatim>\<open>Math\<close>, whose transcendental functions are left to the implementation by its standard, nothing
  is assumed: they are parameters, and their results are finite.
\<close>

unbundle bit_operations_syntax

section \<open>Latencies\<close>

type_synonym latencies = "rat list"

definition record_sample :: "rat \<Rightarrow> latencies \<Rightarrow> latencies" where
  "record_sample ms samples = samples @ [ms]"

text \<open>The nearest-rank quantile.\<close>

definition quantile :: "rat \<Rightarrow> latencies \<Rightarrow> rat option" where
  "quantile q samples =
     (if samples = [] then None
      else let sorted = sort samples;
               rank = min (int (length sorted) - 1) (\<lceil>fmul q (of_nat (length sorted))\<rceil> - 1)
           in Some (sorted ! nat (max 0 rank)))"

definition mean :: "latencies \<Rightarrow> rat option" where
  "mean samples = (if samples = [] then None else Some (fdiv (foldl fadd 0 samples) (of_nat (length samples))))"

definition maximum :: "latencies \<Rightarrow> rat option" where
  "maximum samples = (if samples = [] then None else Some (Max (set samples)))"

record latency_summary =
  ls_count :: nat
  ls_mean :: "rat option"
  ls_p50 :: "rat option"
  ls_p95 :: "rat option"
  ls_p99 :: "rat option"
  ls_p999 :: "rat option"
  ls_max :: "rat option"

definition summary :: "latencies \<Rightarrow> latency_summary" where
  "summary samples =
     \<lparr>ls_count = length samples, ls_mean = mean samples, ls_p50 = quantile (5 / 10) samples,
      ls_p95 = quantile (dbl (95 / 100)) samples, ls_p99 = quantile (dbl (99 / 100)) samples,
      ls_p999 = quantile (dbl (999 / 1000)) samples, ls_max = maximum samples\<rparr>"

text \<open>The rank of a quantile, from one.\<close>

definition rank_of :: "rat \<Rightarrow> nat \<Rightarrow> nat" where
  "rank_of q n = nat (max 1 (min (int n) \<lceil>fmul q (of_nat n)\<rceil>))"

lemma quantile_rank:
  assumes "samples \<noteq> []"
  shows "quantile q samples = Some (sort samples ! (rank_of q (length samples) - 1))"
    and "1 \<le> rank_of q (length samples)" "rank_of q (length samples) \<le> length samples"
proof -
  have "0 < length samples" using assms by simp
  then show "1 \<le> rank_of q (length samples)" "rank_of q (length samples) \<le> length samples"
    unfolding rank_of_def by linarith+
  have "nat (max 0 (min (int (length samples) - 1) (\<lceil>fmul q (of_nat (length samples))\<rceil> - 1))) = rank_of q (length samples) - 1"
    unfolding rank_of_def by linarith
  then show "quantile q samples = Some (sort samples ! (rank_of q (length samples) - 1))"
    using assms by (simp add: quantile_def Let_def)
qed

lemma sorted_count_le:
  assumes "sorted xs" "i < length xs"
  shows "Suc i \<le> length (filter (\<lambda>x. x \<le> xs ! i) xs)"
proof -
  have "filter (\<lambda>x. x \<le> xs ! i) (take (Suc i) xs) = take (Suc i) xs"
    using assms by (auto simp: filter_id_conv in_set_conv_nth sorted_iff_nth_mono)
  then have "Suc i = length (filter (\<lambda>x. x \<le> xs ! i) (take (Suc i) xs))" using assms by simp
  also have "\<dots> \<le> length (filter (\<lambda>x. x \<le> xs ! i) (take (Suc i) xs @ drop (Suc i) xs))"
    by (simp only: filter_append length_append)
  finally show ?thesis by simp
qed

lemma sorted_count_less:
  assumes "sorted xs" "i < length xs"
  shows "length (filter (\<lambda>x. x < xs ! i) xs) \<le> i"
proof -
  have "filter (\<lambda>x. x < xs ! i) (drop i xs) = []"
    using assms by (auto simp: filter_empty_conv in_set_conv_nth sorted_iff_nth_mono not_less)
  then have "length (filter (\<lambda>x. x < xs ! i) (take i xs @ drop i xs)) = length (filter (\<lambda>x. x < xs ! i) (take i xs))"
    by (simp only: filter_append length_append list.size)
  also have "\<dots> \<le> i" by (metis le_trans length_filter_le length_take min.cobounded2)
  finally show ?thesis by simp
qed

text \<open>Counting does not depend on the order of the samples.\<close>

lemma filter_sort_length: "length (filter P (sort xs)) = length (filter P xs)"
  by (metis mset_filter mset_sort size_mset)

text \<open>
  The quantile of a set of samples is a sample with enough of them at most it, and not that many below:
  the definition of the nearest rank.
\<close>

lemma quantile_is_nearest_rank:
  assumes "samples \<noteq> []"
  shows "\<exists>v. quantile q samples = Some v \<and> v \<in> set samples
    \<and> length (filter (\<lambda>x. x < v) samples) < rank_of q (length samples)
    \<and> rank_of q (length samples) \<le> length (filter (\<lambda>x. x \<le> v) samples)"
proof -
  let ?r = "rank_of q (length samples)" let ?v = "sort samples ! (?r - 1)"
  note r = quantile_rank[OF assms, of q]
  have i: "?r - 1 < length (sort samples)" using r assms by simp
  have "?v \<in> set samples" using nth_mem[OF i] by simp
  moreover have "length (filter (\<lambda>x. x < ?v) samples) < ?r"
    using sorted_count_less[OF sorted_sort i] r(2) by (simp add: filter_sort_length)
  moreover have "?r \<le> length (filter (\<lambda>x. x \<le> ?v) samples)"
    using sorted_count_le[OF sorted_sort i] r(2) by (simp add: filter_sort_length)
  ultimately show ?thesis using r(1) by blast
qed

text \<open>\<^verbatim>\<open>p50\<close> to \<^verbatim>\<open>max\<close> never decrease.\<close>

lemma rank_of_mono: "0 \<le> n \<Longrightarrow> q \<le> q' \<Longrightarrow> rank_of q n \<le> rank_of q' n"
proof -
  assume "q \<le> q'"
  then have "fmul q (of_nat n) \<le> fmul q' (of_nat n)" unfolding fmul_def by (intro dbl_mono mult_right_mono) simp_all
  then have "\<lceil>fmul q (of_nat n)\<rceil> \<le> \<lceil>fmul q' (of_nat n)\<rceil>" by (rule ceiling_mono)
  then show ?thesis unfolding rank_of_def by linarith
qed

lemma quantile_mono:
  assumes "samples \<noteq> []" "q \<le> q'"
  shows "the (quantile q samples) \<le> the (quantile q' samples)"
proof -
  note r = quantile_rank[OF assms(1), of q] and r' = quantile_rank[OF assms(1), of q']
  have "rank_of q (length samples) - 1 \<le> rank_of q' (length samples) - 1" using rank_of_mono[OF _ assms(2)] by (simp add: diff_le_mono)
  moreover have "rank_of q' (length samples) - 1 < length (sort samples)" using r' assms(1) by simp
  ultimately show ?thesis unfolding r(1) r'(1) using sorted_nth_mono[OF sorted_sort] by simp
qed

lemma quantile_le_maximum:
  assumes "samples \<noteq> []"
  shows "the (quantile q samples) \<le> the (maximum samples)"
proof -
  obtain v where "quantile q samples = Some v" "v \<in> set samples" using quantile_is_nearest_rank[OF assms] by blast
  then show ?thesis using assms by (simp add: maximum_def)
qed

theorem summary_is_ordered:
  assumes "samples \<noteq> []"
  shows "the (ls_p50 (summary samples)) \<le> the (ls_p95 (summary samples)) \<and> the (ls_p95 (summary samples)) \<le> the (ls_p99 (summary samples))
    \<and> the (ls_p99 (summary samples)) \<le> the (ls_p999 (summary samples)) \<and> the (ls_p999 (summary samples)) \<le> the (ls_max (summary samples))"
proof -
  have half: "(5 / 10 :: rat) \<le> dbl (95 / 100)" using dbl_ge[of "95 / 100"] by simp
  have "dbl (95 / 100) \<le> dbl (99 / 100)" "dbl (99 / 100) \<le> dbl (999 / 1000)" by (intro dbl_mono; simp)+
  then show ?thesis using half quantile_mono[OF assms] quantile_le_maximum[OF assms] by (simp add: summary_def)
qed

section \<open>Mulberry32\<close>

text \<open>
  \<^verbatim>\<open>seed >>> 0\<close> and every \<^verbatim>\<open>>>> 0\<close> after it read a number modulo \<open>2 ^ 32\<close>; \<^verbatim>\<open>Math.imul\<close> and the bitwise
  operators work on the same 32 bits, and the sum before the last \<^verbatim>\<open>^ t\<close> is exact before it is cut to them.
\<close>

definition seeded :: "int \<Rightarrow> 32 word" where
  "seeded seed = word_of_int seed"

definition next_state :: "32 word \<Rightarrow> 32 word" where
  "next_state a = a + 0x6d2b79f5"

definition mixed :: "32 word \<Rightarrow> 32 word" where
  "mixed a =
     (let t = (a XOR drop_bit 15 a) * (1 OR a);
          t = (t + (t XOR drop_bit 7 t) * (61 OR t)) XOR t
      in t XOR drop_bit 14 t)"

definition seededRandom :: "(32 word, rat) state" where
  "seededRandom = State (\<lambda>a. let a = next_state a in (of_nat (unat (mixed a)) / 4294967296, a))"

lemma random_in_unit_interval:
  assumes "run_state seededRandom a = (r, a')"
  shows "0 \<le> r \<and> r < 1"
proof -
  have "unat (mixed (next_state a)) < 4294967296" using unsigned_less[of "mixed (next_state a)", where ?'a = nat] by simp
  then have "(of_nat (unat (mixed (next_state a))) :: rat) < of_nat 4294967296" by (simp only: of_nat_less_iff)
  moreover have r: "r = of_nat (unat (mixed (next_state a))) / 4294967296"
    using assms unfolding seededRandom_def Let_def State_Monad.state.sel prod.inject by (elim conjE) (rule sym)
  moreover have "0 \<le> r" unfolding r by (intro divide_nonneg_pos of_nat_0_le_iff) simp
  ultimately show ?thesis by simp
qed

text \<open>The increment is odd, so the state does not come back in fewer than \<open>2 ^ 32\<close> draws.\<close>

lemma next_state_iterated: "(next_state ^^ k) a = a + of_nat k * 0x6d2b79f5"
  by (induction k) (simp_all add: next_state_def algebra_simps)

lemma increment_invertible: "(x :: 32 word) * 0x6d2b79f5 = 0 \<Longrightarrow> x = 0"
proof -
  assume "x * 0x6d2b79f5 = 0"
  then have "x * 0x6d2b79f5 * 3696798301 = 0" by simp
  moreover have "(0x6d2b79f5 :: 32 word) * 3696798301 = 1" by simp
  ultimately show ?thesis by (simp only: mult.assoc mult_1_right)
qed

theorem random_state_does_not_repeat:
  assumes "i < j" "j - i < 2 ^ 32"
  shows "(next_state ^^ i) a \<noteq> (next_state ^^ j) a"
proof
  assume "(next_state ^^ i) a = (next_state ^^ j) a"
  then have "(of_nat j - of_nat i :: 32 word) * 0x6d2b79f5 = 0" by (simp add: next_state_iterated algebra_simps)
  then have "of_nat (j - i) = (0 :: 32 word)" using increment_invertible[of "of_nat j - of_nat i"] assms(1) by (simp add: of_nat_diff)
  then have "unat (of_nat (j - i) :: 32 word) = 0" by simp
  then have "(j - i) mod 2 ^ 32 = 0" by (simp add: unsigned_of_nat take_bit_eq_mod)
  then show False using assms by simp
qed

section \<open>Tables\<close>

text \<open>\<^verbatim>\<open>Number.prototype.toFixed\<close> below \<open>10 ^ 21\<close>: the nearest decimal of so many digits, the larger of two.\<close>

definition toFixed :: "nat \<Rightarrow> rat \<Rightarrow> string" where
  "toFixed digits x =
     (let n = nat \<lfloor>\<bar>x\<bar> * 10 ^ digits + 1 / 2\<rfloor>;
          m = string_of_nat n;
          k = replicate (Suc digits - length m) (CHR ''0'') @ m
      in (if x < 0 then ''-'' else []) @
         (if digits = 0 then m else take (length k - digits) k @ ''.'' @ drop (length k - digits) k))"

definition fmt :: "rat option \<Rightarrow> nat \<Rightarrow> string" where
  "fmt n digits = (case n of Some x \<Rightarrow> toFixed digits x | None \<Rightarrow> ''-'')"

text \<open>The delay of the timer, or none where the deadline has passed.\<close>

definition sleepUntil :: "rat \<Rightarrow> rat \<Rightarrow> rat option" where
  "sleepUntil deadlineMs now = (let delay = fsub deadlineMs now in if delay \<le> 0 then None else Some delay)"

text \<open>A row is its columns with their texts; the columns of a table are those of its first row.\<close>

type_synonym table_row = "(string \<times> string) list"

definition cell :: "table_row \<Rightarrow> string \<Rightarrow> string" where
  "cell r c = (case map_of r c of Some v \<Rightarrow> v | None \<Rightarrow> ''undefined'')"

definition width :: "table_row list \<Rightarrow> string \<Rightarrow> nat" where
  "width rs c = foldl max (length c) (map (\<lambda>r. length (cell r c)) rs)"

definition padStart :: "nat \<Rightarrow> string \<Rightarrow> string" where
  "padStart w s = replicate (w - length s) (CHR '' '') @ s"

definition line :: "(string \<Rightarrow> nat) \<Rightarrow> string list \<Rightarrow> string list \<Rightarrow> string" where
  "line w cols cells = ''  '' @ join ''  '' (map (\<lambda>(c, col). padStart (w col) c) (zip cells cols))"

definition table_lines :: "table_row list \<Rightarrow> string list" where
  "table_lines rs =
     (let cols = map fst (hd rs); w = width rs
      in [line w cols cols, ''  '' @ join ''  '' (map (\<lambda>c. replicate (w c) (CHR ''-'')) cols)] @
         map (\<lambda>r. line w cols (map (cell r) cols)) rs)"

definition table :: "table_row list \<Rightarrow> string" where
  "table rs = (if rs = [] then ''(no rows)'' else join [CHR 0x0A] (table_lines rs))"

lemma foldl_max_start: "(a :: nat) \<le> foldl max a xs"
  by (induction xs arbitrary: a) (auto intro: le_trans[OF max.cobounded1])

lemma foldl_max_member: "x \<in> set xs \<Longrightarrow> (x :: nat) \<le> foldl max a xs"
  by (induction xs arbitrary: a) (auto intro: le_trans[OF max.cobounded2 foldl_max_start])

lemma width_bounds: "length c \<le> width rs c" "r \<in> set rs \<Longrightarrow> length (cell r c) \<le> width rs c"
  unfolding width_def by (auto intro: foldl_max_start foldl_max_member)

lemma length_join: "length (join sep ss) = sum_list (map length ss) + length sep * (length ss - 1)"
  by (induction sep ss rule: join.induct) simp_all

lemma line_length:
  assumes "length cells = length cols" "\<forall>(c, col) \<in> set (zip cells cols). length c \<le> w col"
  shows "length (line w cols cells) = 2 + sum_list (map w cols) + 2 * (length cols - 1)"
proof -
  have "map (length \<circ> (\<lambda>(c, col). padStart (w col) c)) (zip cells cols) = map (w \<circ> snd) (zip cells cols)"
    using assms(2) by (auto simp: padStart_def)
  also have "\<dots> = map w cols" using assms(1) by (simp flip: map_map)
  finally show ?thesis using assms(1) by (simp add: line_def length_join)
qed

text \<open>Every line of a table is as long as the others, so that its columns stand under each other.\<close>

theorem table_is_aligned:
  "\<forall>l \<in> set (table_lines rs). length l = 2 + sum_list (map (width rs) (map fst (hd rs))) + 2 * (length (hd rs) - 1)"
proof -
  obtain cols where cols: "cols = map fst (hd rs)" by blast
  have "length (line (width rs) cols cols) = 2 + sum_list (map (width rs) cols) + 2 * (length cols - 1)"
    by (rule line_length) (auto simp: zip_same_conv_map width_bounds)
  moreover have "length (line (width rs) cols (map (cell r) cols)) = 2 + sum_list (map (width rs) cols) + 2 * (length cols - 1)"
    if "r \<in> set rs" for r
    by (rule line_length) (auto simp: zip_map1 zip_same_conv_map width_bounds that)
  moreover have "length (join ''  '' (map (\<lambda>c. replicate (width rs c) (CHR ''-'')) cols)) = sum_list (map (width rs) cols) + 2 * (length cols - 1)"
    by (simp add: length_join comp_def)
  ultimately show ?thesis by (auto simp: table_lines_def Let_def cols)
qed

section \<open>Traffic\<close>

record WorkloadConfig =
  wl_seed :: int
  outputMedian :: rat
  outputSigma :: rat
  declaredMaxTokens :: int
  promptMedian :: rat
  promptSigma :: rat
  msPerOutputToken :: rat
  ttftMs :: rat

definition CHAT_WORKLOAD :: WorkloadConfig where
  "CHAT_WORKLOAD =
     \<lparr>wl_seed = 20260830, outputMedian = 180, outputSigma = dbl (9 / 10), declaredMaxTokens = 4096, promptMedian = 900,
      promptSigma = dbl (7 / 10), msPerOutputToken = 8, ttftMs = 120\<rparr>"

record SyntheticRequest =
  sr_promptTokens :: int
  sr_maxOutputTokens :: int
  sr_actualOutputTokens :: int
  sr_serviceMs :: int

record js_math =
  Math_log :: "rat \<Rightarrow> rat"
  Math_sqrt :: "rat \<Rightarrow> rat"
  Math_cos :: "rat \<Rightarrow> rat"
  Math_exp :: "rat \<Rightarrow> rat"

definition Math_PI :: rat where "Math_PI = 884279719003555 / 2 ^ 48"
definition EPSILON :: rat where "EPSILON = 1 / 2 ^ 52"
definition Math_round :: "rat \<Rightarrow> int" where "Math_round x = \<lfloor>x + 1 / 2\<rfloor>"

text \<open>The Box-Muller draw of a normal, and the numbers of a request from two of them.\<close>

definition normal_draw :: "js_math \<Rightarrow> (32 word, rat) state" where
  "normal_draw M = do {
     u \<leftarrow> seededRandom;
     u2 \<leftarrow> seededRandom;
     let u1 = max u EPSILON;
     State_Monad.return (fmul (Math_sqrt M (fmul (- 2) (Math_log M u1))) (Math_cos M (fmul (fmul 2 Math_PI) u2)))
   }"

definition logNormal :: "js_math \<Rightarrow> rat \<Rightarrow> rat \<Rightarrow> (32 word, rat) state" where
  "logNormal M median sigma = do {
     z \<leftarrow> normal_draw M;
     State_Monad.return (fmul median (Math_exp M (fmul sigma z)))
   }"

definition next_request :: "js_math \<Rightarrow> WorkloadConfig \<Rightarrow> (32 word, SyntheticRequest) state" where
  "next_request M c = do {
     x \<leftarrow> logNormal M (promptMedian c) (promptSigma c);
     y \<leftarrow> logNormal M (outputMedian c) (outputSigma c);
     let promptTokens = max 1 (Math_round x);
     let actualOutputTokens = max 1 (min (declaredMaxTokens c) (Math_round y));
     State_Monad.return \<lparr>sr_promptTokens = promptTokens, sr_maxOutputTokens = declaredMaxTokens c,
       sr_actualOutputTokens = actualOutputTokens,
       sr_serviceMs = Math_round (fadd (ttftMs c) (fmul (of_int actualOutputTokens) (msPerOutputToken c)))\<rparr>
   }"

primrec take_requests :: "js_math \<Rightarrow> WorkloadConfig \<Rightarrow> nat \<Rightarrow> (32 word, SyntheticRequest list) state" where
  "take_requests M c 0 = State_Monad.return []"
| "take_requests M c (Suc n) = do {
     w \<leftarrow> next_request M c;
     ws \<leftarrow> take_requests M c n;
     State_Monad.return (w # ws)
   }"

text \<open>What every request of the generator has, whatever \<^verbatim>\<open>Math\<close> computes.\<close>

definition within_ceiling :: "int \<Rightarrow> SyntheticRequest \<Rightarrow> bool" where
  "within_ceiling bound w \<longleftrightarrow> 1 \<le> sr_promptTokens w \<and> sr_maxOutputTokens w = bound
     \<and> 1 \<le> sr_actualOutputTokens w \<and> sr_actualOutputTokens w \<le> max 1 bound"

lemma next_request_within: "within_ceiling (declaredMaxTokens c) (fst (run_state (next_request M c) a))"
  by (auto simp: next_request_def within_ceiling_def Let_def min_def split: prod.splits)

lemma take_requests_within: "list_all (within_ceiling (declaredMaxTokens c)) (fst (run_state (take_requests M c n) a))"
proof (induction n arbitrary: a)
  case (Suc n)
  obtain w b where w: "run_state (next_request M c) a = (w, b)" by fastforce
  obtain ws d where ws: "run_state (take_requests M c n) b = (ws, d)" by fastforce
  show ?case using next_request_within[where M = M and c = c and a = a] Suc.IH[of b] by (simp add: w ws)
qed simp

lemma take_requests_length: "length (fst (run_state (take_requests M c n) a)) = n"
  by (induction n arbitrary: a) (simp_all split: prod.splits, metis fst_conv)

text \<open>Drawing in two steps is drawing at once: the traffic of a phase does not depend on how it is split.\<close>

lemma take_requests_add:
  "run_state (take_requests M c (m + n)) a =
     (case run_state (take_requests M c m) a of (ws, b) \<Rightarrow> case run_state (take_requests M c n) b of (ws', d) \<Rightarrow> (ws @ ws', d))"
  by (induction m arbitrary: a) (simp_all split: prod.splits)

end
