(* ===== verification/Benchmarks.thy ===== *)
theory Benchmarks
  imports Bench_Stats Request_Schemas
begin

text \<open>
  The two benchmarks, \<^verbatim>\<open>bench/bench-admission.ts\<close> and \<^verbatim>\<open>bench/bench-reservation.ts\<close>: the policies they
  write, the calls they make, and how they count the replies into the tables they print. The
  service is reached over HTTP, so \<open>http\<close> is a parameter that takes and returns the state of the
  world; requests made at once are started in turn, which is one of their orders. In an admission
  the id is a text and the reserved tokens a whole number, as the service answers them.
\<close>

section \<open>Command line and requests\<close>

definition flag :: "string list \<Rightarrow> string \<Rightarrow> string \<Rightarrow> string" where
  "flag args name fallback =
     (case dropWhile (\<lambda>a. a \<noteq> ''--'' @ name) args of
        found # v # rest \<Rightarrow> if v = [] then fallback else v
      | _ \<Rightarrow> fallback)"

definition RATES :: "string list \<Rightarrow> rat option list" where
  "RATES args = map to_number (split_at (CHR '','') (flag args ''rates'' ''250,500,1000,2000,4000''))"

record bench_reply =
  rp_status :: int
  rp_body :: "(string \<times> jsval) list"

type_synonym 'w http = "string \<Rightarrow> string \<Rightarrow> jsval option \<Rightarrow> ('w, js_error + bench_reply) state"

definition BENCH_MODEL :: string where "BENCH_MODEL = ''bench-model''"

definition admits :: "bench_reply \<Rightarrow> bool" where
  "admits r \<longleftrightarrow> map_of (rp_body r) ''decision'' = Some (JStr ''admit'')"

definition body_text :: "bench_reply \<Rightarrow> string \<Rightarrow> string" where
  "body_text r k = (case map_of (rp_body r) k of Some (JStr s) \<Rightarrow> s | _ \<Rightarrow> [])"

definition held_tokens :: "bench_reply \<Rightarrow> int" where
  "held_tokens r = (case map_of (rp_body r) ''reservedTokens'' of Some (JNum x) \<Rightarrow> \<lfloor>x\<rfloor> | _ \<Rightarrow> 0)"

definition bench_reserve :: "'w http \<Rightarrow> string \<Rightarrow> SyntheticRequest \<Rightarrow> ('w, js_error + bench_reply) state" where
  "bench_reserve http tenant w = http ''POST'' ''/api/v1/llm/reserve'' (Some (JObj (reserve_body
     \<lparr>ar_tenant = tenant, ar_model = BENCH_MODEL, ar_promptTokens = sr_promptTokens w,
      ar_maxOutputTokens = sr_maxOutputTokens w, ar_sloTtftMs = None\<rparr>)))"

definition bench_commit :: "'w http \<Rightarrow> string \<Rightarrow> string \<Rightarrow> SyntheticRequest \<Rightarrow> ('w, js_error + bench_reply) state" where
  "bench_commit http tenant reservationId w = http ''POST'' ''/api/v1/llm/commit'' (Some (JObj (commit_body
     \<lparr>cr_tenant = tenant, cr_model = BENCH_MODEL, cr_reservationId = reservationId, cr_promptTokens = sr_promptTokens w,
      cr_outputTokens = sr_actualOutputTokens w, cr_serviceMs = Some (sr_serviceMs w)\<rparr>)))"

text \<open>\<^verbatim>\<open>Promise.all\<close> over requests: all are made, and the first rejection rejects the whole.\<close>

primrec in_turn :: "('w, js_error + 'a) state list \<Rightarrow> ('w, js_error + 'a list) state" where
  "in_turn [] = js_return []"
| "in_turn (m # ms) = do {
     r \<leftarrow> m;
     rest \<leftarrow> in_turn ms;
     State_Monad.return (case r of Inl e \<Rightarrow> Inl e | Inr a \<Rightarrow> (case rest of Inl e \<Rightarrow> Inl e | Inr as \<Rightarrow> Inr (a # as)))
   }"

section \<open>Worst-case against adaptive reservation\<close>

definition CALIBRATION_TPM :: int where "CALIBRATION_TPM = 1000000000"

definition bench_policy :: "string \<Rightarrow> ReservationMode \<Rightarrow> int \<Rightarrow> CreatePolicyInput" where
  "bench_policy tenant mode tokens =
     \<lparr>in_tenantPattern = tenant, in_modelPattern = ''*'', in_tokensPerMinute = Some tokens, in_requestsPerMinute = Some 1000000,
      in_maxConcurrency = Some 100000, in_maxQueueDepth = Some 1000000, in_leaseSeconds = Some 300, in_reservationMode = Some mode,
      in_reservationSafetyFactor = Some (15 / 10), in_priority = Some 8000, in_enabled = None\<rparr>"

definition returned_id :: "bench_reply \<Rightarrow> string option" where
  "returned_id r = (case map_of (rp_body r) ''data'' of
       Some (JObj fs) \<Rightarrow> (case map_of fs ''id'' of Some (JStr i) \<Rightarrow> Some i | _ \<Rightarrow> None) | _ \<Rightarrow> None)"

definition putPolicy ::
    "'w http \<Rightarrow> ((string \<times> jsval) list \<Rightarrow> string) \<Rightarrow> string \<Rightarrow> ReservationMode \<Rightarrow> int \<Rightarrow> string option \<Rightarrow> ('w, js_error + string option) state" where
  "putPolicy http stringify tenant mode tokens pid =
     (let b = Some (JObj (policy_body (bench_policy tenant mode tokens)));
          given = (case pid of Some i \<Rightarrow> i \<noteq> [] | None \<Rightarrow> False);
          want = (if given then 200 else 201)
      in throwing
           (if given then http ''PUT'' (''/api/v1/llm/policies/'' @ the pid) b else http ''POST'' ''/api/v1/llm/policies'' b)
           (\<lambda>res. if rp_status res \<noteq> want
              then js_throw (PlainError (''policy for '' @ tenant @ '' not '' @ (if given then ''updated'' else ''created'') @
                '' (HTTP '' @ string_of_int (rp_status res) @ ''): '' @ stringify (rp_body res)))
              else js_return (case returned_id res of Some i \<Rightarrow> Some i | None \<Rightarrow> pid)))"

primrec calibrate_tenant :: "'w http \<Rightarrow> string \<Rightarrow> SyntheticRequest list \<Rightarrow> ('w, js_error + unit) state" where
  "calibrate_tenant http tenant [] = js_return ()"
| "calibrate_tenant http tenant (w # ws) =
     throwing (bench_reserve http tenant w) (\<lambda>res.
       if admits res then throwing (bench_commit http tenant (body_text res ''reservationId'') w) (\<lambda>_. calibrate_tenant http tenant ws)
       else calibrate_tenant http tenant ws)"

record burst_tally =
  bt_admitted :: nat
  bt_shed :: nat
  bt_held :: int
  bt_actual :: int
  bt_overruns :: nat
  bt_overrunTokens :: int

definition no_replies :: burst_tally where
  "no_replies = \<lparr>bt_admitted = 0, bt_shed = 0, bt_held = 0, bt_actual = 0, bt_overruns = 0, bt_overrunTokens = 0\<rparr>"

definition used_tokens :: "SyntheticRequest \<Rightarrow> int" where
  "used_tokens w = sr_promptTokens w + sr_actualOutputTokens w"

definition count_reply :: "bench_reply \<times> SyntheticRequest \<Rightarrow> burst_tally \<Rightarrow> burst_tally" where
  "count_reply rw t =
     (case rw of (res, w) \<Rightarrow>
        if \<not> admits res then t\<lparr>bt_shed := bt_shed t + 1\<rparr>
        else
          let held = held_tokens res; actual = used_tokens w;
              t = t\<lparr>bt_admitted := bt_admitted t + 1, bt_held := bt_held t + held, bt_actual := bt_actual t + actual\<rparr>
          in if held < actual
             then t\<lparr>bt_overruns := bt_overruns t + 1, bt_overrunTokens := bt_overrunTokens t + (actual - held)\<rparr>
             else t)"

definition tally_burst :: "(bench_reply \<times> SyntheticRequest) list \<Rightarrow> burst_tally" where
  "tally_burst pairs = fold count_reply pairs no_replies"

record BurstResult =
  br_mode :: string
  br_admitted :: nat
  br_shed :: nat
  br_meanHeldTokens :: "rat option"
  br_meanActualTokens :: "rat option"
  br_overruns :: nat
  br_overrunTokens :: int

definition burst_result :: "string \<Rightarrow> burst_tally \<Rightarrow> BurstResult" where
  "burst_result mode t =
     \<lparr>br_mode = mode, br_admitted = bt_admitted t, br_shed = bt_shed t,
      br_meanHeldTokens = (if bt_admitted t = 0 then None else Some (fdiv (of_int (bt_held t)) (of_nat (bt_admitted t)))),
      br_meanActualTokens = (if bt_admitted t = 0 then None else Some (fdiv (of_int (bt_actual t)) (of_nat (bt_admitted t)))),
      br_overruns = bt_overruns t, br_overrunTokens = bt_overrunTokens t\<rparr>"

text \<open>The whole burst is reserved before any of it is committed.\<close>

definition burst :: "'w http \<Rightarrow> string \<Rightarrow> string \<Rightarrow> SyntheticRequest list \<Rightarrow> ('w, js_error + BurstResult) state" where
  "burst http tenant mode workload =
     throwing (in_turn (map (bench_reserve http tenant) workload)) (\<lambda>replies.
       throwing (in_turn (map (\<lambda>(res, w). bench_commit http tenant (body_text res ''reservationId'') w)
                   (filter (admits \<circ> fst) (zip replies workload))))
         (\<lambda>_. js_return (burst_result mode (tally_burst (zip replies workload)))))"

definition unreserved :: "char \<Rightarrow> bool" where
  "unreserved c \<longleftrightarrow> c \<in> set ''ABCDEFGHIJKLMNOPQRSTUVWXYZabcdefghijklmnopqrstuvwxyz0123456789-_.!~*()'' \<or> c = CHR 0x27"

definition percent_byte :: "nat \<Rightarrow> string" where
  "percent_byte n = ''%'' @ [''0123456789ABCDEF'' ! (n div 16), ''0123456789ABCDEF'' ! (n mod 16)]"

text \<open>\<^verbatim>\<open>encodeURIComponent\<close> on texts of one-byte characters: those from 128 on are two bytes of UTF-8.\<close>

definition encodeURIComponent :: "string \<Rightarrow> string" where
  "encodeURIComponent s = concat (map (\<lambda>c. let n = of_char c :: nat in
     if unreserved c then [c] else if n < 128 then percent_byte n else percent_byte (192 + n div 64) @ percent_byte (128 + n mod 64)) s)"

text \<open>Before its burst a mode is calibrated, its policy tightened, and its budget looked at: it has to be full.\<close>

definition mode_name :: "ReservationMode \<Rightarrow> string" where
  "mode_name mode = (case mode of worst_case \<Rightarrow> ''worst_case'' | adaptive \<Rightarrow> ''adaptive'')"

definition bench_tenant :: "string \<Rightarrow> ReservationMode \<Rightarrow> string" where
  "bench_tenant run mode = ''bench-'' @ mode_name mode @ ''-'' @ run"

definition prepare_mode ::
    "'w http \<Rightarrow> ((string \<times> jsval) list \<Rightarrow> string) \<Rightarrow> (rat option \<Rightarrow> string) \<Rightarrow> string \<Rightarrow> int \<Rightarrow> ReservationMode \<Rightarrow>
     SyntheticRequest list \<Rightarrow> ('w, js_error + unit) state" where
  "prepare_mode http stringify number_text run tokens mode calibrationTraffic =
     (let tenant = bench_tenant run mode
      in throwing (putPolicy http stringify tenant mode CALIBRATION_TPM None) (\<lambda>policyId.
         throwing (calibrate_tenant http tenant calibrationTraffic) (\<lambda>_.
         throwing (putPolicy http stringify tenant mode tokens policyId) (\<lambda>_.
         throwing (http ''GET'' (''/api/v1/llm/state?tenant='' @ encodeURIComponent tenant @ ''&model='' @ BENCH_MODEL) None) (\<lambda>st.
           let startingBudget = (case map_of (rp_body st) ''tokensRemaining'' of Some v \<Rightarrow> number_given v | None \<Rightarrow> None)
           in if (case startingBudget of Some b \<Rightarrow> fmul (of_int tokens) (dbl (99 / 100)) \<le> b | None \<Rightarrow> False)
              then js_return ()
              else js_throw (PlainError (mode_name mode @ '': burst would start from '' @ number_text startingBudget @ '' of '' @ string_of_int tokens @
                '' tokens. Calibration leaked into the measurement; refusing to report it.'')))))))"

text \<open>The rows of its two tables. A quotient by zero prints as \<^verbatim>\<open>-\<close>, as \<^verbatim>\<open>NaN\<close> and \<^verbatim>\<open>Infinity\<close> do.\<close>

definition ratio :: "rat \<Rightarrow> rat \<Rightarrow> rat option" where
  "ratio x y = (if y = 0 then None else Some (fdiv x y))"

definition percent :: "rat option \<Rightarrow> rat option" where
  "percent r = map_option (\<lambda>x. fmul x 100) r"

definition fit_row :: "rat \<Rightarrow> BurstResult \<Rightarrow> table_row" where
  "fit_row BURST r =
     [(''mode'', br_mode r), (''admitted'', string_of_nat (br_admitted r)), (''shed'', string_of_nat (br_shed r)),
      (''admitted %'', fmt (percent (ratio (of_nat (br_admitted r)) BURST)) 1),
      (''mean held'', fmt (br_meanHeldTokens r) 0), (''mean used'', fmt (br_meanActualTokens r) 0),
      (''held but unused %'', fmt (percent (Option.bind (br_meanActualTokens r) (\<lambda>used. Option.bind (br_meanHeldTokens r) (\<lambda>held.
         map_option (\<lambda>x. fsub 1 x) (ratio used held))))) 1)]"

definition overrun_row :: "BurstResult \<Rightarrow> table_row" where
  "overrun_row r =
     [(''mode'', br_mode r), (''overruns'', string_of_nat (br_overruns r)),
      (''overrun %'', fmt (percent (ratio (of_nat (br_overruns r)) (max 1 (of_nat (br_admitted r))))) 2),
      (''overrun tokens'', string_of_int (br_overrunTokens r)),
      (''as % of used'', fmt (percent (Option.bind (br_meanActualTokens r) (\<lambda>used.
         ratio (of_int (br_overrunTokens r)) (max 1 (fmul used (of_nat (br_admitted r))))))) 2)]"

definition gain :: "BurstResult \<Rightarrow> BurstResult \<Rightarrow> rat option" where
  "gain worst adapted = ratio (of_nat (br_admitted adapted)) (max 1 (of_nat (br_admitted worst)))"

section \<open>The cost of a decision\<close>

definition BENCH_TENANT :: string where "BENCH_TENANT = ''bench-admission''"

definition admission_spec :: CreatePolicyInput where
  "admission_spec =
     \<lparr>in_tenantPattern = BENCH_TENANT, in_modelPattern = ''*'', in_tokensPerMinute = Some 2000000000, in_requestsPerMinute = Some 100000000,
      in_maxConcurrency = Some 100000, in_maxQueueDepth = Some 1000000, in_leaseSeconds = Some 300, in_reservationMode = None,
      in_reservationSafetyFactor = None, in_priority = Some 9000, in_enabled = None\<rparr>"

definition covers_tenant :: "jsval \<Rightarrow> bool" where
  "covers_tenant v = (case v of JObj fs \<Rightarrow> map_of fs ''tenantPattern'' = Some (JStr BENCH_TENANT) | _ \<Rightarrow> False)"

definition listed_id :: "jsval \<Rightarrow> string" where
  "listed_id v = (case v of JObj fs \<Rightarrow> (case map_of fs ''id'' of Some (JStr i) \<Rightarrow> i | _ \<Rightarrow> []) | _ \<Rightarrow> [])"

text \<open>The policy of the benchmark is updated where one covers its tenant and created otherwise; a refusal stops it.\<close>

definition apply_spec :: "'w http \<Rightarrow> ((string \<times> jsval) list \<Rightarrow> string) \<Rightarrow> ('w, js_error + unit) state" where
  "apply_spec http stringify =
     throwing (http ''GET'' ''/api/v1/llm/policies'' None) (\<lambda>policies.
       case map_of (rp_body policies) ''data'' of
         Some (JArr vs) \<Rightarrow>
           throwing (case find covers_tenant vs of
               Some existing \<Rightarrow> http ''PUT'' (''/api/v1/llm/policies/'' @ listed_id existing) (Some (JObj (policy_body admission_spec)))
             | None \<Rightarrow> http ''POST'' ''/api/v1/llm/policies'' (Some (JObj (policy_body admission_spec))))
           (\<lambda>applied. if rp_status applied \<noteq> 200 \<and> rp_status applied \<noteq> 201
              then js_throw (PlainError (''benchmark policy was not applied (HTTP '' @ string_of_int (rp_status applied) @ ''): '' @ stringify (rp_body applied)))
              else js_return ())
       | _ \<Rightarrow> js_throw (PlainError ''policies.body.data.find is not a function''))"

text \<open>
  A run counts its requests as their halves end, in whatever order they do: a reserve with its reply and
  its latency, and the commit of one that was admitted.
\<close>

record run_tally =
  rt_admitted :: nat
  rt_shed :: nat
  rt_errors :: nat
  rt_reserve :: latencies
  rt_commit :: latencies

definition nothing_yet :: run_tally where
  "nothing_yet = \<lparr>rt_admitted = 0, rt_shed = 0, rt_errors = 0, rt_reserve = [], rt_commit = []\<rparr>"

datatype run_event = Reserve_ended "js_error + bench_reply" rat | Commit_ended "js_error + bench_reply" rat

fun admitted_event :: "run_event \<Rightarrow> bool" where
  "admitted_event (Reserve_ended (Inr res) ms) = (rp_status res = 200 \<and> admits res)"
| "admitted_event e = False"

fun count_event :: "run_event \<Rightarrow> run_tally \<Rightarrow> run_tally" where
  "count_event (Reserve_ended (Inl e) ms) t = t\<lparr>rt_errors := rt_errors t + 1\<rparr>"
| "count_event (Reserve_ended (Inr res) ms) t =
     (let t = t\<lparr>rt_reserve := record_sample ms (rt_reserve t)\<rparr>
      in if rp_status res \<noteq> 200 \<or> \<not> admits res then t\<lparr>rt_shed := rt_shed t + 1\<rparr> else t\<lparr>rt_admitted := rt_admitted t + 1\<rparr>)"
| "count_event (Commit_ended (Inl e) ms) t = t\<lparr>rt_errors := rt_errors t + 1\<rparr>"
| "count_event (Commit_ended (Inr res) ms) t = t\<lparr>rt_commit := record_sample ms (rt_commit t)\<rparr>"

definition tally_run :: "run_event list \<Rightarrow> run_tally" where
  "tally_run evs = fold count_event evs nothing_yet"

record RunResult =
  rr_offeredRps :: rat
  rr_achievedRps :: "rat option"
  rr_completed :: nat
  rr_tally :: run_tally
  rr_reserve :: latency_summary
  rr_commit :: latency_summary

text \<open>The requests issued while the clock reads less than the deadline, and when each is due.\<close>

definition issued :: "rat list \<Rightarrow> rat \<Rightarrow> nat" where
  "issued clock deadline = length (takeWhile (\<lambda>now. now < deadline) clock)"

definition due :: "rat \<Rightarrow> rat \<Rightarrow> nat \<Rightarrow> rat" where
  "due start targetRps i = fadd start (fmul (of_nat i) (fdiv 1000 targetRps))"

definition run_result :: "rat \<Rightarrow> nat \<Rightarrow> rat \<Rightarrow> run_event list \<Rightarrow> RunResult" where
  "run_result targetRps completed elapsedMs evs =
     (let t = tally_run evs
      in \<lparr>rr_offeredRps = targetRps, rr_achievedRps = ratio (of_nat completed) (fdiv elapsedMs 1000), rr_completed = completed,
          rr_tally = t, rr_reserve = summary (rt_reserve t), rr_commit = summary (rt_commit t)\<rparr>)"

text \<open>Whether a run is reported with the warning that it measured refusals.\<close>

definition sheds_too_much :: "RunResult \<Rightarrow> bool" where
  "sheds_too_much r \<longleftrightarrow> fmul (of_nat (rr_completed r)) (dbl (1 / 100)) < of_nat (rt_shed (rr_tally r))"

definition reserve_row :: "(rat \<Rightarrow> string) \<Rightarrow> RunResult \<Rightarrow> table_row" where
  "reserve_row number_text r =
     [(''offered rps'', number_text (rr_offeredRps r)), (''achieved rps'', fmt (rr_achievedRps r) 0),
      (''n'', string_of_nat (ls_count (rr_reserve r))), (''p50'', fmt (ls_p50 (rr_reserve r)) 2), (''p95'', fmt (ls_p95 (rr_reserve r)) 2),
      (''p99'', fmt (ls_p99 (rr_reserve r)) 2), (''p99.9'', fmt (ls_p999 (rr_reserve r)) 2), (''max'', fmt (ls_max (rr_reserve r)) 2),
      (''admitted'', string_of_nat (rt_admitted (rr_tally r))), (''shed'', string_of_nat (rt_shed (rr_tally r))),
      (''errors'', string_of_nat (rt_errors (rr_tally r)))]"

definition commit_row :: "(rat \<Rightarrow> string) \<Rightarrow> RunResult \<Rightarrow> table_row" where
  "commit_row number_text r =
     [(''offered rps'', number_text (rr_offeredRps r)), (''n'', string_of_nat (ls_count (rr_commit r))),
      (''p50'', fmt (ls_p50 (rr_commit r)) 2), (''p95'', fmt (ls_p95 (rr_commit r)) 2), (''p99'', fmt (ls_p99 (rr_commit r)) 2),
      (''max'', fmt (ls_max (rr_commit r)) 2)]"

section \<open>What the tables count\<close>

lemma tally_burst_snoc: "tally_burst (pairs @ [p]) = count_reply p (tally_burst pairs)"
  by (simp add: tally_burst_def)

definition overrun_of :: "bench_reply \<times> SyntheticRequest \<Rightarrow> int" where
  "overrun_of rw = (if admits (fst rw) then max 0 (used_tokens (snd rw) - held_tokens (fst rw)) else 0)"

lemma burst_totals:
  "bt_admitted (tally_burst pairs) + bt_shed (tally_burst pairs) = length pairs"
  "bt_admitted (tally_burst pairs) = length (filter (admits \<circ> fst) pairs)"
  "bt_overruns (tally_burst pairs) = length (filter (\<lambda>rw. 0 < overrun_of rw) pairs)"
  "bt_overrunTokens (tally_burst pairs) = sum_list (map overrun_of pairs)"
  by (induction pairs rule: rev_induct)
    (auto simp: tally_burst_snoc count_reply_def overrun_of_def Let_def, simp_all add: tally_burst_def no_replies_def)

lemma sum_list_of_positives:
  fixes f :: "'a \<Rightarrow> int"
  assumes "\<And>x. 0 \<le> f x" "\<And>x. x \<in> set xs \<Longrightarrow> f x \<le> c"
  shows "sum_list (map f xs) \<le> int (length (filter (\<lambda>x. 0 < f x) xs)) * c"
  using assms(2)
proof (induction xs)
  case (Cons x xs)
  then show ?case using assms(1)[of x] by (cases "f x = 0") (auto simp: algebra_simps intro: add_mono)
qed simp

lemma length_filter_weaker: "(\<And>x. P x \<Longrightarrow> Q x) \<Longrightarrow> length (filter P xs) \<le> length (filter Q xs)"
  by (induction xs) (auto intro: le_SucI)

lemma overrun_nonneg: "0 \<le> overrun_of p"
  by (simp add: overrun_of_def)

lemma overrun_within:
  assumes w: "within_ceiling c w" "1 \<le> c"
    and held: "admits r \<Longrightarrow> \<exists>seen. held_tokens r = reserveTokens (estimateReservation policy (sr_promptTokens w) (sr_maxOutputTokens w) seen)"
  shows "overrun_of (r, w) \<le> c - 1" and "reservationMode policy = worst_case \<Longrightarrow> overrun_of (r, w) = 0"
  using w held unfolding overrun_of_def within_ceiling_def used_tokens_def
  by (auto simp: estimateReservation_def Let_def split: if_splits)

text \<open>
  What the reservation benchmark reports of a mode is what happened to its traffic. Every request of the
  burst is counted as admitted or shed; overruns are among the admitted ones; and where the
  service holds what its estimator tells, a worst-case burst never overruns, and an adaptive one
  overruns on each request by less than the ceiling its caller declared.
\<close>

theorem burst_overruns_stay_below_the_ceiling:
  assumes traffic: "workload = fst (run_state (take_requests M c n) a)" and replies: "length replies = n" and ceiling: "1 \<le> declaredMaxTokens c"
    and held: "\<forall>(r, w) \<in> set (zip replies workload). admits r \<longrightarrow>
      (\<exists>seen. held_tokens r = reserveTokens (estimateReservation policy (sr_promptTokens w) (sr_maxOutputTokens w) seen))"
    and result: "result = burst_result mode (tally_burst (zip replies workload))"
  shows "br_admitted result + br_shed result = n \<and> br_overruns result \<le> br_admitted result
    \<and> br_overrunTokens result \<le> int (br_overruns result) * (declaredMaxTokens c - 1)
    \<and> (reservationMode policy = worst_case \<longrightarrow> br_overruns result = 0 \<and> br_overrunTokens result = 0)"
proof -
  let ?pairs = "zip replies workload"
  have "length workload = n" unfolding traffic by (rule take_requests_length)
  then have n: "length ?pairs = n" using replies by simp
  have each: "overrun_of p \<le> declaredMaxTokens c - 1" "reservationMode policy = worst_case \<Longrightarrow> overrun_of p = 0" if "p \<in> set ?pairs" for p
  proof -
    have "within_ceiling (declaredMaxTokens c) (snd p)"
      using set_zip_rightD[of "fst p" "snd p" replies workload] that take_requests_within[of c M n a]
      by (simp add: traffic list_all_iff)
    moreover have "admits (fst p) \<Longrightarrow> \<exists>seen. held_tokens (fst p)
        = reserveTokens (estimateReservation policy (sr_promptTokens (snd p)) (sr_maxOutputTokens (snd p)) seen)"
      using that held by (cases p) auto
    ultimately show "overrun_of p \<le> declaredMaxTokens c - 1" "reservationMode policy = worst_case \<Longrightarrow> overrun_of p = 0"
      using overrun_within[OF _ ceiling, of "snd p" "fst p" policy] by simp_all
  qed
  have "length (filter (\<lambda>rw. 0 < overrun_of rw) ?pairs) \<le> length (filter (admits \<circ> fst) ?pairs)"
    by (rule length_filter_weaker) (simp add: overrun_of_def split: if_splits)
  moreover have "filter (\<lambda>rw. 0 < overrun_of rw) ?pairs = [] \<and> sum_list (map overrun_of ?pairs) = 0" if "reservationMode policy = worst_case"
  proof -
    have "map overrun_of ?pairs = map (\<lambda>_. 0) ?pairs" using each(2)[OF _ that] by (intro map_cong) simp_all
    moreover have "filter (\<lambda>rw. 0 < overrun_of rw) ?pairs = []" using each(2)[OF _ that] by (auto simp: filter_empty_conv)
    ultimately show ?thesis by (simp only: sum_list_0)
  qed
  ultimately show ?thesis
    using burst_totals[of ?pairs] n sum_list_of_positives[of overrun_of ?pairs, OF overrun_nonneg each(1)] unfolding result by (simp add: burst_result_def)
qed

text \<open>A burst of three under a worst-case policy, of which two are admitted.\<close>

definition example_traffic :: "SyntheticRequest list" where
  "example_traffic = fst (run_state (take_requests
     \<lparr>Math_log = (\<lambda>x. x - 1), Math_sqrt = (\<lambda>x. x / 2), Math_cos = (\<lambda>x. 1 - x * x / 2), Math_exp = (\<lambda>x. 1 + x)\<rparr> CHAT_WORKLOAD 3) (seeded 7))"

definition worst_reply :: "SyntheticRequest \<Rightarrow> bench_reply" where
  "worst_reply w = \<lparr>rp_status = 200, rp_body = [(''decision'', JStr ''admit''), (''reservedTokens'', JNum (of_int (sr_promptTokens w + sr_maxOutputTokens w)))]\<rparr>"

theorem burst_overruns_stay_below_the_ceiling_witness:
  "br_overruns (burst_result ''worst_case'' (tally_burst (zip
     [worst_reply (example_traffic ! 0), \<lparr>rp_status = 429, rp_body = []\<rparr>, worst_reply (example_traffic ! 2)] example_traffic))) = 0"
proof -
  have "length example_traffic = 3" unfolding example_traffic_def by (rule take_requests_length)
  then obtain w0 w1 w2 where three: "example_traffic = [w0, w1, w2]" by (auto simp: numeral_3_eq_3 length_Suc_conv)
  let ?replies = "[worst_reply (example_traffic ! 0), \<lparr>rp_status = 429, rp_body = []\<rparr>, worst_reply (example_traffic ! 2)]"
  have held: "\<forall>(r, w) \<in> set (zip ?replies example_traffic). admits r \<longrightarrow>
      (\<exists>seen. held_tokens r = reserveTokens (estimateReservation (DEFAULT_POLICY ''bench'' ''*'' ''default'') (sr_promptTokens w) (sr_maxOutputTokens w) seen))"
    by (simp add: three admits_def held_tokens_def worst_reply_def estimateReservation_def DEFAULT_POLICY_def Let_def)
  show ?thesis
    using burst_overruns_stay_below_the_ceiling[OF example_traffic_def, where replies = ?replies
        and policy = "DEFAULT_POLICY ''bench'' ''*'' ''default''" and mode = "''worst_case''", OF _ _ held refl]
    by (simp add: CHAT_WORKLOAD_def DEFAULT_POLICY_def)
qed

text \<open>Every request of a run ends in one way: shed, failed, or committed.\<close>

fun is_reserve :: "run_event \<Rightarrow> bool" where
  "is_reserve (Reserve_ended r ms) = True"
| "is_reserve (Commit_ended r ms) = False"

lemma tally_run_snoc: "tally_run (evs @ [e]) = count_event e (tally_run evs)"
  by (simp add: tally_run_def)

lemma run_totals:
  "rt_admitted (tally_run evs) = length (filter admitted_event evs)"
  "rt_shed (tally_run evs) + rt_admitted (tally_run evs) = length (rt_reserve (tally_run evs))"
  "length (rt_reserve (tally_run evs)) \<le> length (filter is_reserve evs)"
  "rt_shed (tally_run evs) + rt_errors (tally_run evs) + length (rt_commit (tally_run evs)) + length (filter admitted_event evs)
     = length evs"
proof (induction evs rule: rev_induct)
  case (snoc e evs)
  note more = tally_run_snoc record_sample_def Let_def
  show "rt_admitted (tally_run (evs @ [e])) = length (filter admitted_event (evs @ [e]))"
    by (rule count_event.cases[of "(e, nothing_yet)"]) (use snoc in \<open>auto simp: more\<close>)
  show "rt_shed (tally_run (evs @ [e])) + rt_admitted (tally_run (evs @ [e])) = length (rt_reserve (tally_run (evs @ [e])))"
    by (rule count_event.cases[of "(e, nothing_yet)"]) (use snoc in \<open>auto simp: more\<close>)
  show "length (rt_reserve (tally_run (evs @ [e]))) \<le> length (filter is_reserve (evs @ [e]))"
    by (rule count_event.cases[of "(e, nothing_yet)"]) (use snoc in \<open>auto simp: more\<close>)
  show "rt_shed (tally_run (evs @ [e])) + rt_errors (tally_run (evs @ [e])) + length (rt_commit (tally_run (evs @ [e])))
      + length (filter admitted_event (evs @ [e])) = length (evs @ [e])"
    by (rule count_event.cases[of "(e, nothing_yet)"]) (use snoc in \<open>auto simp: more\<close>)
qed (simp_all add: tally_run_def nothing_yet_def)

theorem every_request_ends_once:
  assumes committed: "length (filter (\<lambda>e. \<not> is_reserve e) evs) = length (filter admitted_event evs)"
    and result: "result = run_result rate (length (filter is_reserve evs)) elapsed evs"
  shows "rr_completed result = rt_shed (rr_tally result) + rt_errors (rr_tally result) + ls_count (rr_commit result)
    \<and> ls_count (rr_reserve result) = rt_admitted (rr_tally result) + rt_shed (rr_tally result)
    \<and> rt_admitted (rr_tally result) + rt_shed (rr_tally result) \<le> rr_completed result"
  using run_totals[of evs] committed sum_length_filter_compl[of is_reserve evs]
  unfolding result by (simp add: run_result_def summary_def Let_def)

section \<open>The policies of the benchmarks\<close>

text \<open>Both benchmarks write policies that the API accepts, created or updated.\<close>

lemma conforms_update: "conforms policySchema b \<Longrightarrow> conforms policyUpdateSchema b"
  unfolding policyUpdateSchema_def by (force simp: conforms_def fork_optional_def list_all_iff split: option.splits)

theorem benchmark_policies_are_accepted:
  assumes "tenant \<noteq> []" "length tenant \<le> 255" "1 \<le> tokens" "tokens < 2 ^ 53"
  shows "conforms policySchema (policy_body (bench_policy tenant mode tokens))
    \<and> conforms policyUpdateSchema (policy_body (bench_policy tenant mode tokens))
    \<and> conforms policySchema (policy_body admission_spec) \<and> conforms policyUpdateSchema (policy_body admission_spec)"
proof -
  have "policy_body (bench_policy tenant mode tokens) =
      [(''tenantPattern'', JStr tenant), (''modelPattern'', JStr ''*''), (''tokensPerMinute'', JNum (of_int tokens)),
       (''requestsPerMinute'', JNum 1000000), (''maxConcurrency'', JNum 100000), (''maxQueueDepth'', JNum 1000000),
       (''leaseSeconds'', JNum 300), (''reservationMode'', mode_value mode), (''reservationSafetyFactor'', JNum (15 / 10)),
       (''priority'', JNum 8000)]"
    by (simp add: policy_body_def bench_policy_def key_if_def)
  moreover have "has_type (Joi_valid [''worst_case'', ''adaptive'']) (mode_value mode)"
    by (cases mode) (simp_all add: mode_value_def)
  ultimately have "conforms policySchema (policy_body (bench_policy tenant mode tokens))"
    using assms by (simp add: conforms_def policySchema_def in_range_def safe_number_def Suc_le_eq)
  moreover have "conforms policySchema (policy_body admission_spec)"
    by (simp add: conforms_def policySchema_def policy_body_def admission_spec_def BENCH_TENANT_def key_if_def in_range_def safe_number_def)
  ultimately show ?thesis by (simp add: conforms_update)
qed

section \<open>A lowered budget is full\<close>

lemma level_full:
  assumes "1 \<le> lmt" "lmt < 2 ^ 31" "0 \<le> rate" and covered: "\<forall>b t. bal = Some b \<and> ts = Some t \<longrightarrow> of_int lmt \<le> b"
  shows "level bal ts (of_int lmt) rate now = of_int lmt"
proof (cases "\<exists>b t. bal = Some b \<and> ts = Some t")
  case True
  then obtain b t where bt: "bal = Some b" "ts = Some t" by blast
  have lmt: "dbl (of_int lmt) = of_int lmt" using assms(1,2) by (intro dbl_of_int) simp
  have "of_int lmt \<le> dbl b" using dbl_mono[of "of_int lmt" b] covered bt by (simp add: lmt)
  moreover have "0 \<le> fmul (elapsed_s now (dbl t)) rate" by (intro fmul_nonneg elapsed_s_nonneg assms(3))
  ultimately have "of_int lmt \<le> dbl b + fmul (elapsed_s now (dbl t)) rate" by simp
  then have "of_int lmt \<le> fadd (dbl b) (fmul (elapsed_s now (dbl t)) rate)" unfolding fadd_def using dbl_mono lmt by metis
  then show ?thesis by (simp add: bt level_def accrue_def)
next
  case False
  then show ?thesis by (cases bal; cases ts) (simp_all add: level_def)
qed

text \<open>
  The step between calibration and burst does what the benchmark relies on: where a policy is lowered below the
  balance a tenant has left, or the tenant has none yet, the state of the tenant reads exactly the
  new budget, at any time and without changing anything, so that the check before the burst passes.
\<close>

theorem lowered_budget_is_full:
  assumes server: "script_server call elapse view sha1 client cached" and policy: "valid_policy policy"
    and covered: "\<forall>b t. tpm (ledger_at (ns tenant model) (view s)) = Some b \<and> tpmTs (ledger_at (ns tenant model) (view s)) = Some t \<longrightarrow>
      of_int (tokensPerMinute policy) \<le> b"
  shows "\<exists>shot s1. run_state (snapshot sha1 client call now tenant model policy) s = ((Inr shot, []), s1) \<and> view s1 = view s
    \<and> snap_tokens (snapshot_counts shot) = tokensPerMinute policy
    \<and> fmul (of_int (tokensPerMinute policy)) (dbl (99 / 100)) \<le> of_int (snap_tokens (snapshot_counts shot))"
proof -
  let ?lmt = "tokensPerMinute policy"
  have lmt: "1 \<le> ?lmt" "?lmt < 2 ^ 31" using policy by (simp_all add: valid_policy_def)
  have rate: "0 \<le> fdiv (of_int ?lmt) 60" using lmt by (intro fdiv_nonneg) simp_all
  obtain shot s1 where run: "run_state (snapshot sha1 client call now tenant model policy) s = ((Inr shot, []), s1)" "view s1 = view s"
    and counts: "snapshot_counts shot = fst (run_state (snapshot_script doc_call (keys tenant model) now ?lmt (fdiv (of_int ?lmt) 60)
        (requestsPerMinute policy) (fdiv (of_int (requestsPerMinute policy)) 60) COLD_START_SERVICE_MS) (view s))"
    using snapshot_runs[OF server, of now tenant model policy s] by auto
  have tokens: "snap_tokens (snapshot_counts shot) = ?lmt"
    by (simp add: counts keys_def snapshot_doc Let_def level_full[OF lmt rate covered])
  have "of_int ?lmt * dbl (99 / 100) \<le> of_int ?lmt * 1" using dbl_mono[of "99 / 100" 1] lmt by (intro mult_left_mono) simp_all
  then have "fmul (of_int ?lmt) (dbl (99 / 100)) \<le> of_int ?lmt" unfolding fmul_def using lmt by (intro dbl_le_int) simp_all
  then show ?thesis using run tokens by auto
qed

theorem lowered_budget_is_full_witness:
  "\<exists>shot s1. run_state (snapshot id (server_client id) server_call 1000 ''acme'' ''m'' (example_policy\<lparr>tokensPerMinute := 50000\<rparr>)) (example_store, [])
      = ((Inr shot, []), s1) \<and> snap_tokens (snapshot_counts shot) = 50000"
proof -
  have valid: "valid_policy (example_policy\<lparr>tokensPerMinute := 50000\<rparr>)"
    by (simp add: valid_policy_def example_policy_def DEFAULT_POLICY_def)
  have covered: "\<forall>b t. tpm (ledger_at (ns ''acme'' ''m'') (fst (example_store, []))) = Some b
      \<and> tpmTs (ledger_at (ns ''acme'' ''m'') (fst (example_store, []))) = Some t \<longrightarrow>
      of_int (tokensPerMinute (example_policy\<lparr>tokensPerMinute := 50000\<rparr>)) \<le> b"
    using example_ledger by (simp add: ns_def)
  show ?thesis
    using lowered_budget_is_full[OF doc_script_server.script_server_axioms[of id] valid covered, of 1000] by auto
qed

end
