(* ===== verification/Bench_Programs.thy ===== *)
theory Bench_Programs
  imports Benchmarks Logger
begin

text \<open>
  The two benchmarks as programs: their command lines, the client they call the service with, the loop that
  offers load at a rate, and what they print. Node's \<^verbatim>\<open>http\<close>, the clocks and the machine are parameters. Flags that
  are no numbers, or no whole numbers where tokens and requests are counted, are outside the model, and so are
  rates that are not positive. A request of a run is made and answered before the next one is due: that is
  one of the orders the replies may come in, and the counts of \<^verbatim>\<open>Benchmarks\<close> hold for all of them.
\<close>

section \<open>The client\<close>

definition utf8 :: "string \<Rightarrow> string" where
  "utf8 s = concat (map (\<lambda>c. let n = of_char c :: nat in
     if n < 128 then [c] else [char_of (192 + n div 64), char_of (128 + n mod 64)]) s)"

record wire_request =
  wq_host :: string
  wq_port :: string
  wq_path :: string
  wq_method :: string
  wq_headers :: "(string \<times> jsval) list"
  wq_data :: "string option"

text \<open>
  \<^verbatim>\<open>http.request\<close>: an error of the connection, or the status and the chunks of the reply. \<open>parse\<close> is
  \<^verbatim>\<open>JSON.parse\<close> on the objects the service answers with, and \<open>None\<close> where it throws.
\<close>

type_synonym 'w wire = "wire_request \<Rightarrow> ('w, js_error + int option \<times> string list) state"

definition read_reply :: "(string \<Rightarrow> (string \<times> jsval) list option) \<Rightarrow> int option \<times> string list \<Rightarrow> bench_reply" where
  "read_reply parse reply =
     (case reply of (statusCode, chunks) \<Rightarrow>
        let txt = concat chunks
        in \<lparr>rp_status = (case statusCode of Some n \<Rightarrow> n | None \<Rightarrow> 0),
            rp_body = (if txt = [] then [] else case parse txt of Some fs \<Rightarrow> fs | None \<Rightarrow> [(''raw'', JStr txt)])\<rparr>)"

definition http_request ::
    "'w wire \<Rightarrow> (string \<Rightarrow> (string \<times> jsval) list option) \<Rightarrow> (rat \<Rightarrow> string) \<Rightarrow> string \<times> string \<Rightarrow> 'w http" where
  "http_request wire parse shown address meth path payload =
     (let data = map_option utf8 (Option.bind payload (json_text shown))
      in throwing
           (wire \<lparr>wq_host = fst address, wq_port = snd address, wq_path = path, wq_method = meth,
              wq_headers = (case data of
                  Some d \<Rightarrow> [(''content-type'', JStr ''application/json''), (''content-length'', JNum (of_nat (length d)))]
                | None \<Rightarrow> []),
              wq_data = data\<rparr>)
           (\<lambda>reply. js_return (read_reply parse reply)))"

section \<open>The console\<close>

datatype printed = Stdout string | Stderr string

type_synonym ('w, 'a) program = "('w \<times> printed list, js_error + 'a) state"

definition put :: "printed \<Rightarrow> ('w, unit) program" where
  "put p = State (\<lambda>(w, out). (Inr (), (w, out @ [p])))"

definition console_log :: "string \<Rightarrow> ('w, unit) program" where
  "console_log s = put (Stdout (s @ [CHR 0x0A]))"

definition on_world :: "('w, 'a) state \<Rightarrow> ('w \<times> printed list, 'a) state" where
  "on_world m = State (\<lambda>(w, out). case run_state m w of (r, w') \<Rightarrow> (r, (w', out)))"

primrec console_lines :: "string list \<Rightarrow> ('w, unit) program" where
  "console_lines [] = js_return ()"
| "console_lines (s # ss) = throwing (console_log s) (\<lambda>_. console_lines ss)"

definition padEnd :: "nat \<Rightarrow> string \<Rightarrow> string" where
  "padEnd w s = s @ replicate (w - length s) (CHR '' '')"

text \<open>\<^verbatim>\<open>main().catch\<close>: an error is printed and the process exits with one; \<open>inspect\<close> is what the console makes of it.\<close>

definition exit_code :: "(js_error \<Rightarrow> string) \<Rightarrow> ('w, unit) program \<Rightarrow> ('w \<times> printed list, int) state" where
  "exit_code inspect main = do {
     r \<leftarrow> main;
     (case r of
        Inr _ \<Rightarrow> State_Monad.return 0
      | Inl e \<Rightarrow> do { _ \<leftarrow> put (Stderr (inspect e @ [CHR 0x0A])); State_Monad.return 1 })
   }"

section \<open>The reservation benchmark\<close>

text \<open>\<^verbatim>\<open>RUN\<close>, the time of the start in base 36.\<close>

fun base36 :: "nat \<Rightarrow> string" where
  "base36 n = (if n < 36 then [] else base36 (n div 36)) @ [''0123456789abcdefghijklmnopqrstuvwxyz'' ! (n mod 36)]"

definition RUN :: "nat \<Rightarrow> string" where
  "RUN now = base36 now"

declare base36.simps [simp del]

record reservation_settings =
  TOKENS_PER_MINUTE :: int
  BURST :: int
  CALIBRATION :: int
  WORKLOAD :: WorkloadConfig

definition whole :: "rat option \<Rightarrow> int option" where
  "whole n = Option.bind n (\<lambda>x. if x = of_int \<lfloor>x\<rfloor> then Some \<lfloor>x\<rfloor> else None)"

definition reservation_flags :: "string list \<Rightarrow> reservation_settings option" where
  "reservation_flags args = do {
     tokens \<leftarrow> whole (to_number (flag args ''tpm'' ''400000''));
     requests \<leftarrow> whole (to_number (flag args ''burst'' ''400''));
     calibration \<leftarrow> whole (to_number (flag args ''calibration'' ''150''));
     med \<leftarrow> to_number (flag args ''output-median'' ''180'');
     sigma \<leftarrow> to_number (flag args ''output-sigma'' ''0.9'');
     bound \<leftarrow> whole (to_number (flag args ''ceiling'' ''4096''));
     Some \<lparr>TOKENS_PER_MINUTE = tokens, BURST = requests, CALIBRATION = calibration,
       WORKLOAD = CHAT_WORKLOAD\<lparr>outputMedian := med, outputSigma := sigma, declaredMaxTokens := bound\<rparr>\<rparr>
   }"

text \<open>\<open>stringify\<close>, \<open>number_text\<close> and \<open>locale_text\<close> are \<^verbatim>\<open>JSON.stringify\<close>, \<^verbatim>\<open>String\<close> and \<^verbatim>\<open>toLocaleString\<close> on what is printed.\<close>

record printing =
  stringify :: "(string \<times> jsval) list \<Rightarrow> string"
  number_text :: "rat option \<Rightarrow> string"
  locale_text :: "int \<Rightarrow> string"

definition reservation_intro :: "printing \<Rightarrow> reservation_settings \<Rightarrow> SyntheticRequest list \<Rightarrow> string list" where
  "reservation_intro pt c burstTraffic =
     (let actual = mean (map (\<lambda>w. of_int (sr_promptTokens w + sr_actualOutputTokens w)) burstTraffic);
          declared = mean (map (\<lambda>w. of_int (sr_promptTokens w + sr_maxOutputTokens w)) burstTraffic);
          unused = percent (Option.bind actual (\<lambda>a. Option.bind declared (\<lambda>d. map_option (fsub 1) (ratio a d))));
          wl = WORKLOAD c
      in [CHR 0x0A # ''Benchmark B -- worst-case vs adaptive reservation'' @ [CHR 0x0A],
          ''  budget            '' @ locale_text pt (TOKENS_PER_MINUTE c) @ '' tokens/minute'',
          ''  burst             '' @ string_of_int (BURST c) @ '' requests arriving together'',
          ''  declared ceiling  '' @ string_of_int (declaredMaxTokens wl) @ '' output tokens'',
          ''  workload          prompt ~'' @ number_text pt (Some (promptMedian wl)) @ '' tokens, output log-normal '' @
            ''(median '' @ number_text pt (Some (outputMedian wl)) @ '', sigma '' @ number_text pt (Some (outputSigma wl)) @ '')  [assumption, not a trace]'',
          ''  per request       '' @ fmt declared 0 @ '' tokens declared, '' @ fmt actual 0 @ '' actually used '' @
            ''('' @ fmt unused 1 @ ''% of the declaration is never generated)'' @ [CHR 0x0A]])"

definition reservation_report :: "reservation_settings \<Rightarrow> BurstResult \<Rightarrow> BurstResult \<Rightarrow> string list" where
  "reservation_report c worst adapted =
     [CHR 0x0A # ''how much of the burst fits in the budget'' @ [CHR 0x0A],
      table (map (fit_row (of_int (BURST c))) [worst, adapted]),
      CHR 0x0A # ''what adaptive gives up for it'' @ [CHR 0x0A],
      table (map overrun_row [worst, adapted]),
      CHR 0x0A # ''  adaptive admitted '' @ fmt (gain worst adapted) 2 @ ''x as much of the burst from the same budget,'',
      ''  and overran on '' @ string_of_nat (br_overruns adapted) @ '' of '' @ string_of_nat (br_admitted adapted) @ '' admitted requests '' @
        ''('' @ fmt (percent (ratio (of_nat (br_overruns adapted)) (max 1 (of_nat (br_admitted adapted))))) 2 @ ''%).'',
      ''  Overruns are charged at commit, so they are paid for -- they are not a way past the budget.'' @ [CHR 0x0A]]"

text \<open>One pass of the loop of \<^verbatim>\<open>main\<close>, and \<^verbatim>\<open>main\<close>.\<close>

definition measure_mode ::
    "'w http \<Rightarrow> printing \<Rightarrow> string \<Rightarrow> reservation_settings \<Rightarrow> SyntheticRequest list \<Rightarrow> SyntheticRequest list \<Rightarrow> ReservationMode \<Rightarrow>
     ('w, BurstResult) program" where
  "measure_mode http pt run c calibrationTraffic burstTraffic mode =
     throwing (put (Stdout (''  '' @ padEnd 11 (mode_name mode) @ '' calibrating ... ''))) (\<lambda>_.
     throwing (on_world (prepare_mode http (stringify pt) (number_text pt) run (TOKENS_PER_MINUTE c) mode calibrationTraffic)) (\<lambda>_.
     throwing (put (Stdout ''burst ... '')) (\<lambda>_.
     throwing (on_world (burst http (bench_tenant run mode) (mode_name mode) burstTraffic)) (\<lambda>r.
     throwing (console_log ''done'') (\<lambda>_. js_return r)))))"

definition reservation_main :: "'w http \<Rightarrow> js_math \<Rightarrow> printing \<Rightarrow> nat \<Rightarrow> reservation_settings \<Rightarrow> ('w, unit) program" where
  "reservation_main http M pt now c =
     (let run = RUN now;
          (calibrationTraffic, g) = run_state (take_requests M (WORKLOAD c) (nat (CALIBRATION c))) (seeded (wl_seed (WORKLOAD c)));
          (burstTraffic, _) = run_state (take_requests M (WORKLOAD c) (nat (BURST c))) g
      in throwing (console_lines (reservation_intro pt c burstTraffic)) (\<lambda>_.
         throwing (measure_mode http pt run c calibrationTraffic burstTraffic worst_case) (\<lambda>worst.
         throwing (measure_mode http pt run c calibrationTraffic burstTraffic adaptive) (\<lambda>adapted.
         console_lines (reservation_report c worst adapted)))))"

section \<open>The admission benchmark\<close>

text \<open>\<open>clock\<close> is \<^verbatim>\<open>Date.now\<close>, \<open>hrtime\<close> the nanoseconds of \<^verbatim>\<open>process.hrtime.bigint\<close>, \<open>sleep\<close> the timer of \<^verbatim>\<open>sleepUntil\<close>.\<close>

record 'w machine =
  service :: "'w http"
  clock :: "('w, rat) state"
  hrtime :: "('w, int) state"
  sleep :: "rat \<Rightarrow> ('w, unit) state"

definition elapsed_ms :: "int \<Rightarrow> int \<Rightarrow> rat" where
  "elapsed_ms t0 t1 = fdiv (dbl (of_int (t1 - t0))) 1000000"

text \<open>One request: reserved, and committed where it was admitted, each half timed; a half that throws counts an error.\<close>

definition one_request :: "'w machine \<Rightarrow> SyntheticRequest \<Rightarrow> ('w, run_event list) state" where
  "one_request mc w = do {
     t0 \<leftarrow> hrtime mc;
     res \<leftarrow> bench_reserve (service mc) BENCH_TENANT w;
     (case res of
        Inl e \<Rightarrow> State_Monad.return [Reserve_ended (Inl e) 0]
      | Inr reply \<Rightarrow> do {
          t1 \<leftarrow> hrtime mc;
          let reserved = Reserve_ended (Inr reply) (elapsed_ms t0 t1);
          (if rp_status reply \<noteq> 200 \<or> \<not> admits reply then State_Monad.return [reserved]
           else do {
             t2 \<leftarrow> hrtime mc;
             settled \<leftarrow> bench_commit (service mc) BENCH_TENANT (body_text reply ''reservationId'') w;
             (case settled of
                Inl e \<Rightarrow> State_Monad.return [reserved, Commit_ended (Inl e) 0]
              | Inr r \<Rightarrow> do { t3 \<leftarrow> hrtime mc; State_Monad.return [reserved, Commit_ended (Inr r) (elapsed_ms t2 t3)] })
           })
        })
   }"

text \<open>
  The loop that offers load, with fuel for as many passes: \<open>None\<close> where they do not reach the deadline. It
  answers with the number of requests and their events.
\<close>

definition one_pass :: "'w machine \<Rightarrow> js_math \<Rightarrow> rat \<Rightarrow> rat \<Rightarrow> nat \<Rightarrow> 32 word \<Rightarrow> ('w, run_event list \<times> 32 word) state" where
  "one_pass mc M targetRps start i g = do {
     now \<leftarrow> clock mc;
     _ \<leftarrow> (case sleepUntil (due start targetRps i) now of Some d \<Rightarrow> sleep mc d | None \<Rightarrow> State_Monad.return ());
     let (w, g) = run_state (next_request M CHAT_WORKLOAD) g;
     evs \<leftarrow> one_request mc w;
     State_Monad.return (evs, g)
   }"

fun arrivals :: "nat \<Rightarrow> 'w machine \<Rightarrow> js_math \<Rightarrow> rat \<Rightarrow> rat \<Rightarrow> rat \<Rightarrow> nat \<Rightarrow> 32 word \<Rightarrow> ('w, (nat \<times> run_event list) option) state" where
  "arrivals 0 mc M targetRps start deadline i g = State_Monad.return None"
| "arrivals (Suc fuel) mc M targetRps start deadline i g = do {
     now \<leftarrow> clock mc;
     (if now < deadline then do {
        (evs, g) \<leftarrow> one_pass mc M targetRps start i g;
        rest \<leftarrow> arrivals fuel mc M targetRps start deadline (Suc i) g;
        State_Monad.return (map_option (\<lambda>(n, more_evs). (n, evs @ more_evs)) rest)
      } else State_Monad.return (Some (i, [])))
   }"

definition runAtRate :: "nat \<Rightarrow> 'w machine \<Rightarrow> js_math \<Rightarrow> rat \<Rightarrow> rat \<Rightarrow> ('w, RunResult option) state" where
  "runAtRate fuel mc M targetRps durationS = do {
     start \<leftarrow> clock mc;
     ended \<leftarrow> arrivals fuel mc M targetRps start (fadd start (fmul durationS 1000)) 0 (seeded (wl_seed CHAT_WORKLOAD));
     (case ended of
        None \<Rightarrow> State_Monad.return None
      | Some (n, evs) \<Rightarrow> do {
          now \<leftarrow> clock mc;
          State_Monad.return (Some (run_result targetRps n (fsub now start) evs))
        })
   }"

record admission_settings =
  BASE :: string
  DURATION_S :: rat
  offered :: "rat list"

definition admission_flags :: "string list \<Rightarrow> admission_settings option" where
  "admission_flags args = do {
     durationS \<leftarrow> to_number (flag args ''duration'' ''12'');
     rates \<leftarrow> those (RATES args);
     if list_all (\<lambda>x. 0 < x) rates
     then Some \<lparr>BASE = flag args ''url'' ''http://127.0.0.1:3055'', DURATION_S = durationS, offered = rates\<rparr>
     else None
   }"

text \<open>The sweep over the rates: a run that does not end leaves the program without an answer.\<close>

definition shed_warning :: "RunResult \<Rightarrow> string" where
  "shed_warning r = ''    warning: '' @ string_of_nat (rt_shed (rr_tally r)) @ '' requests were shed. This run is measuring the '' @
     ''reject path, not the admit path -- check the benchmark policy.'' @ [CHR 0x0A]"

fun sweep :: "nat \<Rightarrow> 'w machine \<Rightarrow> js_math \<Rightarrow> printing \<Rightarrow> rat \<Rightarrow> rat list \<Rightarrow> ('w \<times> printed list, RunResult list option) state" where
  "sweep fuel mc M pt durationS [] = State_Monad.return (Some [])"
| "sweep fuel mc M pt durationS (rate # rates) = do {
     _ \<leftarrow> put (Stdout (''  '' @ padStart 5 (number_text pt (Some rate)) @ '' req/s ... ''));
     result \<leftarrow> on_world (runAtRate fuel mc M rate durationS);
     (case result of
        None \<Rightarrow> State_Monad.return None
      | Some r \<Rightarrow> do {
          _ \<leftarrow> console_log (''done  ('' @ string_of_nat (rt_admitted (rr_tally r)) @ '' admitted, '' @ string_of_nat (rt_shed (rr_tally r)) @ '' shed)'');
          _ \<leftarrow> (if sheds_too_much r then put (Stderr (shed_warning r)) else js_return ());
          rest \<leftarrow> sweep fuel mc M pt durationS rates;
          State_Monad.return (map_option (Cons r) rest)
        })
   }"

record host_facts =
  node_version :: string
  platform :: string
  cpus :: nat
  loadavg :: "rat list"

definition admission_report :: "printing \<Rightarrow> host_facts \<Rightarrow> RunResult list \<Rightarrow> string list" where
  "admission_report pt host results =
     [CHR 0x0A # ''reserve latency (ms) -- the phase that sits between a user and their first token'' @ [CHR 0x0A],
      table (map (reserve_row (\<lambda>x. number_text pt (Some x))) results),
      CHR 0x0A # ''commit latency (ms) -- off the critical path, after generation finishes'' @ [CHR 0x0A],
      table (map (commit_row (\<lambda>x. number_text pt (Some x))) results),
      CHR 0x0A # ''node '' @ node_version host @ ''  platform '' @ platform host @ ''  cpus '' @ string_of_nat (cpus host) @
        CHR 0x0A # ''load average '' @ join '' '' (map (toFixed 2) (loadavg host)) @
        ''  (a 1-minute figure near or above the core count means this run was contended)'',
      ''single host, loopback: no network between client, gateway and Redis.'' @ [CHR 0x0A]]"

definition admission_main ::
    "nat \<Rightarrow> 'w machine \<Rightarrow> js_math \<Rightarrow> printing \<Rightarrow> host_facts \<Rightarrow> admission_settings \<Rightarrow> ('w \<times> printed list, (js_error + unit) option) state" where
  "admission_main fuel mc M pt host c = do {
     applied \<leftarrow> on_world (apply_spec (service mc) (stringify pt));
     (case applied of
        Inl e \<Rightarrow> State_Monad.return (Some (Inl e))
      | Inr _ \<Rightarrow> do {
          _ \<leftarrow> console_log (CHR 0x0A # ''Benchmark A -- admission decision cost'');
          _ \<leftarrow> console_log (''target '' @ BASE c @ ''   '' @ number_text pt (Some (DURATION_S c)) @ ''s per rate   open loop'' @ [CHR 0x0A]);
          _ \<leftarrow> put (Stdout ''  warming up ... '');
          warmed \<leftarrow> on_world (runAtRate fuel mc M 200 3);
          (case warmed of
             None \<Rightarrow> State_Monad.return None
           | Some _ \<Rightarrow> do {
               _ \<leftarrow> console_log (''done'' @ [CHR 0x0A]);
               results \<leftarrow> sweep fuel mc M pt (DURATION_S c) (offered c);
               (case results of
                  None \<Rightarrow> State_Monad.return None
                | Some rs \<Rightarrow> do { printed \<leftarrow> console_lines (admission_report pt host rs); State_Monad.return (Some printed) })
             })
        })
   }"

section \<open>A run ends and accounts for its requests\<close>

lemma one_request_ends:
  assumes "run_state (one_request mc w) s = (evs, s')"
  shows "length (filter is_reserve evs) = 1 \<and> length (filter (\<lambda>e. \<not> is_reserve e) evs) = length (filter admitted_event evs)"
  using assms unfolding one_request_def Let_def
  by (auto simp: State_Monad.return_def split: prod.splits sum.splits if_splits)

lemma one_pass_ends:
  assumes "run_state (one_pass mc M rate start i g) s = ((evs, g'), s')"
  shows "length (filter is_reserve evs) = 1 \<and> length (filter (\<lambda>e. \<not> is_reserve e) evs) = length (filter admitted_event evs)"
  using assms unfolding one_pass_def by (auto simp: Let_def split: prod.splits dest!: one_request_ends)

lemma arrivals_account:
  assumes "run_state (arrivals fuel mc M rate start deadline i g) s = (Some (n, evs), s')"
  shows "n = i + length (filter is_reserve evs)
    \<and> length (filter (\<lambda>e. \<not> is_reserve e) evs) = length (filter admitted_event evs)"
  using assms
proof (induction fuel arbitrary: i g s n evs)
  case (Suc fuel)
  obtain now s1 where now: "run_state (clock mc) s = (now, s1)" by fastforce
  show ?case
  proof (cases "now < deadline")
    case True
    obtain evs1 g' s2 where pass: "run_state (one_pass mc M rate start i g) s1 = ((evs1, g'), s2)" by (metis surj_pair)
    obtain r s3 where rest: "run_state (arrivals fuel mc M rate start deadline (Suc i) g') s2 = (r, s3)" by fastforce
    from Suc.prems obtain evs2 where "r = Some (n, evs2)" "evs = evs1 @ evs2" "s3 = s'" by (auto simp: now True pass rest)
    then show ?thesis using Suc.IH[of "Suc i" g' s2 n evs2] rest one_pass_ends[OF pass] by simp
  qed (use Suc.prems in \<open>auto simp: now\<close>)
qed simp

text \<open>
  \<open>timely time d mc\<close>: the clock tells the time of the world, which never goes back, and a call of the service
  takes at least \<open>d\<close> milliseconds.
\<close>

definition timely :: "('w \<Rightarrow> rat) \<Rightarrow> rat \<Rightarrow> 'w machine \<Rightarrow> bool" where
  "timely time d mc \<longleftrightarrow> 0 < d
     \<and> (\<forall>s. fst (run_state (clock mc) s) = time s \<and> time s \<le> time (snd (run_state (clock mc) s)))
     \<and> (\<forall>s. time s \<le> time (snd (run_state (hrtime mc) s)))
     \<and> (\<forall>ms s. time s \<le> time (snd (run_state (sleep mc ms) s)))
     \<and> (\<forall>m path b s. time s + d \<le> time (snd (run_state (service mc m path b) s)))"

lemma timely_parts:
  assumes "timely time d mc"
  shows "0 < d" "fst (run_state (clock mc) s) = time s"
    "run_state (clock mc) s = (now, s') \<Longrightarrow> now = time s \<and> time s \<le> time s'"
    "run_state (hrtime mc) s = (t, s') \<Longrightarrow> time s \<le> time s'"
    "run_state (sleep mc ms) s = (u, s') \<Longrightarrow> time s \<le> time s'"
    "run_state (service mc m path b) s = (r, s') \<Longrightarrow> time s + d \<le> time s'"
  using assms unfolding timely_def by (metis fst_conv snd_conv)+

lemma one_request_takes_time:
  assumes mc: "timely time d mc" and run: "run_state (one_request mc w) s = (evs, s')"
  shows "time s + d \<le> time s'"
proof -
  obtain t0 s0 where t0: "run_state (hrtime mc) s = (t0, s0)" by fastforce
  obtain res s1 where res: "run_state (bench_reserve (service mc) BENCH_TENANT w) s0 = (res, s1)" by fastforce
  note first = timely_parts(4)[OF mc t0] timely_parts(6)[OF mc res[unfolded bench_reserve_def]]
  have later: "time s1 \<le> time s'"
    using run timely_parts(1)[OF mc]
    by (auto simp: one_request_def t0 res Let_def bench_commit_def dest!: timely_parts(4)[OF mc] timely_parts(6)[OF mc]
        split: sum.splits prod.splits if_splits)
  show ?thesis using first later by linarith
qed

lemma one_pass_takes_time:
  assumes mc: "timely time d mc" and run: "run_state (one_pass mc M rate start i g) s = (r, s')"
  shows "time s + d \<le> time s'"
proof -
  obtain now s0 where now: "run_state (clock mc) s = (now, s0)" by fastforce
  let ?sleep = "case sleepUntil (due start rate i) now of Some ms \<Rightarrow> sleep mc ms | None \<Rightarrow> State_Monad.return ()"
  obtain u s1 where slept: "run_state ?sleep s0 = (u, s1)" by (metis surj_pair)
  obtain w g' where w: "run_state (next_request M CHAT_WORKLOAD) g = (w, g')" by fastforce
  obtain evs s2 where req: "run_state (one_request mc w) s1 = (evs, s2)" by fastforce
  have "time s0 \<le> time s1" using slept timely_parts(5)[OF mc] by (auto split: option.splits)
  moreover have "s2 = s'" using run by (simp add: one_pass_def now slept w req)
  ultimately show ?thesis using timely_parts(3)[OF mc now] one_request_takes_time[OF mc req] by simp
qed

lemma arrivals_end:
  assumes mc: "timely time d mc" and fuel: "deadline - time s < of_nat fuel * d"
  shows "\<exists>n evs s'. run_state (arrivals (Suc fuel) mc M rate start deadline i g) s = (Some (n, evs), s')"
  using fuel
proof (induction fuel arbitrary: i g s)
  case 0
  obtain now s0 where now: "run_state (clock mc) s = (now, s0)" by fastforce
  then show ?case using 0 timely_parts(3)[OF mc now] by simp
next
  case (Suc fuel)
  obtain now s0 where now: "run_state (clock mc) s = (now, s0)" by fastforce
  obtain evs1 g' s1 where pass: "run_state (one_pass mc M rate start i g) s0 = ((evs1, g'), s1)" by (metis surj_pair)
  have "deadline - time s1 < of_nat fuel * d"
    using Suc.prems timely_parts(3)[OF mc now] one_pass_takes_time[OF mc pass] by (simp add: algebra_simps)
  from Suc.IH[OF this, of "Suc i" g'] obtain n evs s2
    where rest: "run_state (arrivals (Suc fuel) mc M rate start deadline (Suc i) g') s1 = (Some (n, evs), s2)" by blast
  show ?case
    by (subst arrivals.simps) (cases "now < deadline"; simp add: now pass rest del: arrivals.simps)
qed

text \<open>
  A run at a rate ends, where a call of the service takes time, and every request it issued is in exactly one
  of its counts: shed, failed, or committed.
\<close>

theorem runs_end_and_account:
  assumes mc: "timely time d mc"
    and fuel: "fadd (time s) (fmul durationS 1000) - time s < of_nat fuel * d"
  shows "\<exists>result. fst (run_state (runAtRate (Suc fuel) mc M rate durationS) s) = Some result
    \<and> rr_completed result = rt_shed (rr_tally result) + rt_errors (rr_tally result) + ls_count (rr_commit result)
    \<and> ls_count (rr_reserve result) = rt_admitted (rr_tally result) + rt_shed (rr_tally result)
    \<and> rt_admitted (rr_tally result) + rt_shed (rr_tally result) \<le> rr_completed result"
proof -
  obtain start s0 where start: "run_state (clock mc) s = (start, s0)" by fastforce
  note began = timely_parts(3)[OF mc start]
  let ?deadline = "fadd start (fmul durationS 1000)"
  have "?deadline - time s0 < of_nat fuel * d" using fuel began by simp
  then obtain n evs s1 where ended: "run_state (arrivals (Suc fuel) mc M rate start ?deadline 0 (seeded (wl_seed CHAT_WORKLOAD))) s0 = (Some (n, evs), s1)"
    using arrivals_end[OF mc] by blast
  obtain now s2 where now: "run_state (clock mc) s1 = (now, s2)" by fastforce
  let ?result = "run_result rate n (fsub now start) evs"
  note account = arrivals_account[OF ended]
  have "fst (run_state (runAtRate (Suc fuel) mc M rate durationS) s) = Some ?result"
    by (simp add: runAtRate_def start ended now del: arrivals.simps)
  moreover have "?result = run_result rate (length (filter is_reserve evs)) (fsub now start) evs" using account by simp
  ultimately show ?thesis using every_request_ends_once account by blast
qed

text \<open>A service that admits nothing and takes two milliseconds each time.\<close>

definition slow_machine :: "rat machine" where
  "slow_machine = \<lparr>service = (\<lambda>m path b. State (\<lambda>t. (Inr \<lparr>rp_status = 429, rp_body = []\<rparr>, t + 2))),
     clock = State (\<lambda>t. (t, t)), hrtime = State (\<lambda>t. (\<lfloor>1000000 * t\<rfloor>, t)), sleep = (\<lambda>ms. State (\<lambda>t. ((), t + max 0 ms)))\<rparr>"

lemma slow_machine_timely: "timely id 2 slow_machine"
  by (simp add: timely_def slow_machine_def)

theorem runs_end_and_account_witness:
  "\<exists>result. fst (run_state (runAtRate 1501 slow_machine
       \<lparr>Math_log = id, Math_sqrt = id, Math_cos = id, Math_exp = id\<rparr> 200 2) 0) = Some result
    \<and> rr_completed result = rt_shed (rr_tally result) + rt_errors (rr_tally result) + ls_count (rr_commit result)"
proof -
  have "fadd (id 0) (fmul 2 1000) - id 0 < of_nat 1500 * (2 :: rat)" by code_simp
  from runs_end_and_account[OF slow_machine_timely this] show ?thesis by auto
qed

end
