(* ===== verification/Spec2Isabelle.thy ===== *)
theory Spec2Isabelle
  imports Lifecycle Server Isolation Rule_Store Schema Bench_Programs
begin

text \<open>
  A verification of the rate limiter and LLM admission service: what each part of \<^verbatim>\<open>src/\<close> does, as
  functions of HOL that follow the code, and what the parts guarantee together.

  \<^bold>\<open>The program.\<close> A service with two data planes. The rate limiter answers whether a request under a key
  is allowed: \<^verbatim>\<open>RateLimiterService\<close> finds the governing limit, from the request, from the highest
  rule that matches (\<^verbatim>\<open>RuleEngineService\<close> over \<^verbatim>\<open>RuleRepository\<close>) or from the defaults, and one of three
  algorithms decides by a Lua script in Redis. LLM admission reserves tokens, requests and a slot of a
  tenant and model before an inference and settles them after it: \<^verbatim>\<open>LlmAdmissionService\<close> runs three Lua
  scripts, with the limits \<^verbatim>\<open>PolicyResolver\<close> finds in a table of policies. A control plane changes rules
  and policies. Both data planes answer by a configured mode while Redis is away.

  \<^bold>\<open>How it is modelled.\<close> State is passed explicitly: a computation is a \<open>state\<close> of
  \<^verbatim>\<open>State_Monad\<close>, an error a value of \<open>js_error\<close>, so that a promise is a state computation of
  \<open>js_error + 'a\<close>. The metrics that a call counts are a list of events beside its result. Redis, the
  database, the drivers, the regular-expression engine, Joi's schemas and SHA-1 are parameters: a script
  calls a function \<open>call\<close> on commands, and what the proofs need of it is the contract of a locale
  that documented servers are shown to meet. Numbers of JavaScript and Lua are rationals rounded by
  \<open>dbl\<close> to the nearest double after each operation, and by \<open>tostring\<close> to fourteen digits where Lua
  prints them; times are integers in milliseconds.

  \<^bold>\<open>The theories.\<close>
  \<^item> Shared: \<^verbatim>\<open>Prelude\<close> (text, lists), \<^verbatim>\<open>Floats\<close> (rounded arithmetic and token refill), \<^verbatim>\<open>Text_Numbers\<close>
    (\<^verbatim>\<open>parseInt\<close>, \<^verbatim>\<open>Number\<close>), \<^verbatim>\<open>Errors\<close> (\<^verbatim>\<open>utils/errors.ts\<close>), \<^verbatim>\<open>Rate_Types\<close> and \<^verbatim>\<open>Admission_Types\<close>
    (\<^verbatim>\<open>types/index.ts\<close>, \<^verbatim>\<open>llm/types.ts\<close>), \<^verbatim>\<open>Objects\<close> (JavaScript values), \<^verbatim>\<open>Database\<close> (rows and numbered
    statements), \<^verbatim>\<open>Metrics\<close> (\<^verbatim>\<open>services/metrics.service.ts\<close>: the registry and the updates), \<^verbatim>\<open>Metered\<close>
    (the potential argument of the budgets).
  \<^item> Redis: \<^verbatim>\<open>Redis\<close> (the commands, their contract \<open>redis_server\<close>, the reference keyspace with
    expiry), \<^verbatim>\<open>Script_Runner\<close> (\<^verbatim>\<open>algorithms/script-runner.ts\<close>, contract \<open>script_server\<close>).
  \<^item> Rate limiting: \<^verbatim>\<open>Token_Bucket\<close>, \<^verbatim>\<open>Sliding_Window\<close>, \<^verbatim>\<open>Fixed_Window\<close> (the scripts of
    \<^verbatim>\<open>scripts/lua-scripts.ts\<close> and the classes), \<^verbatim>\<open>Algorithms\<close> (the registry and the contract the service
    relies on), \<^verbatim>\<open>Pattern\<close> (\<^verbatim>\<open>utils/pattern.ts\<close>), \<^verbatim>\<open>Rule_Repository\<close>, \<^verbatim>\<open>Rule_Engine\<close>, \<^verbatim>\<open>Rate_Limiter\<close>.
  \<^item> Admission: \<^verbatim>\<open>Admission_Scripts\<close> (\<^verbatim>\<open>llm/admission-scripts.ts\<close>), \<^verbatim>\<open>Admission_Ledger\<close> (their abstract
    specification, a ledger of balances, leases, holds and settlements), \<^verbatim>\<open>Admission_Protocol\<close> (runs
    of calls), \<^verbatim>\<open>Token_Conservation\<close>, \<^verbatim>\<open>Admission_Service\<close> (\<^verbatim>\<open>llm/admission.service.ts\<close>,
    \<^verbatim>\<open>llm/estimator.ts\<close>), \<^verbatim>\<open>Admission_Outcomes\<close>, \<^verbatim>\<open>Policy_Repository\<close>, \<^verbatim>\<open>Policy_Resolver\<close>.
  \<^item> HTTP: \<^verbatim>\<open>Middleware\<close> (\<^verbatim>\<open>middleware/\<close>), \<^verbatim>\<open>Rate_Limit_Routes\<close>, \<^verbatim>\<open>Rules_Routes\<close>,
    \<^verbatim>\<open>Admission_Routes\<close> (\<^verbatim>\<open>routes/\<close>), \<^verbatim>\<open>Application\<close> (\<^verbatim>\<open>app.ts\<close>: which route a request reaches).
  \<^item> The process: \<^verbatim>\<open>Connections\<close> (\<^verbatim>\<open>services/redis.service.ts\<close>, \<^verbatim>\<open>services/postgres.service.ts\<close>), \<^verbatim>\<open>Config\<close>
    (\<^verbatim>\<open>config/index.ts\<close>), \<^verbatim>\<open>Process\<close> (\<^verbatim>\<open>index.ts\<close>, health and metrics routes).
  \<^item> The data: \<^verbatim>\<open>Tables\<close> and \<^verbatim>\<open>Schema\<close> (\<^verbatim>\<open>database/schema.ts\<close>, \<^verbatim>\<open>scripts/migrate.ts\<close>: constraints and seeded
    rows, and the statements against the catalog), \<^verbatim>\<open>Rule_Statements\<close> (what the documented database does with the
    statements of \<^verbatim>\<open>Rule_Repository\<close>, contract \<open>sql_database\<close>), \<^verbatim>\<open>Rule_Store\<close> (the rules API as a table of rules),
    \<^verbatim>\<open>Request_Schemas\<close> (the Joi schemas of \<^verbatim>\<open>routes/\<close>, and that what they accept meets the constraints of the
    tables and the assumptions of the budgets).
  \<^item> The whole service: \<^verbatim>\<open>Request_Bodies\<close> (what handlers read of a parsed body), \<^verbatim>\<open>Logger\<close> (\<^verbatim>\<open>utils/logger.ts\<close> and
    what the middleware logs), \<^verbatim>\<open>Server\<close> (\<^verbatim>\<open>app.ts\<close>: a request from end to end over the state of all parts),
    \<^verbatim>\<open>Lifecycle\<close> (\<^verbatim>\<open>index.ts\<close>: signals, the callbacks of the shutdown, the backstop), \<^verbatim>\<open>Isolation\<close> (who shares
    keys of Redis with whom, and which keys a cluster keeps together).
  \<^item> Beside the service: \<^verbatim>\<open>Metric_Series\<close> (what all routes record, against the registry), \<^verbatim>\<open>Bench_Stats\<close>
    (\<^verbatim>\<open>bench/lib\<close>: quantiles, tables, the seeded traffic), \<^verbatim>\<open>Benchmarks\<close> (\<^verbatim>\<open>bench/bench-admission.ts\<close>,
    \<^verbatim>\<open>bench/bench-reservation.ts\<close>: policies, calls, counts), \<^verbatim>\<open>Bench_Programs\<close> (their client, loops, output).

  \<^bold>\<open>What is shown.\<close> Each script is related to a function on the values it keeps, so that runs of any
  length, with keys expiring between the calls, are inductions over plain data. On these rest: tokens are
  conserved, leases and holds match, a retried commit changes nothing, a budget is never exceeded, a refused
  client is told a time after which it is admitted. The service's calls refine the ledger over any
  server that keeps the contracts, whether or not it has the scripts. Lookups of rules and policies refine
  the table: the best enabled match governs, at most a minute and thirty seconds old. Patterns match what
  their globs mean, through a cache that cannot be noticed. The routes answer with the status that tells
  the caller what to do, every update of a metric fits its series and the series of admission are bounded
  by the policies, the control plane opens to exactly its key, and a change that was answered is in
  force. Over the whole application each request is answered and counted once, and one that the gate does not
  pass changes no rule and no policy; the rules API refines a table of rules over any database that runs its
  statements; owners of keys do not notice each other; a shutdown ends within its backstop. Several theorems state what the code does where that is not what its documentation says:
  reconnecting ends, an error of the pool cuts the database off, an invalidation can be lost, in-flight
  work drifts, names with a bar share a budget, an id that is no UUID is answered as a failure of the service.

  \<^bold>\<open>Bounds and fuel.\<close> The loops of the service are structural, over a list or a bounded batch
  (\<open>RECLAIM_BATCH\<close>). Only the loop of the benchmark that offers load until a deadline runs on fuel, and
  \<open>runs_end_and_account\<close> tells how much is enough where a call of the service takes time. The properties of
  the budgets assume what the request schemas enforce, limits below \<open>2 ^ 31\<close> and times below \<open>2 ^ 53\<close>, under
  which the rounding of each operation is bounded; the bounds carry the rounding explicitly.

  \<^bold>\<open>Not modelled.\<close> What is not in the repository: the text that \<^verbatim>\<open>prom-client\<close> makes of the registry, the packages
  the application mounts (\<^verbatim>\<open>helmet\<close>, \<^verbatim>\<open>cors\<close>, \<^verbatim>\<open>compression\<close>, the body parser), the timestamps and colours of
  \<^verbatim>\<open>winston\<close>, and the drivers, which are parameters. Requests that Express answers itself (\<^verbatim>\<open>OPTIONS\<close>) and bodies
  whose values have other types than their schema says, where Joi converts them, are outside the model of
  the application; and the lines that only log the progress of the start and the shutdown are left out. The
  interfaces of \<^verbatim>\<open>types/index.ts\<close> that nothing uses are left out too.
\<close>

end
